(* ===== verification/Vrm_Prelude.thy ===== *)
theory Vrm_Prelude
  imports Main "HOL-Library.Char_ord" "HOL-Library.List_Lexorder"
begin

text \<open>
  Shared vocabulary of the development.
  \<^item> \<open>exn\<close>: the exception classes the program throws. A throwing operation returns
    \<open>exn + 'a\<close>; one that also changes state returns the state beside it, because a C++
    exception does not undo the writes made before it. Message texts are not modelled.
  \<^item> \<open>std::size_t\<close> arithmetic: values are naturals below \<open>M64\<close>, and \<open>add64\<close>, \<open>sub64\<close>,
    \<open>mul64\<close> wrap around as the unsigned 64-bit operators do; \<open>add128\<close> is the same for
    \<open>uint128_t\<close>.
  \<^item> byte buffers: \<open>slice\<close> is \<open>std::span::subspan\<close> and \<open>overwrite\<close> is a copy into a
    buffer at an offset.
\<close>

named_theorems arith64 "rewriting unsigned 64-bit arithmetic without wrap-around"
named_theorems buf_simps "slices and updates of byte buffers"

subsection \<open>Exceptions\<close>

datatype exn =
    Runtime_error
  | Invalid_argument
  | Out_of_range
  | Logic_error
  | Length_error
  | Command_exception nat string

type_synonym 'a res = "exn + 'a"

definition bindE :: "'a res \<Rightarrow> ('a \<Rightarrow> 'b res) \<Rightarrow> 'b res" where
  "bindE r f = (case r of Inl e \<Rightarrow> Inl e | Inr x \<Rightarrow> f x)"

lemma bindE_Inr [simp]: "bindE (Inr x) f = f x"
  by (simp add: bindE_def)

lemma bindE_Inl [simp]: "bindE (Inl e) f = Inl e"
  by (simp add: bindE_def)

lemma bindE_eq_Inr: "bindE r f = Inr y \<longleftrightarrow> (\<exists>x. r = Inr x \<and> f x = Inr y)"
  by (cases r) auto

subsection \<open>Unsigned arithmetic\<close>

type_synonym size_t = nat

definition M64 :: nat where "M64 = 2 ^ 64"
definition M128 :: nat where "M128 = 2 ^ 128"

definition add64 :: "size_t \<Rightarrow> size_t \<Rightarrow> size_t" where
  "add64 a b = (a + b) mod M64"

definition sub64 :: "size_t \<Rightarrow> size_t \<Rightarrow> size_t" where
  "sub64 a b = (a + M64 - b) mod M64"

definition mul64 :: "size_t \<Rightarrow> size_t \<Rightarrow> size_t" where
  "mul64 a b = (a * b) mod M64"

definition add128 :: "nat \<Rightarrow> nat \<Rightarrow> nat" where
  "add128 a b = (a + b) mod M128"

definition sub128 :: "nat \<Rightarrow> nat \<Rightarrow> nat" where
  "sub128 a b = (a + M128 - b) mod M128"

lemma M64_pos [simp]: "0 < M64"
  by (simp add: M64_def)

lemma M128_pos [simp]: "0 < M128"
  by (simp add: M128_def)

lemma M64_le_M128: "M64 \<le> M128"
  by (simp add: M64_def M128_def)

lemma add64_eq [arith64]: "a + b < M64 \<Longrightarrow> add64 a b = a + b"
  by (simp add: add64_def)

lemma mul64_eq [arith64]: "a * b < M64 \<Longrightarrow> mul64 a b = a * b"
  by (simp add: mul64_def)

lemma add128_eq [arith64]: "a + b < M128 \<Longrightarrow> add128 a b = a + b"
  by (simp add: add128_def)

lemma sub64_eq [arith64]: "b \<le> a \<Longrightarrow> a < M64 \<Longrightarrow> sub64 a b = a - b"
proof -
  assume "b \<le> a" "a < M64"
  then have "a + M64 - b = (a - b) + M64" and "a - b < M64" by linarith+
  then show ?thesis by (simp only: sub64_def mod_add_self2 mod_less)
qed

lemma sub128_eq [arith64]: "b \<le> a \<Longrightarrow> a < M128 \<Longrightarrow> sub128 a b = a - b"
proof -
  assume "b \<le> a" "a < M128"
  then have "a + M128 - b = (a - b) + M128" and "a - b < M128" by linarith+
  then show ?thesis by (simp only: sub128_def mod_add_self2 mod_less)
qed

lemma sub64_wrap: "a < b \<Longrightarrow> b < M64 \<Longrightarrow> sub64 a b = M64 - (b - a)"
  by (simp add: sub64_def)

lemma add64_less [simp]: "add64 a b < M64"
  by (simp add: add64_def)

lemma sub64_less [simp]: "sub64 a b < M64"
  by (simp add: sub64_def)

lemma sub64_self [simp]: "sub64 a a = 0"
  by (simp add: sub64_def)

subsection \<open>Byte buffers\<close>

type_synonym bytes = "char list"

definition slice :: "nat \<Rightarrow> nat \<Rightarrow> 'a list \<Rightarrow> 'a list" where
  "slice off n xs = take n (drop off xs)"

definition overwrite :: "nat \<Rightarrow> 'a list \<Rightarrow> 'a list \<Rightarrow> 'a list" where
  "overwrite off ys xs = take off xs @ ys @ drop (off + length ys) xs"

lemma length_slice [buf_simps]: "length (slice off n xs) = min n (length xs - off)"
  by (simp add: slice_def min.commute)

lemma slice_0 [simp]: "slice off 0 xs = []"
  by (simp add: slice_def)

lemma slice_all [simp]: "length xs \<le> n \<Longrightarrow> slice 0 n xs = xs"
  by (simp add: slice_def)

lemma slice_append [buf_simps]:
  "slice off (m + n) xs = slice off m xs @ slice (off + m) n xs"
  by (simp add: slice_def take_add add.commute)

lemma length_overwrite [buf_simps]:
  "off + length ys \<le> length xs \<Longrightarrow> length (overwrite off ys xs) = length xs"
  by (simp add: overwrite_def)

lemma overwrite_Nil [simp]: "overwrite off [] xs = xs"
  by (simp add: overwrite_def)

lemma nth_overwrite:
  assumes "off + length ys \<le> length xs" and "i < length xs"
  shows "overwrite off ys xs ! i =
    (if off \<le> i \<and> i < off + length ys then ys ! (i - off) else xs ! i)"
  using assms by (auto simp: overwrite_def nth_append)

lemma nth_slice: "i < n \<Longrightarrow> off + i < length xs \<Longrightarrow> slice off n xs ! i = xs ! (off + i)"
  by (simp add: slice_def)

lemma slice_eq_iff:
  assumes "off + n \<le> length xs" and "off + n \<le> length ys"
  shows "slice off n xs = slice off n ys \<longleftrightarrow> (\<forall>i. off \<le> i \<and> i < off + n \<longrightarrow> xs ! i = ys ! i)"
proof -
  have len: "length (slice off n xs) = n" "length (slice off n ys) = n"
    using assms by (simp_all add: length_slice)
  show ?thesis
  proof
    assume eq: "slice off n xs = slice off n ys"
    show "\<forall>i. off \<le> i \<and> i < off + n \<longrightarrow> xs ! i = ys ! i"
    proof (intro allI impI)
      fix i assume i: "off \<le> i \<and> i < off + n"
      then obtain k where "i = off + k" "k < n"
        by (metis add.commute add_less_cancel_right le_Suc_ex)
      then have "slice off n xs ! (i - off) = xs ! i" "slice off n ys ! (i - off) = ys ! i"
        using assms by (auto simp: nth_slice)
      with eq show "xs ! i = ys ! i" by simp
    qed
  next
    assume r: "\<forall>i. off \<le> i \<and> i < off + n \<longrightarrow> xs ! i = ys ! i"
    show "slice off n xs = slice off n ys"
    proof (rule nth_equalityI)
      show "length (slice off n xs) = length (slice off n ys)" using len by simp
    next
      fix i assume "i < length (slice off n xs)"
      with len have "i < n" by simp
      with r assms show "slice off n xs ! i = slice off n ys ! i" by (simp add: nth_slice)
    qed
  qed
qed

lemma slice_overwrite_same [buf_simps]:
  "off + length ys \<le> length xs \<Longrightarrow> slice off (length ys) (overwrite off ys xs) = ys"
  by (simp add: slice_def overwrite_def)

lemma slice_overwrite_disjoint:
  assumes "off + length ys \<le> length xs" and "o2 + n \<le> length xs"
    and "o2 + n \<le> off \<or> off + length ys \<le> o2"
  shows "slice o2 n (overwrite off ys xs) = slice o2 n xs"
  using assms by (subst slice_eq_iff) (auto simp: length_overwrite nth_overwrite)

subsection \<open>Buffers made of blocks of equal size\<close>

lemma length_concat_blocks: "\<forall>b\<in>set bs. length b = n \<Longrightarrow> length (concat bs) = length bs * n"
  by (induction bs) auto

lemma concat_block_split:
  assumes "\<forall>b\<in>set bs. length b = n" and "i < length bs"
  shows "concat bs = concat (take i bs) @ bs ! i @ concat (drop (Suc i) bs)"
    and "length (concat (take i bs)) = i * n" and "length (bs ! i) = n"
proof -
  have "bs = take i bs @ bs ! i # drop (Suc i) bs" using assms(2) by (rule id_take_nth_drop)
  then show "concat bs = concat (take i bs) @ bs ! i @ concat (drop (Suc i) bs)"
    by (metis concat.simps(2) concat_append)
  show "length (concat (take i bs)) = i * n"
    using assms length_concat_blocks [of "take i bs" n] by (auto dest: in_set_takeD)
  show "length (bs ! i) = n" using assms by simp
qed

lemma slice_concat_block:
  assumes "\<forall>b\<in>set bs. length b = n" and "i < length bs" and "off + k \<le> n"
  shows "slice (i * n + off) k (concat bs) = slice off k (bs ! i)"
  unfolding slice_def using concat_block_split [OF assms(1,2)] assms(3)
  by (subst concat_block_split(1) [OF assms(1,2)]) simp

lemma overwrite_concat_block:
  assumes "\<forall>b\<in>set bs. length b = n" and "i < length bs" and "off + length ys \<le> n"
  shows "concat (bs[i := overwrite off ys (bs ! i)]) = overwrite (i * n + off) ys (concat bs)"
proof -
  note c = concat_block_split [OF assms(1,2)]
  have "concat (bs[i := overwrite off ys (bs ! i)]) =
      concat (take i bs) @ overwrite off ys (bs ! i) @ concat (drop (Suc i) bs)"
    using assms(2) by (simp add: upd_conv_take_nth_drop)
  also have "\<dots> = overwrite (i * n + off) ys (concat bs)"
    using c(2,3) assms(3) by (subst c(1)) (simp add: overwrite_def)
  finally show ?thesis .
qed

subsection \<open>Decimal numbers\<close>

definition digit_char :: "nat \<Rightarrow> char" where
  "digit_char d = char_of (48 + d)"

fun nat_str :: "nat \<Rightarrow> string" where
  "nat_str n = (if n < 10 then [digit_char n] else nat_str (n div 10) @ [digit_char (n mod 10)])"

declare nat_str.simps [simp del]

fun dec_val :: "string \<Rightarrow> nat \<Rightarrow> nat" where
  "dec_val [] acc = acc"
| "dec_val (c # cs) acc = dec_val cs (10 * acc + (of_char c - 48))"

lemma dec_val_append: "dec_val (xs @ ys) acc = dec_val ys (dec_val xs acc)"
  by (induction xs acc rule: dec_val.induct) simp_all

lemma digit_char_val: "d < 10 \<Longrightarrow> of_char (digit_char d) = 48 + d"
  by (simp add: digit_char_def)

lemma digit_char_numerals [simp]:
  "digit_char 0 = CHR ''0''" "digit_char (Suc 0) = CHR ''1''" "digit_char 1 = CHR ''1''"
  "digit_char 2 = CHR ''2''" "digit_char 3 = CHR ''3''" "digit_char 4 = CHR ''4''"
  "digit_char 5 = CHR ''5''" "digit_char 6 = CHR ''6''" "digit_char 7 = CHR ''7''"
  "digit_char 8 = CHR ''8''" "digit_char 9 = CHR ''9''"
  by (simp_all add: digit_char_def char_of_eq_iff)

lemma dec_val_nat_str [simp]: "dec_val (nat_str n) 0 = n"
  by (induction n rule: nat_str.induct) (subst nat_str.simps, auto simp: dec_val_append digit_char_val)

lemma nat_str_inj: "nat_str m = nat_str n \<Longrightarrow> m = n"
  by (metis dec_val_nat_str)

subsection \<open>Searching lists\<close>

lemma find_append: "find P (xs @ ys) = (case find P xs of None \<Rightarrow> find P ys | Some x \<Rightarrow> Some x)"
  by (induction xs) auto

lemma find_SomeD: "find P xs = Some x \<Longrightarrow> x \<in> set xs \<and> P x"
  by (induction xs) (auto split: if_splits)

lemma option_eqI: "(\<And>x. a = Some x \<longleftrightarrow> b = Some x) \<Longrightarrow> a = b"
  by (cases a; cases b) auto

end
