(* ===== verification/Vrm_DataFile.thy ===== *)
theory Vrm_DataFile
  imports Vrm_Prelude
begin

text \<open>
  Positioned file access (\<open>src/common/utils/io.cpp\<close>) and data files
  (\<open>src/storage/data_file.cpp\<close>). A file is its content; the operating system is the record
  \<open>os\<close>: how many bytes a \<open>pread\<close> or \<open>pwrite\<close> at an offset transfers at most (\<open>None\<close> is
  the error return -1), and whether \<open>fallocate\<close>, \<open>fsync\<close> and the creation of a file succeed.
  The retry loops are partial functions: \<open>None\<close> means that the loop does not return. A data
  file carries the content of its \<open>.data\<close> and \<open>.meta\<close> files beside the members of the class;
  the metadata structure is stored in the byte order of the target (little endian).
\<close>

record os =
  os_pread :: "nat \<Rightarrow> nat \<Rightarrow> nat option"
  os_pwrite :: "nat \<Rightarrow> nat \<Rightarrow> nat option"
  os_fallocate :: "nat \<Rightarrow> nat \<Rightarrow> bool"
  os_fsync :: bool
  os_create :: bool

definition os_ok :: "os \<Rightarrow> bool" where
  "os_ok s \<longleftrightarrow> (\<forall>off n. 0 < n \<longrightarrow> (\<exists>k. os_pread s off n = Some k \<and> 0 < k))
    \<and> (\<forall>off n. 0 < n \<longrightarrow> (\<exists>k. os_pwrite s off n = Some k \<and> 0 < k))
    \<and> (\<forall>off n. 0 < n \<longrightarrow> os_fallocate s off n) \<and> os_fsync s \<and> os_create s"

definition zero_bytes :: "nat \<Rightarrow> bytes" where
  "zero_bytes n = replicate n (char_of (0::nat))"

text \<open>The effect of the system calls on the content of a file.\<close>

definition pread :: "os \<Rightarrow> bytes \<Rightarrow> nat \<Rightarrow> nat \<Rightarrow> bytes option" where
  "pread s d n off = map_option (\<lambda>k. slice off (min k n) d) (os_pread s off n)"

definition file_pwrite :: "bytes \<Rightarrow> nat \<Rightarrow> bytes \<Rightarrow> bytes" where
  "file_pwrite d off bs = overwrite off bs (d @ zero_bytes (off - length d))"

definition ftruncate :: "bytes \<Rightarrow> nat \<Rightarrow> bytes" where
  "ftruncate d n = take n d @ zero_bytes (n - length d)"

subsection \<open>Retry loops\<close>

partial_function (option) safe_pread_loop :: "os \<Rightarrow> bytes \<Rightarrow> size_t \<Rightarrow> size_t \<Rightarrow> bytes \<Rightarrow> bytes res option" where
  "safe_pread_loop s d n off acc =
     (if length acc < n then
        (case pread s d (n - length acc) (add64 off (length acc)) of
           None \<Rightarrow> Some (Inl Runtime_error)
         | Some bs \<Rightarrow> safe_pread_loop s d n off (acc @ bs))
      else Some (Inr acc))"

definition safe_pread :: "os \<Rightarrow> bytes \<Rightarrow> size_t \<Rightarrow> size_t \<Rightarrow> bytes res option" where
  "safe_pread s d n off = safe_pread_loop s d n off []"

partial_function (option) safe_pwrite_loop ::
  "os \<Rightarrow> bytes \<Rightarrow> size_t \<Rightarrow> size_t \<Rightarrow> bytes \<Rightarrow> (bytes \<times> size_t res) option" where
  "safe_pwrite_loop s buffer off written d =
     (if written < length buffer then
        (case os_pwrite s (add64 off written) (length buffer - written) of
           None \<Rightarrow> Some (d, Inl Runtime_error)
         | Some k \<Rightarrow> safe_pwrite_loop s buffer off (written + min k (length buffer - written))
             (file_pwrite d (add64 off written) (slice written k buffer)))
      else Some (d, Inr written))"

definition safe_pwrite :: "os \<Rightarrow> bytes \<Rightarrow> bytes \<Rightarrow> size_t \<Rightarrow> (bytes \<times> size_t res) option" where
  "safe_pwrite s d buffer off = safe_pwrite_loop s buffer off 0 d"

subsection \<open>Data files\<close>

record data_file =
  m_path :: string
  df_data :: bytes
  df_meta :: bytes
  m_used :: size_t
  m_filesize :: size_t

definition le64 :: "nat \<Rightarrow> bytes" where
  "le64 n = map (\<lambda>i. char_of (n div 256 ^ i)) [0..<8]"

primrec le_val :: "bytes \<Rightarrow> nat" where
  "le_val [] = 0"
| "le_val (b # bs) = of_char b + 256 * le_val bs"

definition metadata_bytes :: "size_t \<Rightarrow> size_t \<Rightarrow> bytes" where
  "metadata_bytes a b = le64 a @ le64 b"

definition data_file_write :: "os \<Rightarrow> data_file \<Rightarrow> size_t \<Rightarrow> bytes \<Rightarrow> (data_file \<times> size_t res) option" where
  "data_file_write s f offset buffer =
     (let n = min (sub64 (m_filesize f) offset) (length buffer);
          f' = f\<lparr>m_used := add64 (m_used f) n\<rparr>
      in map_option (\<lambda>(d, r). (f'\<lparr>df_data := d\<rparr>, r)) (safe_pwrite s (df_data f) (slice 0 n buffer) offset))"

definition data_file_read :: "os \<Rightarrow> data_file \<Rightarrow> size_t \<Rightarrow> size_t \<Rightarrow> bytes res option" where
  "data_file_read s f offset n = safe_pread s (df_data f) (min (sub64 (m_filesize f) offset) n) offset"

definition data_file_release :: "os \<Rightarrow> data_file \<Rightarrow> size_t \<Rightarrow> size_t \<Rightarrow> data_file \<times> size_t res" where
  "data_file_release s f offset n =
     (let count = min (sub64 (m_filesize f) offset) n
      in if count = 0 \<or> \<not> os_fallocate s offset count then (f, Inl Runtime_error)
         else (f\<lparr>df_data := overwrite offset (zero_bytes (min count (length (df_data f) - offset))) (df_data f),
                 m_used := sub64 (m_used f) count\<rparr>, Inr count))"

definition write_metadata :: "os \<Rightarrow> data_file \<Rightarrow> (data_file \<times> size_t res) option" where
  "write_metadata s f =
     map_option (\<lambda>(m, r). (f\<lparr>df_meta := m\<rparr>, r))
       (safe_pwrite s (df_meta f) (metadata_bytes (m_used f) (m_filesize f)) 0)"

definition data_file_sync :: "os \<Rightarrow> data_file \<Rightarrow> (data_file \<times> unit res) option" where
  "data_file_sync s f =
     (case write_metadata s f of
        None \<Rightarrow> None
      | Some (f', Inl e) \<Rightarrow> Some (f', Inl e)
      | Some (f', Inr _) \<Rightarrow> Some (f', if os_fsync s then Inr () else Inl Runtime_error))"

definition read_metadata :: "os \<Rightarrow> data_file \<Rightarrow> (data_file \<times> unit res) option" where
  "read_metadata s f =
     (case safe_pread s (df_meta f) 16 0 of
        None \<Rightarrow> None
      | Some (Inl e) \<Rightarrow> Some (f, Inl e)
      | Some (Inr md) \<Rightarrow>
          Some (f\<lparr>m_used := le_val (take 8 md), m_filesize := le_val (drop 8 md)\<rparr>, Inr ()))"

text \<open>Opening and creating a data file in a directory, a map from file names to contents.\<close>

definition data_file_open :: "os \<Rightarrow> (string \<Rightarrow> bytes option) \<Rightarrow> string \<Rightarrow> data_file res option" where
  "data_file_open s dir root =
     (case (dir (root @ ''.data''), dir (root @ ''.meta'')) of
        (Some d, Some m) \<Rightarrow>
          (case read_metadata s \<lparr>m_path = root, df_data = d, df_meta = m, m_used = 0, m_filesize = 0\<rparr> of
             None \<Rightarrow> None
           | Some (f, Inl e) \<Rightarrow> Some (Inl e)
           | Some (f, Inr _) \<Rightarrow> Some (Inr f))
      | _ \<Rightarrow> Some (Inl Runtime_error))"

definition data_file_create ::
  "os \<Rightarrow> (string \<Rightarrow> bytes option) \<Rightarrow> string \<Rightarrow> size_t \<Rightarrow> ((string \<Rightarrow> bytes option) \<times> data_file res) option" where
  "data_file_create s dir root n =
     (if \<not> os_create s then Some (dir, Inl Runtime_error)
      else let d = (case dir (root @ ''.data'') of None \<Rightarrow> [] | Some d \<Rightarrow> d);
               dir' = dir(root @ ''.data'' \<mapsto> ftruncate d n, root @ ''.meta'' \<mapsto> metadata_bytes 0 n)
           in map_option (Pair dir') (data_file_open s dir' root))"

definition wf_data_file :: "data_file \<Rightarrow> bool" where
  "wf_data_file f \<longleftrightarrow> length (df_data f) = m_filesize f \<and> m_filesize f < M64 \<and> m_used f < M64
    \<and> length (df_meta f) = 16"

subsection \<open>The retry loops transfer everything\<close>

lemma length_zero_bytes [simp]: "length (zero_bytes n) = n"
  by (simp add: zero_bytes_def)

lemma file_pwrite_inside: "off + length bs \<le> length d \<Longrightarrow> file_pwrite d off bs = overwrite off bs d"
  by (simp add: file_pwrite_def zero_bytes_def)

lemma overwrite_overwrite_append:
  assumes "off + length a + length b \<le> length d"
  shows "overwrite (off + length a) b (overwrite off a d) = overwrite off (a @ b) d"
  using assms by (simp add: overwrite_def ac_simps)

lemma slice_snoc:
  "length acc = m \<Longrightarrow> acc = slice off m d \<Longrightarrow> acc @ slice (off + m) k d = slice off (m + k) d"
  by (simp add: slice_append)

lemma safe_pread_loop_ok:
  assumes "os_ok s" and "off + n \<le> length d" and "length d < M64"
  shows "length acc \<le> n \<Longrightarrow> acc = slice off (length acc) d \<Longrightarrow>
    safe_pread_loop s d n off acc = Some (Inr (slice off n d))"
proof (induction "n - length acc" arbitrary: acc rule: less_induct)
  case less
  show ?case
  proof (cases "length acc < n")
    case False
    then show ?thesis using less(2,3) by (subst safe_pread_loop.simps) simp
  next
    case True
    then obtain k where k: "os_pread s (off + length acc) (n - length acc) = Some k" "0 < k"
      using assms(1) unfolding os_ok_def by (metis zero_less_diff)
    let ?m = "min k (n - length acc)"
    have a: "add64 off (length acc) = off + length acc" using assms(2,3) True by (simp add: add64_eq)
    have len: "length (slice (off + length acc) ?m d) = ?m"
      using assms(2) by (simp add: length_slice)
    have sl: "acc @ slice (off + length acc) ?m d = slice off (length acc + ?m) d"
      using less(3) by (metis slice_snoc)
    have "safe_pread_loop s d n off (acc @ slice (off + length acc) ?m d) = Some (Inr (slice off n d))"
    proof (rule less(1))
      show "n - length (acc @ slice (off + length acc) ?m d) < n - length acc"
        using True k(2) len by simp
      show "length (acc @ slice (off + length acc) ?m d) \<le> n" using len True by simp
      show "acc @ slice (off + length acc) ?m d =
          slice off (length (acc @ slice (off + length acc) ?m d)) d"
        using len by (simp add: sl del: append_eq_conv_conj) (simp only: length_append len sl [symmetric])
    qed
    then show ?thesis
      using True k by (subst safe_pread_loop.simps) (simp add: a pread_def)
  qed
qed

lemma safe_pread_ok [buf_simps]:
  assumes "os_ok s" and "off + n \<le> length d" and "length d < M64"
  shows "safe_pread s d n off = Some (Inr (slice off n d))"
  unfolding safe_pread_def by (rule safe_pread_loop_ok) (use assms in simp_all)

lemma safe_pwrite_loop_ok:
  assumes "os_ok s" and "off + length buffer \<le> length d" and "length d < M64"
  shows "w \<le> length buffer \<Longrightarrow>
    safe_pwrite_loop s buffer off w (overwrite off (take w buffer) d) =
      Some (overwrite off buffer d, Inr (length buffer))"
proof (induction "length buffer - w" arbitrary: w rule: less_induct)
  case less
  show ?case
  proof (cases "w < length buffer")
    case False
    then show ?thesis using less(2) by (subst safe_pwrite_loop.simps) simp
  next
    case True
    then obtain k where k: "os_pwrite s (off + w) (length buffer - w) = Some k" "0 < k"
      using assms(1) unfolding os_ok_def by (metis zero_less_diff)
    have a: "add64 off w = off + w" using assms(2,3) True by (simp add: add64_eq)
    let ?m = "min k (length buffer - w)"
    have sl: "take w buffer @ slice w k buffer = take (w + ?m) buffer"
      using True by (auto simp: slice_def take_add min_def)
    have "file_pwrite (overwrite off (take w buffer) d) (off + w) (slice w k buffer) =
        overwrite off (take (w + ?m) buffer) d"
      using overwrite_overwrite_append [of off "take w buffer" "slice w k buffer" d] True assms(2)
      by (subst file_pwrite_inside) (auto simp: sl length_overwrite length_slice)
    moreover have "safe_pwrite_loop s buffer off (w + ?m) (overwrite off (take (w + ?m) buffer) d) =
        Some (overwrite off buffer d, Inr (length buffer))"
      by (rule less(1)) (use True k(2) in auto)
    ultimately show ?thesis
      using True k by (subst safe_pwrite_loop.simps) (simp add: a)
  qed
qed

lemma safe_pwrite_ok [buf_simps]:
  assumes "os_ok s" and "off + length buffer \<le> length d" and "length d < M64"
  shows "safe_pwrite s d buffer off = Some (overwrite off buffer d, Inr (length buffer))"
  unfolding safe_pwrite_def using safe_pwrite_loop_ok [OF assms, of 0] by simp

lemma safe_pread_loop_Some:
  "safe_pread_loop s d n off acc = Some r \<Longrightarrow> \<forall>off n. os_pread s off n \<noteq> None \<Longrightarrow>
   off + n < M64 \<Longrightarrow> length acc < n \<Longrightarrow> off + n \<le> length d"
proof (induction s d n off acc r rule: safe_pread_loop.raw_induct [rotated, consumes 1, case_names 1])
  case (1 f s d n off acc r)
  obtain k where k: "os_pread s (off + length acc) (n - length acc) = Some k" using 1(3) by blast
  have a: "add64 off (length acc) = off + length acc" using 1(4,5) by (simp add: add64_eq)
  let ?bs = "slice (off + length acc) (min k (n - length acc)) d"
  have f: "f s d n off (acc @ ?bs) = Some r"
    using 1(2,5) k by (simp add: a pread_def)
  have l: "length ?bs = min (min k (n - length acc)) (length d - (off + length acc))"
    by (simp add: length_slice)
  show ?case
  proof (cases "length (acc @ ?bs) < n")
    case True
    then show ?thesis using 1(1) [OF f 1(3,4)] by blast
  next
    case False
    then show ?thesis using l 1(5) by simp
  qed
qed

text \<open>
  C36: On a device that never fails and always transfers at least one byte, \<open>safe_pread\<close>
  returns if and only if the requested range lies inside the file: the loop has no exit for
  the zero that \<open>pread\<close> returns at the end of the file. When it returns, the buffer holds
  exactly the requested bytes, however the system splits the transfer.
\<close>

theorem safe_pread_returns_iff:
  assumes "os_ok s" and "\<forall>off n. os_pread s off n \<noteq> None" and "length d < M64" and "off + n < M64" and "0 < n"
  shows "(safe_pread s d n off \<noteq> None \<longleftrightarrow> off + n \<le> length d)
    \<and> (off + n \<le> length d \<longrightarrow> safe_pread s d n off = Some (Inr (slice off n d)))"
  using safe_pread_loop_Some [OF _ assms(2,4), of d "[]"] safe_pread_ok [OF assms(1) _ assms(3)] assms(5)
  by (auto simp: safe_pread_def)

text \<open>A device that transfers one byte per call.\<close>

definition slow_os :: os where
  "slow_os = \<lparr>os_pread = \<lambda>_ _. Some 1, os_pwrite = \<lambda>_ _. Some 1, os_fallocate = \<lambda>_ _. True,
     os_fsync = True, os_create = True\<rparr>"

lemma slow_os_ok [simp]: "os_ok slow_os"
  by (simp add: os_ok_def slow_os_def)

theorem safe_pread_returns_iff_witness:
  "safe_pread slow_os ''abcd'' 3 2 = None \<and> safe_pread slow_os ''abcd'' 2 2 = Some (Inr ''cd'')"
proof -
  have n: "\<forall>off n. os_pread slow_os off n \<noteq> None" by (simp add: slow_os_def)
  have m: "(5::nat) < M64" by (simp add: M64_def)
  show ?thesis
    using safe_pread_returns_iff [OF slow_os_ok n, of "''abcd''" 2 3]
      safe_pread_returns_iff [OF slow_os_ok n, of "''abcd''" 2 2] m
    by (simp add: slice_def M64_def)
qed

subsection \<open>Operations of a data file\<close>

lemma data_file_write_ok:
  assumes "os_ok s" and "wf_data_file f" and "offset \<le> m_filesize f"
    and n_def: "n = min (m_filesize f - offset) (length buffer)"
  shows "data_file_write s f offset buffer =
    Some (f\<lparr>m_used := add64 (m_used f) n, df_data := overwrite offset (take n buffer) (df_data f)\<rparr>, Inr n)"
proof -
  have "sub64 (m_filesize f) offset = m_filesize f - offset"
    using assms by (simp add: sub64_eq wf_data_file_def)
  moreover have "safe_pwrite s (df_data f) (take n buffer) offset =
      Some (overwrite offset (take n buffer) (df_data f), Inr n)"
    using assms by (subst safe_pwrite_ok) (auto simp: wf_data_file_def n_def)
  ultimately show ?thesis by (simp add: data_file_write_def Let_def slice_def n_def [symmetric])
qed

lemma data_file_read_ok:
  assumes "os_ok s" and "wf_data_file f" and "offset \<le> m_filesize f"
  shows "data_file_read s f offset n = Some (Inr (slice offset (min (m_filesize f - offset) n) (df_data f)))"
  using assms by (auto simp: data_file_read_def wf_data_file_def sub64_eq intro!: safe_pread_ok)

lemma data_file_release_ok:
  assumes "os_ok s" and "wf_data_file f" and "offset < m_filesize f" and "0 < n"
    and c_def: "c = min (m_filesize f - offset) n"
  shows "data_file_release s f offset n =
    (f\<lparr>df_data := overwrite offset (zero_bytes c) (df_data f), m_used := sub64 (m_used f) c\<rparr>, Inr c)"
proof -
  have "sub64 (m_filesize f) offset = m_filesize f - offset" and "0 < c"
    using assms by (auto simp: sub64_eq wf_data_file_def c_def)
  then show ?thesis
    using assms by (auto simp: data_file_release_def Let_def wf_data_file_def os_ok_def min_def)
qed

lemma wf_data_file_update:
  "wf_data_file f \<Longrightarrow> off + length bs \<le> m_filesize f \<Longrightarrow> u < M64 \<Longrightarrow>
   wf_data_file (f\<lparr>m_used := u, df_data := overwrite off bs (df_data f)\<rparr>)"
  by (simp add: wf_data_file_def length_overwrite)

lemma le_val_digits: "le_val (map (\<lambda>i. char_of (n div 256 ^ i)) [0..<k]) = n mod 256 ^ k" for n :: nat
proof (induction k arbitrary: n)
  case (Suc k)
  have "map (\<lambda>i. char_of (n div 256 ^ i)) [0..<Suc k] =
      char_of n # map (\<lambda>i. char_of (n div 256 div 256 ^ i)) [0..<k]"
    by (simp add: upt_conv_Cons map_Suc_upt [symmetric] div_mult2_eq del: upt_Suc)
  then show ?case using Suc [of "n div 256"] by (simp add: mod_mult2_eq del: upt_Suc)
qed simp

lemma le_val_le64 [simp]: "n < M64 \<Longrightarrow> le_val (le64 n) = n"
  unfolding le64_def le_val_digits by (simp add: M64_def)

lemma length_le64 [simp]: "length (le64 n) = 8"
  by (simp add: le64_def)

lemma length_metadata_bytes [simp]: "length (metadata_bytes a b) = 16"
  by (simp add: metadata_bytes_def)

lemma overwrite_whole: "length ys = length xs \<Longrightarrow> overwrite 0 ys xs = ys"
  by (simp add: overwrite_def)

lemma data_file_sync_ok:
  assumes "os_ok s" and "wf_data_file f"
  shows "data_file_sync s f = Some (f\<lparr>df_meta := metadata_bytes (m_used f) (m_filesize f)\<rparr>, Inr ())"
proof -
  have "safe_pwrite s (df_meta f) (metadata_bytes (m_used f) (m_filesize f)) 0 =
      Some (metadata_bytes (m_used f) (m_filesize f), Inr 16)"
    using assms by (subst safe_pwrite_ok) (auto simp: wf_data_file_def M64_def overwrite_whole)
  then show ?thesis using assms(1) by (simp add: data_file_sync_def write_metadata_def os_ok_def)
qed

lemma data_file_open_ok:
  assumes "os_ok s" and "dir (root @ ''.data'') = Some d"
    and "dir (root @ ''.meta'') = Some (metadata_bytes u n)" and "u < M64" and "n < M64"
  shows "data_file_open s dir root =
    Some (Inr \<lparr>m_path = root, df_data = d, df_meta = metadata_bytes u n, m_used = u, m_filesize = n\<rparr>)"
proof -
  have "safe_pread s (metadata_bytes u n) 16 0 = Some (Inr (metadata_bytes u n))"
    using assms(1) by (subst safe_pread_ok) (simp_all add: M64_def)
  then show ?thesis
    using assms by (simp add: data_file_open_def read_metadata_def) (simp add: metadata_bytes_def)
qed

text \<open>
  Closing and reopening a data file loses nothing: \<open>sync\<close> on a working device changes
  only the \<open>.meta\<close> file, and opening the two files it leaves in a directory gives back the
  same data, used space and file size.
\<close>

theorem data_file_sync_open:
  assumes "os_ok s" and "wf_data_file f"
    and "dir (m_path f @ ''.data'') = Some (df_data f')" and "dir (m_path f @ ''.meta'') = Some (df_meta f')"
    and "data_file_sync s f = Some (f', r)"
  shows "r = Inr () \<and> data_file_open s dir (m_path f) = Some (Inr f')
    \<and> df_data f' = df_data f \<and> m_used f' = m_used f \<and> m_filesize f' = m_filesize f"
proof -
  have f': "f' = f\<lparr>df_meta := metadata_bytes (m_used f) (m_filesize f)\<rparr>" and r: "r = Inr ()"
    using assms(5) data_file_sync_ok [OF assms(1,2)] by simp_all
  have "data_file_open s dir (m_path f) = Some (Inr \<lparr>m_path = m_path f, df_data = df_data f,
      df_meta = metadata_bytes (m_used f) (m_filesize f), m_used = m_used f, m_filesize = m_filesize f\<rparr>)"
    using assms(2-4) unfolding f' by (intro data_file_open_ok [OF assms(1)]) (auto simp: wf_data_file_def)
  then show ?thesis using r unfolding f' by simp
qed

definition sample_file :: data_file where
  "sample_file = \<lparr>m_path = ''d'', df_data = ''abcd'', df_meta = zero_bytes 16, m_used = 3, m_filesize = 4\<rparr>"

theorem data_file_sync_open_witness:
  "data_file_open slow_os [''d.data'' \<mapsto> ''abcd'', ''d.meta'' \<mapsto> metadata_bytes 3 4] ''d'' =
     Some (Inr (sample_file\<lparr>df_meta := metadata_bytes 3 4\<rparr>))"
proof -
  have w: "wf_data_file sample_file" by (simp add: sample_file_def wf_data_file_def M64_def)
  have s: "data_file_sync slow_os sample_file = Some (sample_file\<lparr>df_meta := metadata_bytes 3 4\<rparr>, Inr ())"
    using data_file_sync_ok [OF slow_os_ok w] by (simp add: sample_file_def)
  show ?thesis
    using data_file_sync_open [OF slow_os_ok w _ _ s,
        of "[''d.data'' \<mapsto> ''abcd'', ''d.meta'' \<mapsto> metadata_bytes 3 4]"]
    by (simp add: sample_file_def)
qed

lemma data_file_create_ok:
  assumes "os_ok s" and "dir (root @ ''.data'') = None" and "n < M64"
  shows "data_file_create s dir root n =
    Some (dir(root @ ''.data'' \<mapsto> zero_bytes n, root @ ''.meta'' \<mapsto> metadata_bytes 0 n),
      Inr \<lparr>m_path = root, df_data = zero_bytes n, df_meta = metadata_bytes 0 n, m_used = 0, m_filesize = n\<rparr>)"
  using assms
  by (simp add: data_file_create_def ftruncate_def Let_def os_ok_def) (subst data_file_open_ok, auto simp: os_ok_def)

end
