(* ===== verification/Vrm_RefCount.thy ===== *)
theory Vrm_RefCount
  imports Vrm_Prelude
begin

text \<open>
  The reference counter of a storage (\<open>src/storage/reference_counter.cpp\<close>). It keeps one
  counter per stripe in an LMDB database and calls back into the data store for stripes whose
  counter drops to zero. LMDB is outside the repository: the model takes its operations as a
  record \<open>kv\<close>, and \<open>kv_laws\<close> states what the code relies on, the behaviour of \<open>get\<close>
  after \<open>put\<close> and \<open>del\<close>. A transaction works on a copy of the database; committing it
  yields the copy, aborting it the original.
\<close>

record allocation =
  alloc_offset :: size_t
  alloc_size :: size_t

record refcount =
  stripe_id :: size_t
  ref_count :: size_t

record 'db kv =
  kv_get :: "'db \<Rightarrow> size_t \<Rightarrow> size_t option"
  kv_put :: "'db \<Rightarrow> size_t \<Rightarrow> size_t \<Rightarrow> 'db"
  kv_del :: "'db \<Rightarrow> size_t \<Rightarrow> 'db"

definition kv_laws :: "'db kv \<Rightarrow> bool" where
  "kv_laws K \<longleftrightarrow>
     (\<forall>db k v k'. kv_get K (kv_put K db k v) k' = (if k' = k then Some v else kv_get K db k')) \<and>
     (\<forall>db k k'. kv_get K (kv_del K db k) k' = (if k' = k then None else kv_get K db k'))"

definition mk_refcount :: "size_t \<Rightarrow> size_t \<Rightarrow> refcount" where
  "mk_refcount i c = \<lparr>stripe_id = i, ref_count = c\<rparr>"

definition increment_one :: "'db kv \<Rightarrow> 'db \<Rightarrow> size_t \<Rightarrow> size_t \<Rightarrow> bool \<Rightarrow> 'db \<times> bool" where
  "increment_one K db sid cnt upstream =
     (let current_value = (case kv_get K db sid of Some v \<Rightarrow> v | None \<Rightarrow> 0);
          encountered_untracked_page = (kv_get K db sid = None)
      in if upstream \<and> encountered_untracked_page then (db, True)
         else (kv_put K db sid (add64 current_value cnt), False))"

fun increment_loop :: "'db kv \<Rightarrow> 'db \<Rightarrow> refcount list \<Rightarrow> bool \<Rightarrow> refcount list \<Rightarrow> 'db \<times> refcount list" where
  "increment_loop K db [] upstream rv = (db, rv)"
| "increment_loop K db (r # rs) upstream rv =
     (case increment_one K db (stripe_id r) (ref_count r) upstream of
        (db', rejected) \<Rightarrow> increment_loop K db' rs upstream (if rejected then rv @ [r] else rv))"

definition rc_increment :: "'db kv \<Rightarrow> 'db \<Rightarrow> refcount list \<Rightarrow> bool \<Rightarrow> 'db \<times> refcount list" where
  "rc_increment K db refcounts upstream = increment_loop K db refcounts upstream []"

definition decrement_one :: "'db kv \<Rightarrow> 'db \<Rightarrow> size_t \<Rightarrow> size_t \<Rightarrow> ('db \<times> bool) res" where
  "decrement_one K db sid cnt =
     (case kv_get K db sid of
        None \<Rightarrow> Inl Runtime_error
      | Some current_value \<Rightarrow>
          if current_value \<le> cnt then Inr (kv_del K db sid, True)
          else Inr (kv_put K db sid (sub64 current_value cnt), False))"

fun decrement_txn :: "'db kv \<Rightarrow> 'db \<Rightarrow> refcount list \<Rightarrow> size_t list \<Rightarrow> ('db \<times> size_t list) res" where
  "decrement_txn K db [] stripes_to_free = Inr (db, stripes_to_free)"
| "decrement_txn K db (r # rs) stripes_to_free =
     bindE (decrement_one K db (stripe_id r) (ref_count r)) (\<lambda>(db', dropped).
       decrement_txn K db' rs (if dropped then stripes_to_free @ [stripe_id r] else stripes_to_free))"

text \<open>
  \<open>free_stripes\<close> joins runs of consecutive stripes and calls \<open>cb\<close> once per run; the callback
  changes the state \<open>st\<close> of the data store and may throw.
\<close>

definition free_run ::
  "('s \<Rightarrow> size_t \<Rightarrow> size_t \<Rightarrow> 's \<times> size_t res) \<Rightarrow> size_t \<Rightarrow> 's \<Rightarrow> size_t \<Rightarrow> size_t \<Rightarrow> size_t \<Rightarrow> 's \<times> size_t res" where
  "free_run cb stripe_size st freed range_start range_end =
     (case cb st (mul64 range_start stripe_size)
                 (mul64 (add64 (sub64 range_end range_start) 1) stripe_size) of
        (st', Inl e) \<Rightarrow> (st', Inl e)
      | (st', Inr n) \<Rightarrow> (st', Inr (add64 freed n)))"

fun free_loop ::
  "('s \<Rightarrow> size_t \<Rightarrow> size_t \<Rightarrow> 's \<times> size_t res) \<Rightarrow> size_t \<Rightarrow> 's \<Rightarrow> size_t \<Rightarrow> size_t \<Rightarrow> size_t \<Rightarrow> size_t list
    \<Rightarrow> 's \<times> size_t res" where
  "free_loop cb ss st freed range_start range_end [] = free_run cb ss st freed range_start range_end"
| "free_loop cb ss st freed range_start range_end (i # is) =
     (if i = add64 range_end 1 then free_loop cb ss st freed range_start i is
      else case free_run cb ss st freed range_start range_end of
             (st', Inl e) \<Rightarrow> (st', Inl e)
           | (st', Inr freed') \<Rightarrow> free_loop cb ss st' freed' i i is)"

definition free_stripes ::
  "('s \<Rightarrow> size_t \<Rightarrow> size_t \<Rightarrow> 's \<times> size_t res) \<Rightarrow> size_t \<Rightarrow> 's \<Rightarrow> size_t list \<Rightarrow> 's \<times> size_t res" where
  "free_stripes cb stripe_size st stripes_to_free =
     (case stripes_to_free of
        [] \<Rightarrow> (st, Inr 0)
      | i # is \<Rightarrow> free_loop cb stripe_size st 0 i i is)"

definition rc_decrement ::
  "'db kv \<Rightarrow> ('s \<Rightarrow> size_t \<Rightarrow> size_t \<Rightarrow> 's \<times> size_t res) \<Rightarrow> size_t \<Rightarrow> 'db \<Rightarrow> 's \<Rightarrow> refcount list
    \<Rightarrow> 'db \<times> 's \<times> size_t res" where
  "rc_decrement K cb stripe_size db st refcounts =
     (case decrement_txn K db refcounts [] of
        Inl e \<Rightarrow> (db, st, Inl e)
      | Inr (db', stripes) \<Rightarrow> (db', free_stripes cb stripe_size st stripes))"

definition rc_get_refcounts :: "'db kv \<Rightarrow> 'db \<Rightarrow> size_t list \<Rightarrow> refcount list" where
  "rc_get_refcounts K db stripe_ids =
     map (\<lambda>i. mk_refcount i (case kv_get K db i of Some v \<Rightarrow> v | None \<Rightarrow> 0)) stripe_ids"

subsection \<open>The counters after an operation\<close>

text \<open>The sum of the counts a request carries for a stripe.\<close>

definition requested :: "size_t \<Rightarrow> refcount list \<Rightarrow> nat" where
  "requested k rs = sum_list (map ref_count (filter (\<lambda>r. stripe_id r = k) rs))"

definition bounded_counts :: "'db kv \<Rightarrow> 'db \<Rightarrow> bool" where
  "bounded_counts K db \<longleftrightarrow> (\<forall>k v. kv_get K db k = Some v \<longrightarrow> v < M64)"

lemma requested_simps [simp]:
  "requested k [] = 0"
  "requested k (r # rs) = (if stripe_id r = k then ref_count r else 0) + requested k rs"
  by (simp_all add: requested_def)

lemma mk_refcount_sel [simp]: "stripe_id (mk_refcount i c) = i" "ref_count (mk_refcount i c) = c"
  by (simp_all add: mk_refcount_def)

lemma kv_get_put: "kv_laws K \<Longrightarrow> kv_get K (kv_put K db k v) k' = (if k' = k then Some v else kv_get K db k')"
  by (simp add: kv_laws_def)

lemma kv_get_del: "kv_laws K \<Longrightarrow> kv_get K (kv_del K db k) k' = (if k' = k then None else kv_get K db k')"
  by (simp add: kv_laws_def)

lemma bounded_put: "kv_laws K \<Longrightarrow> bounded_counts K db \<Longrightarrow> v < M64 \<Longrightarrow> bounded_counts K (kv_put K db k v)"
  by (simp add: bounded_counts_def kv_get_put)

lemma increment_loop_upstream:
  "kv_laws K \<Longrightarrow> bounded_counts K db \<Longrightarrow> increment_loop K db rs True rv = (db', rej) \<Longrightarrow>
   rej = rv @ filter (\<lambda>r. kv_get K db (stripe_id r) = None) rs
   \<and> kv_get K db' k = map_option (\<lambda>v. (v + requested k rs) mod M64) (kv_get K db k)"
proof (induction rs arbitrary: db rv)
  case Nil
  then show ?case by (cases "kv_get K db k") (auto simp: bounded_counts_def)
next
  case (Cons r rs)
  show ?case
  proof (cases "kv_get K db (stripe_id r)")
    case None
    with Cons.prems Cons.IH [OF Cons.prems(1,2), of "rv @ [r]"] show ?thesis
      by (cases "kv_get K db k") (auto simp: increment_one_def)
  next
    case (Some v)
    let ?d = "kv_put K db (stripe_id r) (add64 v (ref_count r))"
    have b: "bounded_counts K ?d" using Cons.prems by (simp add: bounded_put)
    have l: "increment_loop K ?d rs True rv = (db', rej)"
      using Cons.prems(3) Some by (simp add: increment_one_def)
    have s: "(kv_get K ?d i = None) = (kv_get K db i = None)" for i
      using Some Cons.prems(1) by (simp add: kv_get_put)
    from Cons.IH [OF Cons.prems(1) b l] show ?thesis
      unfolding s using Some Cons.prems(1)
      by (auto simp: kv_get_put add64_def mod_simps add.assoc)
  qed
qed

lemma increment_loop_downstream:
  "kv_laws K \<Longrightarrow> bounded_counts K db \<Longrightarrow> increment_loop K db rs False rv = (db', rej) \<Longrightarrow>
   rej = rv \<and> kv_get K db' k =
     (if k \<in> stripe_id ` set rs
      then Some (((case kv_get K db k of Some v \<Rightarrow> v | None \<Rightarrow> 0) + requested k rs) mod M64)
      else kv_get K db k)"
proof (induction rs arbitrary: db)
  case (Cons r rs)
  define v where "v = (case kv_get K db (stripe_id r) of Some v \<Rightarrow> v | None \<Rightarrow> 0)"
  let ?d = "kv_put K db (stripe_id r) (add64 v (ref_count r))"
  have b: "bounded_counts K ?d" using Cons.prems by (simp add: bounded_put)
  have l: "increment_loop K ?d rs False rv = (db', rej)"
    using Cons.prems(3) by (simp add: increment_one_def v_def)
  have z: "requested k rs = 0" if "k \<notin> stripe_id ` set rs" for k
    using that by (induction rs) auto
  from Cons.IH [OF Cons.prems(1) b l] show ?case
    using Cons.prems(1) z [of "stripe_id r"]
    by (auto simp: kv_get_put add64_def mod_simps add.assoc v_def)
qed simp

text \<open>
  \<open>increment\<close> on behalf of an upstream service rejects exactly the entries whose stripe
  is not tracked, in request order, and raises every tracked counter by the sum of the counts
  requested for it (modulo \<open>2^64\<close>); it never starts tracking a stripe.
\<close>

theorem increment_upstream:
  assumes "kv_laws K" and "bounded_counts K db" and "rc_increment K db rs True = (db', rej)"
  shows "rej = filter (\<lambda>r. kv_get K db (stripe_id r) = None) rs
    \<and> kv_get K db' k = map_option (\<lambda>v. (v + requested k rs) mod M64) (kv_get K db k)"
  using increment_loop_upstream [OF assms(1,2), of rs "[]"] assms(3) by (simp add: rc_increment_def)

text \<open>The database as a finite map, an instance of the interface.\<close>

definition map_kv :: "(size_t \<Rightarrow> size_t option) kv" where
  "map_kv = \<lparr>kv_get = \<lambda>m k. m k, kv_put = \<lambda>m k v. m(k \<mapsto> v), kv_del = \<lambda>m k. m(k := None)\<rparr>"

lemma map_kv_laws [simp]: "kv_laws map_kv"
  by (simp add: kv_laws_def map_kv_def)

theorem increment_upstream_witness:
  "snd (rc_increment map_kv [3 \<mapsto> 1] [mk_refcount 3 2, mk_refcount 4 1] True) = [mk_refcount 4 1]
   \<and> kv_get map_kv (fst (rc_increment map_kv [3 \<mapsto> 1] [mk_refcount 3 2, mk_refcount 4 1] True)) 3 = Some 3"
proof -
  have b: "bounded_counts map_kv [3 \<mapsto> 1]" by (simp add: bounded_counts_def map_kv_def M64_def)
  show ?thesis
    using increment_upstream [OF map_kv_laws b, of "[mk_refcount 3 2, mk_refcount 4 1]"
      "fst (rc_increment map_kv [3 \<mapsto> 1] [mk_refcount 3 2, mk_refcount 4 1] True)"
      "snd (rc_increment map_kv [3 \<mapsto> 1] [mk_refcount 3 2, mk_refcount 4 1] True)" 3]
    by (simp add: map_kv_def M64_def)
qed

lemma decrement_txn_ok:
  assumes "kv_laws K"
  shows "bounded_counts K db \<Longrightarrow> distinct (map stripe_id rs) \<Longrightarrow>
    \<forall>r\<in>set rs. kv_get K db (stripe_id r) \<noteq> None \<Longrightarrow>
    \<exists>db'. decrement_txn K db rs fs = Inr (db', fs @ map stripe_id
        (filter (\<lambda>r. the (kv_get K db (stripe_id r)) \<le> ref_count r) rs))
      \<and> (\<forall>k. kv_get K db' k = (if k \<in> stripe_id ` set rs
            then (if the (kv_get K db k) \<le> requested k rs then None
                  else Some (the (kv_get K db k) - requested k rs))
            else kv_get K db k))"
proof (induction rs arbitrary: db fs)
  case (Cons r rs)
  obtain v where v: "kv_get K db (stripe_id r) = Some v" using Cons.prems(3) by auto
  have vm: "v < M64" using Cons.prems(1) v by (simp add: bounded_counts_def)
  define d where "d = (if v \<le> ref_count r then kv_del K db (stripe_id r)
      else kv_put K db (stripe_id r) (sub64 v (ref_count r)))"
  have g: "kv_get K d k = (if k = stripe_id r then (if v \<le> ref_count r then None else Some (v - ref_count r))
      else kv_get K db k)" for k
    using assms vm by (simp add: d_def kv_get_put kv_get_del sub64_eq)
  have b: "bounded_counts K d" using Cons.prems(1) vm g by (auto simp: bounded_counts_def)
  have ne: "stripe_id x \<noteq> stripe_id r" if "x \<in> set rs" for x
    using that Cons.prems(2) by (metis distinct.simps(2) image_eqI list.simps(9) set_map)
  have t: "\<forall>x\<in>set rs. kv_get K d (stripe_id x) \<noteq> None" using Cons.prems(3) ne g by auto
  have f: "filter (\<lambda>x. the (kv_get K d (stripe_id x)) \<le> ref_count x) rs =
      filter (\<lambda>x. the (kv_get K db (stripe_id x)) \<le> ref_count x) rs"
    using ne g by (intro filter_cong) auto
  have z: "requested (stripe_id r) rs = 0" using Cons.prems(2) by (induction rs) auto
  have step: "decrement_txn K db (r # rs) fs =
      decrement_txn K d rs (if v \<le> ref_count r then fs @ [stripe_id r] else fs)"
    by (simp add: decrement_one_def v d_def)
  from Cons.IH [OF b _ t, of "if v \<le> ref_count r then fs @ [stripe_id r] else fs"] Cons.prems(2)
  obtain d' where d': "decrement_txn K db (r # rs) fs = Inr (d', (if v \<le> ref_count r then fs @ [stripe_id r] else fs)
        @ map stripe_id (filter (\<lambda>x. the (kv_get K d (stripe_id x)) \<le> ref_count x) rs))"
    "\<forall>k. kv_get K d' k = (if k \<in> stripe_id ` set rs
            then (if the (kv_get K d k) \<le> requested k rs then None
                  else Some (the (kv_get K d k) - requested k rs))
            else kv_get K d k)"
    unfolding step by auto
  have "kv_get K d' k = (if k \<in> stripe_id ` set (r # rs)
            then (if the (kv_get K db k) \<le> requested k (r # rs) then None
                  else Some (the (kv_get K db k) - requested k (r # rs)))
            else kv_get K db k)" for k
    using d'(2) z v g [of k] ne Cons.prems(2) by (cases "k = stripe_id r") auto
  then show ?case using d'(1) f v by (intro exI [of _ d']) auto
qed simp

lemma decrement_txn_untracked:
  assumes "kv_laws K"
  shows "r \<in> set rs \<Longrightarrow> kv_get K db (stripe_id r) = None \<Longrightarrow> decrement_txn K db rs fs = Inl Runtime_error"
proof (induction rs arbitrary: db fs)
  case (Cons x rs)
  show ?case
  proof (cases "kv_get K db (stripe_id x)")
    case (Some v)
    then have "r \<in> set rs" "stripe_id r \<noteq> stripe_id x" using Cons.prems by auto
    then show ?thesis using Cons Some assms by (simp add: decrement_one_def kv_get_put kv_get_del)
  qed (simp add: decrement_one_def)
qed simp

text \<open>
  C27: \<open>decrement\<close> of a request without duplicate stripes is all or nothing: if any stripe is
  untracked it throws and neither the database nor the data store changes; otherwise every
  counter drops by the requested amount, the counters that reach zero disappear, and exactly
  those stripes are handed to \<open>free_stripes\<close> in request order.
\<close>

theorem decrement_all_or_nothing:
  assumes "kv_laws K" and "bounded_counts K db" and "distinct (map stripe_id rs)"
    and "rc_decrement K cb stripe_size db st rs = (db', st', r)"
  shows "if \<exists>x\<in>set rs. kv_get K db (stripe_id x) = None
    then db' = db \<and> st' = st \<and> r = Inl Runtime_error
    else (st', r) = free_stripes cb stripe_size st
           (map stripe_id (filter (\<lambda>x. the (kv_get K db (stripe_id x)) \<le> ref_count x) rs))
      \<and> (\<forall>k. kv_get K db' k = (if k \<in> stripe_id ` set rs
            then (if the (kv_get K db k) \<le> requested k rs then None
                  else Some (the (kv_get K db k) - requested k rs))
            else kv_get K db k))"
proof (cases "\<exists>x\<in>set rs. kv_get K db (stripe_id x) = None")
  case True
  then have "decrement_txn K db rs [] = Inl Runtime_error"
    using decrement_txn_untracked [OF assms(1)] by blast
  then show ?thesis using True assms(4) by (simp add: rc_decrement_def)
next
  case False
  then show ?thesis
    using decrement_txn_ok [OF assms(1-3), of "[]"] assms(4) by (auto simp: rc_decrement_def)
qed

theorem decrement_all_or_nothing_witness:
  "case rc_decrement map_kv (\<lambda>st off n. (st + n, Inr n)) 64 [3 \<mapsto> 5, 4 \<mapsto> 1] (0::nat)
     [mk_refcount 3 2, mk_refcount 4 1] of
   (db', st', r) \<Rightarrow> db' 3 = Some 3 \<and> db' 4 = None \<and> st' = 64 \<and> r = Inr 64"
proof -
  have b: "bounded_counts map_kv [3 \<mapsto> 5, 4 \<mapsto> 1]"
    by (simp add: bounded_counts_def map_kv_def M64_def)
  have d: "distinct (map stripe_id [mk_refcount 3 2, mk_refcount 4 1])" by simp
  obtain db' st' r where e: "rc_decrement map_kv (\<lambda>st off n. (st + n, Inr n)) 64 [3 \<mapsto> 5, 4 \<mapsto> 1] (0::nat)
     [mk_refcount 3 2, mk_refcount 4 1] = (db', st', r)"
    by (rule prod_cases3)
  have g: "kv_get map_kv m = m" for m by (simp add: map_kv_def)
  show ?thesis
    using decrement_all_or_nothing [OF map_kv_laws b d e] unfolding e g
    by (simp add: M64_def free_stripes_def free_run_def mul64_def add64_def sub64_def)
qed

text \<open>
  C28: Unlinking what was linked restores the counters: if every stripe of a duplicate-free
  request is tracked with a positive counter that stays below \<open>2^64\<close>, then linking it rejects
  nothing, and decrementing the same request afterwards frees no stripe and leaves every
  counter as it was.
\<close>

theorem link_unlink_restores:
  assumes "kv_laws K" and "bounded_counts K db" and "distinct (map stripe_id rs)"
    and "\<forall>x\<in>set rs. \<exists>v. kv_get K db (stripe_id x) = Some v \<and> 0 < v \<and> v + ref_count x < M64"
  shows "\<exists>db' db''. rc_increment K db rs True = (db', []) \<and> decrement_txn K db' rs [] = Inr (db'', [])
    \<and> kv_get K db'' = kv_get K db"
proof -
  obtain db' rej where inc: "rc_increment K db rs True = (db', rej)" by fastforce
  note I = increment_loop_upstream [OF assms(1,2) inc [unfolded rc_increment_def]]
  have rej: "rej = []" using I assms(4) by (auto simp: filter_empty_conv)
  have rq: "requested (stripe_id x) rs = ref_count x" if "x \<in> set rs" for x
    using that assms(3)
  proof (induction rs)
    case (Cons y ys)
    have z: "requested k zs = 0" if "k \<notin> stripe_id ` set zs" for k zs
      using that by (induction zs) auto
    from Cons z [of "stripe_id x" ys] show ?case by force
  qed simp
  have rq0: "requested k rs = 0" if "k \<notin> stripe_id ` set rs" for k
    using that by (induction rs) auto
  have g: "kv_get K db' k = map_option (\<lambda>v. v + requested k rs) (kv_get K db k)" for k
  proof (cases "kv_get K db k")
    case (Some v)
    have "v + requested k rs < M64"
      using Some assms(2,4) rq rq0 [of k] by (cases "k \<in> stripe_id ` set rs") (auto simp: bounded_counts_def)
    then show ?thesis using I [of k] Some by simp
  qed (use I [of k] in simp)
  have b: "bounded_counts K db'"
    unfolding bounded_counts_def
  proof (intro allI impI)
    fix k v assume "kv_get K db' k = Some v"
    then show "v < M64" using I [of k] by auto
  qed
  have t: "\<forall>x\<in>set rs. kv_get K db' (stripe_id x) \<noteq> None" using assms(4) g by fastforce
  have "\<not> the (kv_get K db' (stripe_id x)) \<le> ref_count x" if "x \<in> set rs" for x
    using assms(4) that g rq by fastforce
  then have e: "filter (\<lambda>r. the (kv_get K db' (stripe_id r)) \<le> ref_count r) rs = []"
    by (simp add: filter_empty_conv)
  obtain db'' where dec: "decrement_txn K db' rs [] = Inr (db'', [])"
    and k: "\<forall>k. kv_get K db'' k = (if k \<in> stripe_id ` set rs
            then (if the (kv_get K db' k) \<le> requested k rs then None
                  else Some (the (kv_get K db' k) - requested k rs))
            else kv_get K db' k)"
    using decrement_txn_ok [OF assms(1) b assms(3) t, of "[]"] unfolding e by auto
  have "kv_get K db'' k = kv_get K db k" for k
    using k g [of k] rq0 [of k] assms(4) by (cases "kv_get K db k") fastforce+
  then show ?thesis using inc dec rej by auto
qed

theorem link_unlink_restores_witness:
  "\<exists>db' db''. rc_increment map_kv [3 \<mapsto> 1] [mk_refcount 3 2] True = (db', [])
    \<and> decrement_txn map_kv db' [mk_refcount 3 2] [] = Inr (db'', []) \<and> kv_get map_kv db'' = kv_get map_kv [3 \<mapsto> 1]"
  by (rule link_unlink_restores [OF map_kv_laws]) (simp_all add: bounded_counts_def map_kv_def M64_def)

subsection \<open>Freeing runs of stripes\<close>

text \<open>A callback that records the byte ranges it is asked to free.\<close>

definition record_cb :: "(nat \<times> nat) list \<Rightarrow> size_t \<Rightarrow> size_t \<Rightarrow> (nat \<times> nat) list \<times> size_t res" where
  "record_cb calls off n = (calls @ [(off, n)], Inr n)"

definition stripe_bytes :: "nat \<Rightarrow> nat \<Rightarrow> nat list" where
  "stripe_bytes ss i = [i * ss ..< (i + 1) * ss]"

definition call_bytes :: "(nat \<times> nat) list \<Rightarrow> nat list" where
  "call_bytes calls = concat (map (\<lambda>(off, n). [off ..< off + n]) calls)"

lemma run_bytes: "a \<le> b \<Longrightarrow> [a * ss ..< (b + 1) * ss] = concat (map (stripe_bytes ss) [a ..< b + 1])"
proof (induction b)
  case (Suc b)
  show ?case
  proof (cases "a = Suc b")
    case False
    then have le: "a \<le> b" using Suc.prems by simp
    have "a * ss \<le> (b + 1) * ss" using le by (intro mult_le_mono1) simp
    then have "[a * ss ..< (Suc b + 1) * ss] = [a * ss ..< (b + 1) * ss] @ [(b + 1) * ss ..< (Suc b + 1) * ss]"
      by (metis Suc_eq_plus1 add.commute le_add1 mult_Suc upt_add_eq_append)
    then show ?thesis using Suc.IH [OF le] le by (simp add: stripe_bytes_def)
  qed (simp add: stripe_bytes_def)
qed (simp add: stripe_bytes_def)

lemma free_run_record:
  assumes "a \<le> b" and "(b + 1) * ss < M64" and "0 < ss" and "freed + (b + 1 - a) * ss < M64"
  shows "free_run record_cb ss calls freed a b =
    (calls @ [(a * ss, (b + 1 - a) * ss)], Inr (freed + (b + 1 - a) * ss))"
proof -
  have "b + 1 \<le> (b + 1) * ss" using assms(3) mult_le_mono2 [of 1 ss "b + 1"] by simp
  then have b: "b + 1 < M64" using assms(2) by linarith
  have "a * ss \<le> (b + 1) * ss" "(b + 1 - a) * ss \<le> (b + 1) * ss"
    using assms(1) by (intro mult_le_mono1, simp)+
  with assms b show ?thesis
    by (simp add: free_run_def record_cb_def arith64 Suc_diff_le)
qed

lemma free_loop_record:
  assumes "0 < ss"
  shows "a \<le> b \<Longrightarrow> (b + 1) * ss < M64 \<Longrightarrow> \<forall>i\<in>set is. (i + 1) * ss < M64 \<Longrightarrow>
    freed + (b + 1 - a + length is) * ss < M64 \<Longrightarrow>
    \<exists>cs. free_loop record_cb ss calls freed a b is = (calls @ cs, Inr (freed + (b + 1 - a + length is) * ss))
      \<and> call_bytes cs = concat (map (stripe_bytes ss) ([a ..< b + 1] @ is))"
proof (induction "is" arbitrary: a b calls freed)
  case Nil
  have "a * ss + (b + 1 - a) * ss = (b + 1) * ss"
    using Nil.prems(1) by (metis add_mult_distrib le_add1 le_add_diff_inverse le_trans)
  then have "call_bytes [(a * ss, (b + 1 - a) * ss)] = concat (map (stripe_bytes ss) [a ..< b + 1])"
    using run_bytes [OF Nil.prems(1), of ss] by (simp add: call_bytes_def del: upt_Suc)
  then show ?case using Nil.prems assms free_run_record [of a b ss freed calls] by simp
next
  case (Cons i js)
  have ib: "b + 1 \<le> (b + 1) * ss" using assms mult_le_mono2 [of 1 ss "b + 1"] by simp
  have b1: "add64 b 1 = b + 1" using ib Cons.prems(2) by (intro add64_eq) linarith
  show ?case
  proof (cases "i = b + 1")
    case True
    have e: "i + 1 - a + length js = b + 1 - a + length (i # js)" using True Cons.prems(1) by simp
    have u: "[a ..< i + 1] @ js = [a ..< b + 1] @ i # js" using True Cons.prems(1) by simp
    have "\<exists>cs. free_loop record_cb ss calls freed a i js = (calls @ cs, Inr (freed + (i + 1 - a + length js) * ss))
      \<and> call_bytes cs = concat (map (stripe_bytes ss) ([a ..< i + 1] @ js))"
      by (rule Cons.IH) (use Cons.prems True e in auto)
    then show ?thesis using True b1 unfolding e u by simp
  next
    case False
    let ?f = "freed + (b + 1 - a) * ss"
    have sum: "?f + (i + 1 - i + length js) * ss = freed + (b + 1 - a + length (i # js)) * ss"
      by (simp add: add_mult_distrib)
    have r: "free_run record_cb ss calls freed a b = (calls @ [(a * ss, (b + 1 - a) * ss)], Inr ?f)"
      using Cons.prems sum assms by (intro free_run_record) auto
    have "\<exists>cs. free_loop record_cb ss (calls @ [(a * ss, (b + 1 - a) * ss)]) ?f i i js =
        ((calls @ [(a * ss, (b + 1 - a) * ss)]) @ cs, Inr (?f + (i + 1 - i + length js) * ss))
      \<and> call_bytes cs = concat (map (stripe_bytes ss) ([i ..< i + 1] @ js))"
      by (rule Cons.IH) (use Cons.prems sum in auto)
    then obtain cs where cs: "free_loop record_cb ss (calls @ [(a * ss, (b + 1 - a) * ss)]) ?f i i js =
        (calls @ ((a * ss, (b + 1 - a) * ss) # cs), Inr (freed + (b + 1 - a + length (i # js)) * ss))"
      "call_bytes cs = concat (map (stripe_bytes ss) (i # js))" unfolding sum by auto
    have "a * ss + (b + 1 - a) * ss = (b + 1) * ss"
      using Cons.prems(1) by (metis add_mult_distrib le_add1 le_add_diff_inverse le_trans)
    then have "call_bytes ((a * ss, (b + 1 - a) * ss) # cs) = concat (map (stripe_bytes ss) ([a ..< b + 1] @ i # js))"
      using cs(2) run_bytes [OF Cons.prems(1), of ss] by (simp add: call_bytes_def del: upt_Suc)
    then show ?thesis using False b1 r cs(1) by auto
  qed
qed

text \<open>What every callback on runs of stripes of \<open>S\<close> keeps is kept by \<open>free_stripes\<close>.\<close>

lemma free_run_keeps:
  assumes "0 < ss" and "\<forall>i\<in>S. (i + 1) * ss < M64"
    and "\<And>st a b. P st \<Longrightarrow> a \<le> b \<Longrightarrow> {a..b} \<subseteq> S \<Longrightarrow> P (fst (cb st (a * ss) ((b + 1 - a) * ss)))"
    and "P st" "a \<le> b" "{a..b} \<subseteq> S"
  shows "P (fst (free_run cb ss st freed a b))"
proof -
  have "b \<in> S" using assms(5,6) by auto
  then have bs: "(b + 1) * ss < M64" using assms(2) by blast
  moreover have "b + 1 \<le> (b + 1) * ss" using assms(1) mult_le_mono2 [of 1 ss "b + 1"] by simp
  ultimately have b: "b + 1 < M64" by linarith
  have "a * ss \<le> (b + 1) * ss" "(b + 1 - a) * ss \<le> (b + 1) * ss"
    using assms(5) by (intro mult_le_mono1, simp)+
  then have "a * ss < M64" "(b + 1 - a) * ss < M64" using bs by linarith+
  moreover have "add64 (sub64 b a) 1 = b + 1 - a" using b assms(5) by (simp add: arith64 Suc_diff_le)
  ultimately have "mul64 a ss = a * ss" "mul64 (add64 (sub64 b a) 1) ss = (b + 1 - a) * ss"
    by (simp_all only: mul64_eq)
  then show ?thesis
    using assms(3) [OF assms(4-6)] by (auto simp: free_run_def split: prod.split sum.split)
qed

lemma free_loop_keeps:
  assumes "0 < ss" and "\<forall>i\<in>S. (i + 1) * ss < M64"
    and "\<And>st a b. P st \<Longrightarrow> a \<le> b \<Longrightarrow> {a..b} \<subseteq> S \<Longrightarrow> P (fst (cb st (a * ss) ((b + 1 - a) * ss)))"
  shows "P st \<Longrightarrow> a \<le> b \<Longrightarrow> {a..b} \<subseteq> S \<Longrightarrow> set is \<subseteq> S \<Longrightarrow> P (fst (free_loop cb ss st freed a b is))"
proof (induction "is" arbitrary: st freed a b)
  case Nil
  then show ?case using free_run_keeps [where P = P and cb = cb, OF assms] by simp
next
  case (Cons i js)
  note run = free_run_keeps [where P = P and cb = cb and freed = freed, OF assms Cons.prems(1-3)]
  show ?case
  proof (cases "i = add64 b 1")
    case True
    have "b \<in> S" using Cons.prems(2,3) by auto
    then have "(b + 1) * ss < M64" using assms(2) by blast
    moreover have "b + 1 \<le> (b + 1) * ss" using assms(1) mult_le_mono2 [of 1 ss "b + 1"] by simp
    ultimately have i: "i = b + 1" using True by (simp add: add64_eq)
    then have "{a..i} \<subseteq> S" using Cons.prems(2-4) by (auto simp: atLeastAtMostSuc_conv)
    then show ?thesis using Cons.IH [of st a i freed] Cons.prems i True by simp
  next
    case False
    show ?thesis
    proof (cases "free_run cb ss st freed a b")
      case (Pair st' r)
      then have "P st'" using run by simp
      then show ?thesis using Cons.IH [of st' i i] Cons.prems False Pair by (cases r) auto
    qed
  qed
qed

lemma free_stripes_keeps:
  assumes "0 < ss" and "\<forall>i\<in>set is. (i + 1) * ss < M64"
    and "\<And>st a b. P st \<Longrightarrow> a \<le> b \<Longrightarrow> {a..b} \<subseteq> set is \<Longrightarrow> P (fst (cb st (a * ss) ((b + 1 - a) * ss)))"
    and "P st"
  shows "P (fst (free_stripes cb ss st is))"
proof (cases "is")
  case (Cons i js)
  have "P (fst (free_loop cb ss st 0 i i js))"
    by (rule free_loop_keeps [where P = P and cb = cb, OF assms(1-3)]) (use assms(4) Cons in auto)
  then show ?thesis by (simp add: free_stripes_def Cons)
qed (use assms(4) in \<open>simp add: free_stripes_def\<close>)

text \<open>
  C29: \<open>free_stripes\<close> asks the data store to free exactly the bytes of the given stripes, each
  stripe once and in order, whatever runs it joins, and reports their total size.
\<close>

theorem free_stripes_exact:
  assumes "0 < ss" and "\<forall>i\<in>set is. (i + 1) * ss < M64" and "length is * ss < M64"
  shows "\<exists>calls. free_stripes record_cb ss [] is = (calls, Inr (length is * ss))
    \<and> call_bytes calls = concat (map (stripe_bytes ss) is)"
proof (cases "is")
  case (Cons i js)
  have "\<exists>cs. free_loop record_cb ss [] 0 i i js = ([] @ cs, Inr (0 + (i + 1 - i + length js) * ss))
      \<and> call_bytes cs = concat (map (stripe_bytes ss) ([i ..< i + 1] @ js))"
    using assms Cons by (intro free_loop_record) auto
  then show ?thesis by (simp add: free_stripes_def Cons)
qed (simp add: free_stripes_def call_bytes_def)

theorem free_stripes_exact_witness:
  "\<exists>calls. free_stripes record_cb 4 [] [7, 8, 2] = (calls, Inr 12)
    \<and> call_bytes calls = concat (map (stripe_bytes 4) [7, 8, 2])"
  using free_stripes_exact [of 4 "[7, 8, 2]"] by (simp add: M64_def)

end
