(* ===== verification/Vrm_DataStore.thy ===== *)
theory Vrm_DataStore
  imports Vrm_DataFile Vrm_RefCount
begin

text \<open>
  The data store of a storage service (\<open>src/storage/default_data_store.cpp\<close>). It splits a
  linear address space over data files of equal size, hands out allocations at the write
  offset, and frees the pages whose reference counter drops to zero. The state is the record
  \<open>data_store\<close>; its meaning is the concatenation of the data files (\<open>ds_bytes\<close>). Operations
  return the state beside a result or exception, and \<open>None\<close> where a retry loop does not
  return. The directory entries the constructor scans are an association list.
\<close>

record ds_config =
  max_file_size :: size_t
  max_data_store_size :: size_t
  page_size :: size_t

record 'db data_store =
  m_conf :: ds_config
  m_files :: "data_file list"
  m_dir :: "string \<Rightarrow> bytes option"
  m_meta :: bytes
  m_write_offset :: size_t
  m_used_space :: size_t
  m_db :: 'db

abbreviation ds_filesize :: "('db, 'a) data_store_scheme \<Rightarrow> size_t" where
  "ds_filesize st \<equiv> max_file_size (m_conf st)"

definition base_name :: "nat \<Rightarrow> string" where
  "base_name number = ''data_'' @ replicate (6 - length (nat_str number)) (CHR ''0'') @ nat_str number"

text \<open>\<open>std::filesystem::path::extension\<close> and \<open>replace_extension\<close> of a file name.\<close>

definition split_extension :: "string \<Rightarrow> string \<times> string" where
  "split_extension name =
     (let suffix = takeWhile (\<lambda>c. c \<noteq> CHR ''.'') (rev name);
          stem = length name - length suffix - 1
      in if length suffix = length name \<or> stem = 0 then (name, []) else (take stem name, drop stem name))"

fun open_all :: "os \<Rightarrow> (string \<Rightarrow> bytes option) \<Rightarrow> string list \<Rightarrow> data_file list res option" where
  "open_all s dir [] = Some (Inr [])"
| "open_all s dir (r # rs) =
     (case data_file_open s dir r of
        None \<Rightarrow> None
      | Some (Inl e) \<Rightarrow> Some (Inl e)
      | Some (Inr f) \<Rightarrow>
          (case open_all s dir rs of
             None \<Rightarrow> None
           | Some (Inl e) \<Rightarrow> Some (Inl e)
           | Some (Inr fs) \<Rightarrow> Some (Inr (f # fs))))"

definition load_files ::
  "os \<Rightarrow> (string \<times> bytes) list \<Rightarrow> size_t \<Rightarrow> ((string \<Rightarrow> bytes option) \<times> data_file list res) option" where
  "load_files s entries filesize =
     (let roots = sort (remdups (map (fst \<circ> split_extension)
                    (filter (\<lambda>name. snd (split_extension name) = ''.data'') (map fst entries))))
      in case open_all s (map_of entries) roots of
           None \<Rightarrow> None
         | Some (Inl e) \<Rightarrow> Some (map_of entries, Inl e)
         | Some (Inr []) \<Rightarrow>
             map_option (\<lambda>(dir, r). (dir, bindE r (\<lambda>f. Inr [f])))
               (data_file_create s (map_of entries) (base_name 0) filesize)
         | Some (Inr fs) \<Rightarrow> Some (map_of entries, Inr fs))"

definition open_metadata :: "os \<Rightarrow> (string \<Rightarrow> bytes option) \<Rightarrow> bytes res option" where
  "open_metadata s dir =
     (if \<not> os_create s then Some (Inl Runtime_error)
      else case dir ''ds.meta'' of
             None \<Rightarrow> map_option (\<lambda>(m, r). bindE r (\<lambda>_. Inr m)) (safe_pwrite s [] (metadata_bytes 0 0) 0)
           | Some m \<Rightarrow> Some (if length m \<noteq> 16 then Inl Runtime_error else Inr m))"

definition ds_read_metadata :: "os \<Rightarrow> 'db data_store \<Rightarrow> ('db data_store \<times> unit res) option" where
  "ds_read_metadata s st =
     (case safe_pread s (m_meta st) 16 0 of
        None \<Rightarrow> None
      | Some (Inl e) \<Rightarrow> Some (st, Inl e)
      | Some (Inr md) \<Rightarrow>
          Some (st\<lparr>m_write_offset := le_val (take 8 md), m_used_space := le_val (drop 8 md)\<rparr>, Inr ()))"

definition fetch_used_space :: "data_file list \<Rightarrow> size_t" where
  "fetch_used_space fs = fold (\<lambda>f acc. add64 acc (m_used f)) fs 0"

definition data_store_open ::
  "os \<Rightarrow> ds_config \<Rightarrow> (string \<times> bytes) list \<Rightarrow> 'db \<Rightarrow> 'db data_store res option" where
  "data_store_open s conf entries db =
     (case load_files s entries (max_file_size conf) of
        None \<Rightarrow> None
      | Some (dir, Inl e) \<Rightarrow> Some (Inl e)
      | Some (dir, Inr files) \<Rightarrow>
          (case open_metadata s dir of
             None \<Rightarrow> None
           | Some (Inl e) \<Rightarrow> Some (Inl e)
           | Some (Inr meta) \<Rightarrow>
               if max_file_size conf mod page_size conf \<noteq> 0 then Some (Inl Runtime_error)
               else map_option (\<lambda>(st, r). bindE r (\<lambda>_. Inr st))
                 (ds_read_metadata s \<lparr>m_conf = conf, m_files = files, m_dir = dir, m_meta = meta,
                    m_write_offset = 0, m_used_space = fetch_used_space files, m_db = db\<rparr>)))"

subsection \<open>Reading\<close>

definition file_location :: "'db data_store \<Rightarrow> size_t \<Rightarrow> (nat \<times> size_t) res" where
  "file_location st ptr =
     (let index = ptr div ds_filesize st; offset = ptr mod ds_filesize st
      in if index \<ge> length (m_files st) then Inl Out_of_range else Inr (index, offset))"

partial_function (option) ds_read_loop ::
  "os \<Rightarrow> 'db data_store \<Rightarrow> size_t \<Rightarrow> size_t \<Rightarrow> bytes \<Rightarrow> bytes res option" where
  "ds_read_loop s st local_pointer n acc =
     (if length acc < n then
        (case file_location st local_pointer of
           Inl e \<Rightarrow> Some (Inl e)
         | Inr (i, offset) \<Rightarrow>
             (case data_file_read s (m_files st ! i) offset (n - length acc) of
                None \<Rightarrow> None
              | Some (Inl e) \<Rightarrow> Some (Inl e)
              | Some (Inr bs) \<Rightarrow>
                  if bs = [] then Some (Inr acc)
                  else ds_read_loop s st (add64 local_pointer (length bs)) n (acc @ bs)))
      else Some (Inr acc))"

definition ds_read :: "os \<Rightarrow> 'db data_store \<Rightarrow> size_t \<Rightarrow> size_t \<Rightarrow> bytes res option" where
  "ds_read s st local_pointer n = ds_read_loop s st local_pointer n []"

subsection \<open>Writing\<close>

fun create_files :: "os \<Rightarrow> nat \<Rightarrow> 'db data_store \<Rightarrow> ('db data_store \<times> unit res) option" where
  "create_files s 0 st = Some (st, Inr ())"
| "create_files s (Suc k) st =
     (case data_file_create s (m_dir st) (base_name (length (m_files st))) (ds_filesize st) of
        None \<Rightarrow> None
      | Some (dir, Inl e) \<Rightarrow> Some (st\<lparr>m_dir := dir\<rparr>, Inl e)
      | Some (dir, Inr f) \<Rightarrow> create_files s k (st\<lparr>m_dir := dir, m_files := m_files st @ [f]\<rparr>))"

definition allocate_files :: "os \<Rightarrow> 'db data_store \<Rightarrow> size_t \<Rightarrow> size_t \<Rightarrow> ('db data_store \<times> unit res) option" where
  "allocate_files s st offset n =
     (let required_file_count = add64 offset n div ds_filesize st + 1
      in create_files s (required_file_count - length (m_files st)) st)"

partial_function (option) write_buffer_loop ::
  "os \<Rightarrow> bytes \<Rightarrow> size_t \<Rightarrow> 'db data_store \<Rightarrow> size_t \<Rightarrow> nat list \<Rightarrow> ('db data_store \<times> (size_t \<times> nat list) res) option" where
  "write_buffer_loop s buf written st local_pointer dirty =
     (if written < length buf then
        (case file_location st local_pointer of
           Inl e \<Rightarrow> Some (st, Inl e)
         | Inr (i, _) \<Rightarrow>
             (case data_file_write s (m_files st ! i) (local_pointer mod ds_filesize st) (drop written buf) of
                None \<Rightarrow> None
              | Some (f, Inl e) \<Rightarrow> Some (st\<lparr>m_files := (m_files st)[i := f]\<rparr>, Inl e)
              | Some (f, Inr cnt) \<Rightarrow>
                  if cnt = 0 then Some (st\<lparr>m_files := (m_files st)[i := f]\<rparr>, Inl Runtime_error)
                  else write_buffer_loop s buf (written + cnt) (st\<lparr>m_files := (m_files st)[i := f]\<rparr>)
                         (add64 local_pointer cnt) (dirty @ [i])))
      else Some (st, Inr (local_pointer, dirty)))"

fun write_buffers ::
  "os \<Rightarrow> bytes list \<Rightarrow> 'db data_store \<Rightarrow> size_t \<Rightarrow> nat list \<Rightarrow> ('db data_store \<times> nat list res) option" where
  "write_buffers s [] st local_pointer dirty = Some (st, Inr dirty)"
| "write_buffers s (b # bs) st local_pointer dirty =
     (case write_buffer_loop s b 0 st local_pointer dirty of
        None \<Rightarrow> None
      | Some (st', Inl e) \<Rightarrow> Some (st', Inl e)
      | Some (st', Inr (local_pointer', dirty')) \<Rightarrow> write_buffers s bs st' local_pointer' dirty')"

definition ds_write_metadata :: "os \<Rightarrow> 'db data_store \<Rightarrow> ('db data_store \<times> unit res) option" where
  "ds_write_metadata s st =
     map_option (\<lambda>(m, r). (st\<lparr>m_meta := m\<rparr>, bindE r (\<lambda>_. Inr ())))
       (safe_pwrite s (m_meta st) (metadata_bytes (m_write_offset st) (m_used_space st)) 0)"

fun ds_sync :: "os \<Rightarrow> nat list \<Rightarrow> 'db data_store \<Rightarrow> ('db data_store \<times> unit res) option" where
  "ds_sync s [] st =
     (case ds_write_metadata s st of
        None \<Rightarrow> None
      | Some (st', Inl e) \<Rightarrow> Some (st', Inl e)
      | Some (st', Inr _) \<Rightarrow> Some (st', if os_fsync s then Inr () else Inl Runtime_error))"
| "ds_sync s (i # is) st =
     (case data_file_sync s (m_files st ! i) of
        None \<Rightarrow> None
      | Some (f, Inl e) \<Rightarrow> Some (st\<lparr>m_files := (m_files st)[i := f]\<rparr>, Inl e)
      | Some (f, Inr _) \<Rightarrow> ds_sync s is (st\<lparr>m_files := (m_files st)[i := f]\<rparr>))"

definition ds_write ::
  "os \<Rightarrow> 'db kv \<Rightarrow> 'db data_store \<Rightarrow> allocation \<Rightarrow> bytes list \<Rightarrow> refcount list \<Rightarrow> ('db data_store \<times> unit res) option" where
  "ds_write s K st a buffers refcounts =
     (case allocate_files s st (alloc_offset a) (alloc_size a) of
        None \<Rightarrow> None
      | Some (st1, Inl e) \<Rightarrow> Some (st1, Inl e)
      | Some (st1, Inr _) \<Rightarrow>
          if fold (\<lambda>v acc. add64 acc (length v)) buffers 0 \<noteq> alloc_size a then Some (st1, Inl Runtime_error)
          else (case write_buffers s buffers st1 (alloc_offset a) [] of
                  None \<Rightarrow> None
                | Some (st2, Inl e) \<Rightarrow> Some (st2, Inl e)
                | Some (st2, Inr dirty) \<Rightarrow>
                    let st3 = st2\<lparr>m_used_space := add64 (m_used_space st2) (alloc_size a),
                                  m_write_offset := max (m_write_offset st2) (add64 (alloc_offset a) (alloc_size a))\<rparr>
                    in (case ds_sync s dirty st3 of
                          None \<Rightarrow> None
                        | Some (st4, Inl e) \<Rightarrow> Some (st4, Inl e)
                        | Some (st4, Inr _) \<Rightarrow>
                            Some (st4\<lparr>m_db := fst (rc_increment K (m_db st4) refcounts False)\<rparr>, Inr ()))))"

subsection \<open>Allocation, linking and deletion\<close>

definition aligned_start :: "size_t \<Rightarrow> size_t \<Rightarrow> size_t" where
  "aligned_start current_offset alignment =
     (if current_offset mod alignment \<noteq> 0
      then add64 current_offset (alignment - current_offset mod alignment) else current_offset)"

definition ds_allocate :: "'db data_store \<Rightarrow> size_t \<Rightarrow> size_t \<Rightarrow> 'db data_store \<times> allocation res" where
  "ds_allocate st n alignment =
     (if alignment = 0 then (st, Inl Invalid_argument)
      else if n = 0 then (st, Inl Invalid_argument)
      else let allocation_start = aligned_start (m_write_offset st) alignment
           in if sub64 (max_data_store_size (m_conf st)) allocation_start < n then (st, Inl Runtime_error)
              else (st\<lparr>m_write_offset := add64 allocation_start n\<rparr>,
                    Inr \<lparr>alloc_offset = allocation_start, alloc_size = n\<rparr>))"

function release_loop :: "os \<Rightarrow> 'db data_store \<Rightarrow> size_t \<Rightarrow> size_t \<Rightarrow> size_t \<Rightarrow> 'db data_store \<times> size_t res" where
  "release_loop s st offset adjusted_size bytes_released =
     (if bytes_released < adjusted_size then
        (case file_location st (add64 offset bytes_released) of
           Inl e \<Rightarrow> (st, Inl e)
         | Inr (i, off) \<Rightarrow>
             (case data_file_release s (m_files st ! i) off (adjusted_size - bytes_released) of
                (f, Inl e) \<Rightarrow> (st\<lparr>m_files := (m_files st)[i := f]\<rparr>, Inl e)
              | (f, Inr cnt) \<Rightarrow>
                  if cnt = 0 then (st\<lparr>m_files := (m_files st)[i := f]\<rparr>, Inr bytes_released)
                  else release_loop s (st\<lparr>m_files := (m_files st)[i := f]\<rparr>) offset adjusted_size
                         (bytes_released + cnt)))
      else (st, Inr bytes_released))"
  by pat_completeness auto
termination
  by (relation "measure (\<lambda>(s, st, offset, adjusted, released). adjusted - released)") auto

declare release_loop.simps [simp del]

definition internal_delete :: "os \<Rightarrow> 'db data_store \<Rightarrow> size_t \<Rightarrow> size_t \<Rightarrow> 'db data_store \<times> size_t res" where
  "internal_delete s st offset n =
     (if offset \<ge> m_write_offset st then (st, Inl Out_of_range)
      else let adjusted_size = min n (m_write_offset st - offset)
           in case release_loop s st offset adjusted_size 0 of
                (st', Inl e) \<Rightarrow> (st', Inl e)
              | (st', Inr bytes_released) \<Rightarrow>
                  (st'\<lparr>m_used_space := sub64 (m_used_space st') bytes_released\<rparr>, Inr bytes_released))"

definition ds_link :: "'db kv \<Rightarrow> 'db data_store \<Rightarrow> refcount list \<Rightarrow> 'db data_store \<times> refcount list" where
  "ds_link K st refcounts =
     (case rc_increment K (m_db st) refcounts True of (db, rv) \<Rightarrow> (st\<lparr>m_db := db\<rparr>, rv))"

definition ds_unlink :: "os \<Rightarrow> 'db kv \<Rightarrow> 'db data_store \<Rightarrow> refcount list \<Rightarrow> 'db data_store \<times> size_t res" where
  "ds_unlink s K st refcounts =
     (case rc_decrement K (internal_delete s) (page_size (m_conf st)) (m_db st) st refcounts of
        (db, st', r) \<Rightarrow> (st'\<lparr>m_db := db\<rparr>, r))"

definition ds_get_refcounts :: "'db kv \<Rightarrow> 'db data_store \<Rightarrow> size_t list \<Rightarrow> refcount list" where
  "ds_get_refcounts K st stripe_ids = rc_get_refcounts K (m_db st) stripe_ids"

definition get_used_space :: "'db data_store \<Rightarrow> size_t" where
  "get_used_space st = m_used_space st"

text \<open>The free space of the file system is \<open>None\<close> when the query throws.\<close>

definition get_available_space :: "'db data_store \<Rightarrow> size_t option \<Rightarrow> size_t" where
  "get_available_space st space =
     (let capacity = sub64 (max_data_store_size (m_conf st)) (m_used_space st)
      in case space of None \<Rightarrow> capacity | Some available \<Rightarrow> min available capacity)"

definition get_write_offset :: "'db data_store \<Rightarrow> size_t" where
  "get_write_offset st = m_write_offset st"

definition set_write_offset :: "'db data_store \<Rightarrow> size_t \<Rightarrow> 'db data_store" where
  "set_write_offset st val = st\<lparr>m_write_offset := val\<rparr>"

text \<open>The destructor synchronises every file and goes on after a failure.\<close>

fun sync_all :: "os \<Rightarrow> data_file list \<Rightarrow> data_file list option" where
  "sync_all s [] = Some []"
| "sync_all s (f # fs) =
     (case data_file_sync s f of
        None \<Rightarrow> None
      | Some (f', _) \<Rightarrow> map_option ((#) f') (sync_all s fs))"

subsection \<open>The linear content and its invariant\<close>

definition ds_bytes :: "'db data_store \<Rightarrow> bytes" where
  "ds_bytes st = concat (map df_data (m_files st))"

definition ds_inv :: "'db data_store \<Rightarrow> bool" where
  "ds_inv st \<longleftrightarrow> 0 < ds_filesize st \<and> list_all (\<lambda>f. wf_data_file f \<and> m_filesize f = ds_filesize st) (m_files st)
    \<and> length (m_files st) * ds_filesize st < M64 \<and> length (m_meta st) = 16
    \<and> (\<forall>i\<ge>length (m_files st). m_dir st (base_name i @ ''.data'') = None)"

text \<open>What reading and writing data leaves unchanged.\<close>

definition ds_frame :: "'db data_store \<Rightarrow> 'db data_store \<Rightarrow> bool" where
  "ds_frame st st' \<longleftrightarrow> m_conf st' = m_conf st \<and> m_write_offset st' = m_write_offset st
    \<and> m_used_space st' = m_used_space st \<and> m_db st' = m_db st"

lemma ds_frame_refl [simp]: "ds_frame st st"
  by (simp add: ds_frame_def)

lemma ds_frame_trans: "ds_frame a b \<Longrightarrow> ds_frame b c \<Longrightarrow> ds_frame a c"
  by (simp add: ds_frame_def)

lemma ds_blocks: "ds_inv st \<Longrightarrow> \<forall>b\<in>set (map df_data (m_files st)). length b = ds_filesize st"
  by (auto simp: ds_inv_def list_all_iff wf_data_file_def)

lemma length_ds_bytes: "ds_inv st \<Longrightarrow> length (ds_bytes st) = length (m_files st) * ds_filesize st"
  using length_concat_blocks [OF ds_blocks] by (simp add: ds_bytes_def)

lemma length_ds_bytes_less: "ds_inv st \<Longrightarrow> length (ds_bytes st) < M64"
  by (simp add: length_ds_bytes) (simp add: ds_inv_def)

lemma ds_file:
  assumes "ds_inv st" and "i < length (m_files st)"
  shows "wf_data_file (m_files st ! i)" and "m_filesize (m_files st ! i) = ds_filesize st"
    and "length (df_data (m_files st ! i)) = ds_filesize st"
proof -
  have "m_files st ! i \<in> set (m_files st)" using assms(2) by simp
  then show "wf_data_file (m_files st ! i)" "m_filesize (m_files st ! i) = ds_filesize st"
    "length (df_data (m_files st ! i)) = ds_filesize st"
    using assms(1) by (auto simp: ds_inv_def list_all_iff wf_data_file_def)
qed

lemma file_location_ok:
  assumes "ds_inv st" and "ptr < length (ds_bytes st)"
  shows "file_location st ptr = Inr (ptr div ds_filesize st, ptr mod ds_filesize st)"
    and "ptr div ds_filesize st < length (m_files st)" and "ptr mod ds_filesize st < ds_filesize st"
proof -
  have fs: "0 < ds_filesize st" using assms(1) by (simp add: ds_inv_def)
  show i: "ptr div ds_filesize st < length (m_files st)"
    using assms fs by (simp add: length_ds_bytes less_mult_imp_div_less)
  then show "file_location st ptr = Inr (ptr div ds_filesize st, ptr mod ds_filesize st)"
    by (simp add: file_location_def Let_def)
  show "ptr mod ds_filesize st < ds_filesize st" using fs by simp
qed

lemma file_location_beyond:
  "ds_inv st \<Longrightarrow> length (ds_bytes st) \<le> ptr \<Longrightarrow> file_location st ptr = Inl Out_of_range"
  using div_le_mono [of "length (ds_bytes st)" ptr "ds_filesize st"]
  by (simp add: length_ds_bytes file_location_def ds_inv_def Let_def)

lemma slice_ds_bytes:
  assumes "ds_inv st" and "ptr < length (ds_bytes st)" and "ptr mod ds_filesize st + k \<le> ds_filesize st"
  shows "slice ptr k (ds_bytes st) =
    slice (ptr mod ds_filesize st) k (df_data (m_files st ! (ptr div ds_filesize st)))"
  using slice_concat_block [OF ds_blocks [OF assms(1)], of "ptr div ds_filesize st" "ptr mod ds_filesize st" k]
    file_location_ok(2) [OF assms(1,2)] assms(3)
  by (simp add: ds_bytes_def)

lemma ds_update_file:
  assumes "ds_inv st" and "i < length (m_files st)" and "off + length bs \<le> ds_filesize st"
    and "wf_data_file f" and "m_filesize f = ds_filesize st"
    and "df_data f = overwrite off bs (df_data (m_files st ! i))"
  shows "ds_inv (st\<lparr>m_files := (m_files st)[i := f]\<rparr>)"
    and "ds_bytes (st\<lparr>m_files := (m_files st)[i := f]\<rparr>) = overwrite (i * ds_filesize st + off) bs (ds_bytes st)"
proof -
  show "ds_inv (st\<lparr>m_files := (m_files st)[i := f]\<rparr>)"
    using assms(1,4,5) by (auto simp: ds_inv_def list_all_iff dest: subsetD [OF set_update_subset_insert])
  show "ds_bytes (st\<lparr>m_files := (m_files st)[i := f]\<rparr>) = overwrite (i * ds_filesize st + off) bs (ds_bytes st)"
    using overwrite_concat_block [OF ds_blocks [OF assms(1)], of i off bs] assms(2,3,6)
    by (simp add: ds_bytes_def map_update)
qed

lemma ds_read_loop_ok:
  assumes "os_ok s" and "ds_inv st"
  shows "length acc \<le> n \<Longrightarrow> ptr + (n - length acc) \<le> length (ds_bytes st) \<Longrightarrow>
    ds_read_loop s st ptr n acc = Some (Inr (acc @ slice ptr (n - length acc) (ds_bytes st)))"
proof (induction "n - length acc" arbitrary: acc ptr rule: less_induct)
  case less
  show ?case
  proof (cases "length acc < n")
    case False
    then show ?thesis using less(2) by (subst ds_read_loop.simps) simp
  next
    case True
    then have p: "ptr < length (ds_bytes st)" using less(3) by simp
    note loc = file_location_ok [OF assms(2) p]
    let ?fs = "ds_filesize st" and ?i = "ptr div ds_filesize st" and ?off = "ptr mod ds_filesize st"
    define m where "m = min (?fs - ?off) (n - length acc)"
    let ?bs = "slice ptr m (ds_bytes st)"
    have m: "?off + m \<le> ?fs" "0 < m" "m \<le> n - length acc" using loc(3) True by (auto simp: m_def)
    have r: "data_file_read s (m_files st ! ?i) ?off (n - length acc) = Some (Inr ?bs)"
      using data_file_read_ok [OF assms(1) ds_file(1) [OF assms(2) loc(2)], of ?off] loc(3)
        slice_ds_bytes [OF assms(2) p m(1)] by (simp add: ds_file(2) [OF assms(2) loc(2)] m_def)
    have len: "length ?bs = m" using less(3) m(3) by (simp add: length_slice)
    have "?bs \<noteq> []" using len m(2) by (metis length_0_conv less_not_refl)
    moreover have "add64 ptr m = ptr + m"
      using less(3) m(3) length_ds_bytes_less [OF assms(2)] by (intro add64_eq) linarith
    moreover have "ds_read_loop s st (ptr + m) n (acc @ ?bs) =
        Some (Inr ((acc @ ?bs) @ slice (ptr + m) (n - length (acc @ ?bs)) (ds_bytes st)))"
      by (rule less(1)) (use True m len less(3) in auto)
    moreover have "?bs @ slice (ptr + m) (n - length (acc @ ?bs)) (ds_bytes st) =
        slice ptr (n - length acc) (ds_bytes st)"
    proof -
      have "m + (n - (length acc + m)) = n - length acc" using m(3) True by linarith
      then show ?thesis using len slice_append [of ptr m "n - (length acc + m)" "ds_bytes st"] by simp
    qed
    ultimately show ?thesis
      using True loc(1) r len by (subst ds_read_loop.simps) simp
  qed
qed

lemma ds_read_ok:
  assumes "os_ok s" and "ds_inv st" and "ptr + n \<le> length (ds_bytes st)"
  shows "ds_read s st ptr n = Some (Inr (slice ptr n (ds_bytes st)))"
  using ds_read_loop_ok [OF assms(1,2), of "[]" n ptr] assms(3) by (simp add: ds_read_def)

text \<open>Creating files extends the content with zeros.\<close>

lemma dec_val_zeros: "dec_val (replicate k (CHR ''0'') @ xs) 0 = dec_val xs 0"
  by (induction k) simp_all

lemma dec_val_base_name: "dec_val (drop 5 (base_name i)) 0 = i"
  by (simp add: base_name_def dec_val_zeros)

lemma base_name_inj: "base_name i = base_name j \<Longrightarrow> i = j"
  by (metis dec_val_base_name)

lemma create_files_ok:
  assumes "os_ok s"
  shows "ds_inv st \<Longrightarrow> (length (m_files st) + k) * ds_filesize st < M64 \<Longrightarrow>
    \<exists>st'. create_files s k st = Some (st', Inr ()) \<and> ds_inv st' \<and> ds_frame st st'
      \<and> ds_bytes st' = ds_bytes st @ zero_bytes (k * ds_filesize st)"
proof (induction k arbitrary: st)
  case 0
  then show ?case by (simp add: zero_bytes_def)
next
  case (Suc k)
  let ?n = "length (m_files st)" and ?fs = "ds_filesize st"
  have fs: "0 < ?fs" using Suc.prems(1) by (simp add: ds_inv_def)
  have "?fs * 1 \<le> ?fs * (?n + Suc k)" by (intro mult_le_mono2) simp
  then have fm: "?fs < M64" using Suc.prems(2) by (simp add: mult.commute)
  define f where "f = \<lparr>m_path = base_name ?n, df_data = zero_bytes ?fs, df_meta = metadata_bytes 0 ?fs,
    m_used = 0, m_filesize = ?fs\<rparr>"
  define dir where "dir = (m_dir st)(base_name ?n @ ''.data'' \<mapsto> zero_bytes ?fs,
    base_name ?n @ ''.meta'' \<mapsto> metadata_bytes 0 ?fs)"
  have c: "data_file_create s (m_dir st) (base_name ?n) ?fs = Some (dir, Inr f)"
    using data_file_create_ok [OF assms _ fm, of "m_dir st" "base_name ?n"] Suc.prems(1)
    by (simp add: dir_def f_def ds_inv_def)
  let ?st = "st\<lparr>m_dir := dir, m_files := m_files st @ [f]\<rparr>"
  have "dir (base_name i @ ''.data'') = None" if "Suc ?n \<le> i" for i
    using that Suc.prems(1) base_name_inj [of i ?n] by (auto simp: dir_def ds_inv_def)
  moreover have "(?n + 1) * ?fs \<le> (?n + Suc k) * ?fs" by (intro mult_le_mono1) simp
  then have "(?n + 1) * ?fs < M64" using Suc.prems(2) by linarith
  ultimately have inv: "ds_inv ?st"
    using Suc.prems fs fm by (auto simp: ds_inv_def f_def wf_data_file_def)
  have le: "(length (m_files ?st) + k) * ds_filesize ?st < M64" using Suc.prems(2) by simp
  have bs: "ds_bytes ?st = ds_bytes st @ zero_bytes ?fs" by (simp add: ds_bytes_def f_def)
  from Suc.IH [OF inv le] obtain st' where st': "create_files s k ?st = Some (st', Inr ())" "ds_inv st'"
    "ds_frame ?st st'" "ds_bytes st' = ds_bytes ?st @ zero_bytes (k * ?fs)" by auto
  have "zero_bytes ?fs @ zero_bytes (k * ?fs) = zero_bytes (Suc k * ?fs)"
    by (simp add: zero_bytes_def replicate_add)
  then show ?case using st' c bs by (auto simp: ds_frame_def)
qed

lemma allocate_files_ok:
  assumes "os_ok s" and "ds_inv st" and "off + n + ds_filesize st < M64"
  shows "\<exists>st' k. allocate_files s st off n = Some (st', Inr ()) \<and> ds_inv st' \<and> ds_frame st st'
      \<and> ds_bytes st' = ds_bytes st @ zero_bytes k \<and> off + n < length (ds_bytes st')"
proof -
  let ?fs = "ds_filesize st"
  let ?req = "(off + n) div ?fs + 1"
  have fs: "0 < ?fs" using assms(2) by (simp add: ds_inv_def)
  have "?req * ?fs \<le> off + n + ?fs" by simp
  then have "?req * ?fs < M64" using assms(3) by linarith
  moreover have "length (m_files st) * ?fs < M64" using assms(2) by (simp add: ds_inv_def)
  ultimately have "(length (m_files st) + (?req - length (m_files st))) * ?fs < M64"
    by (cases "length (m_files st) \<le> ?req") auto
  from create_files_ok [OF assms(1,2) this] obtain st' where
    st': "create_files s (?req - length (m_files st)) st = Some (st', Inr ())" "ds_inv st'" "ds_frame st st'"
    "ds_bytes st' = ds_bytes st @ zero_bytes ((?req - length (m_files st)) * ?fs)" by auto
  have "length (ds_bytes st') = (length (m_files st) + (?req - length (m_files st))) * ?fs"
    by (simp add: st'(4) length_ds_bytes [OF assms(2)] add_mult_distrib)
  also have "\<dots> \<ge> ?req * ?fs" by (intro mult_le_mono1) simp
  moreover have "off + n < ?req * ?fs"
    using fs by (metis add.commute dividend_less_div_times mult_Suc Suc_eq_plus1)
  ultimately have "off + n < length (ds_bytes st')" by linarith
  then show ?thesis
    using st' assms(3) by (auto simp: allocate_files_def Let_def add64_eq)
qed

lemma write_buffer_loop_ok:
  assumes "os_ok s"
  shows "ds_inv st \<Longrightarrow> w \<le> length buf \<Longrightarrow> ptr + (length buf - w) < length (ds_bytes st) \<Longrightarrow>
    set dirty \<subseteq> {..<length (m_files st)} \<Longrightarrow>
    \<exists>st' dirty'. write_buffer_loop s buf w st ptr dirty = Some (st', Inr (ptr + (length buf - w), dirty'))
      \<and> ds_inv st' \<and> ds_frame st st' \<and> ds_bytes st' = overwrite ptr (drop w buf) (ds_bytes st)
      \<and> set dirty' \<subseteq> {..<length (m_files st')} \<and> length (m_files st') = length (m_files st)"
proof (induction "length buf - w" arbitrary: w st ptr dirty rule: less_induct)
  case less
  note inv = less(2)
  show ?case
  proof (cases "w < length buf")
    case False
    then show ?thesis using less by (subst write_buffer_loop.simps) simp
  next
    case True
    then have p: "ptr < length (ds_bytes st)" using less(4) by simp
    note loc = file_location_ok [OF inv p]
    let ?fs = "ds_filesize st" and ?i = "ptr div ds_filesize st" and ?off = "ptr mod ds_filesize st"
    let ?f = "m_files st ! ?i"
    define m where "m = min (?fs - ?off) (length buf - w)"
    have m: "?off + m \<le> ?fs" "0 < m" "m \<le> length buf - w" using loc(3) True by (auto simp: m_def)
    define bs where "bs = take m (drop w buf)"
    have lb: "length bs = m" using m(3) by (simp add: bs_def)
    define f' where "f' = ?f\<lparr>m_used := add64 (m_used ?f) m, df_data := overwrite ?off bs (df_data ?f)\<rparr>"
    have wr: "data_file_write s ?f ?off (drop w buf) = Some (f', Inr m)"
      using data_file_write_ok [OF assms ds_file(1) [OF inv loc(2)], of ?off m "drop w buf"] loc(3)
      by (simp add: ds_file(2) [OF inv loc(2)] m_def [symmetric] f'_def bs_def)
    have wf: "wf_data_file f'" "m_filesize f' = ?fs"
      using wf_data_file_update [OF ds_file(1) [OF inv loc(2)], of ?off bs] ds_file(2) [OF inv loc(2)] lb m(1)
      by (simp_all add: f'_def)
    define st1 where "st1 = st\<lparr>m_files := (m_files st)[?i := f']\<rparr>"
    have up: "ds_inv st1" "ds_bytes st1 = overwrite ptr bs (ds_bytes st)"
      using ds_update_file [OF inv loc(2) _ wf, of ?off bs] lb m(1) by (simp_all add: st1_def f'_def)
    have len: "length (ds_bytes st1) = length (ds_bytes st)"
      using up(2) less(4) lb m(3) by (simp add: length_overwrite)
    have a: "add64 ptr m = ptr + m"
      using less(4) m(3) length_ds_bytes_less [OF inv] by (intro add64_eq) linarith
    have fr: "ds_frame st st1" "length (m_files st1) = length (m_files st)"
      by (simp_all add: st1_def ds_frame_def)
    have "\<exists>st' dirty'. write_buffer_loop s buf (w + m) st1 (ptr + m) (dirty @ [?i]) =
        Some (st', Inr (ptr + m + (length buf - (w + m)), dirty'))
      \<and> ds_inv st' \<and> ds_frame st1 st' \<and> ds_bytes st' = overwrite (ptr + m) (drop (w + m) buf) (ds_bytes st1)
      \<and> set dirty' \<subseteq> {..<length (m_files st')} \<and> length (m_files st') = length (m_files st1)"
      by (rule less(1)) (use up(1) True m less(4,5) len loc(2) fr(2) in auto)
    then obtain st' dirty' where st': "write_buffer_loop s buf (w + m) st1 (ptr + m) (dirty @ [?i]) =
        Some (st', Inr (ptr + m + (length buf - (w + m)), dirty'))"
      "ds_inv st'" "ds_frame st1 st'" "ds_bytes st' = overwrite (ptr + m) (drop (w + m) buf) (ds_bytes st1)"
      "set dirty' \<subseteq> {..<length (m_files st')}" "length (m_files st') = length (m_files st1)" by blast
    have dr: "drop w buf = bs @ drop (w + m) buf"
      using append_take_drop_id [of m "drop w buf"] by (simp add: bs_def add.commute)
    have "ds_bytes st' = overwrite ptr (drop w buf) (ds_bytes st)"
      unfolding st'(4) up(2) dr using overwrite_overwrite_append [of ptr bs "drop (w + m) buf" "ds_bytes st"] lb less(4) m(3)
      by simp
    moreover have "write_buffer_loop s buf w st ptr dirty = Some (st', Inr (ptr + (length buf - w), dirty'))"
      using True loc(1) wr m a st'(1) by (subst write_buffer_loop.simps) (simp add: st1_def)
    ultimately show ?thesis using st' fr(2) ds_frame_trans [OF fr(1) st'(3)] by auto
  qed
qed

lemma write_buffers_ok:
  assumes "os_ok s"
  shows "ds_inv st \<Longrightarrow> ptr + length (concat bufs) < length (ds_bytes st) \<Longrightarrow>
    set dirty \<subseteq> {..<length (m_files st)} \<Longrightarrow>
    \<exists>st' dirty'. write_buffers s bufs st ptr dirty = Some (st', Inr dirty') \<and> ds_inv st' \<and> ds_frame st st'
      \<and> ds_bytes st' = overwrite ptr (concat bufs) (ds_bytes st)
      \<and> set dirty' \<subseteq> {..<length (m_files st')}"
proof (induction bufs arbitrary: st ptr dirty)
  case (Cons b bs)
  from write_buffer_loop_ok [OF assms Cons.prems(1), of 0 b ptr dirty] Cons.prems
  obtain st1 dirty1 where st1: "write_buffer_loop s b 0 st ptr dirty = Some (st1, Inr (ptr + length b, dirty1))"
    "ds_inv st1" "ds_frame st st1" "ds_bytes st1 = overwrite ptr b (ds_bytes st)"
    "set dirty1 \<subseteq> {..<length (m_files st1)}" by auto
  have len: "length (ds_bytes st1) = length (ds_bytes st)"
    using st1(4) Cons.prems(2) by (simp add: length_overwrite)
  from Cons.IH [OF st1(2) _ st1(5), of "ptr + length b"] len Cons.prems(2)
  obtain st' dirty' where st': "write_buffers s bs st1 (ptr + length b) dirty1 = Some (st', Inr dirty')"
    "ds_inv st'" "ds_frame st1 st'" "ds_bytes st' = overwrite (ptr + length b) (concat bs) (ds_bytes st1)"
    "set dirty' \<subseteq> {..<length (m_files st')}" by auto
  have "ds_bytes st' = overwrite ptr (concat (b # bs)) (ds_bytes st)"
    using st'(4) st1(4) Cons.prems(2) overwrite_overwrite_append [of ptr b "concat bs" "ds_bytes st"] by simp
  then show ?case using st1 st' ds_frame_trans [OF st1(3) st'(3)] by simp
qed simp

lemma ds_sync_ok:
  assumes "os_ok s"
  shows "ds_inv st \<Longrightarrow> set is \<subseteq> {..<length (m_files st)} \<Longrightarrow>
    \<exists>st'. ds_sync s is st = Some (st', Inr ()) \<and> ds_inv st' \<and> ds_frame st st' \<and> ds_bytes st' = ds_bytes st
      \<and> m_meta st' = metadata_bytes (m_write_offset st) (m_used_space st)"
proof (induction "is" arbitrary: st)
  case Nil
  have "safe_pwrite s (m_meta st) (metadata_bytes (m_write_offset st) (m_used_space st)) 0 =
      Some (metadata_bytes (m_write_offset st) (m_used_space st), Inr 16)"
    using Nil assms by (subst safe_pwrite_ok) (auto simp: ds_inv_def M64_def overwrite_whole)
  then show ?case
    using Nil assms by (simp add: ds_write_metadata_def os_ok_def ds_inv_def ds_frame_def ds_bytes_def)
next
  case (Cons i js)
  have i: "i < length (m_files st)" using Cons.prems(2) by simp
  let ?f = "m_files st ! i"
  let ?f' = "?f\<lparr>df_meta := metadata_bytes (m_used ?f) (m_filesize ?f)\<rparr>"
  have sy: "data_file_sync s ?f = Some (?f', Inr ())"
    by (rule data_file_sync_ok [OF assms ds_file(1) [OF Cons.prems(1) i]])
  have wf: "wf_data_file ?f'" "m_filesize ?f' = ds_filesize st"
    using ds_file [OF Cons.prems(1) i] by (simp_all add: wf_data_file_def)
  let ?st = "st\<lparr>m_files := (m_files st)[i := ?f']\<rparr>"
  have up: "ds_inv ?st" "ds_bytes ?st = ds_bytes st"
    using ds_update_file [OF Cons.prems(1) i _ wf, of 0 "[]"] by simp_all
  from Cons.IH [OF up(1)] Cons.prems(2) sy up(2) show ?case by (auto simp: ds_frame_def)
qed

lemma fold_length_sum:
  "n < M64 \<Longrightarrow> fold (\<lambda>v acc. add64 acc (length v)) bs n = (n + length (concat bs)) mod M64"
  by (induction bs arbitrary: n) (simp_all add: add64_def mod_simps add.assoc)

lemma ds_write_ok:
  assumes "os_ok s" and "ds_inv st" and "off + length (concat bufs) + ds_filesize st < M64"
  shows "\<exists>st' k. ds_write s K st \<lparr>alloc_offset = off, alloc_size = length (concat bufs)\<rparr> bufs rs = Some (st', Inr ())
    \<and> ds_inv st' \<and> ds_bytes st' = overwrite off (concat bufs) (ds_bytes st @ zero_bytes k)
    \<and> off + length (concat bufs) < length (ds_bytes st @ zero_bytes k) \<and> m_conf st' = m_conf st
    \<and> m_write_offset st' = max (m_write_offset st) (off + length (concat bufs))
    \<and> m_used_space st' = add64 (m_used_space st) (length (concat bufs))
    \<and> m_db st' = fst (rc_increment K (m_db st) rs False)"
proof -
  let ?n = "length (concat bufs)"
  obtain st1 k where st1: "allocate_files s st off ?n = Some (st1, Inr ())" "ds_inv st1" "ds_frame st st1"
    "ds_bytes st1 = ds_bytes st @ zero_bytes k" "off + ?n < length (ds_bytes st1)"
    using allocate_files_ok [OF assms] by blast
  obtain st2 dirty where st2: "write_buffers s bufs st1 off [] = Some (st2, Inr dirty)" "ds_inv st2" "ds_frame st1 st2"
    "ds_bytes st2 = overwrite off (concat bufs) (ds_bytes st1)" "set dirty \<subseteq> {..<length (m_files st2)}"
    using write_buffers_ok [OF assms(1) st1(2,5), of "[]"] by auto
  define st3 where "st3 = st2\<lparr>m_used_space := add64 (m_used_space st2) ?n,
    m_write_offset := max (m_write_offset st2) (off + ?n)\<rparr>"
  have st3: "ds_inv st3" "ds_bytes st3 = ds_bytes st2" "m_files st3 = m_files st2"
    using st2(2) by (simp_all add: st3_def ds_inv_def ds_bytes_def)
  obtain st4 where st4: "ds_sync s dirty st3 = Some (st4, Inr ())" "ds_inv st4" "ds_frame st3 st4"
    "ds_bytes st4 = ds_bytes st3"
    using ds_sync_ok [OF assms(1) st3(1)] st2(5) st3(3) by auto
  have nm: "?n < M64" using assms(3) by linarith
  have "ds_write s K st \<lparr>alloc_offset = off, alloc_size = ?n\<rparr> bufs rs =
      Some (st4\<lparr>m_db := fst (rc_increment K (m_db st4) rs False)\<rparr>, Inr ())"
    using st1(1) st2(1) st4(1) assms(3) nm
    by (simp add: ds_write_def Let_def fold_length_sum add64_eq st3_def)
  moreover have "ds_inv (st4\<lparr>m_db := x\<rparr>)" "ds_bytes (st4\<lparr>m_db := x\<rparr>) = ds_bytes st4" for x
    using st4(2) by (simp_all add: ds_inv_def ds_bytes_def)
  ultimately show ?thesis
    using st1(3-5) st2(3,4) st3(2) st4(3,4) by (auto simp: ds_frame_def st3_def)
qed

text \<open>
  C5: On a working device a write whose buffers fill the allocation succeeds; afterwards the
  allocation reads back as the concatenation of the buffers, every other range that existed
  before reads as before, and the write offset, the used space and the reference counters
  record the write.
\<close>

theorem ds_write_read:
  assumes "os_ok s" and "ds_inv st" and "off + length (concat bufs) + ds_filesize st < M64"
  shows "\<exists>st'. ds_write s K st \<lparr>alloc_offset = off, alloc_size = length (concat bufs)\<rparr> bufs rs = Some (st', Inr ())
    \<and> ds_inv st' \<and> ds_read s st' off (length (concat bufs)) = Some (Inr (concat bufs))
    \<and> (\<forall>p k. p + k \<le> length (ds_bytes st) \<and> (p + k \<le> off \<or> off + length (concat bufs) \<le> p) \<longrightarrow>
          ds_read s st' p k = ds_read s st p k)
    \<and> m_write_offset st' = max (m_write_offset st) (off + length (concat bufs))
    \<and> m_used_space st' = add64 (m_used_space st) (length (concat bufs))
    \<and> m_db st' = fst (rc_increment K (m_db st) rs False)"
proof -
  let ?n = "length (concat bufs)"
  obtain st' k where st': "ds_write s K st \<lparr>alloc_offset = off, alloc_size = ?n\<rparr> bufs rs = Some (st', Inr ())"
    "ds_inv st'" "ds_bytes st' = overwrite off (concat bufs) (ds_bytes st @ zero_bytes k)"
    "off + ?n < length (ds_bytes st @ zero_bytes k)"
    and rest: "m_write_offset st' = max (m_write_offset st) (off + ?n)
      \<and> m_used_space st' = add64 (m_used_space st) ?n \<and> m_db st' = fst (rc_increment K (m_db st) rs False)"
    using ds_write_ok [OF assms] by blast
  have len: "length (ds_bytes st') = length (ds_bytes st) + k"
    using st'(3,4) by (simp add: length_overwrite)
  have "ds_read s st' off ?n = Some (Inr (concat bufs))"
    using ds_read_ok [OF assms(1) st'(2), of off ?n] st'(3,4) len by (simp add: slice_overwrite_same)
  moreover have "ds_read s st' p k' = ds_read s st p k'"
    if "p + k' \<le> length (ds_bytes st)" and "p + k' \<le> off \<or> off + ?n \<le> p" for p k'
  proof -
    have "slice p k' (ds_bytes st') = slice p k' (ds_bytes st @ zero_bytes k)"
      unfolding st'(3) using that st'(4) by (intro slice_overwrite_disjoint) auto
    also have "\<dots> = slice p k' (ds_bytes st)" using that(1) by (simp add: slice_def)
    finally show ?thesis
      using ds_read_ok [OF assms(1,2) that(1)] ds_read_ok [OF assms(1) st'(2), of p k'] that(1) len by simp
  qed
  ultimately show ?thesis using st'(1,2) rest by blast
qed

text \<open>A store with one file of eight bytes.\<close>

definition sample_store :: "(size_t \<Rightarrow> size_t option) data_store" where
  "sample_store = \<lparr>m_conf = \<lparr>max_file_size = 8, max_data_store_size = 1024, page_size = 4\<rparr>,
     m_files = [\<lparr>m_path = base_name 0, df_data = ''abcdefgh'', df_meta = metadata_bytes 8 8, m_used = 8, m_filesize = 8\<rparr>],
     m_dir = [base_name 0 @ ''.data'' \<mapsto> ''abcdefgh''], m_meta = metadata_bytes 8 8,
     m_write_offset = 8, m_used_space = 8, m_db = [0 \<mapsto> 1, 1 \<mapsto> 2]\<rparr>"

lemma sample_store_inv [simp]: "ds_inv sample_store"
proof -
  have "base_name i \<noteq> base_name 0" if "Suc 0 \<le> i" for i using that base_name_inj [of i 0] by auto
  then show ?thesis
    by (auto simp: ds_inv_def sample_store_def wf_data_file_def M64_def)
qed

theorem ds_write_read_witness:
  "\<exists>st'. ds_write slow_os map_kv sample_store \<lparr>alloc_offset = 8, alloc_size = 10\<rparr> [''0123'', ''456789''] [] = Some (st', Inr ())
    \<and> ds_read slow_os st' 8 10 = Some (Inr ''0123456789'')
    \<and> ds_read slow_os st' 2 3 = ds_read slow_os sample_store 2 3"
proof -
  have l: "length ''0123456789'' = 10" and c: "concat [''0123'', ''456789''] = ''0123456789''"
    by simp_all
  have "8 + length (concat [''0123'', ''456789'']) + ds_filesize sample_store < M64"
    by (simp add: sample_store_def M64_def)
  from ds_write_read [OF slow_os_ok sample_store_inv this, of map_kv "[]", unfolded c l] obtain st' where
    "ds_write slow_os map_kv sample_store \<lparr>alloc_offset = 8, alloc_size = 10\<rparr> [''0123'', ''456789''] [] = Some (st', Inr ())"
    "ds_read slow_os st' 8 10 = Some (Inr ''0123456789'')"
    "\<forall>p k. p + k \<le> length (ds_bytes sample_store) \<and> (p + k \<le> 8 \<or> 18 \<le> p) \<longrightarrow>
       ds_read slow_os st' p k = ds_read slow_os sample_store p k"
    by auto
  moreover have "length (ds_bytes sample_store) = 8" by (simp add: ds_bytes_def sample_store_def)
  ultimately show ?thesis by auto
qed

subsection \<open>Deleting pages\<close>

lemma data_file_release_frame:
  assumes "data_file_release s f off n = (f', r)" and "wf_data_file f" and "off < m_filesize f"
  shows "wf_data_file f' \<and> m_filesize f' = m_filesize f \<and>
    (\<exists>bs. df_data f' = overwrite off bs (df_data f) \<and> off + length bs \<le> m_filesize f
      \<and> (\<forall>c. r = Inr c \<longrightarrow> length bs = c) \<and> length bs \<le> n)"
proof -
  let ?c = "min (m_filesize f - off) n"
  have c: "sub64 (m_filesize f) off = m_filesize f - off" using assms by (simp add: sub64_eq wf_data_file_def)
  show ?thesis
  proof (cases "?c = 0 \<or> \<not> os_fallocate s off ?c")
    case True
    then have "f' = f" "\<exists>e. r = Inl e" using assms(1) c by (auto simp: data_file_release_def Let_def)
    then show ?thesis using assms by (auto intro!: exI [of _ "[]"])
  next
    case False
    then have "f' = f\<lparr>df_data := overwrite off (zero_bytes ?c) (df_data f), m_used := sub64 (m_used f) ?c\<rparr>"
      "r = Inr ?c"
      using assms c by (auto simp: data_file_release_def Let_def wf_data_file_def min_def)
    then show ?thesis
      using assms(2,3) by (auto simp: wf_data_file_def length_overwrite intro!: exI [of _ "zero_bytes ?c"])
  qed
qed

lemma release_loop_frame:
  "release_loop s st offset adjusted released = (st', r) \<Longrightarrow> ds_inv st \<Longrightarrow> offset + adjusted < M64 \<Longrightarrow>
   ds_inv st' \<and> ds_frame st st' \<and> length (ds_bytes st') = length (ds_bytes st)
   \<and> (\<forall>p<length (ds_bytes st). p < offset + released \<or> offset + adjusted \<le> p \<longrightarrow> ds_bytes st' ! p = ds_bytes st ! p)"
proof (induction s st offset adjusted released rule: release_loop.induct)
  case (1 s st offset adjusted released)
  note inv = 1(3)
  show ?case
  proof (cases "released < adjusted \<and> offset + released < length (ds_bytes st)")
    case False
    have a: "released < adjusted \<Longrightarrow> add64 offset released = offset + released" using 1(4) by (simp add: add64_eq)
    have "st' = st"
      using False 1(2) a file_location_beyond [OF inv, of "offset + released"]
      by (subst (asm) release_loop.simps) (auto split: if_splits)
    then show ?thesis using inv by simp
  next
    case True
    let ?ptr = "offset + released" and ?fs = "ds_filesize st"
    let ?i = "?ptr div ?fs" and ?off = "?ptr mod ?fs"
    have a: "add64 offset released = ?ptr" using True 1(4) by (simp add: add64_eq)
    note loc = file_location_ok [OF inv, of ?ptr]
    have L: "file_location st (add64 offset released) = Inr (?i, ?off)" "?i < length (m_files st)" "?off < ?fs"
      using loc True a by auto
    obtain f' q where rel: "data_file_release s (m_files st ! ?i) ?off (adjusted - released) = (f', q)" by fastforce
    from data_file_release_frame [OF rel ds_file(1) [OF inv L(2)]] L(3) ds_file(2) [OF inv L(2)]
    obtain bs where bs: "wf_data_file f'" "m_filesize f' = ?fs" "df_data f' = overwrite ?off bs (df_data (m_files st ! ?i))"
      "?off + length bs \<le> ?fs" "\<forall>c. q = Inr c \<longrightarrow> length bs = c" "length bs \<le> adjusted - released" by auto
    let ?st = "st\<lparr>m_files := (m_files st)[?i := f']\<rparr>"
    have up: "ds_inv ?st" "ds_bytes ?st = overwrite ?ptr bs (ds_bytes st)"
      using ds_update_file [OF inv L(2) bs(4,1,2,3)] by simp_all
    have fit: "?ptr + length bs \<le> length (ds_bytes st)"
    proof -
      have "?i * ?fs + ?fs \<le> length (m_files st) * ?fs"
        using L(2) by (metis Suc_leI add.commute mult_Suc mult_le_mono1)
      then show ?thesis using bs(4) length_ds_bytes [OF inv] div_mult_mod_eq [of ?ptr ?fs] by linarith
    qed
    have len: "length (ds_bytes ?st) = length (ds_bytes st)" using up(2) fit by (simp add: length_overwrite)
    have same: "ds_bytes ?st ! p = ds_bytes st ! p"
      if "p < length (ds_bytes st)" "p < ?ptr \<or> ?ptr + length bs \<le> p" for p
      using that fit up(2) by (auto simp: nth_overwrite)
    have fr: "ds_frame st ?st" by (simp add: ds_frame_def)
    show ?thesis
    proof (cases "\<exists>c. q = Inr c \<and> c \<noteq> 0")
      case True
      then obtain c where c: "q = Inr c" "c \<noteq> 0" by blast
      have rec: "release_loop s ?st offset adjusted (released + c) = (st', r)"
        using 1(2) \<open>released < adjusted \<and> _\<close> L(1) rel c by (subst (asm) release_loop.simps) simp
      from 1(1) [OF _ L(1) refl rel [symmetric] c rec up(1)] 1(4) \<open>released < adjusted \<and> _\<close>
      have "ds_inv st' \<and> ds_frame ?st st' \<and> length (ds_bytes st') = length (ds_bytes ?st) \<and>
        (\<forall>p<length (ds_bytes ?st). p < offset + (released + c) \<or> offset + adjusted \<le> p \<longrightarrow> ds_bytes st' ! p = ds_bytes ?st ! p)"
        by simp
      then show ?thesis
        using len same bs(5,6) c ds_frame_trans [OF fr] \<open>released < adjusted \<and> _\<close> by auto
    next
      case False
      then have "st' = ?st"
        using 1(2) \<open>released < adjusted \<and> _\<close> L(1) rel
        by (subst (asm) release_loop.simps) (cases q, auto)
      then show ?thesis using up(1) fr len same bs(6) \<open>released < adjusted \<and> _\<close> by auto
    qed
  qed
qed

lemma internal_delete_frame:
  assumes "internal_delete s st off n = (st', r)" and "ds_inv st" and "off + n < M64"
  shows "ds_inv st' \<and> m_conf st' = m_conf st \<and> m_write_offset st' = m_write_offset st \<and> m_db st' = m_db st
    \<and> length (ds_bytes st') = length (ds_bytes st)
    \<and> (\<forall>p<length (ds_bytes st). p < off \<or> off + n \<le> p \<longrightarrow> ds_bytes st' ! p = ds_bytes st ! p)"
proof (cases "off \<ge> m_write_offset st")
  case True
  then show ?thesis using assms by (simp add: internal_delete_def)
next
  case False
  define adj where "adj = min n (m_write_offset st - off)"
  have adj: "adj \<le> n" by (simp add: adj_def)
  obtain st1 q where rl: "release_loop s st off adj 0 = (st1, q)" by fastforce
  have "off + adj < M64" using assms(3) adj by linarith
  note F = release_loop_frame [OF rl assms(2) this]
  have "\<exists>u. st' = st1\<lparr>m_used_space := u\<rparr>"
    using assms(1) False rl
    by (cases q) (auto simp: internal_delete_def Let_def adj_def [symmetric] intro: exI [of _ "m_used_space st1"])
  then have st': "ds_inv st'" "ds_bytes st' = ds_bytes st1" "m_conf st' = m_conf st1" "m_db st' = m_db st1"
    "m_write_offset st' = m_write_offset st1"
    using F by (auto simp: ds_inv_def ds_bytes_def)
  have "ds_bytes st1 ! p = ds_bytes st ! p" if "p < length (ds_bytes st)" "p < off \<or> off + n \<le> p" for p
  proof -
    have "p < off + 0 \<or> off + adj \<le> p" using that(2) adj by linarith
    then show ?thesis using F that(1) by blast
  qed
  then have same: "\<forall>p<length (ds_bytes st). p < off \<or> off + n \<le> p \<longrightarrow> ds_bytes st' ! p = ds_bytes st ! p"
    unfolding st'(2) by blast
  from F have "ds_frame st st1" and "length (ds_bytes st1) = length (ds_bytes st)" by blast+
  then have "m_conf st' = m_conf st" "m_write_offset st' = m_write_offset st" "m_db st' = m_db st"
    "length (ds_bytes st') = length (ds_bytes st)"
    unfolding st' ds_frame_def by simp_all
  with st'(1) same show ?thesis by (intro conjI)
qed

lemma page_outside_run:
  fixes p :: nat
  assumes "0 < ps" and "p div ps \<notin> {a..b}" and "a \<le> b"
  shows "p < a * ps \<or> a * ps + (b + 1 - a) * ps \<le> p"
proof (cases "p div ps < a")
  case True
  then have "p < a * ps" using assms(1) div_less_iff_less_mult by blast
  then show ?thesis by simp
next
  case False
  then have "b + 1 \<le> p div ps" using assms(2) by simp
  then have "(b + 1) * ps \<le> p" using assms(1) less_eq_div_iff_mult_less_eq by blast
  moreover have "a * ps + (b + 1 - a) * ps = (b + 1) * ps"
    using assms(3) by (simp flip: add_mult_distrib)
  ultimately show ?thesis by simp
qed

lemma free_pages_frame:
  fixes st :: "'db data_store"
  assumes "ds_inv st" and "0 < ps" and "\<forall>i\<in>set is. (i + 1) * ps < M64"
    and "free_stripes (internal_delete s) ps st is = (st', r)"
  shows "ds_inv st' \<and> m_conf st' = m_conf st \<and> length (ds_bytes st') = length (ds_bytes st)
    \<and> (\<forall>p<length (ds_bytes st). p div ps \<notin> set is \<longrightarrow> ds_bytes st' ! p = ds_bytes st ! p)"
proof -
  define P :: "'db data_store \<Rightarrow> bool" where "P = (\<lambda>st''. ds_inv st'' \<and> m_conf st'' = m_conf st \<and> length (ds_bytes st'') = length (ds_bytes st)
    \<and> (\<forall>p<length (ds_bytes st). p div ps \<notin> set is \<longrightarrow> ds_bytes st'' ! p = ds_bytes st ! p))"
  have step: "P (fst (internal_delete s st1 (a * ps) ((b + 1 - a) * ps)))"
    if "P st1" "a \<le> b" "{a..b} \<subseteq> set is" for st1 a b
  proof -
    obtain st2 q where d: "internal_delete s st1 (a * ps) ((b + 1 - a) * ps) = (st2, q)" by fastforce
    have e: "a * ps + (b + 1 - a) * ps = (b + 1) * ps"
      using that(2) by (simp flip: add_mult_distrib)
    have "b \<in> set is" using that(2,3) by auto
    then have m: "a * ps + (b + 1 - a) * ps < M64" unfolding e using assms(3) by blast
    have inv: "ds_inv st1" using that(1) by (simp add: P_def)
    have "ds_bytes st2 ! p = ds_bytes st ! p" if "p < length (ds_bytes st)" "p div ps \<notin> set is" for p
    proof -
      have "p div ps \<notin> {a..b}" using that(2) \<open>{a..b} \<subseteq> set is\<close> by blast
      then show ?thesis
        using internal_delete_frame [OF d inv m] page_outside_run [OF assms(2) _ \<open>a \<le> b\<close>, of p] that \<open>P st1\<close>
        by (auto simp: P_def)
    qed
    then show ?thesis using internal_delete_frame [OF d inv m] that(1) unfolding d fst_conv by (auto simp: P_def)
  qed
  have "P (fst (free_stripes (internal_delete s) ps st is))"
    by (rule free_stripes_keeps [where P = P and cb = "internal_delete s", OF assms(2,3) step]) (use assms(1) in \<open>auto simp: P_def\<close>)
  then show ?thesis by (simp add: P_def assms(4))
qed

text \<open>
  C3: Unlinking never touches data that is still referenced. Whatever the outcome of
  \<open>unlink\<close> (success, untracked stripe, failing device), every byte of a page that is still
  tracked afterwards, or that the request does not name, is unchanged.
\<close>

theorem unlink_keeps_live_pages:
  assumes "kv_laws K" and "bounded_counts K (m_db st)" and "distinct (map stripe_id rs)" and "ds_inv st"
    and "0 < page_size (m_conf st)" and "\<forall>x\<in>set rs. (stripe_id x + 1) * page_size (m_conf st) < M64"
    and "ds_unlink s K st rs = (st', r)" and "p < length (ds_bytes st)"
    and "kv_get K (m_db st') (p div page_size (m_conf st)) \<noteq> None \<or> p div page_size (m_conf st) \<notin> stripe_id ` set rs"
  shows "ds_inv st' \<and> ds_bytes st' ! p = ds_bytes st ! p"
proof (cases "\<exists>x\<in>set rs. kv_get K (m_db st) (stripe_id x) = None")
  case True
  then have "decrement_txn K (m_db st) rs [] = Inl Runtime_error"
    using decrement_txn_untracked [OF assms(1)] by blast
  then have "st' = st" using assms(7) by (simp add: ds_unlink_def rc_decrement_def)
  then show ?thesis using assms(4) by simp
next
  case False
  let ?ps = "page_size (m_conf st)"
  define fs where "fs = map stripe_id (filter (\<lambda>x. the (kv_get K (m_db st) (stripe_id x)) \<le> ref_count x) rs)"
  obtain db where db: "decrement_txn K (m_db st) rs [] = Inr (db, fs)"
    and get: "\<forall>k. kv_get K db k = (if k \<in> stripe_id ` set rs
            then (if the (kv_get K (m_db st) k) \<le> requested k rs then None
                  else Some (the (kv_get K (m_db st) k) - requested k rs))
            else kv_get K (m_db st) k)"
    using decrement_txn_ok [OF assms(1-3), of "[]"] False unfolding fs_def by auto
  obtain st1 q where fr: "free_stripes (internal_delete s) ?ps st fs = (st1, q)" by fastforce
  have st': "st' = st1\<lparr>m_db := db\<rparr>" using assms(7) db fr by (simp add: ds_unlink_def rc_decrement_def)
  have sub: "\<forall>i\<in>set fs. (i + 1) * ?ps < M64" using assms(6) by (auto simp: fs_def)
  note F = free_pages_frame [OF assms(4,5) sub fr]
  have "p div ?ps \<notin> set fs"
  proof
    assume "p div ?ps \<in> set fs"
    then obtain x where x: "x \<in> set rs" "p div ?ps = stripe_id x"
      "the (kv_get K (m_db st) (stripe_id x)) \<le> ref_count x" by (auto simp: fs_def)
    have "ref_count x \<le> requested (stripe_id x) rs" using x(1) by (induction rs) auto
    then have "kv_get K db (p div ?ps) = None" using get x by auto
    then show False using assms(9) x st' by simp
  qed
  then have "ds_inv st1" "ds_bytes st1 ! p = ds_bytes st ! p" using F assms(8) by blast+
  then show ?thesis by (simp add: st' ds_inv_def ds_bytes_def)
qed

theorem unlink_keeps_live_pages_witness:
  "case ds_unlink slow_os map_kv sample_store [mk_refcount 0 1, mk_refcount 1 1] of
   (st', r) \<Rightarrow> m_db st' 1 = Some 1 \<and> m_db st' 0 = None \<and> ds_bytes st' ! 5 = CHR ''f''"
proof -
  obtain st' r where e: "ds_unlink slow_os map_kv sample_store [mk_refcount 0 1, mk_refcount 1 1] = (st', r)"
    by fastforce
  have c: "page_size (m_conf sample_store) = 4" "m_db sample_store = [0 \<mapsto> 1, 1 \<mapsto> 2]"
    and b: "ds_bytes sample_store = ''abcdefgh''"
    by (simp_all add: sample_store_def ds_bytes_def)
  have db: "m_db st' = [1 \<mapsto> 1]"
    using e by (auto simp: ds_unlink_def rc_decrement_def c decrement_one_def map_kv_def sub64_def M64_def
        split: prod.splits)
  have "bounded_counts map_kv (m_db sample_store)" by (simp add: bounded_counts_def c map_kv_def M64_def)
  from unlink_keeps_live_pages [OF map_kv_laws this _ sample_store_inv _ _ e, of 5]
  have "ds_bytes st' ! 5 = CHR ''f''"
    by (simp add: c b db map_kv_def M64_def)
  then show ?thesis unfolding e by (simp add: db)
qed

end
