(* ===== verification/Vrm_Recovery.thy ===== *)
theory Vrm_Recovery
  imports Vrm_DataStore
begin

text \<open>
  Restarting a storage: opening the directory a synchronised data store leaves on disk
  restores the same files in the same order. The order comes from sorting the file names, so
  it rests on the fixed width of the numbers in them, which holds up to a million files; the
  last lemma shows that the millionth file is sorted before its predecessor.
\<close>

subsection \<open>Order of the file names\<close>

fun dec_digits :: "nat \<Rightarrow> nat \<Rightarrow> string" where
  "dec_digits 0 i = []"
| "dec_digits (Suc w) i = dec_digits w (i div 10) @ [digit_char (i mod 10)]"

lemma length_dec_digits [simp]: "length (dec_digits w i) = w"
  by (induction w arbitrary: i) simp_all

lemma dec_digits_zero: "dec_digits w 0 = replicate w (CHR ''0'')"
  by (induction w) (simp_all add: replicate_append_same)

lemma dec_digits_nat_str: "0 < w \<Longrightarrow> i < 10 ^ w \<Longrightarrow> replicate (w - length (nat_str i)) (CHR ''0'') @ nat_str i = dec_digits w i"
proof (induction w arbitrary: i)
  case (Suc w)
  show ?case
  proof (cases "i < 10")
    case True
    then show ?thesis by (simp add: nat_str.simps [of i] dec_digits_zero)
  next
    case False
    then have "w \<noteq> 0" using Suc.prems(2) by (cases w) auto
    moreover have "i div 10 < 10 ^ w" using Suc.prems(2) by (simp add: div_less_iff_less_mult mult.commute)
    ultimately have "replicate (w - length (nat_str (i div 10))) (CHR ''0'') @ nat_str (i div 10) = dec_digits w (i div 10)"
      using Suc.IH by simp
    then show ?thesis using False by (simp add: nat_str.simps [of i])
  qed
qed simp

lemma base_name_digits: "i < 10 ^ 6 \<Longrightarrow> base_name i = ''data_'' @ dec_digits 6 i"
  using dec_digits_nat_str [of 6 i] by (simp add: base_name_def)

lemma dec_digits_less:
  "i < j \<Longrightarrow> j < 10 ^ w \<Longrightarrow> dec_digits w i < dec_digits w j"
proof (induction w arbitrary: i j)
  case (Suc w)
  have j: "j div 10 < 10 ^ w" using Suc.prems(2) by (simp add: div_less_iff_less_mult mult.commute)
  show ?case
  proof (cases "i div 10 < j div 10")
    case True
    then have "(dec_digits w (i div 10), dec_digits w (j div 10)) \<in> lexord {(u, v). u < v}"
      using Suc.IH [OF True j] by (simp add: list_less_def)
    then show ?thesis by (simp add: list_less_def lexord_sufI)
  next
    case False
    then have e: "i div 10 = j div 10" using Suc.prems(1) div_le_mono [of i j 10] by simp
    then have "i mod 10 < j mod 10"
      using Suc.prems(1) by (metis div_mult_mod_eq nat_add_left_cancel_less)
    then have "digit_char (i mod 10) < digit_char (j mod 10)"
      by (simp add: less_char_def digit_char_val)
    then show ?thesis using e by (simp add: list_less_def lexord_append_leftI)
  qed
qed simp

lemma base_name_less: "i < j \<Longrightarrow> j < 10 ^ 6 \<Longrightarrow> base_name i < base_name j"
  using dec_digits_less [of i j 6] by (simp add: base_name_digits)

lemma sorted_base_names: "n \<le> 10 ^ 6 \<Longrightarrow> sorted (map base_name [0..<n])"
  by (auto simp: sorted_iff_nth_mono_less intro!: less_imp_le base_name_less)

lemma sort_base_names:
  assumes "set xs = base_name ` {..<n}" and "n \<le> 10 ^ 6"
  shows "sort (remdups xs) = map base_name [0..<n]"
proof (rule sorted_distinct_set_unique)
  show "distinct (map base_name [0..<n])" by (auto simp: distinct_map inj_on_def dest: base_name_inj)
qed (use assms sorted_base_names in auto)

subsection \<open>Reopening a store\<close>

lemma split_extension_data: "stem \<noteq> [] \<Longrightarrow> split_extension (stem @ ''.data'') = (stem, ''.data'')"
  by (simp add: split_extension_def Let_def)

definition disk_image :: "'db data_store \<Rightarrow> (string \<times> bytes) list \<Rightarrow> bool" where
  "disk_image st entries \<longleftrightarrow>
     list_all (\<lambda>f. map_of entries (m_path f @ ''.data'') = Some (df_data f)
                 \<and> map_of entries (m_path f @ ''.meta'') = Some (df_meta f)) (m_files st)
     \<and> map_of entries ''ds.meta'' = Some (m_meta st)
     \<and> set (filter (\<lambda>name. snd (split_extension name) = ''.data'') (map fst entries)) =
       set (map (\<lambda>f. m_path f @ ''.data'') (m_files st))"

definition synced :: "'db data_store \<Rightarrow> bool" where
  "synced st \<longleftrightarrow> list_all (\<lambda>f. df_meta f = metadata_bytes (m_used f) (m_filesize f)) (m_files st)
     \<and> m_meta st = metadata_bytes (m_write_offset st) (m_used_space st)
     \<and> m_write_offset st < M64 \<and> m_used_space st < M64
     \<and> map m_path (m_files st) = map base_name [0..<length (m_files st)]"

lemma open_all_ok:
  assumes "os_ok s"
  shows "list_all (\<lambda>f. dir (m_path f @ ''.data'') = Some (df_data f) \<and> dir (m_path f @ ''.meta'') = Some (df_meta f)
      \<and> df_meta f = metadata_bytes (m_used f) (m_filesize f) \<and> m_used f < M64 \<and> m_filesize f < M64) fs \<Longrightarrow>
    open_all s dir (map m_path fs) = Some (Inr fs)"
proof (induction fs)
  case (Cons f fs)
  then have "data_file_open s dir (m_path f) = Some (Inr f)"
    using data_file_open_ok [OF assms, of dir "m_path f" "df_data f" "m_used f" "m_filesize f"]
    by (cases f) auto
  then show ?case using Cons by simp
qed simp

text \<open>
  C21: Recovery. When the directory holds the files of a synchronised store of at most a
  million data files (beside any other files), opening it gives back the same data files in
  the same order, the same write offset and the same used space.
\<close>

theorem reopen_restores:
  assumes "os_ok s" and "ds_inv st" and "synced st" and "disk_image st entries"
    and "m_files st \<noteq> []" and "length (m_files st) \<le> 10 ^ 6" and "ds_filesize st mod page_size (m_conf st) = 0"
  shows "\<exists>st'. data_store_open s (m_conf st) entries (m_db st) = Some (Inr st') \<and> m_files st' = m_files st
    \<and> m_write_offset st' = m_write_offset st \<and> m_used_space st' = m_used_space st
    \<and> m_conf st' = m_conf st \<and> m_db st' = m_db st"
proof -
  let ?n = "length (m_files st)"
  let ?names = "filter (\<lambda>name. snd (split_extension name) = ''.data'') (map fst entries)"
  have paths: "map m_path (m_files st) = map base_name [0..<?n]" using assms(3) by (simp add: synced_def)
  have ne: "base_name i \<noteq> []" for i by (simp add: base_name_def)
  have "set (map (fst \<circ> split_extension) ?names) = fst ` split_extension ` set ?names"
    by (simp add: image_image)
  also have "set ?names = (\<lambda>p. p @ ''.data'') ` set (map m_path (m_files st))"
    using assms(4) by (auto simp: disk_image_def)
  also have "fst ` split_extension ` \<dots> = base_name ` {..<?n}"
    unfolding paths by (auto simp: image_image split_extension_data [OF ne])
  finally have roots: "sort (remdups (map (fst \<circ> split_extension) ?names)) = map m_path (m_files st)"
    using sort_base_names [OF _ assms(6)] paths by simp
  have "open_all s (map_of entries) (map m_path (m_files st)) = Some (Inr (m_files st))"
    by (rule open_all_ok [OF assms(1)])
      (use assms(2-4) in \<open>auto simp: list_all_iff disk_image_def synced_def ds_inv_def wf_data_file_def\<close>)
  then have load: "load_files s entries (ds_filesize st) = Some (map_of entries, Inr (m_files st))"
    unfolding load_files_def roots Let_def using assms(5) by (cases "m_files st") simp_all
  have meta: "open_metadata s (map_of entries) = Some (Inr (m_meta st))"
    using assms(1,3,4) by (simp add: open_metadata_def os_ok_def disk_image_def synced_def)
  have "safe_pread s (m_meta st) 16 0 = Some (Inr (m_meta st))"
    using assms(1,3) by (subst safe_pread_ok) (simp_all add: synced_def M64_def)
  moreover have "le_val (take 8 (m_meta st)) = m_write_offset st" "le_val (drop 8 (m_meta st)) = m_used_space st"
    using assms(3) by (simp_all add: synced_def metadata_bytes_def)
  ultimately show ?thesis
    using load meta assms(7) by (simp add: data_store_open_def ds_read_metadata_def)
qed

definition sample_entries :: "(string \<times> bytes) list" where
  "sample_entries = [(''data.mdb'', []), (''data_000000.meta'', metadata_bytes 8 8),
     (''ds.meta'', metadata_bytes 8 8), (''data_000000.data'', ''abcdefgh'')]"

theorem reopen_restores_witness:
  "\<exists>st'. data_store_open slow_os (m_conf sample_store) sample_entries (m_db sample_store) = Some (Inr st')
    \<and> m_files st' = m_files sample_store \<and> m_write_offset st' = 8"
proof -
  have b: "base_name 0 = ''data_000000''"
    by (simp add: base_name_def nat_str.simps numeral_eq_Suc)
  have "synced sample_store" by (simp add: synced_def sample_store_def M64_def)
  moreover have "disk_image sample_store sample_entries"
    by (simp add: disk_image_def sample_store_def sample_entries_def b split_extension_def Let_def)
  moreover have "m_files sample_store \<noteq> []" "length (m_files sample_store) \<le> 10 ^ 6"
    "ds_filesize sample_store mod page_size (m_conf sample_store) = 0" "m_write_offset sample_store = 8"
    by (simp_all add: sample_store_def)
  ultimately show ?thesis
    using reopen_restores [OF slow_os_ok sample_store_inv, of sample_entries] by auto
qed

text \<open>
  The order of the names is not the order of the numbers beyond six digits: file 1000000 is
  loaded before file 999999. The default configuration allows \<open>2 ^ 20\<close> files.
\<close>

lemma million_files_out_of_order: "base_name 1000000 < base_name 999999"
proof -
  have "base_name 1000000 = ''data_1000000''" "base_name 999999 = ''data_999999''"
    by (simp_all add: base_name_def nat_str.simps)
  then show ?thesis by (simp add: less_char_def)
qed

end
