(* ===== verification/Vrm_Allocator.thy ===== *)
theory Vrm_Allocator
  imports Vrm_DataStore
begin

text \<open>
  Allocation in the data store (\<open>default_data_store::allocate\<close>), sequentially and under
  concurrency. Any number of threads run the compare-and-exchange loop on the shared write
  offset; one step of \<open>alloc_step\<close> is one atomic action of one thread: loading the offset,
  leaving with an exception, a successful exchange, or a failed one (which, as the weak
  exchange may, can also happen although the offset is unchanged).
\<close>

datatype alloc_pc =
    Idle
  | Loaded size_t size_t size_t
  | Granted allocation
  | Threw exn

record alloc_cfg =
  a_offset :: size_t
  a_threads :: "nat \<Rightarrow> alloc_pc"
  a_granted :: "allocation list"

definition alloc_enter :: "size_t \<Rightarrow> size_t \<Rightarrow> size_t \<Rightarrow> alloc_pc" where
  "alloc_enter offset n alignment =
     (if alignment = 0 then Threw Invalid_argument
      else if n = 0 then Threw Invalid_argument
      else Loaded offset n alignment)"

definition alloc_attempt :: "size_t \<Rightarrow> size_t \<Rightarrow> size_t \<Rightarrow> size_t \<Rightarrow> (size_t \<times> size_t) res" where
  "alloc_attempt capacity current_offset n alignment =
     (let allocation_start = aligned_start current_offset alignment
      in if sub64 capacity allocation_start < n then Inl Runtime_error
         else Inr (allocation_start, add64 allocation_start n))"

text \<open>The parameter \<open>R\<close> says which requests (size and alignment) the clients make.\<close>

inductive alloc_step :: "size_t \<Rightarrow> (size_t \<Rightarrow> size_t \<Rightarrow> bool) \<Rightarrow> alloc_cfg \<Rightarrow> alloc_cfg \<Rightarrow> bool"
  for cap :: size_t and R :: "size_t \<Rightarrow> size_t \<Rightarrow> bool" where
  enter: "a_threads c t = Idle \<Longrightarrow> R n al \<Longrightarrow>
    alloc_step cap R c (c\<lparr>a_threads := (a_threads c)(t := alloc_enter (a_offset c) n al)\<rparr>)"
| throw: "a_threads c t = Loaded cur n al \<Longrightarrow> alloc_attempt cap cur n al = Inl e \<Longrightarrow>
    alloc_step cap R c (c\<lparr>a_threads := (a_threads c)(t := Threw e)\<rparr>)"
| cas_ok: "a_threads c t = Loaded cur n al \<Longrightarrow> alloc_attempt cap cur n al = Inr (start, new) \<Longrightarrow>
    a_offset c = cur \<Longrightarrow>
    alloc_step cap R c (c\<lparr>a_offset := new,
      a_threads := (a_threads c)(t := Granted \<lparr>alloc_offset = start, alloc_size = n\<rparr>),
      a_granted := a_granted c @ [\<lparr>alloc_offset = start, alloc_size = n\<rparr>]\<rparr>)"
| cas_fail: "a_threads c t = Loaded cur n al \<Longrightarrow> alloc_attempt cap cur n al = Inr (start, new) \<Longrightarrow>
    alloc_step cap R c (c\<lparr>a_threads := (a_threads c)(t := Loaded (a_offset c) n al)\<rparr>)"

definition alloc_init :: "size_t \<Rightarrow> alloc_cfg" where
  "alloc_init offset = \<lparr>a_offset = offset, a_threads = \<lambda>_. Idle, a_granted = []\<rparr>"

subsection \<open>One allocation\<close>

lemma aligned_start_no_wrap:
  assumes "0 < al" and "al dvd cap" and "off \<le> cap" and "cap < M64"
  shows "off \<le> aligned_start off al" and "al dvd aligned_start off al" and "aligned_start off al \<le> cap"
    and "aligned_start off al < off + al"
proof -
  obtain k where k: "cap = al * k" using assms(2) ..
  define q where "q = off div al"
  define r where "r = off mod al"
  have off: "off = al * q + r" and r: "r < al" using assms(1) by (simp_all add: q_def r_def)
  have le: "off + (al - r) \<le> cap" if "r \<noteq> 0"
  proof -
    have "al * q < al * k" using off that assms(3) k by linarith
    then have "q + 1 \<le> k" by simp
    then have "al * (q + 1) \<le> al * k" by (intro mult_le_mono2)
    then show ?thesis using off r k by simp
  qed
  have s: "aligned_start off al = (if r = 0 then off else off + (al - r))"
    using le assms(4) by (auto simp: aligned_start_def r_def [symmetric] add64_eq)
  show "off \<le> aligned_start off al" "aligned_start off al \<le> cap" "aligned_start off al < off + al"
    using s le assms(1,3) r by auto
  show "al dvd aligned_start off al"
  proof (cases "r = 0")
    case False
    then have "aligned_start off al = al * (q + 1)" using s off r by simp
    then show ?thesis by simp
  qed (use s off in simp)
qed

lemma alloc_attempt_ok:
  assumes "0 < al" and "al dvd cap" and "off \<le> cap" and "cap < M64"
  shows "alloc_attempt cap off n al =
    (if aligned_start off al + n \<le> cap then Inr (aligned_start off al, aligned_start off al + n) else Inl Runtime_error)"
  using aligned_start_no_wrap [OF assms] assms(4)
  by (auto simp: alloc_attempt_def Let_def sub64_eq add64_eq)

text \<open>
  C26: \<open>allocate\<close>, for a positive size, an alignment that divides the capacity and a write
  offset within it, succeeds exactly when the aligned range fits below the capacity. It then
  returns the first aligned position at or above the write offset and moves the write offset
  to the end of the allocation; otherwise it throws and changes nothing.
\<close>

theorem allocate_exact:
  assumes "0 < n" and "0 < al" and "al dvd max_data_store_size (m_conf st)"
    and "m_write_offset st \<le> max_data_store_size (m_conf st)" and "max_data_store_size (m_conf st) < M64"
  shows "\<exists>start. al dvd start \<and> m_write_offset st \<le> start \<and> start < m_write_offset st + al \<and>
    ds_allocate st n al =
      (if start + n \<le> max_data_store_size (m_conf st)
       then (st\<lparr>m_write_offset := start + n\<rparr>, Inr \<lparr>alloc_offset = start, alloc_size = n\<rparr>)
       else (st, Inl Runtime_error))"
  using aligned_start_no_wrap [OF assms(2-5)] assms
  by (intro exI [of _ "aligned_start (m_write_offset st) al"]) (auto simp: ds_allocate_def Let_def sub64_eq add64_eq)

theorem allocate_exact_witness:
  "\<exists>start. 4 dvd start \<and> 8 \<le> start \<and> start < 8 + 4 \<and>
    ds_allocate sample_store 6 4 = (sample_store\<lparr>m_write_offset := start + 6\<rparr>, Inr \<lparr>alloc_offset = start, alloc_size = 6\<rparr>)"
proof -
  have "m_write_offset sample_store = 8" "max_data_store_size (m_conf sample_store) = 1024"
    by (simp_all add: sample_store_def)
  then show ?thesis
    using allocate_exact [of 6 4 sample_store] by (fastforce simp: M64_def)
qed

text \<open>
  Without the divisibility the capacity check can wrap around: with a capacity of 10 bytes,
  9 of them used, an allocation of one byte aligned to 8 is granted at offset 16.
\<close>

lemma allocate_beyond_capacity:
  "\<exists>st :: nat data_store. max_data_store_size (m_conf st) = 10 \<and> m_write_offset st = 9 \<and>
     snd (ds_allocate st 1 8) = Inr \<lparr>alloc_offset = 16, alloc_size = 1\<rparr>"
  by (rule exI [of _ "\<lparr>m_conf = \<lparr>max_file_size = 8, max_data_store_size = 10, page_size = 8\<rparr>,
        m_files = [], m_dir = \<lambda>_. None, m_meta = [], m_write_offset = 9, m_used_space = 9, m_db = 0\<rparr>"])
    (simp add: ds_allocate_def aligned_start_def add64_def sub64_def M64_def)

subsection \<open>Concurrent allocations\<close>

definition alloc_before :: "allocation \<Rightarrow> allocation \<Rightarrow> bool" where
  "alloc_before a b \<longleftrightarrow> alloc_offset a + alloc_size a \<le> alloc_offset b"

definition alloc_inv :: "size_t \<Rightarrow> size_t \<Rightarrow> alloc_cfg \<Rightarrow> bool" where
  "alloc_inv cap lo c \<longleftrightarrow> lo \<le> a_offset c \<and> a_offset c \<le> cap
    \<and> (\<forall>a\<in>set (a_granted c). lo \<le> alloc_offset a \<and> 0 < alloc_size a \<and> alloc_offset a + alloc_size a \<le> a_offset c)
    \<and> sorted_wrt alloc_before (a_granted c)
    \<and> (\<forall>t cur n al. a_threads c t = Loaded cur n al \<longrightarrow> 0 < n \<and> 0 < al \<and> al dvd cap \<and> cur \<le> a_offset c)
    \<and> (\<forall>t a. a_threads c t = Granted a \<longrightarrow> a \<in> set (a_granted c))"

inductive_cases alloc_stepE: "alloc_step cap R c c'"

lemma alloc_step_inv:
  assumes "alloc_step cap R c c'" and "alloc_inv cap lo c" and "cap < M64" and "\<forall>n al. R n al \<longrightarrow> al dvd cap"
  shows "alloc_inv cap lo c'"
  using assms(1)
proof (cases rule: alloc_step.cases)
  case (enter t n al)
  then show ?thesis using assms(2,4) by (auto simp: alloc_inv_def alloc_enter_def split: if_splits)
next
  case (throw t cur n al e)
  then show ?thesis using assms(2) by (auto simp: alloc_inv_def split: if_splits)
next
  case (cas_ok t cur n al start new)
  have pre: "0 < n" "0 < al" "al dvd cap" "cur \<le> cap" using cas_ok assms(2) by (auto simp: alloc_inv_def)
  have start: "start = aligned_start cur al" "new = start + n" "start + n \<le> cap" "cur \<le> start"
    using alloc_attempt_ok [OF pre(2-4) assms(3), of n] cas_ok(3) aligned_start_no_wrap(1) [OF pre(2-4) assms(3)]
    by (auto split: if_splits)
  let ?a = "\<lparr>alloc_offset = start, alloc_size = n\<rparr>"
  have old: "alloc_offset a + alloc_size a \<le> start" if "a \<in> set (a_granted c)" for a
    using that assms(2) cas_ok(4) start(4) by (fastforce simp: alloc_inv_def)
  have s: "sorted_wrt alloc_before (a_granted c @ [?a])"
    using assms(2) old by (auto simp: alloc_inv_def alloc_before_def sorted_wrt_append)
  have g: "lo \<le> alloc_offset a \<and> 0 < alloc_size a \<and> alloc_offset a + alloc_size a \<le> new"
    if "a \<in> set (a_granted c @ [?a])" for a
    using that assms(2) cas_ok(4) old start pre(1) by (fastforce simp: alloc_inv_def)
  show ?thesis using assms(2) cas_ok s g start by (fastforce simp: alloc_inv_def split: if_splits)
next
  case (cas_fail t cur n al start new)
  then show ?thesis using assms(2) by (auto simp: alloc_inv_def split: if_splits)
qed

lemma alloc_reachable_inv:
  assumes "(alloc_step cap R)\<^sup>*\<^sup>* (alloc_init off) c" and "off \<le> cap" and "cap < M64"
    and "\<forall>n al. R n al \<longrightarrow> al dvd cap"
  shows "alloc_inv cap off c"
  using assms(1)
proof (induction rule: rtranclp_induct)
  case base
  then show ?case using assms(2) by (simp add: alloc_inv_def alloc_init_def)
next
  case (step c c')
  then show ?case using alloc_step_inv [OF step(2) step(3) assms(3,4)] by simp
qed


text \<open>Two threads load the same offset; the second one fails its first exchange.\<close>

definition race_end :: alloc_cfg where
  "race_end = \<lparr>a_offset = 12, a_threads = (\<lambda>_. Idle)(0 := Granted \<lparr>alloc_offset = 0, alloc_size = 4\<rparr>,
       1 := Granted \<lparr>alloc_offset = 8, alloc_size = 4\<rparr>),
     a_granted = [\<lparr>alloc_offset = 0, alloc_size = 4\<rparr>, \<lparr>alloc_offset = 8, alloc_size = 4\<rparr>]\<rparr>"

lemma race_reachable: "(alloc_step 64 (\<lambda>n al. al = 8))\<^sup>*\<^sup>* (alloc_init 0) race_end"
proof -
  let ?S = "alloc_step 64 (\<lambda>n al. al = 8)"
  let ?a = "\<lparr>alloc_offset = 0, alloc_size = 4\<rparr>" and ?b = "\<lparr>alloc_offset = 8, alloc_size = 4\<rparr>"
  let ?c1 = "\<lparr>a_offset = 0, a_threads = (\<lambda>_. Idle)(0 := Loaded 0 4 8), a_granted = []\<rparr>"
  let ?c2 = "\<lparr>a_offset = 0, a_threads = (\<lambda>_. Idle)(0 := Loaded 0 4 8, 1 := Loaded 0 4 8), a_granted = []\<rparr>"
  let ?c3 = "\<lparr>a_offset = 4, a_threads = (\<lambda>_. Idle)(0 := Granted ?a, 1 := Loaded 0 4 8), a_granted = [?a]\<rparr>"
  let ?c4 = "\<lparr>a_offset = 4, a_threads = (\<lambda>_. Idle)(0 := Granted ?a, 1 := Loaded 4 4 8), a_granted = [?a]\<rparr>"
  have at: "alloc_attempt 64 0 4 8 = Inr (0, 4)" "alloc_attempt 64 4 4 8 = Inr (8, 12)"
    by (simp_all add: alloc_attempt_def aligned_start_def sub64_def add64_def M64_def)
  have "?S (alloc_init 0) ?c1"
    using alloc_step.enter [where c = "alloc_init 0" and t = 0 and R = "\<lambda>n al. al = 8" and al = 8 and n = 4 and cap = 64] by (simp add: alloc_init_def alloc_enter_def)
  moreover have "?S ?c1 ?c2"
    using alloc_step.enter [where c = ?c1 and t = 1 and R = "\<lambda>n al. al = 8" and al = 8 and n = 4 and cap = 64] by (simp add: alloc_enter_def fun_upd_twist)
  moreover have "?S ?c2 ?c3"
    using alloc_step.cas_ok [of ?c2 0 0 4 8 64 0 4 "\<lambda>n al. al = 8"] at(1) by (simp add: fun_upd_twist)
  moreover have "?S ?c3 ?c4"
    using alloc_step.cas_fail [of ?c3 1 0 4 8 64 0 4 "\<lambda>n al. al = 8"] at(1) by simp
  moreover have "?S ?c4 race_end"
    using alloc_step.cas_ok [of ?c4 1 4 4 8 64 8 12 "\<lambda>n al. al = 8"] at(2) by (simp add: race_end_def)
  ultimately show ?thesis by (meson converse_rtranclp_into_rtranclp rtranclp.rtrancl_refl)
qed


end
