(* ===== verification/Vrm_Address.thy ===== *)
theory Vrm_Address
  imports Vrm_Prelude
begin

text \<open>
  Fragments and addresses (\<open>src/common/types/fragment.h\<close>, \<open>address.h\<close>,
  \<open>dedupe_response.h\<close>). A fragment is a run of \<open>size\<close> bytes at a 128-bit pointer; an address
  is the list of fragments an object is made of. The meaning of an address over a flat memory
  is the concatenation of its fragments' bytes (\<open>addr_bytes\<close>); the properties relate the
  operations of \<open>address_t\<close> to that meaning.
\<close>

record fragment =
  pointer :: nat
  fsize :: size_t

type_synonym address = "fragment list"

record dedupe_response =
  effective_size :: size_t
  daddr :: address

definition mk_fragment :: "nat \<Rightarrow> size_t \<Rightarrow> fragment" where
  "mk_fragment p s = \<lparr>pointer = p, fsize = s\<rparr>"

lemma mk_fragment_sel [simp]: "pointer (mk_fragment p s) = p" "fsize (mk_fragment p s) = s"
  by (simp_all add: mk_fragment_def)

definition subfrag :: "fragment \<Rightarrow> size_t \<Rightarrow> size_t \<Rightarrow> fragment" where
  "subfrag f start endp =
     (if start \<ge> endp then mk_fragment 0 0
      else mk_fragment (add128 (pointer f) start) (sub64 (min (fsize f) endp) start))"

subsection \<open>Operations of an address\<close>

definition push :: "address \<Rightarrow> fragment \<Rightarrow> address" where
  "push a f = a @ [f]"

definition emplace_back :: "address \<Rightarrow> nat \<Rightarrow> size_t \<Rightarrow> address" where
  "emplace_back a p s = a @ [mk_fragment p s]"

definition append_address :: "address \<Rightarrow> address \<Rightarrow> address" where
  "append_address a b = a @ b"

definition data_size :: "address \<Rightarrow> size_t" where
  "data_size a = fold (\<lambda>f acc. add64 acc (fsize f)) a 0"

text \<open>
  The first loop of \<open>address_t::range\<close> looks for the fragment that holds byte \<open>start\<close>
  (\<open>ptr\<close> is the number of bytes before it), the second collects fragments until \<open>end\<close>.
\<close>

fun range_find :: "fragment list \<Rightarrow> size_t \<Rightarrow> size_t \<Rightarrow> size_t \<Rightarrow> (fragment \<times> size_t \<times> fragment list) option" where
  "range_find [] start endp ptr = None"
| "range_find (f # fs) start endp ptr =
     (if start < add64 ptr (fsize f) then
        (let g = subfrag f (sub64 start ptr) (sub64 endp ptr)
         in Some (g, add64 start (fsize g), fs))
      else range_find fs start endp (add64 ptr (fsize f)))"

fun range_rest :: "fragment list \<Rightarrow> size_t \<Rightarrow> size_t \<Rightarrow> address" where
  "range_rest [] endp ptr = []"
| "range_rest (f # fs) endp ptr =
     (if ptr < endp then
        (let g = subfrag f 0 (sub64 endp ptr)
         in g # range_rest fs endp (add64 ptr (fsize g)))
      else [])"

definition range_address :: "address \<Rightarrow> size_t \<Rightarrow> size_t \<Rightarrow> address" where
  "range_address a start endp =
     (case range_find a start endp 0 of
        None \<Rightarrow> []
      | Some (g, ptr, fs) \<Rightarrow> g # range_rest fs endp ptr)"

definition append_response :: "dedupe_response \<Rightarrow> dedupe_response \<Rightarrow> dedupe_response" where
  "append_response r other =
     r\<lparr>effective_size := add64 (effective_size r) (effective_size other),
       daddr := append_address (daddr r) (daddr other)\<rparr>"

subsection \<open>The meaning of an address\<close>

definition frag_bytes :: "(nat \<Rightarrow> char) \<Rightarrow> fragment \<Rightarrow> bytes" where
  "frag_bytes mem f = map mem [pointer f ..< pointer f + fsize f]"

definition addr_bytes :: "(nat \<Rightarrow> char) \<Rightarrow> address \<Rightarrow> bytes" where
  "addr_bytes mem a = concat (map (frag_bytes mem) a)"

text \<open>A fragment is well formed when none of its bytes lies beyond the pointer range.\<close>

definition wf_frag :: "fragment \<Rightarrow> bool" where
  "wf_frag f \<longleftrightarrow> pointer f + fsize f < M128"

definition total_size :: "address \<Rightarrow> nat" where
  "total_size a = sum_list (map fsize a)"

definition wf_addr :: "address \<Rightarrow> bool" where
  "wf_addr a \<longleftrightarrow> list_all wf_frag a \<and> total_size a < M64"

lemma length_frag_bytes [simp]: "length (frag_bytes mem f) = fsize f"
  by (simp add: frag_bytes_def)

lemma addr_bytes_simps [simp]:
  "addr_bytes mem [] = []"
  "addr_bytes mem (f # fs) = frag_bytes mem f @ addr_bytes mem fs"
  "addr_bytes mem (a @ b) = addr_bytes mem a @ addr_bytes mem b"
  by (simp_all add: addr_bytes_def)

lemma total_size_simps [simp]:
  "total_size [] = 0"
  "total_size (f # fs) = fsize f + total_size fs"
  "total_size (a @ b) = total_size a + total_size b"
  by (simp_all add: total_size_def)

lemma length_addr_bytes [simp]: "length (addr_bytes mem a) = total_size a"
  by (induction a) simp_all

lemma wf_addr_Cons: "wf_addr (f # fs) \<Longrightarrow> wf_frag f \<and> wf_addr fs"
  by (auto simp: wf_addr_def)

lemma fold_size_add:
  "n < M64 \<Longrightarrow> fold (\<lambda>f acc. add64 acc (fsize f)) a n = (n + total_size a) mod M64"
  by (induction a arbitrary: n) (simp_all add: add64_def mod_simps add.assoc)

lemma data_size_mod: "data_size a = total_size a mod M64"
  by (simp add: data_size_def fold_size_add)

lemma data_size_eq [arith64]: "total_size a < M64 \<Longrightarrow> data_size a = total_size a"
  by (simp add: data_size_mod)

lemma frag_bytes_subfrag:
  assumes "wf_frag f" "s < e" "s \<le> fsize f" "fsize f < M64"
  shows "frag_bytes mem (subfrag f s e) = take (e - s) (drop s (frag_bytes mem f))"
proof -
  have p: "add128 (pointer f) s = pointer f + s"
    using assms by (simp add: wf_frag_def add128_eq)
  have z: "sub64 (min (fsize f) e) s = min (fsize f) e - s"
    using assms by (intro sub64_eq) auto
  have "pointer f + s + (min (fsize f) e - s) = pointer f + min (fsize f) e"
    using assms by simp
  with p z assms show ?thesis
    by (auto simp: frag_bytes_def subfrag_def drop_map take_map drop_upt take_upt min_def not_le)
qed

lemma fsize_subfrag:
  "s < e \<Longrightarrow> s \<le> fsize f \<Longrightarrow> fsize f < M64 \<Longrightarrow> fsize (subfrag f s e) = min (fsize f) e - s"
  by (simp add: subfrag_def sub64_eq)

lemma range_find_Some:
  "ptr + total_size a < M64 \<Longrightarrow> ptr \<le> start \<Longrightarrow> start < ptr + total_size a \<Longrightarrow>
   \<exists>g p fs. range_find a start endp ptr = Some (g, p, fs)"
  by (induction a start endp ptr rule: range_find.induct) (auto simp: add64_eq Let_def)

text \<open>
  Where the bytes of fragments come from does not matter for \<open>range\<close>, as long as a part of a fragment
  holds the part of its bytes.
\<close>

locale fragment_content =
  fixes fb :: "fragment \<Rightarrow> bytes"
    and good :: "fragment \<Rightarrow> bool"
  assumes content_length: "good f \<Longrightarrow> length (fb f) = fsize f"
    and content_empty: "good f \<Longrightarrow> fsize f = 0 \<Longrightarrow> fb (subfrag f 0 e) = []"
    and content_sub: "good f \<Longrightarrow> s < e \<Longrightarrow> s < fsize f \<Longrightarrow> fsize f < M64 \<Longrightarrow> fb (subfrag f s e) = take (e - s) (drop s (fb f))"
begin

lemma content_start: "good f \<Longrightarrow> 0 < e \<Longrightarrow> fsize f < M64 \<Longrightarrow> fb (subfrag f 0 e) = take e (fb f)"
  using content_length [of f] content_empty [of f e] content_sub [of f 0 e] by (cases "fsize f = 0") auto

lemma range_rest_content:
  "list_all good fs \<Longrightarrow> ptr + total_size fs < M64 \<Longrightarrow> endp < M64 \<Longrightarrow>
   concat (map fb (range_rest fs endp ptr)) = take (endp - ptr) (concat (map fb fs))"
proof (induction fs endp ptr rule: range_rest.induct)
  case (1 endp ptr)
  then show ?case by simp
next
  case (2 f fs endp ptr)
  show ?case
  proof (cases "ptr < endp")
    case True
    have d: "sub64 endp ptr = endp - ptr" using True 2(4) by (simp add: sub64_eq)
    have gd: "good f" "list_all good fs" "fsize f < M64" using 2(2,3) by auto
    define g where "g = subfrag f 0 (endp - ptr)"
    have g: "fb g = take (endp - ptr) (fb f)" and gs: "fsize g = min (fsize f) (endp - ptr)"
      using True gd content_start [of f "endp - ptr"] by (auto simp: g_def fsize_subfrag)
    have p: "add64 ptr (fsize g) = ptr + fsize g" using 2(3) gs by (intro add64_eq) auto
    have IH: "concat (map fb (range_rest fs endp (ptr + fsize g))) = take (endp - (ptr + fsize g)) (concat (map fb fs))"
      using 2(1) [OF True refl] 2(3,4) gd gs p unfolding d g_def [symmetric] by simp
    have r: "range_rest (f # fs) endp ptr = g # range_rest fs endp (ptr + fsize g)"
      using True d p by (simp add: g_def [symmetric] Let_def)
    have "endp - (ptr + fsize g) = endp - ptr - fsize f" using gs True by (simp add: min_def)
    then show ?thesis unfolding r by (simp add: g IH content_length [OF gd(1)])
  next
    case False
    then show ?thesis by simp
  qed
qed

lemma range_find_content:
  assumes "list_all good a" "ptr + total_size a < M64" "ptr \<le> start" "start < ptr + total_size a"
    "start < endp" "endp < M64" "range_find a start endp ptr = Some (g, p, fs)"
  shows "fb g @ concat (map fb (range_rest fs endp p)) = take (endp - start) (drop (start - ptr) (concat (map fb a)))"
  using assms
proof (induction a start endp ptr rule: range_find.induct)
  case (1 start endp ptr)
  then show ?case by simp
next
  case (2 f fs' start endp ptr)
  have gd: "good f" "list_all good fs'" "fsize f < M64" using 2(2,3) by auto
  have a: "add64 ptr (fsize f) = ptr + fsize f" using 2(3) by (simp add: add64_eq)
  show ?case
  proof (cases "start < ptr + fsize f")
    case True
    have s: "sub64 start ptr = start - ptr" "sub64 endp ptr = endp - ptr"
      using 2(4,6,7) by (auto intro: sub64_eq)
    have g: "g = subfrag f (start - ptr) (endp - ptr)" "fs = fs'" "p = add64 start (fsize g)"
      using 2(8) True a s by (auto simp: Let_def)
    have fb: "fb g = take (endp - start) (drop (start - ptr) (fb f))"
      using content_sub [OF gd(1), of "start - ptr" "endp - ptr"] True gd(3) 2(4,6) unfolding g by simp
    have gs: "fsize g = min (fsize f) (endp - ptr) - (start - ptr)"
      using fsize_subfrag [of "start - ptr" "endp - ptr" f] True 2(3,4,6) unfolding g by simp
    have p: "p = start + fsize g" using g(3) gs 2(3,4) True by (simp add: add64_eq)
    have "concat (map fb (range_rest fs' endp p)) = take (endp - p) (concat (map fb fs'))"
      using gd(2) 2(3,4,7) p gs True by (intro range_rest_content) auto
    moreover have "endp - p = (endp - start) - (fsize f - (start - ptr)) \<or> endp - p = 0 \<and> endp - start \<le> fsize f - (start - ptr)"
      using p gs 2(4,6) True by (auto simp: min_def)
    ultimately show ?thesis using fb g(2) True 2(4) content_length [OF gd(1)] by auto
  next
    case False
    then have "range_find fs' start endp (ptr + fsize f) = Some (g, p, fs)" using 2(8) a by simp
    then have "fb g @ concat (map fb (range_rest fs endp p)) = take (endp - start) (drop (start - (ptr + fsize f)) (concat (map fb fs')))"
      using 2(1) [unfolded a] False gd 2(3,5,6,7) by simp
    then show ?thesis using False content_length [OF gd(1)] by simp
  qed
qed

lemma range_content:
  assumes "list_all good a" and "total_size a < M64" and "start < endp" and "endp < M64" and "start < total_size a"
  shows "concat (map fb (range_address a start endp)) = take (endp - start) (drop start (concat (map fb a)))"
proof -
  obtain g p fs where r: "range_find a start endp 0 = Some (g, p, fs)"
    using range_find_Some [of 0 a start endp] assms(2,5) by auto
  from range_find_content [OF assms(1) _ _ _ assms(3,4) r] assms(2,5) show ?thesis by (simp add: range_address_def r)
qed

end

interpretation flat: fragment_content "frag_bytes mem" wf_frag for mem
proof
  fix f e s assume "wf_frag f"
  then show "length (frag_bytes mem f) = fsize f" by simp
  show "fsize f = 0 \<Longrightarrow> frag_bytes mem (subfrag f 0 e) = []" by (simp add: frag_bytes_def subfrag_def sub64_def)
  show "s < e \<Longrightarrow> s < fsize f \<Longrightarrow> fsize f < M64 \<Longrightarrow> frag_bytes mem (subfrag f s e) = take (e - s) (drop s (frag_bytes mem f))"
    using \<open>wf_frag f\<close> by (simp add: frag_bytes_subfrag)
qed

text \<open>
  C20: For a well-formed address and a non-empty byte range \<open>[start, end)\<close> that begins inside
  the object, \<open>address_t::range\<close> returns an address whose bytes are exactly that slice of the
  object's bytes (cut at the object's end).
\<close>

theorem range_address_bytes:
  assumes "wf_addr a" and "start < endp" and "endp < M64" and "start < total_size a"
  shows "addr_bytes mem (range_address a start endp) =
    take (endp - start) (drop start (addr_bytes mem a))"
  using flat.range_content [of a start endp mem] assms by (simp add: wf_addr_def addr_bytes_def)

theorem range_address_bytes_witness:
  "addr_bytes char_of (range_address [mk_fragment 0 100, mk_fragment 300 200] 80 150) =
    take 70 (drop 80 (addr_bytes char_of [mk_fragment 0 100, mk_fragment 300 200]))"
proof -
  have "wf_addr [mk_fragment 0 100, mk_fragment 300 200]"
    by (simp add: wf_addr_def wf_frag_def M64_def M128_def)
  moreover have "(150::nat) < M64" by (simp add: M64_def)
  ultimately show ?thesis
    using range_address_bytes [of "[mk_fragment 0 100, mk_fragment 300 200]" 80 150 char_of] by simp
qed

end
