(* ===== verification/Vrm_Storage.thy ===== *)
theory Vrm_Storage
  imports Vrm_DataStore Vrm_Address
begin

text \<open>
  The storage interface (\<open>src/common/service_interfaces/storage_interface.h\<close>) and its local
  implementation on a data store (\<open>src/storage/interfaces/local_storage.h\<close>). The virtual
  functions are the record \<open>storage_ops\<close>; the locale \<open>storage\<close> states what the group views
  rely on, and \<open>local_storage_contract\<close> shows that the local storage provides it on every
  working device.
\<close>

record 's storage_ops =
  so_allocate :: "'s \<Rightarrow> size_t \<Rightarrow> size_t \<Rightarrow> 's \<times> allocation res"
  so_write :: "'s \<Rightarrow> allocation \<Rightarrow> bytes list \<Rightarrow> refcount list \<Rightarrow> ('s \<times> unit res) option"
  so_read :: "'s \<Rightarrow> size_t \<Rightarrow> size_t \<Rightarrow> bytes res option"
  so_link :: "'s \<Rightarrow> refcount list \<Rightarrow> 's \<times> refcount list res"
  so_unlink :: "'s \<Rightarrow> refcount list \<Rightarrow> 's \<times> size_t res"
  so_get_refcounts :: "'s \<Rightarrow> size_t list \<Rightarrow> refcount list"
  so_get_used_space :: "'s \<Rightarrow> size_t"

definition local_ops :: "os \<Rightarrow> 'db kv \<Rightarrow> 'db data_store storage_ops" where
  "local_ops s K = \<lparr>
     so_allocate = ds_allocate,
     so_write = ds_write s K,
     so_read = ds_read s,
     so_link = (\<lambda>st refcounts. case ds_link K st refcounts of (st', rv) \<Rightarrow> (st', Inr rv)),
     so_unlink = ds_unlink s K,
     so_get_refcounts = ds_get_refcounts K,
     so_get_used_space = get_used_space\<rparr>"

text \<open>
  \<open>read_address\<close> fills the buffer fragment by fragment at the given offsets and throws when a
  fragment cannot be read in full.
\<close>

fun read_address :: "'s storage_ops \<Rightarrow> 's \<Rightarrow> address \<Rightarrow> size_t list \<Rightarrow> bytes \<Rightarrow> (bytes \<times> unit res) option" where
  "read_address S st (f # fs) (o1 # os) buffer =
     (case so_read S st (pointer f) (fsize f) of
        None \<Rightarrow> None
      | Some (Inl e) \<Rightarrow> Some (buffer, Inl e)
      | Some (Inr bs) \<Rightarrow>
          if length bs \<noteq> fsize f then Some (overwrite o1 bs buffer, Inl Runtime_error)
          else read_address S st fs os (overwrite o1 bs buffer))"
| "read_address S st _ _ buffer = Some (buffer, Inr ())"

subsection \<open>The contract of a storage\<close>

text \<open>
  \<open>content\<close> is the linear content of a storage, \<open>top\<close> its write offset, and \<open>fits st m\<close> says
  that positions up to \<open>m\<close> are representable.
\<close>

locale storage =
  fixes S :: "'s storage_ops"
    and sinv :: "'s \<Rightarrow> bool"
    and content :: "'s \<Rightarrow> bytes"
    and top :: "'s \<Rightarrow> nat"
    and fits :: "'s \<Rightarrow> nat \<Rightarrow> bool"
  assumes fits_bound: "fits st m \<Longrightarrow> m < M64"
    and fits_mono: "fits st m \<Longrightarrow> k \<le> m \<Longrightarrow> fits st k"
    and read_law: "sinv st \<Longrightarrow> p + n \<le> length (content st) \<Longrightarrow>
      so_read S st p n = Some (Inr (slice p n (content st)))"
    and allocate_law: "sinv st \<Longrightarrow> 0 < n \<Longrightarrow> 0 < al \<Longrightarrow> fits st (top st + al + n) \<Longrightarrow>
      so_allocate S st n al = (st', Inr a) \<Longrightarrow>
      sinv st' \<and> content st' = content st \<and> fits st' = fits st \<and> alloc_size a = n \<and> al dvd alloc_offset a
      \<and> top st \<le> alloc_offset a \<and> alloc_offset a < top st + al \<and> top st' = alloc_offset a + n"
    and write_law: "sinv st \<Longrightarrow> fits st (off + length (concat bufs)) \<Longrightarrow>
      \<exists>st'. so_write S st \<lparr>alloc_offset = off, alloc_size = length (concat bufs)\<rparr> bufs rs = Some (st', Inr ())
        \<and> sinv st' \<and> fits st' = fits st \<and> top st' = max (top st) (off + length (concat bufs))
        \<and> off + length (concat bufs) \<le> length (content st') \<and> length (content st) \<le> length (content st')
        \<and> slice off (length (concat bufs)) (content st') = concat bufs
        \<and> (\<forall>p k. p + k \<le> length (content st) \<and> (p + k \<le> off \<or> off + length (concat bufs) \<le> p) \<longrightarrow>
              slice p k (content st') = slice p k (content st))"
    and link_law: "sinv st \<Longrightarrow> so_link S st rs = (st', r) \<Longrightarrow>
      sinv st' \<and> content st' = content st \<and> fits st' = fits st \<and> top st' = top st"
begin

text \<open>The buffer after reading a list of fragments to their offsets.\<close>

lemma read_address_ok:
  assumes "sinv st"
  shows "length os = length fs \<Longrightarrow> \<forall>f\<in>set fs. pointer f + fsize f \<le> length (content st) \<Longrightarrow>
    read_address S st fs os buffer =
      Some (fold (\<lambda>(f, o1). overwrite o1 (slice (pointer f) (fsize f) (content st))) (zip fs os) buffer, Inr ())"
proof (induction fs arbitrary: os buffer)
  case (Cons f fs)
  then obtain o1 os' where os: "os = o1 # os'" by (cases os) auto
  have r: "so_read S st (pointer f) (fsize f) = Some (Inr (slice (pointer f) (fsize f) (content st)))"
    using Cons.prems(2) assms by (intro read_law) auto
  have l: "length (slice (pointer f) (fsize f) (content st)) = fsize f"
    using Cons.prems(2) by (auto simp: length_slice)
  show ?case using Cons.IH [of os'] Cons.prems os r l by simp
qed simp

end

subsection \<open>The local storage provides the contract\<close>

lemma aligned_start_small:
  assumes "0 < al" and "off + al < M64"
  shows "off \<le> aligned_start off al" and "al dvd aligned_start off al" and "aligned_start off al < off + al"
proof -
  define r where "r = off mod al"
  have r: "r < al" using assms(1) by (simp add: r_def)
  have s: "aligned_start off al = (if r = 0 then off else off + (al - r))"
    using assms(2) by (auto simp: aligned_start_def r_def [symmetric] add64_eq)
  show "off \<le> aligned_start off al" "aligned_start off al < off + al" using s assms(1) r by auto
  show "al dvd aligned_start off al"
  proof (cases "r = 0")
    case True
    then show ?thesis using s by (simp add: r_def mod_eq_0_iff_dvd)
  next
    case False
    have "off = off div al * al + r" by (simp add: r_def)
    then have "aligned_start off al = (off div al + 1) * al" using s False r by simp
    then show ?thesis by simp
  qed
qed

lemma ds_allocate_ok:
  assumes "ds_inv st" and "0 < n" and "0 < al" and "m_write_offset st + al + n + ds_filesize st < M64"
    and "ds_allocate st n al = (st', Inr a)"
  shows "ds_inv st' \<and> ds_bytes st' = ds_bytes st \<and> m_conf st' = m_conf st \<and> alloc_size a = n \<and> al dvd alloc_offset a
    \<and> m_write_offset st \<le> alloc_offset a \<and> alloc_offset a < m_write_offset st + al
    \<and> m_write_offset st' = alloc_offset a + n"
proof -
  let ?s = "aligned_start (m_write_offset st) al"
  have al: "m_write_offset st + al < M64" using assms(4) by linarith
  note s = aligned_start_small [OF assms(3) al]
  have "?s + n < M64" using s(3) assms(4) by linarith
  then have "st' = st\<lparr>m_write_offset := ?s + n\<rparr>" "a = \<lparr>alloc_offset = ?s, alloc_size = n\<rparr>"
    using assms(2,3,5) by (auto simp: ds_allocate_def Let_def add64_eq split: if_splits)
  then show ?thesis using s assms(1) by (simp add: ds_inv_def ds_bytes_def)
qed

definition ds_fits :: "'db data_store \<Rightarrow> nat \<Rightarrow> bool" where
  "ds_fits st m \<longleftrightarrow> m + ds_filesize st < M64"

lemma ds_fits_cong: "m_conf st' = m_conf st \<Longrightarrow> ds_fits st' = ds_fits st"
  by (simp add: ds_fits_def [abs_def])

lemma ds_write_contract:
  assumes "os_ok s" and "ds_inv st" and "ds_fits st (off + length (concat bufs))"
  shows "\<exists>st'. ds_write s K st \<lparr>alloc_offset = off, alloc_size = length (concat bufs)\<rparr> bufs rs = Some (st', Inr ())
    \<and> ds_inv st' \<and> ds_fits st' = ds_fits st \<and> m_write_offset st' = max (m_write_offset st) (off + length (concat bufs))
    \<and> off + length (concat bufs) \<le> length (ds_bytes st') \<and> length (ds_bytes st) \<le> length (ds_bytes st')
    \<and> slice off (length (concat bufs)) (ds_bytes st') = concat bufs
    \<and> (\<forall>p k. p + k \<le> length (ds_bytes st) \<and> (p + k \<le> off \<or> off + length (concat bufs) \<le> p) \<longrightarrow>
          slice p k (ds_bytes st') = slice p k (ds_bytes st))"
proof -
  let ?n = "length (concat bufs)"
  obtain st' k where st': "ds_write s K st \<lparr>alloc_offset = off, alloc_size = ?n\<rparr> bufs rs = Some (st', Inr ())"
    "ds_inv st'" "ds_bytes st' = overwrite off (concat bufs) (ds_bytes st @ zero_bytes k)"
    "off + ?n < length (ds_bytes st @ zero_bytes k)" "m_conf st' = m_conf st"
    "m_write_offset st' = max (m_write_offset st) (off + ?n)"
    using ds_write_ok [OF assms(1,2) assms(3) [unfolded ds_fits_def]] by blast
  have len: "length (ds_bytes st') = length (ds_bytes st @ zero_bytes k)"
    using st'(3,4) by (simp add: length_overwrite)
  have "slice p j (ds_bytes st') = slice p j (ds_bytes st)"
    if "p + j \<le> length (ds_bytes st)" and "p + j \<le> off \<or> off + ?n \<le> p" for p j
  proof -
    have "slice p j (ds_bytes st') = slice p j (ds_bytes st @ zero_bytes k)"
      unfolding st'(3) using that st'(4) by (intro slice_overwrite_disjoint) auto
    also have "\<dots> = slice p j (ds_bytes st)" using that(1) by (simp add: slice_def)
    finally show ?thesis .
  qed
  moreover have "slice off ?n (ds_bytes st') = concat bufs"
    unfolding st'(3) using st'(4) by (intro slice_overwrite_same) simp
  ultimately show ?thesis using st' len ds_fits_cong [OF st'(5)] by (intro exI [of _ st']) auto
qed

lemma local_storage_contract:
  assumes "os_ok s"
  shows "storage (local_ops s K) ds_inv ds_bytes m_write_offset ds_fits"
proof
  fix st st' :: "'a data_store" and n al a
  assume "ds_inv st" "0 < n" "0 < al" "ds_fits st (m_write_offset st + al + n)"
    "so_allocate (local_ops s K) st n al = (st', Inr a)"
  then show "ds_inv st' \<and> ds_bytes st' = ds_bytes st \<and> ds_fits st' = ds_fits st \<and> alloc_size a = n \<and> al dvd alloc_offset a
      \<and> m_write_offset st \<le> alloc_offset a \<and> alloc_offset a < m_write_offset st + al \<and> m_write_offset st' = alloc_offset a + n"
    using ds_allocate_ok [of st n al st' a] ds_fits_cong [of st' st] by (simp add: local_ops_def ds_fits_def)
next
  fix st :: "'a data_store" and off and bufs :: "bytes list" and rs
  assume "ds_inv st" "ds_fits st (off + length (concat bufs))"
  then show "\<exists>st'. so_write (local_ops s K) st \<lparr>alloc_offset = off, alloc_size = length (concat bufs)\<rparr> bufs rs = Some (st', Inr ())
        \<and> ds_inv st' \<and> ds_fits st' = ds_fits st \<and> m_write_offset st' = max (m_write_offset st) (off + length (concat bufs))
        \<and> off + length (concat bufs) \<le> length (ds_bytes st') \<and> length (ds_bytes st) \<le> length (ds_bytes st')
        \<and> slice off (length (concat bufs)) (ds_bytes st') = concat bufs
        \<and> (\<forall>p k. p + k \<le> length (ds_bytes st) \<and> (p + k \<le> off \<or> off + length (concat bufs) \<le> p) \<longrightarrow>
              slice p k (ds_bytes st') = slice p k (ds_bytes st))"
    using ds_write_contract [OF assms, of st off bufs K rs] by (simp add: local_ops_def)
next
  fix st st' :: "'a data_store" and rs r
  assume "ds_inv st" "so_link (local_ops s K) st rs = (st', r)"
  then show "ds_inv st' \<and> ds_bytes st' = ds_bytes st \<and> ds_fits st' = ds_fits st \<and> m_write_offset st' = m_write_offset st"
    using ds_fits_cong [of st' st] by (auto simp: local_ops_def ds_link_def ds_inv_def ds_bytes_def split: prod.splits)
qed (use assms in \<open>auto simp: ds_fits_def local_ops_def ds_read_ok\<close>)

text \<open>The storage on a device that completes every transfer at once, with counters in a map.\<close>

definition plain_os :: os where
  "plain_os = \<lparr>os_pread = \<lambda>_ n. Some n, os_pwrite = \<lambda>_ n. Some n, os_fallocate = \<lambda>_ _. True,
     os_fsync = True, os_create = True\<rparr>"

lemma plain_os_ok [simp]: "os_ok plain_os"
  by (simp add: os_ok_def plain_os_def)

interpretation local: storage "local_ops plain_os map_kv" ds_inv ds_bytes m_write_offset ds_fits
  by (rule local_storage_contract) simp

end
