(* ===== verification/Vrm_Pointer.thy ===== *)
theory Vrm_Pointer
  imports Vrm_Prelude
begin

unbundle bit_operations_syntax

text \<open>
  Pointers (\<open>src/common/utils/pointer_traits.h\<close>) and integer rounding
  (\<open>src/common/utils/integral.h\<close>). A global pointer is a 128-bit number whose top 32 bits
  name the storage group. Round-robin groups put the storage id into the next 32 bits; in an
  erasure-coded group the pointer within the group enumerates the data chunks of all stripes.
  Pointers are naturals below \<open>M128\<close>; shifts drop the bits beyond 128 as the C++ ones do.
\<close>

definition group_id_bit_offset :: nat where "group_id_bit_offset = 32 + 64"
definition storage_id_bit_offset :: nat where "storage_id_bit_offset = 64"

definition shl128 :: "nat \<Rightarrow> nat \<Rightarrow> nat" where
  "shl128 x n = push_bit n x mod M128"

definition rr_get_global_pointer :: "nat \<Rightarrow> size_t \<Rightarrow> size_t \<Rightarrow> nat" where
  "rr_get_global_pointer storage_pointer group_id storage_id =
     shl128 group_id group_id_bit_offset OR shl128 storage_id storage_id_bit_offset OR storage_pointer"

definition rr_get_storage_pointer :: "nat \<Rightarrow> size_t \<times> nat" where
  "rr_get_storage_pointer global_pointer =
     (drop_bit 64 global_pointer AND 0xFFFFFFFF, global_pointer mod M64)"

definition ec_get_global_pointer :: "nat \<Rightarrow> size_t \<Rightarrow> size_t \<Rightarrow> size_t \<Rightarrow> size_t \<Rightarrow> nat" where
  "ec_get_global_pointer storage_pointer group_id storage_id chunk_size stripe_size =
     (let group_ptr = (storage_pointer div chunk_size * stripe_size
                       + storage_pointer mod chunk_size + chunk_size * storage_id) mod M128
      in shl128 group_id group_id_bit_offset OR group_ptr)"

definition ec_get_storage_pointer :: "nat \<Rightarrow> size_t \<Rightarrow> size_t \<Rightarrow> size_t \<times> nat" where
  "ec_get_storage_pointer group_pointer chunk_size stripe_size =
     (let group_mod = group_pointer mod stripe_size;
          storage_id = group_mod div chunk_size;
          storage_ptr = (group_pointer div stripe_size * chunk_size
                         + (group_mod - storage_id * chunk_size)) mod M64
      in (storage_id, storage_ptr))"

definition get_group_id :: "nat \<Rightarrow> size_t" where
  "get_group_id global_pointer = drop_bit group_id_bit_offset global_pointer mod M64"

definition get_group_pointer :: "nat \<Rightarrow> nat" where
  "get_group_pointer global_pointer = global_pointer AND (shl128 1 group_id_bit_offset - 1)"

subsection \<open>Integer rounding\<close>

definition div_ceil :: "size_t \<Rightarrow> size_t \<Rightarrow> size_t" where
  "div_ceil x y = add64 (x div y) (if x mod y \<noteq> 0 then 1 else 0)"

definition align_up :: "size_t \<Rightarrow> size_t \<Rightarrow> size_t" where
  "align_up x y = mul64 (div_ceil x y) y"

definition div_floor :: "size_t \<Rightarrow> size_t \<Rightarrow> size_t" where
  "div_floor x y = x div y"

definition align_up_next :: "size_t \<Rightarrow> size_t \<Rightarrow> size_t" where
  "align_up_next x y = mul64 (add64 (div_floor x y) 1) y"

subsection \<open>Bit fields of a pointer\<close>

lemma bit_nat_less: "x < 2 ^ n \<Longrightarrow> bit x k \<Longrightarrow> k < n" for x :: nat
  by (metis bit_take_bit_iff take_bit_nat_eq_self)

lemma group_field:
  assumes "g < 2 ^ 32" and "p < 2 ^ 96"
  shows "get_group_id (shl128 g group_id_bit_offset OR p) = g"
    and "get_group_pointer (shl128 g group_id_bit_offset OR p) = p"
proof -
  have s: "shl128 g group_id_bit_offset = push_bit 96 g"
    using assms(1) by (simp add: shl128_def group_id_bit_offset_def M128_def push_bit_eq_mult)
  note pb = bit_nat_less [OF assms(2)]
  have "drop_bit 96 (push_bit 96 g OR p) = g"
    by (rule bit_eqI) (auto simp: bit_simps dest: pb)
  moreover have "g mod M64 = g" using assms(1) by (simp add: M64_def)
  ultimately show "get_group_id (shl128 g group_id_bit_offset OR p) = g"
    by (simp only: s get_group_id_def) (simp add: group_id_bit_offset_def)
  have m: "shl128 1 group_id_bit_offset - 1 = mask 96"
    by (simp add: shl128_def group_id_bit_offset_def M128_def mask_eq_exp_minus_1)
  have "(push_bit 96 g OR p) AND mask 96 = p"
    by (rule bit_eqI) (auto simp: bit_simps dest: pb)
  then show "get_group_pointer (shl128 g group_id_bit_offset OR p) = p"
    by (simp only: s get_group_pointer_def m)
qed

lemma or_field_less:
  assumes "s < 2 ^ 32" and "p < 2 ^ 64"
  shows "push_bit 64 s OR p < (2::nat) ^ 96"
proof -
  have "take_bit 96 (push_bit 64 s OR p) = push_bit 64 s OR p"
    by (rule bit_eqI) (auto simp: bit_simps dest: bit_nat_less [OF assms(1)] bit_nat_less [OF assms(2)])
  then show ?thesis by (metis take_bit_nat_less_exp)
qed

text \<open>The fields do not overlap, so the pointer is their weighted sum.\<close>

lemma or_shifted: "p < 2 ^ n \<Longrightarrow> push_bit n x OR p = x * 2 ^ n + p" for x p :: nat
proof -
  assume p: "p < 2 ^ n"
  have "push_bit n x AND p = 0"
    by (rule bit_eqI) (auto simp: bit_simps dest: bit_nat_less [OF p])
  then show ?thesis by (metis disjunctive_add_eq_or push_bit_eq_mult)
qed

lemma rr_global_pointer_sum:
  assumes "group_id < 2 ^ 32" and "storage_id < 2 ^ 32" and "storage_pointer < M64"
  shows "rr_get_global_pointer storage_pointer group_id storage_id =
    group_id * 2 ^ 96 + storage_id * 2 ^ 64 + storage_pointer"
proof -
  have p: "storage_pointer < 2 ^ 64" using assms(3) by (simp add: M64_def)
  have s: "shl128 storage_id storage_id_bit_offset = push_bit 64 storage_id"
    and g: "shl128 group_id group_id_bit_offset = push_bit 96 group_id"
    using assms(1,2) by (simp_all add: shl128_def storage_id_bit_offset_def group_id_bit_offset_def M128_def push_bit_eq_mult)
  have "rr_get_global_pointer storage_pointer group_id storage_id =
      push_bit 96 group_id OR (push_bit 64 storage_id OR storage_pointer)"
    by (simp add: rr_get_global_pointer_def s g or.assoc)
  also have "\<dots> = group_id * 2 ^ 96 + (push_bit 64 storage_id OR storage_pointer)"
    by (rule or_shifted [OF or_field_less [OF assms(2) p]])
  also have "push_bit 64 storage_id OR storage_pointer = storage_id * 2 ^ 64 + storage_pointer"
    by (rule or_shifted [OF p])
  finally show ?thesis by simp
qed

lemma rr_pointer_fields:
  assumes "group_id < 2 ^ 32" and "storage_id < 2 ^ 32" and "storage_pointer < M64"
  shows "get_group_id (rr_get_global_pointer storage_pointer group_id storage_id) = group_id
    \<and> rr_get_storage_pointer (rr_get_global_pointer storage_pointer group_id storage_id) =
      (storage_id, storage_pointer)"
proof -
  have p: "storage_pointer < 2 ^ 64" using assms(3) by (simp add: M64_def)
  have s: "shl128 storage_id storage_id_bit_offset = push_bit 64 storage_id"
    using assms(2) by (simp add: shl128_def storage_id_bit_offset_def M128_def push_bit_eq_mult)
  have g: "shl128 group_id group_id_bit_offset = push_bit 96 group_id"
    using assms(1) by (simp add: shl128_def group_id_bit_offset_def M128_def push_bit_eq_mult)
  let ?r = "push_bit 96 group_id OR (push_bit 64 storage_id OR storage_pointer)"
  have r: "rr_get_global_pointer storage_pointer group_id storage_id = ?r"
    by (simp add: rr_get_global_pointer_def s g or.assoc)
  have "drop_bit 64 ?r AND mask 32 = storage_id"
    by (rule bit_eqI) (auto simp: bit_simps dest: bit_nat_less [OF assms(2)] bit_nat_less [OF p])
  moreover have "take_bit 64 ?r = storage_pointer"
    by (rule bit_eqI) (auto simp: bit_simps dest: bit_nat_less [OF assms(2)] bit_nat_less [OF p])
  moreover have "get_group_id ?r = group_id"
    using group_field(1) [OF assms(1) or_field_less [OF assms(2) p]] g by simp
  ultimately show ?thesis
    unfolding r rr_get_storage_pointer_def by (simp add: mask_eq_exp_minus_1 take_bit_eq_mod M64_def)
qed

text \<open>
  Composing a round-robin global pointer and taking it apart is lossless: for a 32-bit
  group id, a 32-bit storage id and a 64-bit local pointer, the group id, the storage id and
  the local pointer read back from the global pointer are the ones it was built from.
\<close>

theorem rr_pointer_roundtrip:
  assumes "group_id < 2 ^ 32" and "storage_id < 2 ^ 32" and "storage_pointer < M64"
  shows "get_group_id (rr_get_global_pointer storage_pointer group_id storage_id) = group_id
    \<and> rr_get_storage_pointer (rr_get_global_pointer storage_pointer group_id storage_id) =
      (storage_id, storage_pointer)"
  using assms by (rule rr_pointer_fields)

theorem rr_pointer_roundtrip_witness:
  "get_group_id (rr_get_global_pointer 4096 3 2) = 3 \<and>
   rr_get_storage_pointer (rr_get_global_pointer 4096 3 2) = (2, 4096)"
  using rr_pointer_roundtrip [of 3 2 4096] by (simp add: M64_def)

lemma stripe_coords:
  fixes cs :: nat
  assumes "0 < cs" and "ss = k * cs" and "sid < k" and "r < cs"
  shows "(q * ss + r + cs * sid) mod ss = r + cs * sid"
    and "(q * ss + r + cs * sid) div ss = q"
    and "(r + cs * sid) div cs = sid"
proof -
  have "r + cs * sid < cs * Suc sid" using assms(4) by simp
  also have "\<dots> \<le> cs * k" using assms(3) by (intro mult_le_mono2) simp
  finally have l: "r + cs * sid < ss" using assms(2) by (simp add: mult.commute)
  have e: "q * ss + r + cs * sid = (r + cs * sid) + q * ss" by simp
  show "(q * ss + r + cs * sid) mod ss = r + cs * sid" "(q * ss + r + cs * sid) div ss = q"
    unfolding e using l by simp_all
  show "(r + cs * sid) div cs = sid" using assms(1,4) by simp
qed

lemma ec_pointer_fields:
  assumes "0 < chunk_size" and "stripe_size = k * chunk_size" and "storage_id < k"
    and "group_id < 2 ^ 32" and "storage_pointer < M64"
    and "(storage_pointer div chunk_size + 1) * stripe_size \<le> 2 ^ 96"
  shows "let gp = ec_get_global_pointer storage_pointer group_id storage_id chunk_size stripe_size
    in get_group_id gp = group_id
      \<and> ec_get_storage_pointer (get_group_pointer gp) chunk_size stripe_size = (storage_id, storage_pointer)"
proof -
  define gp where "gp = ec_get_global_pointer storage_pointer group_id storage_id chunk_size stripe_size"
  let ?q = "storage_pointer div chunk_size" and ?r = "storage_pointer mod chunk_size"
  let ?x = "?q * stripe_size + ?r + chunk_size * storage_id"
  have r: "?r < chunk_size" using assms(1) by simp
  note c = stripe_coords(1,2) [OF assms(1-3) r, where q = ?q] stripe_coords(3) [OF assms(1-3) r]
  have "?x div stripe_size < ?q + 1" using c(2) by simp
  then have "?x < (?q + 1) * stripe_size"
    by (metis add_gr_0 assms(1-3) div_less_iff_less_mult less_nat_zero_code mult_pos_pos neq0_conv)
  with assms(6) have x: "?x < 2 ^ 96" by linarith
  then have "?x mod M128 = ?x" by (simp add: M128_def)
  then have gp: "gp = shl128 group_id group_id_bit_offset OR ?x"
    unfolding gp_def ec_get_global_pointer_def Let_def by simp
  have "?q * chunk_size + ?r = storage_pointer" by simp
  then have "ec_get_storage_pointer ?x chunk_size stripe_size = (storage_id, storage_pointer)"
    using c assms(5) by (simp add: ec_get_storage_pointer_def Let_def mult.commute)
  then show ?thesis unfolding Let_def gp_def [symmetric] using group_field [OF assms(4) x] by (simp add: gp)
qed

text \<open>
  In an erasure-coded group of \<open>k\<close> data storages (stripe size \<open>k * chunk_size\<close>) the
  global pointer determines the group, the storage and the local pointer it was computed
  from, as long as the pointer within the group fits into its 96 bits.
\<close>

theorem ec_pointer_roundtrip:
  assumes "0 < chunk_size" and "stripe_size = k * chunk_size" and "storage_id < k"
    and "group_id < 2 ^ 32" and "storage_pointer < M64"
    and "(storage_pointer div chunk_size + 1) * stripe_size \<le> 2 ^ 96"
  shows "let gp = ec_get_global_pointer storage_pointer group_id storage_id chunk_size stripe_size
    in get_group_id gp = group_id
      \<and> ec_get_storage_pointer (get_group_pointer gp) chunk_size stripe_size = (storage_id, storage_pointer)"
  using assms by (rule ec_pointer_fields)

theorem ec_pointer_roundtrip_witness:
  "let gp = ec_get_global_pointer 8200 1 2 4096 (3 * 4096) in
   get_group_id gp = 1 \<and> ec_get_storage_pointer (get_group_pointer gp) 4096 (3 * 4096) = (2, 8200)"
  using ec_pointer_roundtrip [of 4096 "3 * 4096" 3 2 1 8200] by (simp add: M64_def Let_def)

lemma ec_storage_pointer_inverse:
  assumes "0 < cs" and "ss = k * cs" and "0 < k" and "gp div ss * cs + cs \<le> M64" "ss < M64"
  shows "ec_get_global_pointer (snd (ec_get_storage_pointer gp cs ss)) 0
           (fst (ec_get_storage_pointer gp cs ss)) cs ss = gp mod M128"
proof -
  define m where "m = gp mod ss"
  have m: "m - m div cs * cs = m mod cs" by (simp add: minus_div_mult_eq_mod)
  have lt: "m mod cs < cs" using assms(1) by simp
  have small: "gp div ss * cs + m mod cs < M64" using assms(4) lt by linarith
  have d: "(gp div ss * cs + m mod cs) div cs = gp div ss" "(gp div ss * cs + m mod cs) mod cs = m mod cs"
    using lt by simp_all
  have "gp div ss * ss + m mod cs + cs * (m div cs) = gp"
    by (simp add: m_def add.assoc)
  moreover have "ec_get_storage_pointer gp cs ss = (m div cs, gp div ss * cs + m mod cs)"
    unfolding ec_get_storage_pointer_def Let_def m_def [symmetric] m using small by simp
  ultimately show ?thesis
    unfolding ec_get_global_pointer_def Let_def fst_conv snd_conv by (simp add: d shl128_def)
qed

lemma div_ceil_eq: "x < M64 \<Longrightarrow> 0 < y \<Longrightarrow> div_ceil x y = (x + y - 1) div y"
proof -
  assume a: "x < M64" "0 < y"
  have "x div y + (if x mod y \<noteq> 0 then 1 else 0) < M64"
  proof (cases "y = 1")
    case False
    then have "x div y \<le> x div 2" using a(2) by (intro div_le_mono2) auto
    moreover have "x div 2 + 1 < M64" using a(1) by (simp add: M64_def)
    ultimately show ?thesis by simp
  qed (use a in simp)
  then have e: "div_ceil x y = x div y + (if x mod y \<noteq> 0 then 1 else 0)"
    by (simp add: div_ceil_def add64_eq)
  define q where "q = x div y"
  define r where "r = x mod y"
  have x: "x = q * y + r" and r: "r < y" using a(2) by (simp_all add: q_def r_def)
  have "(q * y + r + y - 1) div y = q + (if r \<noteq> 0 then 1 else 0)"
  proof (cases "r = 0")
    case True
    then have "q * y + r + y - 1 = (y - 1) + q * y" using a(2) by simp
    then have "(q * y + r + y - 1) div y = (y - 1) div y + q" using a(2) by (metis div_mult_self1 less_not_refl add.commute)
    then show ?thesis using True a(2) by simp
  next
    case False
    then have "q * y + r + y - 1 = (r - 1) + Suc q * y" by simp
    then have "(q * y + r + y - 1) div y = (r - 1) div y + Suc q" using a(2) by (metis div_mult_self1 less_not_refl add.commute)
    then show ?thesis using False r by simp
  qed
  then show ?thesis unfolding e q_def [symmetric] r_def [symmetric] using x by simp
qed

text \<open>
  C39: \<open>align_up\<close> returns the least multiple of the alignment that is not below its argument,
  whenever that multiple is representable in 64 bits.
\<close>

theorem align_up_least:
  assumes "x < M64" and "0 < y" and "y dvd m" and "x \<le> m" and "m < M64"
  shows "y dvd align_up x y \<and> x \<le> align_up x y \<and> align_up x y \<le> m \<and> align_up x y < x + y"
proof -
  let ?c = "(x + y - 1) div y"
  have lo: "x \<le> ?c * y"
  proof -
    have "x + y - 1 < ?c * y + y"
      using assms(2) by (metis add.commute dividend_less_times_div mult.commute)
    then show ?thesis using assms(2) by linarith
  qed
  obtain k where k: "m = y * k" using assms(3) ..
  have up: "?c * y \<le> x + y - 1" by simp
  have "?c \<le> k"
  proof (rule ccontr)
    assume "\<not> ?c \<le> k"
    then have "k * y + y \<le> ?c * y" by (metis Suc_leI add.commute mult_Suc mult_le_mono1 not_le)
    moreover have "m = k * y" using k by (simp add: mult.commute)
    ultimately show False using up assms(2,4) by linarith
  qed
  then have hi: "?c * y \<le> m" using k by (simp add: mult.commute)
  then have "align_up x y = ?c * y"
    using assms by (simp add: align_up_def div_ceil_eq mul64_eq)
  then show ?thesis using lo hi up assms(2) by (metis Nat.le_imp_diff_is_add add_gr_0 diff_less dvd_triv_right le_less_trans zero_less_one)
qed

theorem align_up_least_witness:
  "4096 dvd align_up 5000 4096 \<and> 5000 \<le> align_up 5000 4096 \<and> align_up 5000 4096 \<le> 8192
   \<and> align_up 5000 4096 < 5000 + 4096"
  using align_up_least [of 5000 4096 8192] by (simp add: M64_def)

end
