(* ===== verification/Vrm_Group.thy ===== *)
theory Vrm_Group
  imports Vrm_Storage Vrm_Pointer
begin

text \<open>
  What the views on a storage group share: the group configuration
  (\<open>src/storage/group/config.h\<close>, \<open>config.cpp\<close>), the round-robin load balancer
  (\<open>src/common/etcd/service_discovery/service_load_balancer.h\<close>), running an operation on all
  storages (\<open>src/common/coroutines/coro_util.h\<close>), sorting the fragments of an address by
  storage (\<open>src/storage/group/impl/address_utils.cpp\<close>) and counting references per stripe. A
  parsed JSON object is the list of its members; the parser itself belongs to a library.
\<close>

subsection \<open>Configuration\<close>

datatype group_type = ROUND_ROBIN | ERASURE_CODING | REPLICA

record group_config =
  gc_id :: size_t
  gc_type :: group_type
  gc_storages :: size_t
  data_shards :: size_t
  parity_shards :: size_t
  stripe_size_kib :: size_t

definition KIBI_BYTE :: size_t where "KIBI_BYTE = 1024"
definition DEFAULT_PAGE_SIZE :: size_t where "DEFAULT_PAGE_SIZE = 8 * KIBI_BYTE"

definition get_stripe_size :: "group_config \<Rightarrow> size_t" where
  "get_stripe_size c = mul64 (stripe_size_kib c) KIBI_BYTE"

definition get_stripe_unit_size :: "group_config \<Rightarrow> size_t" where
  "get_stripe_unit_size c = get_stripe_size c div data_shards c"

datatype jval = JNum nat | JStr string

type_synonym jobject = "(string \<times> jval) list"

fun type_name :: "group_type \<Rightarrow> string" where
  "type_name ROUND_ROBIN = ''ROUND_ROBIN''"
| "type_name ERASURE_CODING = ''ERASURE_CODING''"
| "type_name REPLICA = ''REPLICA''"

definition type_of_name :: "string \<Rightarrow> group_type option" where
  "type_of_name s = find (\<lambda>t. type_name t = s) [ROUND_ROBIN, ERASURE_CODING, REPLICA]"

definition json_num :: "jobject \<Rightarrow> string \<Rightarrow> nat res" where
  "json_num j key = (case map_of j key of None \<Rightarrow> Inl Out_of_range | Some (JNum n) \<Rightarrow> Inr n | Some _ \<Rightarrow> Inl Runtime_error)"

definition json_str :: "jobject \<Rightarrow> string \<Rightarrow> string res" where
  "json_str j key = (case map_of j key of None \<Rightarrow> Inl Out_of_range | Some (JStr s) \<Rightarrow> Inr s | Some _ \<Rightarrow> Inl Runtime_error)"

definition config_from_json :: "jobject \<Rightarrow> group_config res" where
  "config_from_json j =
     bindE (json_num j ''id'') (\<lambda>i.
     bindE (json_str j ''type'') (\<lambda>type_str.
     case type_of_name type_str of
       None \<Rightarrow> Inl Invalid_argument
     | Some ty \<Rightarrow>
         bindE (json_num j ''storages'') (\<lambda>st.
         let c = \<lparr>gc_id = i, gc_type = ty, gc_storages = st, data_shards = 1, parity_shards = 0,
                  stripe_size_kib = DEFAULT_PAGE_SIZE div KIBI_BYTE\<rparr>
         in if ty = ERASURE_CODING then
              bindE (json_num j ''data_shards'') (\<lambda>d.
              bindE (json_num j ''parity_shards'') (\<lambda>p.
              bindE (json_num j ''stripe_size_kib'') (\<lambda>k.
              if st \<noteq> add64 d p then Inl Invalid_argument
              else if k mod d \<noteq> 0 then Inl Invalid_argument
              else Inr (c\<lparr>data_shards := d, parity_shards := p, stripe_size_kib := k\<rparr>))))
            else Inr c)))"

definition config_to_json :: "group_config \<Rightarrow> jobject" where
  "config_to_json c =
     [(''id'', JNum (gc_id c)), (''type'', JStr (type_name (gc_type c))), (''storages'', JNum (gc_storages c))] @
     (if gc_type c = ERASURE_CODING
      then [(''data_shards'', JNum (data_shards c)), (''parity_shards'', JNum (parity_shards c)),
            (''stripe_size_kib'', JNum (stripe_size_kib c))]
      else [])"

definition get_config :: "group_config list \<Rightarrow> size_t \<Rightarrow> group_config res" where
  "get_config configs i = (case find (\<lambda>c. gc_id c = i) configs of None \<Rightarrow> Inl Invalid_argument | Some c \<Rightarrow> Inr c)"

subsection \<open>Load balancer\<close>

text \<open>
  The services are kept in a map sorted by id; the round-robin iterator points to an entry or
  to the end (\<open>None\<close>).
\<close>

record load_balancer =
  lb_services :: "nat list"
  lb_robin :: "nat option"

definition lb_add_client :: "load_balancer \<Rightarrow> nat \<Rightarrow> load_balancer" where
  "lb_add_client l i = (if i \<in> set (lb_services l) then l else l\<lparr>lb_services := insort i (lb_services l)\<rparr>)"

definition lb_next :: "load_balancer \<Rightarrow> nat \<Rightarrow> nat option" where
  "lb_next l i = find (\<lambda>j. i < j) (lb_services l)"

definition lb_remove_client :: "load_balancer \<Rightarrow> nat \<Rightarrow> load_balancer" where
  "lb_remove_client l i =
     (if i \<notin> set (lb_services l) then l
      else if lb_robin l = Some i
           then l\<lparr>lb_robin := lb_next l i, lb_services := remove1 i (lb_services l)\<rparr>
           else l\<lparr>lb_services := remove1 i (lb_services l)\<rparr>)"

definition lb_get :: "load_balancer \<Rightarrow> load_balancer \<times> nat res" where
  "lb_get l =
     (case lb_services l of
        [] \<Rightarrow> (l, Inl Runtime_error)
      | first # _ \<Rightarrow>
          let cur = (case lb_robin l of None \<Rightarrow> first | Some i \<Rightarrow> i)
          in (l\<lparr>lb_robin := lb_next l cur\<rparr>, Inr cur))"

fun lb_gets :: "nat \<Rightarrow> load_balancer \<Rightarrow> load_balancer \<times> nat res list" where
  "lb_gets 0 l = (l, [])"
| "lb_gets (Suc k) l = (case lb_get l of (l', r) \<Rightarrow> case lb_gets k l' of (l'', rs) \<Rightarrow> (l'', r # rs))"

subsection \<open>Operations on all storages\<close>

text \<open>
  Every task is started; the results are collected in order, and the first failed one is
  thrown after the storages have changed.
\<close>

fun run_for_all :: "(nat \<Rightarrow> 's \<Rightarrow> ('s \<times> 'r res) option) \<Rightarrow> nat \<Rightarrow> 's list \<Rightarrow> ('s list \<times> 'r list res) option" where
  "run_for_all f i [] = Some ([], Inr [])"
| "run_for_all f i (s # ss) =
     (case f i s of
        None \<Rightarrow> None
      | Some (s', r) \<Rightarrow>
          (case run_for_all f (Suc i) ss of
             None \<Rightarrow> None
           | Some (ss', rs) \<Rightarrow> Some (s' # ss', bindE r (\<lambda>x. bindE rs (\<lambda>xs. Inr (x # xs))))))"

subsection \<open>Fragments by storage\<close>

type_synonym address_info = "address \<times> size_t list"

fun node_push :: "nat \<Rightarrow> fragment \<Rightarrow> size_t \<Rightarrow> (nat \<times> address_info) list \<Rightarrow> (nat \<times> address_info) list" where
  "node_push i f off [] = [(i, ([f], [off]))]"
| "node_push i f off ((j, (fs, os)) # m) =
     (if j = i then (j, (push fs f, os @ [off])) # m else (j, (fs, os)) # node_push i f off m)"

fun extract_loop ::
  "(nat \<Rightarrow> (nat \<times> nat) res) \<Rightarrow> address \<Rightarrow> size_t \<Rightarrow> (nat \<times> address_info) list \<Rightarrow> (nat \<times> address_info) list res" where
  "extract_loop get_storage_pointer [] offset m = Inr m"
| "extract_loop get_storage_pointer (f # fs) offset m =
     bindE (get_storage_pointer (pointer f)) (\<lambda>(i, storage_ptr).
     bindE (get_storage_pointer (sub128 (add128 (pointer f) (fsize f)) 1)) (\<lambda>(last_id, _).
     if i \<noteq> last_id then Inl Out_of_range
     else extract_loop get_storage_pointer fs (add64 offset (fsize f))
            (node_push i (mk_fragment storage_ptr (fsize f)) offset m)))"

definition extract_node_address_map ::
  "address \<Rightarrow> (nat \<Rightarrow> (nat \<times> nat) res) \<Rightarrow> (nat \<times> address_info) list res" where
  "extract_node_address_map addr get_storage_pointer = extract_loop get_storage_pointer addr 0 []"

text \<open>Reading every node's part into the shared buffer; \<open>get\<close> yields the storage or throws.\<close>

fun read_nodes ::
  "'s storage_ops \<Rightarrow> (nat \<Rightarrow> 's res) \<Rightarrow> (nat \<times> address_info) list \<Rightarrow> bytes \<Rightarrow> (bytes \<times> unit res) option" where
  "read_nodes S get [] buffer = Some (buffer, Inr ())"
| "read_nodes S get ((i, (fs, os)) # m) buffer =
     (case get i of
        Inl e \<Rightarrow> map_option (\<lambda>(b, _). (b, Inl e)) (read_nodes S get m buffer)
      | Inr st \<Rightarrow>
          (case read_address S st fs os buffer of
             None \<Rightarrow> None
           | Some (b, r) \<Rightarrow> map_option (\<lambda>(b', r'). (b', bindE r (\<lambda>_. r'))) (read_nodes S get m b)))"

subsection \<open>The fragments of a write\<close>

text \<open>The loop over the fragment offsets of a buffer of \<open>n\<close> bytes; \<open>ptr\<close> places a fragment.\<close>

fun fragment_list :: "(size_t \<Rightarrow> nat) \<Rightarrow> size_t list \<Rightarrow> size_t \<Rightarrow> address" where
  "fragment_list ptr [] n = []"
| "fragment_list ptr [o1] n = [mk_fragment (ptr o1) (sub64 n o1)]"
| "fragment_list ptr (o1 # o2 # os) n = mk_fragment (ptr o1) (sub64 o2 o1) # fragment_list ptr (o2 # os) n"

subsection \<open>References per stripe\<close>

text \<open>\<open>std::map\<close> from stripe ids to counts, with \<open>m[k]++\<close>.\<close>

fun omap_incr :: "nat \<Rightarrow> (nat \<times> nat) list \<Rightarrow> (nat \<times> nat) list" where
  "omap_incr k [] = [(k, 1)]"
| "omap_incr k ((a, c) # m) =
     (if k < a then (k, 1) # (a, c) # m else if k = a then (a, add64 c 1) # m else (a, c) # omap_incr k m)"

definition stripes_of :: "size_t \<Rightarrow> nat \<Rightarrow> size_t \<Rightarrow> nat list" where
  "stripes_of stripe_size ptr n = [ptr div stripe_size ..< Suc (sub64 (add64 ptr n) 1 div stripe_size)]"

definition count_stripes :: "nat list \<Rightarrow> refcount list" where
  "count_stripes ids = map (\<lambda>(k, c). mk_refcount k c) (fold omap_incr ids [])"

definition rejected_stripes :: "refcount list list \<Rightarrow> nat list" where
  "rejected_stripes rejected = map stripe_id (concat rejected)"

subsection \<open>Configuration: properties\<close>

definition valid_config :: "group_config \<Rightarrow> bool" where
  "valid_config c \<longleftrightarrow>
     (if gc_type c = ERASURE_CODING
      then gc_storages c = add64 (data_shards c) (parity_shards c) \<and> stripe_size_kib c mod data_shards c = 0
      else data_shards c = 1 \<and> parity_shards c = 0 \<and> stripe_size_kib c = 8)"

lemma type_of_name_name [simp]: "type_of_name (type_name t) = Some t"
  by (cases t) (simp_all add: type_of_name_def)

text \<open>
  Printing a valid group configuration as JSON and reading it back yields the same
  configuration, and every configuration the reader accepts is valid.
\<close>

theorem config_json_roundtrip:
  "(valid_config c \<longrightarrow> config_from_json (config_to_json c) = Inr c)
   \<and> (config_from_json j = Inr c' \<longrightarrow> valid_config c')"
proof (intro conjI impI)
  assume "valid_config c"
  then show "config_from_json (config_to_json c) = Inr c"
    by (cases c; cases "gc_type c")
      (auto simp: valid_config_def config_from_json_def config_to_json_def json_num_def json_str_def
        type_of_name_def DEFAULT_PAGE_SIZE_def KIBI_BYTE_def)
next
  assume "config_from_json j = Inr c'"
  then show "valid_config c'"
    by (auto simp: config_from_json_def valid_config_def bindE_eq_Inr Let_def DEFAULT_PAGE_SIZE_def KIBI_BYTE_def
        split: option.splits if_splits)
qed

definition sample_config :: group_config where
  "sample_config = \<lparr>gc_id = 0, gc_type = ERASURE_CODING, gc_storages = 3, data_shards = 2, parity_shards = 1,
     stripe_size_kib = 16\<rparr>"

theorem config_json_roundtrip_witness:
  "config_from_json (config_to_json sample_config) = Inr sample_config"
  using config_json_roundtrip [of sample_config "[]" sample_config]
  by (simp add: valid_config_def sample_config_def add64_def M64_def)

lemma stripe_size_units:
  assumes "valid_config c" and "gc_type c = ERASURE_CODING" and "stripe_size_kib c * KIBI_BYTE < M64"
  shows "get_stripe_size c = data_shards c * get_stripe_unit_size c"
proof -
  have "data_shards c dvd stripe_size_kib c" using assms(1,2) by (simp add: valid_config_def mod_eq_0_iff_dvd)
  then have "data_shards c dvd stripe_size_kib c * KIBI_BYTE" by simp
  then show ?thesis using assms(3) by (simp add: get_stripe_unit_size_def get_stripe_size_def mul64_eq)
qed

subsection \<open>Round robin is fair\<close>

lemma find_greater:
  "sorted_wrt (<) (xs @ i # ys) \<Longrightarrow> find ((<) i) (xs @ i # ys) = (case ys of [] \<Rightarrow> None | j # _ \<Rightarrow> Some j)" for i :: nat
proof -
  assume s: "sorted_wrt (<) (xs @ i # ys)"
  then have "\<forall>x\<in>set xs. \<not> i < x" by (auto simp: sorted_wrt_append)
  then have "find ((<) i) (xs @ zs) = find ((<) i) zs" for zs by (induction xs) auto
  then show ?thesis using s by (cases ys) (auto simp: sorted_wrt_append)
qed

lemma lb_gets_rest:
  "ids = xs @ ys \<Longrightarrow> sorted_wrt (<) ids \<Longrightarrow> ids \<noteq> [] \<Longrightarrow> (xs = [] \<longrightarrow> r = None \<or> r = Some (hd ids)) \<Longrightarrow>
   (xs \<noteq> [] \<longrightarrow> ys \<noteq> [] \<longrightarrow> r = Some (hd ys)) \<Longrightarrow>
   snd (lb_gets (length ys) \<lparr>lb_services = ids, lb_robin = r\<rparr>) = map Inr ys \<and>
   (ys \<noteq> [] \<longrightarrow> fst (lb_gets (length ys) \<lparr>lb_services = ids, lb_robin = r\<rparr>) = \<lparr>lb_services = ids, lb_robin = None\<rparr>)"
proof (induction ys arbitrary: xs r)
  case (Cons y ys)
  let ?l = "\<lparr>lb_services = ids, lb_robin = r\<rparr>"
  have cur: "(case r of None \<Rightarrow> hd ids | Some i \<Rightarrow> i) = y"
    using Cons.prems by (cases xs) auto
  have nx: "lb_next ?l y = (case ys of [] \<Rightarrow> None | j # _ \<Rightarrow> Some j)"
    using find_greater [of xs y ys] Cons.prems(1,2) by (simp add: lb_next_def)
  have g: "lb_get ?l = (\<lparr>lb_services = ids, lb_robin = (case ys of [] \<Rightarrow> None | j # _ \<Rightarrow> Some j)\<rparr>, Inr y)"
    using Cons.prems(3) cur nx by (cases ids; cases r) (auto simp: lb_get_def Let_def)
  let ?n = "\<lparr>lb_services = ids, lb_robin = (case ys of [] \<Rightarrow> None | j # _ \<Rightarrow> Some j)\<rparr>"
  have IH: "snd (lb_gets (length ys) ?n) = map Inr ys \<and>
      (ys \<noteq> [] \<longrightarrow> fst (lb_gets (length ys) ?n) = \<lparr>lb_services = ids, lb_robin = None\<rparr>)"
  proof (rule Cons.IH)
    show "ids = (xs @ [y]) @ ys" using Cons.prems(1) by simp
    show "xs @ [y] \<noteq> [] \<longrightarrow> ys \<noteq> [] \<longrightarrow> (case ys of [] \<Rightarrow> None | j # _ \<Rightarrow> Some j) = Some (hd ys)"
      by (cases ys) simp_all
  qed (use Cons.prems(2,3) in simp_all)
  have "lb_gets (length (y # ys)) ?l = (fst (lb_gets (length ys) ?n), Inr y # snd (lb_gets (length ys) ?n))"
    by (simp add: g split: prod.split)
  then show ?case using IH by (cases ys) simp_all
qed simp

text \<open>
  The load balancer is fair: starting a round, as many requests as there are services
  return every service exactly once, in the order of their ids, and the next round begins.
\<close>

theorem lb_round_fair:
  assumes "sorted_wrt (<) ids" and "ids \<noteq> []"
  shows "lb_gets (length ids) \<lparr>lb_services = ids, lb_robin = None\<rparr> =
    (\<lparr>lb_services = ids, lb_robin = None\<rparr>, map Inr ids)"
  using lb_gets_rest [of ids "[]" ids None] assms by (auto intro: prod_eqI)

theorem lb_round_fair_witness:
  "lb_gets 3 \<lparr>lb_services = [1, 4, 7], lb_robin = None\<rparr> =
    (\<lparr>lb_services = [1, 4, 7], lb_robin = None\<rparr>, [Inr 1, Inr 4, Inr 7])"
  using lb_round_fair [of "[1, 4, 7]"] by (simp add: numeral_3_eq_3)

subsection \<open>Filling a buffer piece by piece\<close>

definition apply_writes :: "(nat \<times> 'a list) list \<Rightarrow> 'a list \<Rightarrow> 'a list" where
  "apply_writes ws buf = fold (\<lambda>(off, bs). overwrite off bs) ws buf"

definition writes_of :: "'a list \<Rightarrow> (nat \<times> 'a list) set \<Rightarrow> bool" where
  "writes_of T ws \<longleftrightarrow> (\<forall>(off, bs)\<in>ws. off + length bs \<le> length T \<and> slice off (length bs) T = bs)"

lemma apply_writes_simps [simp]:
  "apply_writes [] buf = buf"
  "apply_writes ((off, bs) # ws) buf = apply_writes ws (overwrite off bs buf)"
  "apply_writes (ws @ vs) buf = apply_writes vs (apply_writes ws buf)"
  by (simp_all add: apply_writes_def)

lemma overwrite_agrees:
  assumes "off + length bs \<le> length T" and "slice off (length bs) T = bs" and "length buf = length T"
    and "i < length T" and "off \<le> i \<and> i < off + length bs \<or> buf ! i = T ! i"
  shows "overwrite off bs buf ! i = T ! i"
proof (cases "off \<le> i \<and> i < off + length bs")
  case True
  then have "i - off < length bs" by linarith
  then have "bs ! (i - off) = T ! i" using True assms(1,2) nth_slice [of "i - off" "length bs" off T] by simp
  then show ?thesis using True assms by (simp add: nth_overwrite)
next
  case False
  then show ?thesis using assms by (auto simp: nth_overwrite)
qed

lemma apply_writes_agree:
  "writes_of T (set ws) \<Longrightarrow> length buf = length T \<Longrightarrow>
   length (apply_writes ws buf) = length T \<and>
   (\<forall>i<length T. (buf ! i = T ! i \<or> (\<exists>(off, bs)\<in>set ws. off \<le> i \<and> i < off + length bs)) \<longrightarrow> apply_writes ws buf ! i = T ! i)"
proof (induction ws arbitrary: buf)
  case (Cons w ws)
  obtain off bs where w: "w = (off, bs)" by force
  have 1: "off + length bs \<le> length T" "slice off (length bs) T = bs" "writes_of T (set ws)"
    using Cons.prems(1) by (auto simp: writes_of_def w)
  have len: "length (overwrite off bs buf) = length T" using 1(1) Cons.prems(2) by (simp add: length_overwrite)
  note IH = Cons.IH [OF 1(3) len]
  have "apply_writes ws (overwrite off bs buf) ! i = T ! i"
    if i: "i < length T" and "buf ! i = T ! i \<or> (\<exists>(off, bs)\<in>set (w # ws). off \<le> i \<and> i < off + length bs)" for i
  proof (cases "\<exists>(off, bs)\<in>set ws. off \<le> i \<and> i < off + length bs")
    case True
    then show ?thesis using IH i by blast
  next
    case False
    then have "off \<le> i \<and> i < off + length bs \<or> buf ! i = T ! i" using that(2) by (auto simp: w)
    then have "overwrite off bs buf ! i = T ! i" using overwrite_agrees 1(1,2) Cons.prems(2) i by blast
    then show ?thesis using IH i by blast
  qed
  then show ?case using IH by (auto simp: w)
qed simp

lemma apply_writes_cover:
  assumes "writes_of T (set ws)" and "length buf = length T"
    and "\<And>i. i < length T \<Longrightarrow> \<exists>(off, bs)\<in>set ws. off \<le> i \<and> i < off + length bs"
  shows "apply_writes ws buf = T"
  using apply_writes_agree [OF assms(1,2)] assms(3) by (intro nth_equalityI) auto

text \<open>The pieces of a concatenation at their running offsets.\<close>

fun piece_writes :: "nat \<Rightarrow> 'a list list \<Rightarrow> (nat \<times> 'a list) list" where
  "piece_writes k [] = []"
| "piece_writes k (b # bs) = (k, b) # piece_writes (k + length b) bs"

lemma piece_writes_of:
  "T = pre @ concat bs \<Longrightarrow> length pre = k \<Longrightarrow> writes_of T (set (piece_writes k bs))"
proof (induction bs arbitrary: pre k)
  case (Cons b bs)
  have "writes_of T (set (piece_writes (k + length b) bs))"
    using Cons.prems by (intro Cons.IH [of "pre @ b"]) auto
  then show ?case using Cons.prems by (auto simp: writes_of_def slice_def)
qed (simp add: writes_of_def)

lemma piece_writes_cover:
  "k \<le> i \<Longrightarrow> i < k + length (concat bs) \<Longrightarrow> \<exists>(off, b)\<in>set (piece_writes k bs). off \<le> i \<and> i < off + length b"
proof (induction bs arbitrary: k)
  case (Cons b bs)
  show ?case
  proof (cases "i < k + length b")
    case False
    then show ?thesis using Cons.IH [of "k + length b"] Cons.prems by auto
  qed (use Cons.prems in auto)
qed simp

subsection \<open>Sorting fragments by storage\<close>

definition node_triples :: "(nat \<times> address_info) list \<Rightarrow> (nat \<times> fragment \<times> nat) set" where
  "node_triples m = {(i, f, k). \<exists>fs os. (i, (fs, os)) \<in> set m \<and> (f, k) \<in> set (zip fs os)}"

definition wf_nodes :: "(nat \<times> address_info) list \<Rightarrow> bool" where
  "wf_nodes m \<longleftrightarrow> list_all (\<lambda>(i, fs, os). length fs = length os) m \<and> distinct (map fst m)"

lemma node_push_wf: "wf_nodes m \<Longrightarrow> wf_nodes (node_push i f k m) \<and> set (map fst (node_push i f k m)) = insert i (set (map fst m))"
  by (induction i f k m rule: node_push.induct) (auto simp: wf_nodes_def push_def)

lemma node_triples_Nil [simp]: "node_triples [] = {}"
  by (simp add: node_triples_def)

lemma node_triples_Cons: "node_triples ((i, (fs, os)) # m) = (\<lambda>(f, k). (i, f, k)) ` set (zip fs os) \<union> node_triples m"
  by (auto simp: node_triples_def)

lemma node_push_triples: "wf_nodes m \<Longrightarrow> node_triples (node_push i f k m) = insert (i, f, k) (node_triples m)"
proof (induction i f k m rule: node_push.induct)
  case (1 i f off)
  then show ?case by (auto simp: node_triples_def)
next
  case (2 i f off j fs os m)
  then show ?case by (auto simp: node_triples_Cons wf_nodes_def push_def)
qed

text \<open>The storage part of every fragment with its offset in the buffer.\<close>

fun frag_triples :: "(nat \<Rightarrow> (nat \<times> nat) res) \<Rightarrow> address \<Rightarrow> nat \<Rightarrow> (nat \<times> fragment \<times> nat) list" where
  "frag_triples gsp [] k = []"
| "frag_triples gsp (f # fs) k =
     (case gsp (pointer f) of
        Inl _ \<Rightarrow> []
      | Inr (i, p) \<Rightarrow> (i, mk_fragment p (fsize f), k) # frag_triples gsp fs (k + fsize f))"

definition in_one_storage :: "(nat \<Rightarrow> (nat \<times> nat) res) \<Rightarrow> fragment \<Rightarrow> bool" where
  "in_one_storage gsp f \<longleftrightarrow>
     (\<exists>i p q. gsp (pointer f) = Inr (i, p) \<and> gsp (sub128 (add128 (pointer f) (fsize f)) 1) = Inr (i, q))"

lemma extract_loop_ok:
  "wf_nodes m \<Longrightarrow> \<forall>f\<in>set fs. in_one_storage gsp f \<Longrightarrow> k + total_size fs < M64 \<Longrightarrow>
   \<exists>m'. extract_loop gsp fs k m = Inr m' \<and> wf_nodes m' \<and> node_triples m' = node_triples m \<union> set (frag_triples gsp fs k)"
proof (induction fs arbitrary: k m)
  case (Cons f fs)
  obtain i p q where g: "gsp (pointer f) = Inr (i, p)" "gsp (sub128 (add128 (pointer f) (fsize f)) 1) = Inr (i, q)"
    using Cons.prems(2) by (auto simp: in_one_storage_def)
  let ?m = "node_push i (mk_fragment p (fsize f)) k m"
  have a: "add64 k (fsize f) = k + fsize f" using Cons.prems(3) by (simp add: add64_eq)
  obtain m' where "extract_loop gsp fs (k + fsize f) ?m = Inr m'" "wf_nodes m'"
    "node_triples m' = node_triples ?m \<union> set (frag_triples gsp fs (k + fsize f))"
    using Cons.IH [of ?m "k + fsize f"] node_push_wf [OF Cons.prems(1)] Cons.prems(2,3) by auto
  then show ?case using g a node_push_triples [OF Cons.prems(1)] by auto
qed simp

lemma node_ids: "wf_nodes m \<Longrightarrow> (i, f, k) \<in> node_triples m \<Longrightarrow> i \<in> fst ` set m"
  by (force simp: node_triples_def)

lemma extract_loop_ids:
  "extract_loop gsp fs k m = Inr m' \<Longrightarrow>
   fst ` set m' \<subseteq> fst ` set m \<union> {i. \<exists>f\<in>set fs. \<exists>p. gsp (pointer f) = Inr (i, p)}"
proof (induction fs arbitrary: k m)
  case (Cons f fs)
  obtain i p j q where g: "gsp (pointer f) = Inr (i, p)" "gsp (sub128 (add128 (pointer f) (fsize f)) 1) = Inr (j, q)"
    and r: "extract_loop gsp fs (add64 k (fsize f)) (node_push i (mk_fragment p (fsize f)) k m) = Inr m'"
    using Cons.prems by (auto simp: bindE_eq_Inr split: if_splits)
  have "fst ` set (node_push i fr k m) = insert i (fst ` set m)" for fr
    by (induction i fr k m rule: node_push.induct) auto
  with Cons.IH [OF r] g show ?case by auto
qed simp

definition frag_data :: "(nat \<Rightarrow> (nat \<times> nat) res) \<Rightarrow> (nat \<Rightarrow> bytes) \<Rightarrow> fragment \<Rightarrow> bytes" where
  "frag_data gsp C f = (case gsp (pointer f) of Inl _ \<Rightarrow> [] | Inr (i, p) \<Rightarrow> slice p (fsize f) (C i))"

definition triple_write :: "(nat \<Rightarrow> bytes) \<Rightarrow> nat \<times> fragment \<times> nat \<Rightarrow> nat \<times> bytes" where
  "triple_write C = (\<lambda>(i, f, k). (k, slice (pointer f) (fsize f) (C i)))"

definition frag_fits :: "(nat \<Rightarrow> (nat \<times> nat) res) \<Rightarrow> (nat \<Rightarrow> bytes) \<Rightarrow> fragment \<Rightarrow> bool" where
  "frag_fits gsp C f \<longleftrightarrow> (\<exists>i p. gsp (pointer f) = Inr (i, p) \<and> p + fsize f \<le> length (C i))"

lemma length_frag_data [simp]: "frag_fits gsp C f \<Longrightarrow> length (frag_data gsp C f) = fsize f"
  by (auto simp: frag_fits_def frag_data_def length_slice)

lemma frag_triples_writes:
  "\<forall>f\<in>set fs. frag_fits gsp C f \<Longrightarrow>
   map (triple_write C) (frag_triples gsp fs k) = piece_writes k (map (frag_data gsp C) fs)"
proof (induction fs arbitrary: k)
  case (Cons f fs)
  then obtain i p where "gsp (pointer f) = Inr (i, p)" "p + fsize f \<le> length (C i)"
    by (auto simp: frag_fits_def)
  then show ?case using Cons by (simp add: triple_write_def frag_data_def length_slice)
qed simp

lemma frag_triples_fits:
  "\<forall>f\<in>set fs. frag_fits gsp C f \<Longrightarrow> (i, f, j) \<in> set (frag_triples gsp fs k) \<Longrightarrow> pointer f + fsize f \<le> length (C i)"
  by (induction fs arbitrary: k) (auto simp: frag_fits_def)

lemma length_concat_data:
  "\<forall>f\<in>set fs. frag_fits gsp C f \<Longrightarrow> length (concat (map (frag_data gsp C) fs)) = total_size fs"
  by (induction fs) auto

context storage
begin

lemma read_nodes_ok:
  "wf_nodes m \<Longrightarrow> (\<And>i. i \<in> fst ` set m \<Longrightarrow> \<exists>st. get i = Inr st \<and> sinv st \<and> content st = C i) \<Longrightarrow>
   (\<And>i f k. (i, f, k) \<in> node_triples m \<Longrightarrow> pointer f + fsize f \<le> length (C i)) \<Longrightarrow>
   \<exists>ws. read_nodes S get m buffer = Some (apply_writes ws buffer, Inr ()) \<and> set ws = triple_write C ` node_triples m"
proof (induction m arbitrary: buffer)
  case Nil
  then show ?case by (intro exI [of _ "[]"]) (simp add: node_triples_def)
next
  case (Cons n m)
  obtain i fs os where n: "n = (i, (fs, os))" by (metis surj_pair)
  obtain st where st: "get i = Inr st" "sinv st" "content st = C i" using Cons.prems(2) [of i] by (auto simp: n)
  have len: "length os = length fs" using Cons.prems(1) by (simp add: wf_nodes_def n)
  have "\<forall>f\<in>set fs. pointer f + fsize f \<le> length (content st)"
  proof
    fix f assume "f \<in> set fs"
    then obtain k where "(f, k) \<in> set (zip fs os)" using len by (metis in_set_impl_in_set_zip1)
    then show "pointer f + fsize f \<le> length (content st)"
      using Cons.prems(3) [of i f k] st(3) by (auto simp: node_triples_Cons n)
  qed
  note ra = read_address_ok [OF st(2) len this, of buffer]
  let ?ws = "map (\<lambda>(f, k). (k, slice (pointer f) (fsize f) (C i))) (zip fs os)"
  have w: "fold (\<lambda>(f, o1). overwrite o1 (slice (pointer f) (fsize f) (content st))) (zip fs os) buffer = apply_writes ?ws buffer"
    unfolding apply_writes_def fold_map st(3) by (rule fold_cong) auto
  obtain ws where ws: "read_nodes S get m (apply_writes ?ws buffer) = Some (apply_writes ws (apply_writes ?ws buffer), Inr ())"
    "set ws = triple_write C ` node_triples m"
    using Cons.IH [of "apply_writes ?ws buffer"] Cons.prems by (force simp: wf_nodes_def n node_triples_Cons)
  have "read_nodes S get (n # m) buffer = Some (apply_writes (?ws @ ws) buffer, Inr ())"
    using ra ws(1) st(1) by (simp add: n w)
  moreover have "set (?ws @ ws) = triple_write C ` node_triples (n # m)"
  proof -
    have "set ?ws = triple_write C ` (\<lambda>(f, k). (i, f, k)) ` set (zip fs os)"
      by (simp add: image_image triple_write_def split_def)
    then show ?thesis using ws(2) by (simp add: n node_triples_Cons image_Un)
  qed
  ultimately show ?case by blast
qed

lemma read_fragments_ok:
  assumes "\<forall>f\<in>set addr. in_one_storage gsp f \<and> frag_fits gsp C f"
    and "\<And>f i p. f \<in> set addr \<Longrightarrow> gsp (pointer f) = Inr (i, p) \<Longrightarrow> \<exists>st. get i = Inr st \<and> sinv st \<and> content st = C i"
    and "total_size addr < M64" and "length buffer = total_size addr"
  shows "\<exists>m. extract_node_address_map addr gsp = Inr m \<and>
    read_nodes S get m buffer = Some (concat (map (frag_data gsp C) addr), Inr ())"
proof -
  have fit: "\<forall>f\<in>set addr. frag_fits gsp C f" and one: "\<forall>f\<in>set addr. in_one_storage gsp f" using assms(1) by auto
  obtain m where m: "extract_loop gsp addr 0 [] = Inr m" "wf_nodes m" "node_triples m = set (frag_triples gsp addr 0)"
    using extract_loop_ok [of "[]" addr gsp 0] one assms(3) by (auto simp: wf_nodes_def)
  have "\<exists>st. get i = Inr st \<and> sinv st \<and> content st = C i" if "i \<in> fst ` set m" for i
    using that extract_loop_ids [OF m(1)] assms(2) by auto
  then obtain ws where ws: "read_nodes S get m buffer = Some (apply_writes ws buffer, Inr ())"
    "set ws = triple_write C ` node_triples m"
    using read_nodes_ok [OF m(2), of get C buffer] frag_triples_fits [OF fit] m(3) by blast
  let ?ds = "map (frag_data gsp C) addr"
  have set: "set ws = set (piece_writes 0 ?ds)"
    using ws(2) m(3) frag_triples_writes [OF fit, of 0] by (metis list.set_map)
  have "apply_writes ws buffer = concat ?ds"
  proof (rule apply_writes_cover)
    show "writes_of (concat ?ds) (set ws)" unfolding set by (rule piece_writes_of [of _ "[]"]) auto
    show "length buffer = length (concat ?ds)" using length_concat_data [OF fit] assms(4) by simp
    show "\<exists>(off, bs)\<in>set ws. off \<le> i \<and> i < off + length bs" if "i < length (concat ?ds)" for i
      unfolding set using piece_writes_cover [of 0 i ?ds] that by simp
  qed
  then show ?thesis using m(1) ws(1) by (simp add: extract_node_address_map_def)
qed

end

subsection \<open>Counting references\<close>

lemma omap_incr_props:
  "sorted_wrt (<) (map fst m) \<Longrightarrow> sorted_wrt (<) (map fst (omap_incr k m)) \<and> fst ` set (omap_incr k m) = insert k (fst ` set m)
   \<and> map_of (omap_incr k m) k' = (if k' = k then Some (case map_of m k of None \<Rightarrow> 1 | Some c \<Rightarrow> add64 c 1) else map_of m k')"
proof (induction m)
  case (Cons p m)
  obtain a c where p: "p = (a, c)" by force
  have "map_of m k = None" if "k < a"
    using that Cons.prems by (auto simp: map_of_eq_None_iff p)
  then show ?case using Cons by (auto simp: p)
qed simp

lemma count_stripes_fold:
  "sorted_wrt (<) (map fst m) \<Longrightarrow> \<forall>c\<in>snd ` set m. c < M64 \<Longrightarrow>
   sorted_wrt (<) (map fst (fold omap_incr ids m)) \<and> fst ` set (fold omap_incr ids m) = fst ` set m \<union> set ids
   \<and> map_of (fold omap_incr ids m) k = (if k \<in> set ids \<union> fst ` set m
        then Some (((case map_of m k of None \<Rightarrow> 0 | Some c \<Rightarrow> c) + count_list ids k) mod M64) else None)"
proof (induction ids arbitrary: m)
  case Nil
  show ?case
  proof (cases "map_of m k")
    case (Some c)
    then have "(k, c) \<in> set m" by (rule map_of_SomeD)
    then show ?thesis using Nil Some by (auto simp: rev_image_eqI)
  qed (use Nil in \<open>auto simp: map_of_eq_None_iff\<close>)
next
  case (Cons i ids)
  have P: "sorted_wrt (<) (map fst (omap_incr i m))" "fst ` set (omap_incr i m) = insert i (fst ` set m)"
    using omap_incr_props [OF Cons.prems(1)] by blast+
  have one: "1 < M64" by (simp add: M64_def)
  have "c < M64" if "(a, c) \<in> set (omap_incr i m)" for a c
    using that Cons.prems(2) one by (induction m) (fastforce split: if_splits)+
  then have "\<forall>c\<in>snd ` set (omap_incr i m). c < M64" by auto
  note IH = Cons.IH [OF P(1) this]
  have mem: "k \<in> fst ` set m \<longleftrightarrow> map_of m k \<noteq> None" by (metis map_of_eq_None_iff)
  have get: "map_of (omap_incr i m) k = (if k = i then Some (case map_of m i of None \<Rightarrow> 1 | Some c \<Rightarrow> add64 c 1) else map_of m k)"
    using omap_incr_props [OF Cons.prems(1)] by blast
  show ?case
    using IH P(2) mem get by (cases "i = k"; cases "map_of m k") (auto simp: add64_def mod_simps add.assoc)
qed

lemma count_stripes_props:
  "sorted_wrt (<) (map stripe_id (count_stripes ids)) \<and> stripe_id ` set (count_stripes ids) = set ids"
proof -
  have "map stripe_id (count_stripes ids) = map fst (fold omap_incr ids [])"
    by (simp add: count_stripes_def split_def)
  moreover have "stripe_id ` set (count_stripes ids) = fst ` set (fold omap_incr ids [])"
    by (simp add: count_stripes_def split_def image_image)
  ultimately show ?thesis using count_stripes_fold [of "[]" ids] by simp
qed

lemma distinct_count_stripes [simp]: "distinct (map stripe_id (count_stripes ids))"
  using count_stripes_props [of ids] by (simp add: strict_sorted_iff)

lemma requested_assoc:
  "distinct (map fst m) \<Longrightarrow> requested k (map (\<lambda>(k, c). mk_refcount k c) m) = (case map_of m k of None \<Rightarrow> 0 | Some c \<Rightarrow> c)"
proof (induction m)
  case (Cons p m)
  have "requested k (map (\<lambda>(k, c). mk_refcount k c) m) = 0" if "k \<notin> fst ` set m" for k
    using that by (induction m) auto
  then show ?case using Cons by (cases p) auto
qed simp

lemma requested_count_stripes:
  assumes "length ids < M64"
  shows "requested k (count_stripes ids) = count_list ids k"
proof -
  note F = count_stripes_fold [of "[]" ids]
  have "distinct (map fst (fold omap_incr ids []))" using F by (simp add: strict_sorted_iff)
  then have "requested k (count_stripes ids) = (case map_of (fold omap_incr ids []) k of None \<Rightarrow> 0 | Some c \<Rightarrow> c)"
    unfolding count_stripes_def by (rule requested_assoc)
  moreover have "count_list ids k < M64" using assms count_le_length [of ids k] by linarith
  ultimately show ?thesis using F [of k] by auto
qed

lemma fragment_list_data:
  assumes "\<And>o1 k. o1 + k \<le> n \<Longrightarrow> 0 < k \<Longrightarrow> D (mk_fragment (ptr o1) k) = slice o1 k data" and "length data = n" and "n < M64"
  shows "sorted_wrt (<) (o1 # os) \<Longrightarrow> \<forall>x\<in>set (o1 # os). x < n \<Longrightarrow>
    concat (map D (fragment_list ptr (o1 # os) n)) = drop o1 data"
proof (induction os arbitrary: o1)
  case Nil
  then show ?case using assms by (simp add: sub64_eq slice_def)
next
  case (Cons o2 os)
  have "sub64 o2 o1 = o2 - o1" using Cons.prems assms(3) by (intro sub64_eq) auto
  moreover have "slice o1 (o2 - o1) data @ drop o2 data = drop o1 data"
  proof -
    have "drop o2 data = drop (o2 - o1) (drop o1 data)" using Cons.prems(1) by simp
    then show ?thesis by (simp only: slice_def append_take_drop_id)
  qed
  ultimately show ?case using Cons assms(1) [of o1 "o2 - o1"] by simp
qed

lemma fragment_list_frags:
  assumes "n < M64"
  shows "sorted_wrt (<) (o1 # os) \<Longrightarrow> \<forall>x\<in>set (o1 # os). x < n \<Longrightarrow> f \<in> set (fragment_list ptr (o1 # os) n) \<Longrightarrow>
    \<exists>o2. pointer f = ptr o2 \<and> o1 \<le> o2 \<and> o2 + fsize f \<le> n \<and> 0 < fsize f"
proof (induction os arbitrary: o1)
  case Nil
  then show ?case using assms by (intro exI [of _ o1]) (auto simp: sub64_eq)
next
  case (Cons o2 os)
  have s: "sub64 o2 o1 = o2 - o1" using Cons.prems assms by (intro sub64_eq) auto
  have lt: "o1 < o2" "o2 < n" using Cons.prems by auto
  from Cons.prems(3) consider "f = mk_fragment (ptr o1) (o2 - o1)" | "f \<in> set (fragment_list ptr (o2 # os) n)"
    using s by auto
  then show ?case
  proof cases
    case 1
    then show ?thesis using lt by (intro exI [of _ o1]) simp
  next
    case 2
    then obtain x where "pointer f = ptr x" "o2 \<le> x" "x + fsize f \<le> n" "0 < fsize f"
      using Cons.IH [of o2] Cons.prems(1,2) by auto
    then show ?thesis using lt by (intro exI [of _ x]) simp
  qed
qed

lemma total_size_fragment_list:
  assumes "n < M64"
  shows "sorted_wrt (<) (o1 # os) \<Longrightarrow> \<forall>x\<in>set (o1 # os). x < n \<Longrightarrow> total_size (fragment_list ptr (o1 # os) n) = n - o1"
proof (induction os arbitrary: o1)
  case (Cons o2 os)
  have "sub64 o2 o1 = o2 - o1" using Cons.prems assms by (intro sub64_eq) auto
  then show ?case using Cons by auto
qed (use assms in \<open>simp add: sub64_eq\<close>)

lemma run_for_all_results:
  "\<forall>i<length ss. \<exists>s' r. f (j + i) (ss ! i) = Some (s', Inr r) \<and> P (j + i) s' r \<Longrightarrow>
   \<exists>ss' rs. run_for_all f j ss = Some (ss', Inr rs) \<and> length ss' = length ss \<and> length rs = length ss
     \<and> (\<forall>i<length ss. P (j + i) (ss' ! i) (rs ! i))"
proof (induction ss arbitrary: j)
  case (Cons s ss)
  obtain s' r where 1: "f j s = Some (s', Inr r)" "P j s' r" using Cons.prems by force
  have "\<forall>i<length ss. \<exists>s' r. f (Suc j + i) (ss ! i) = Some (s', Inr r) \<and> P (Suc j + i) s' r"
    using Cons.prems by force
  from Cons.IH [OF this] obtain ss' rs where 2: "run_for_all f (Suc j) ss = Some (ss', Inr rs)" "length ss' = length ss"
    "length rs = length ss" "\<forall>i<length ss. P (Suc j + i) (ss' ! i) (rs ! i)" by blast
  have "P (j + i) ((s' # ss') ! i) ((r # rs) ! i)" if "i < Suc (length ss)" for i using that 1 2 by (cases i) auto
  then show ?case using 1 2 by simp
qed simp

end
