(* ===== verification/Vrm_ECView.thy ===== *)
theory Vrm_ECView
  imports Vrm_Group
begin

text \<open>
  The erasure-coded view on a storage group (\<open>src/storage/group/ec_data_view.cpp\<close>,
  \<open>ec_data_view.h\<close>) and the wrapper of the Reed-Solomon code
  (\<open>src/common/ec/reedsolomon_c.h\<close>). A write is cut into stripes of \<open>data_shards\<close> chunks;
  parity chunks are computed per stripe, and every storage stores its chunks at the same
  allocation. Reads go to the data storages; chunks of storages that cannot be read are
  reconstructed. The code library itself is the record \<open>codec\<close>, and \<open>codec_laws\<close> states what
  it promises. A null storage pointer that the source dereferences is modelled as throwing.
\<close>

datatype storage_state = DOWN | NEW | ASSIGNED

datatype group_state = UNDETERMINED | HEALTHY | DEGRADED | FAILED | REPAIRING

subsection \<open>The Reed-Solomon wrapper\<close>

record codec =
  rs_encode :: "bytes list \<Rightarrow> bytes list option"
  rs_reconstruct :: "bytes list \<Rightarrow> bool list \<Rightarrow> bytes list option"

text \<open>\<open>stats\<close> marks the lost shards.\<close>

definition recover :: "codec \<Rightarrow> size_t \<Rightarrow> size_t \<Rightarrow> size_t \<Rightarrow> bytes list \<Rightarrow> bool list \<Rightarrow> bytes list res" where
  "recover R k m shard_size shards stats =
     (if length shards \<noteq> m + k \<and> length stats \<noteq> length shards then Inl Logic_error
      else let n = length (hd shards)
           in if shard_size \<noteq> 0 \<and> shard_size \<noteq> n then Inl Logic_error
              else if \<not> list_all (\<lambda>s. length s = n) shards then Inl Logic_error
              else case rs_reconstruct R shards stats of None \<Rightarrow> Inl Runtime_error | Some out \<Rightarrow> Inr out)"

definition encode :: "codec \<Rightarrow> bytes list \<Rightarrow> bytes list res" where
  "encode R data = (case rs_encode R data of None \<Rightarrow> Inl Runtime_error | Some p \<Rightarrow> Inr p)"

subsection \<open>The view\<close>

record 's ec_view =
  ec_config :: group_config
  ec_storages :: "'s list"
  ec_index :: "bool list"
  ec_states :: "storage_state list"
  ec_leader :: int
  ec_group_state :: group_state

definition m_stripe_size :: "'s ec_view \<Rightarrow> size_t" where
  "m_stripe_size v = get_stripe_size (ec_config v)"

definition m_chunk_size :: "'s ec_view \<Rightarrow> size_t" where
  "m_chunk_size v = get_stripe_unit_size (ec_config v)"

definition split_buffer :: "'a list \<Rightarrow> size_t \<Rightarrow> 'a list list res" where
  "split_buffer buffer chunk_size =
     (if length buffer mod chunk_size \<noteq> 0 then Inl Invalid_argument
      else Inr (map (\<lambda>i. slice (i * chunk_size) chunk_size buffer) [0..<length buffer div chunk_size]))"

definition ec_compute_address :: "group_config \<Rightarrow> size_t list \<Rightarrow> size_t \<Rightarrow> allocation \<Rightarrow> address" where
  "ec_compute_address c offsets n a =
     (let base_offset = mul64 (alloc_offset a) (data_shards c)
      in fragment_list (\<lambda>o1. add64 base_offset o1) offsets n)"

definition ec_stripes :: "size_t \<Rightarrow> fragment \<Rightarrow> nat list" where
  "ec_stripes stripe_size f =
     (let group_pointer = get_group_pointer (pointer f)
      in [(group_pointer div stripe_size) mod M64 ..<
          Suc ((sub128 (add128 group_pointer (fsize f)) 1 div stripe_size) mod M64)])"

definition ec_extract_refcounts :: "size_t \<Rightarrow> address \<Rightarrow> refcount list" where
  "ec_extract_refcounts stripe_size addr = count_stripes (concat (map (ec_stripes stripe_size) addr))"

definition ec_compute_rejected_address :: "size_t \<Rightarrow> refcount list list \<Rightarrow> address \<Rightarrow> address" where
  "ec_compute_rejected_address stripe_size rejected_refcounts original_addr =
     (let rejected = rejected_stripes rejected_refcounts
      in if rejected = [] then []
         else filter (\<lambda>f. \<exists>i\<in>set (ec_stripes stripe_size f). i \<in> set rejected) original_addr)"

text \<open>The data of stripe \<open>i\<close>, the last one filled up with zeros.\<close>

definition stripe_data :: "bytes \<Rightarrow> size_t \<Rightarrow> size_t \<Rightarrow> nat \<Rightarrow> bytes" where
  "stripe_data data stripe_size num_stripes i =
     (let sub_data = drop (i * stripe_size) data
      in if i = num_stripes - 1 \<and> length sub_data < stripe_size
         then sub_data @ zero_bytes (stripe_size - length sub_data)
         else take stripe_size sub_data)"

text \<open>The loop over the stripes collects the data chunks and the parity chunks of each.\<close>

fun encode_stripes :: "codec \<Rightarrow> size_t \<Rightarrow> bytes list \<Rightarrow> (bytes list \<times> bytes list) list res" where
  "encode_stripes R chunk_size [] = Inr []"
| "encode_stripes R chunk_size (d # ds) =
     bindE (split_buffer d chunk_size) (\<lambda>chunks.
     bindE (encode R chunks) (\<lambda>parities.
     bindE (encode_stripes R chunk_size ds) (\<lambda>rest. Inr ((chunks, parities) # rest))))"

definition storage_buffers :: "size_t \<Rightarrow> size_t \<Rightarrow> (bytes list \<times> bytes list) list \<Rightarrow> nat \<Rightarrow> bytes list" where
  "storage_buffers k m encoded i =
     (if i < k then map (\<lambda>(chunks, _). chunks ! i) encoded
      else [concat (map (\<lambda>(_, parities). parities ! (i - k)) encoded)])"

definition ec_write ::
  "'s storage_ops \<Rightarrow> codec \<Rightarrow> 's ec_view \<Rightarrow> bytes \<Rightarrow> size_t list \<Rightarrow> ('s ec_view \<times> address res) option" where
  "ec_write S R v data offsets =
     (let c = ec_config v; leader = nat (ec_leader v); cs = m_chunk_size v; ss = m_stripe_size v
      in if ec_group_state v \<noteq> HEALTHY then Some (v, Inl Runtime_error)
         else if ec_leader v < 0 \<or> ec_leader v \<ge> int (gc_storages c) then Some (v, Inl Runtime_error)
         else if \<not> ec_index v ! leader then Some (v, Inl Runtime_error)
         else let num_stripes = div_ceil (length data) ss
              in case so_allocate S (ec_storages v ! leader) (mul64 num_stripes cs) cs of
                   (st, Inl e) \<Rightarrow> Some (v\<lparr>ec_storages := (ec_storages v)[leader := st]\<rparr>, Inl e)
                 | (st, Inr a) \<Rightarrow>
                     let v1 = v\<lparr>ec_storages := (ec_storages v)[leader := st]\<rparr>
                     in if alloc_offset a mod cs \<noteq> 0 then Some (v1, Inl Runtime_error)
                        else case encode_stripes R cs (map (stripe_data data ss num_stripes) [0..<num_stripes]) of
                               Inl e \<Rightarrow> Some (v1, Inl e)
                             | Inr encoded \<Rightarrow>
                                 let addr = ec_compute_address c offsets (length data) a;
                                     refcounts = ec_extract_refcounts ss addr
                                 in map_option (\<lambda>(sts, r). (v1\<lparr>ec_storages := sts\<rparr>, bindE r (\<lambda>_. Inr addr)))
                                      (run_for_all (\<lambda>i st. if \<not> ec_index v ! i then Some (st, Inl Runtime_error)
                                           else so_write S st a (storage_buffers (data_shards c) (parity_shards c) encoded i) refcounts)
                                         0 (ec_storages v1)))"

subsection \<open>Reading\<close>

function split_loop :: "size_t \<Rightarrow> nat \<Rightarrow> nat \<Rightarrow> address" where
  "split_loop chunk_size current_p endp =
     (if current_p < endp \<and> 0 < chunk_size then
        (let n = min (current_p + chunk_size) endp - current_p
         in mk_fragment current_p (n mod M64) # split_loop chunk_size (current_p + n) endp)
      else [])"
  by pat_completeness auto
termination
  by (relation "measure (\<lambda>(c, p, e). e - p)") (auto simp: min_def)

declare split_loop.simps [simp del]

text \<open>The rounding in \<open>split_fragment\<close> divides by the chunk size, which is therefore not zero.\<close>

definition split_fragment :: "size_t \<Rightarrow> nat \<Rightarrow> size_t \<Rightarrow> address" where
  "split_fragment chunk_size ptr read_size =
     (let endp = add128 ptr read_size;
          n = sub128 (min ((ptr div chunk_size + 1) * chunk_size mod M128) endp) ptr
      in mk_fragment ptr (n mod M64) # split_loop chunk_size (add128 ptr n) endp)"

definition get_aligned_address :: "size_t \<Rightarrow> address \<Rightarrow> address" where
  "get_aligned_address chunk_size addr = concat (map (\<lambda>f. split_fragment chunk_size (pointer f) (fsize f)) addr)"

definition ec_storage_pointer :: "'s ec_view \<Rightarrow> nat \<Rightarrow> (nat \<times> nat) res" where
  "ec_storage_pointer v group_pointer =
     (case ec_get_storage_pointer group_pointer (m_chunk_size v) (m_stripe_size v) of
        (i, ptr) \<Rightarrow> if i \<ge> gc_storages (ec_config v) then Inl Runtime_error else Inr (i, ptr))"

definition ec_global_pointer :: "'s ec_view \<Rightarrow> nat \<Rightarrow> nat \<Rightarrow> nat" where
  "ec_global_pointer v storage_pointer storage_id =
     ec_get_global_pointer storage_pointer (gc_id (ec_config v)) storage_id (m_chunk_size v) (m_stripe_size v)"

definition ec_available :: "'s ec_view \<Rightarrow> nat \<Rightarrow> bool" where
  "ec_available v i \<longleftrightarrow> ec_index v ! i \<and> ec_states v ! i = ASSIGNED"

text \<open>
  One success flag per node; a node that cannot be read leaves what it wrote so far in the
  buffer.
\<close>

fun read_from_storages ::
  "'s storage_ops \<Rightarrow> 's ec_view \<Rightarrow> (nat \<times> address_info) list \<Rightarrow> bytes \<Rightarrow> (bytes \<times> (nat \<times> bool) list) option" where
  "read_from_storages S v [] buffer = Some (buffer, [])"
| "read_from_storages S v ((i, (fs, os)) # m) buffer =
     (if ec_available v i then
        (case read_address S (ec_storages v ! i) fs os buffer of
           None \<Rightarrow> None
         | Some (b, r) \<Rightarrow>
             map_option (\<lambda>(b', ok). (b', (i, \<not> isl r) # ok)) (read_from_storages S v m b))
      else map_option (\<lambda>(b', ok). (b', (i, False) # ok)) (read_from_storages S v m buffer))"

fun stripe_push :: "nat \<Rightarrow> fragment \<times> nat \<Rightarrow> (nat \<times> (fragment \<times> nat) list) list \<Rightarrow> (nat \<times> (fragment \<times> nat) list) list" where
  "stripe_push q x [] = [(q, [x])]"
| "stripe_push q x ((q', xs) # m) = (if q' = q then (q', xs @ [x]) # m else (q', xs) # stripe_push q x m)"

definition get_stripe_ids ::
  "'s ec_view \<Rightarrow> (nat \<times> address_info) list \<Rightarrow> (nat \<times> bool) list \<Rightarrow> (nat \<times> (fragment \<times> nat) list) list" where
  "get_stripe_ids v addr_info_map success_map =
     fold (\<lambda>(i, fs, os) rv.
         if map_of success_map i = Some False
         then fold (\<lambda>(f, off) rv.
                let global_pointer = ec_global_pointer v (pointer f) i
                in stripe_push (global_pointer div m_stripe_size v mod M64) (mk_fragment global_pointer (fsize f), off) rv)
              (zip fs os) rv
         else rv)
       addr_info_map []"

text \<open>The chunk of every storage for one stripe; \<open>None\<close> is a shard that was not read.\<close>

fun read_shards ::
  "'s storage_ops \<Rightarrow> size_t \<Rightarrow> nat \<Rightarrow> 's option list \<Rightarrow> bytes option list option" where
  "read_shards S chunk_size stripe [] = Some []"
| "read_shards S chunk_size stripe (None # sts) = map_option ((#) None) (read_shards S chunk_size stripe sts)"
| "read_shards S chunk_size stripe (Some st # sts) =
     (case read_address S st [mk_fragment (mul64 chunk_size stripe) chunk_size] [0] (zero_bytes chunk_size) of
        None \<Rightarrow> None
      | Some (b, r) \<Rightarrow>
          map_option ((#) (if isl r then None else Some b)) (read_shards S chunk_size stripe sts))"

fun copy_recovered :: "'s ec_view \<Rightarrow> bytes list \<Rightarrow> (fragment \<times> nat) list \<Rightarrow> bytes \<Rightarrow> bytes res" where
  "copy_recovered v shards [] buffer = Inr buffer"
| "copy_recovered v shards ((f, off) # fs) buffer =
     bindE (ec_storage_pointer v (pointer f)) (\<lambda>(i, ptr).
       copy_recovered v shards fs
         (overwrite off (slice (ptr mod m_chunk_size v) (fsize f) (shards ! i)) buffer))"

fun recover_stripes ::
  "'s storage_ops \<Rightarrow> codec \<Rightarrow> 's ec_view \<Rightarrow> 's option list \<Rightarrow> (nat \<times> (fragment \<times> nat) list) list \<Rightarrow> bytes
    \<Rightarrow> (bytes \<times> unit res) option" where
  "recover_stripes S R v sts [] buffer = Some (buffer, Inr ())"
| "recover_stripes S R v sts ((stripe, frags) # m) buffer =
     (case read_shards S (m_chunk_size v) stripe sts of
        None \<Rightarrow> None
      | Some shards \<Rightarrow>
          if length (filter (\<lambda>x. x \<noteq> None) shards) < data_shards (ec_config v) then Some (buffer, Inl Runtime_error)
          else (case recover R (data_shards (ec_config v)) (parity_shards (ec_config v)) (m_chunk_size v)
                       (map (\<lambda>x. case x of None \<Rightarrow> zero_bytes (m_chunk_size v) | Some b \<Rightarrow> b) shards)
                       (map (\<lambda>x. x = None) shards) of
                  Inl e \<Rightarrow> Some (buffer, Inl e)
                | Inr out \<Rightarrow>
                    (case copy_recovered v out frags buffer of
                       Inl e \<Rightarrow> Some (buffer, Inl e)
                     | Inr buffer' \<Rightarrow> recover_stripes S R v sts m buffer')))"

definition ec_read_address ::
  "'s storage_ops \<Rightarrow> codec \<Rightarrow> 's ec_view \<Rightarrow> address \<Rightarrow> bytes \<Rightarrow> (bytes \<times> size_t res) option" where
  "ec_read_address S R v addr buffer =
     (case extract_node_address_map (get_aligned_address (m_chunk_size v) addr) (ec_storage_pointer v) of
        Inl e \<Rightarrow> Some (buffer, Inl e)
      | Inr m \<Rightarrow>
          if \<exists>i\<in>set (map fst m). i \<ge> data_shards (ec_config v) then Some (buffer, Inl Runtime_error)
          else (case read_from_storages S v m buffer of
                  None \<Rightarrow> None
                | Some (buffer1, success_map) \<Rightarrow>
                    if list_all snd success_map then Some (buffer1, Inr (data_size addr))
                    else let sts = map (\<lambda>i. if ec_available v i \<and> map_of success_map i \<noteq> Some False
                                            then Some (ec_storages v ! i) else None) [0..<length (ec_storages v)]
                         in if length (filter (\<lambda>x. x \<noteq> None) sts) < data_shards (ec_config v)
                            then Some (buffer1, Inl Runtime_error)
                            else map_option (\<lambda>(b, r). (b, bindE r (\<lambda>_. Inr (data_size addr))))
                                   (recover_stripes S R v sts (get_stripe_ids v m success_map) buffer1)))"

definition ec_read :: "'s storage_ops \<Rightarrow> codec \<Rightarrow> 's ec_view \<Rightarrow> nat \<Rightarrow> size_t \<Rightarrow> bytes res option" where
  "ec_read S R v ptr read_size =
     map_option (\<lambda>(b, r). bindE r (\<lambda>_. Inr b))
       (ec_read_address S R v (split_fragment (m_chunk_size v) ptr read_size) (zero_bytes read_size))"

subsection \<open>Space and references\<close>

definition ec_get_used_space :: "'s storage_ops \<Rightarrow> 's ec_view \<Rightarrow> size_t" where
  "ec_get_used_space S v =
     fold (\<lambda>st acc. add64 acc (so_get_used_space S st)) (take (data_shards (ec_config v)) (ec_storages v)) 0"

definition ec_link :: "'s storage_ops \<Rightarrow> 's ec_view \<Rightarrow> address \<Rightarrow> ('s ec_view \<times> address res) option" where
  "ec_link S v addr =
     (let refcounts = ec_extract_refcounts (m_stripe_size v) addr
      in map_option (\<lambda>(sts, r). (v\<lparr>ec_storages := sts\<rparr>,
             bindE r (\<lambda>link_rvs. Inr (ec_compute_rejected_address (m_stripe_size v) link_rvs addr))))
           (run_for_all (\<lambda>i st. Some (if \<not> ec_index v ! i then (st, Inl Runtime_error) else so_link S st refcounts))
              0 (ec_storages v)))"

definition ec_unlink :: "'s storage_ops \<Rightarrow> 's ec_view \<Rightarrow> address \<Rightarrow> ('s ec_view \<times> size_t res) option" where
  "ec_unlink S v addr =
     (let refcounts = ec_extract_refcounts (m_stripe_size v) addr
      in map_option (\<lambda>(sts, r). (v\<lparr>ec_storages := sts\<rparr>, bindE r (\<lambda>freed. Inr (fold (\<lambda>x acc. add64 acc x) freed 0))))
           (run_for_all (\<lambda>i st. Some (if \<not> ec_index v ! i then (st, Inl Runtime_error)
                else (case so_unlink S st refcounts of
                        (st', Inl e) \<Rightarrow> (st', Inl e)
                      | (st', Inr freed) \<Rightarrow> (st', Inr (if i \<ge> data_shards (ec_config v) then 0 else freed)))))
              0 (ec_storages v)))"

subsection \<open>Fragments inside chunks\<close>

definition in_chunk :: "size_t \<Rightarrow> fragment \<Rightarrow> bool" where
  "in_chunk cs f \<longleftrightarrow> 0 < fsize f \<and> pointer f mod cs + fsize f \<le> cs"

lemma split_loop_props:
  "0 < cs \<Longrightarrow> cs < M64 \<Longrightarrow> cur mod cs = 0 \<Longrightarrow> cur \<le> endp \<Longrightarrow>
   list_all (\<lambda>f. in_chunk cs f \<and> cur \<le> pointer f \<and> pointer f + fsize f \<le> endp) (split_loop cs cur endp)
   \<and> total_size (split_loop cs cur endp) = endp - cur
   \<and> concat (map (\<lambda>f. slice (pointer f) (fsize f) G) (split_loop cs cur endp)) = slice cur (endp - cur) G"
proof (induction cs cur endp rule: split_loop.induct)
  case (1 cs cur endp)
  show ?case
  proof (cases "cur < endp")
    case False
    then show ?thesis using 1(5) by (subst (1 2 3) split_loop.simps) simp
  next
    case True
    define n where "n = min (cur + cs) endp - cur"
    have n: "0 < n" "n \<le> cs" "cur + n \<le> endp" using True 1(2) by (auto simp: n_def)
    have nm: "n mod M64 = n" using n(2) 1(3) by simp
    have loop: "split_loop cs cur endp = mk_fragment cur n # split_loop cs (cur + n) endp"
      using True 1(2) nm by (subst split_loop.simps) (simp add: n_def [symmetric] Let_def)
    have IH: "list_all (\<lambda>f. in_chunk cs f \<and> cur + n \<le> pointer f \<and> pointer f + fsize f \<le> endp) (split_loop cs (cur + n) endp)
       \<and> total_size (split_loop cs (cur + n) endp) = endp - (cur + n)
       \<and> concat (map (\<lambda>f. slice (pointer f) (fsize f) G) (split_loop cs (cur + n) endp)) = slice (cur + n) (endp - (cur + n)) G"
    proof (cases "n = cs")
      case True
      then show ?thesis
        using 1(1) [OF _ n_def] 1(2-4) n \<open>cur < endp\<close> by (simp add: mod_add_self2)
    next
      case False
      then have "cur + n = endp" using n by (simp add: n_def min_def split: if_splits)
      then show ?thesis by (subst (1 2 3) split_loop.simps) simp
    qed
    have "slice cur (endp - cur) G = slice cur n G @ slice (cur + n) (endp - (cur + n)) G"
      using slice_append [of cur n "endp - (cur + n)" G] n(3) by simp
    then show ?thesis
      unfolding loop using IH n 1(4) by (auto simp: in_chunk_def list_all_iff)
  qed
qed

lemma split_fragment_props:
  assumes "0 < cs" and "cs < M64" and "0 < n" and "n < M64" and "p + n + cs < M128"
  shows "list_all (\<lambda>f. in_chunk cs f \<and> p \<le> pointer f \<and> pointer f + fsize f \<le> p + n) (split_fragment cs p n)
   \<and> total_size (split_fragment cs p n) = n
   \<and> concat (map (\<lambda>f. slice (pointer f) (fsize f) G) (split_fragment cs p n)) = slice p n G"
proof -
  define b where "b = (p div cs + 1) * cs"
  have "p = p div cs * cs + p mod cs" and "b = p div cs * cs + cs" by (simp_all add: b_def)
  then have b: "p < b" "b \<le> p + cs" "b - p = cs - p mod cs"
    using mod_less_divisor [OF assms(1), of p] by linarith+
  have bm: "b mod M128 = b" using b(2) assms(5) by simp
  define m where "m = min b (p + n) - p"
  have m: "0 < m" "m \<le> n" "p + m \<le> p + n" "p mod cs + m \<le> cs"
    using b assms(1,3) mod_less_divisor [OF assms(1), of p] by (auto simp: m_def min_def)
  have e: "add128 p n = p + n" using assms(5) by (simp add: add128_eq)
  have s1: "sub128 (min b (p + n)) p = m"
    unfolding m_def using b(1) assms(3,5) by (intro sub128_eq) (auto simp: min_def)
  have mm: "m mod M64 = m" using m(2) assms(4) by simp
  have a: "add128 p m = p + m" using m(2) assms(5) by (simp add: add128_eq)
  have sp: "split_fragment cs p n = mk_fragment p m # split_loop cs (p + m) (p + n)"
    unfolding split_fragment_def Let_def e b_def [symmetric] bm s1 mm a by (rule refl)
  have L: "list_all (\<lambda>f. in_chunk cs f \<and> p + m \<le> pointer f \<and> pointer f + fsize f \<le> p + n) (split_loop cs (p + m) (p + n))
   \<and> total_size (split_loop cs (p + m) (p + n)) = p + n - (p + m)
   \<and> concat (map (\<lambda>f. slice (pointer f) (fsize f) G) (split_loop cs (p + m) (p + n))) = slice (p + m) (p + n - (p + m)) G"
  proof (cases "p + m = b")
    case True
    then show ?thesis using assms(1,2) m(2) by (intro split_loop_props) (auto simp: b_def)
  next
    case False
    then have "p + m = p + n" using b(1) by (auto simp: m_def min_def split: if_splits)
    then show ?thesis by (subst (1 2 3) split_loop.simps) simp
  qed
  have "slice p n G = slice p m G @ slice (p + m) (p + n - (p + m)) G"
    using slice_append [of p m "n - m" G] m(2) by simp
  then show ?thesis unfolding sp using L m by (auto simp: in_chunk_def list_all_iff)
qed

text \<open>
  \<open>split_fragment\<close> cuts a byte range into consecutive non-empty pieces that cover exactly
  the range, and every piece lies within a single chunk.
\<close>

theorem split_fragment_partition:
  assumes "0 < cs" and "cs < M64" and "0 < n" and "n < M64" and "p + n + cs < M128"
  shows "(\<forall>f\<in>set (split_fragment cs p n). 0 < fsize f \<and> pointer f div cs = (pointer f + fsize f - 1) div cs)
    \<and> concat (map (\<lambda>f. [pointer f ..< pointer f + fsize f]) (split_fragment cs p n)) = [p ..< p + n]"
proof -
  have chunk: "pointer f div cs = (pointer f + fsize f - 1) div cs" if "in_chunk cs f" for f
  proof -
    have "pointer f + fsize f - 1 = pointer f div cs * cs + (pointer f mod cs + fsize f - 1)"
      using that by (simp add: in_chunk_def)
    moreover have "pointer f mod cs + fsize f - 1 < cs" using that by (auto simp: in_chunk_def)
    ultimately show ?thesis by (metis add.right_neutral div_less div_mult_self3 less_nat_zero_code add.commute)
  qed
  have up: "slice a k [0..<p + n] = [a ..< a + k]" if "a + k \<le> p + n" for a k
    using that by (simp add: slice_def take_upt drop_upt)
  note P = split_fragment_props [OF assms, of "[0..<p + n]"]
  have "map (\<lambda>f. slice (pointer f) (fsize f) [0..<p + n]) (split_fragment cs p n) =
      map (\<lambda>f. [pointer f ..< pointer f + fsize f]) (split_fragment cs p n)"
    using P by (intro map_cong refl up) (auto simp: list_all_iff)
  then have "concat (map (\<lambda>f. [pointer f ..< pointer f + fsize f]) (split_fragment cs p n)) = [p ..< p + n]"
    using P up [of p n] by (metis order_refl)
  moreover have "0 < fsize f \<and> pointer f div cs = (pointer f + fsize f - 1) div cs" if "f \<in> set (split_fragment cs p n)" for f
    using that P chunk [of f] by (auto simp: list_all_iff in_chunk_def)
  ultimately show ?thesis by blast
qed

theorem split_fragment_partition_witness:
  "concat (map (\<lambda>f. [pointer f ..< pointer f + fsize f]) (split_fragment 4 6 9)) = [6 ..< 15]"
  using split_fragment_partition [of 4 9 6] by (simp add: M64_def M128_def)

end
