(* ===== verification/Vrm_ECRead.thy ===== *)
theory Vrm_ECRead
  imports Vrm_ECView
begin

text \<open>
  Reading from an erasure-coded group with missing storages. The group content \<open>G\<close> is the
  sequence of stripes; storage \<open>i\<close> is expected to hold the \<open>i\<close>-th shard of every stripe, a
  data chunk or a parity chunk (\<open>shard_content\<close>). If every available storage does and no more
  than \<open>parity_shards\<close> are missing, \<open>read_address\<close> returns the bytes of \<open>G\<close>.
\<close>

subsection \<open>The code and the expected content\<close>

definition codec_laws :: "codec \<Rightarrow> nat \<Rightarrow> nat \<Rightarrow> nat \<Rightarrow> bool" where
  "codec_laws R k m cs \<longleftrightarrow>
     (\<forall>data. length data = k \<and> list_all (\<lambda>d. length d = cs) data \<longrightarrow>
        (\<exists>par. rs_encode R data = Some par \<and> length par = m \<and> list_all (\<lambda>d. length d = cs) par \<and>
           (\<forall>shards lost. length shards = k + m \<and> length lost = k + m \<and> list_all (\<lambda>d. length d = cs) shards
              \<and> (\<forall>i<k + m. \<not> lost ! i \<longrightarrow> shards ! i = (data @ par) ! i) \<and> length (filter id lost) \<le> m \<longrightarrow>
              (\<exists>out. rs_reconstruct R shards lost = Some out \<and> take k out = data))))"

definition data_chunks :: "nat \<Rightarrow> nat \<Rightarrow> bytes \<Rightarrow> nat \<Rightarrow> bytes list" where
  "data_chunks k cs G q = map (\<lambda>j. slice (q * (k * cs) + j * cs) cs G) [0..<k]"

definition stripe_shards :: "codec \<Rightarrow> nat \<Rightarrow> nat \<Rightarrow> bytes \<Rightarrow> nat \<Rightarrow> bytes list" where
  "stripe_shards R k cs G q = data_chunks k cs G q @ the (rs_encode R (data_chunks k cs G q))"

definition shard_content :: "codec \<Rightarrow> nat \<Rightarrow> nat \<Rightarrow> bytes \<Rightarrow> nat \<Rightarrow> nat \<Rightarrow> bytes" where
  "shard_content R k cs G N i = concat (map (\<lambda>q. stripe_shards R k cs G q ! i) [0..<N])"

lemma slice_slice: "o1 + n \<le> c \<Longrightarrow> slice o1 n (slice a c xs) = slice (a + o1) n xs"
  by (simp add: slice_def drop_take add.commute min_def)

lemma data_chunks_props:
  assumes "length G = N * (k * cs)" and "q < N"
  shows "length (data_chunks k cs G q) = k" and "list_all (\<lambda>d. length d = cs) (data_chunks k cs G q)"
proof -
  show "length (data_chunks k cs G q) = k" by (simp add: data_chunks_def)
  have le: "q * (k * cs) + j * cs + cs \<le> length G" if "j < k" for j
  proof -
    have "(j + 1) * cs \<le> k * cs" using that by (intro mult_le_mono1) simp
    moreover have "(q + 1) * (k * cs) \<le> N * (k * cs)" using assms(2) by (intro mult_le_mono1) simp
    ultimately show ?thesis using assms(1) by simp
  qed
  have "length (slice (q * (k * cs) + j * cs) cs G) = cs" if "j < k" for j
    using le [OF that] by (simp add: length_slice)
  then show "list_all (\<lambda>d. length d = cs) (data_chunks k cs G q)"
    by (auto simp: data_chunks_def list_all_iff)
qed

lemma stripe_shards_props:
  assumes "codec_laws R k m cs" and "length G = N * (k * cs)" and "q < N"
  shows "length (stripe_shards R k cs G q) = k + m" and "list_all (\<lambda>d. length d = cs) (stripe_shards R k cs G q)"
    and "i < k \<Longrightarrow> stripe_shards R k cs G q ! i = slice (q * (k * cs) + i * cs) cs G"
proof -
  note d = data_chunks_props [OF assms(2,3)]
  obtain par where "rs_encode R (data_chunks k cs G q) = Some par" "length par = m" "list_all (\<lambda>d. length d = cs) par"
    using assms(1) d unfolding codec_laws_def by blast
  then show "length (stripe_shards R k cs G q) = k + m" "list_all (\<lambda>d. length d = cs) (stripe_shards R k cs G q)"
    using d by (simp_all add: stripe_shards_def)
  show "stripe_shards R k cs G q ! i = slice (q * (k * cs) + i * cs) cs G" if "i < k"
    using that d(1) by (simp add: stripe_shards_def nth_append) (simp add: data_chunks_def)
qed

lemma shard_content_slice:
  assumes "codec_laws R k m cs" and "length G = N * (k * cs)" and "i < k + m" and "q < N" and "o1 + n \<le> cs"
  shows "slice (q * cs + o1) n (shard_content R k cs G N i) = slice o1 n (stripe_shards R k cs G q ! i)"
    and "length (shard_content R k cs G N i) = N * cs"
proof -
  let ?bs = "map (\<lambda>q. stripe_shards R k cs G q ! i) [0..<N]"
  have b: "\<forall>b\<in>set ?bs. length b = cs"
    using stripe_shards_props [OF assms(1,2)] assms(3) by (auto simp: list_all_length)
  show "slice (q * cs + o1) n (shard_content R k cs G N i) = slice o1 n (stripe_shards R k cs G q ! i)"
    using slice_concat_block [OF b, of q o1 n] assms(4,5) by (simp add: shard_content_def)
  show "length (shard_content R k cs G N i) = N * cs"
    using length_concat_blocks [OF b] by (simp add: shard_content_def)
qed

lemma shard_content_data:
  assumes "codec_laws R k m cs" and "length G = N * (k * cs)" and "i < k" and "q < N" and "o1 + n \<le> cs"
  shows "slice (q * cs + o1) n (shard_content R k cs G N i) = slice (q * (k * cs) + i * cs + o1) n G"
  using shard_content_slice(1) [OF assms(1,2) _ assms(4,5), of i] stripe_shards_props(3) [OF assms(1,2,4,3)] assms(3,5)
  by (simp add: slice_slice)

subsection \<open>Coordinates of a fragment\<close>

lemma ec_storage_coords:
  assumes "0 < cs" and "p < M64"
  shows "ec_get_storage_pointer p cs (k * cs) = (p div cs mod k, p div cs div k * cs + p mod cs)"
proof -
  have m: "p mod (k * cs) = cs * (p div cs mod k) + p mod cs"
    using mod_mult2_eq [of p cs k] by (simp add: mult.commute)
  have d: "p mod (k * cs) div cs = p div cs mod k" unfolding m using assms(1) by simp
  have q: "p div (k * cs) = p div cs div k" using div_mult2_eq [of p cs k] by (simp add: mult.commute)
  have "p div cs div k * cs \<le> p div cs * cs" by (intro mult_le_mono1 div_le_dividend)
  then have "p div cs div k * cs + p mod cs \<le> p" by (metis add_le_cancel_right div_mult_mod_eq)
  then have "(p div cs div k * cs + p mod cs) mod M64 = p div cs div k * cs + p mod cs" using assms(2) by simp
  moreover have "p mod (k * cs) - p div cs mod k * cs = p mod cs" unfolding m by simp
  ultimately show ?thesis
    unfolding ec_get_storage_pointer_def Let_def d q by simp
qed

lemma ec_global_coords:
  assumes "0 < cs" and "i < k" and "sp div cs < N" and "N * (k * cs) < M64"
  defines "gp \<equiv> ec_get_global_pointer sp 0 i cs (k * cs)"
  shows "gp div (k * cs) = sp div cs" and "gp < M64" and "ec_get_storage_pointer gp cs (k * cs) = (i, sp)"
    and "gp = sp div cs * (k * cs) + sp mod cs + cs * i"
proof -
  let ?x = "sp div cs * (k * cs) + sp mod cs + cs * i"
  have r: "sp mod cs < cs" using assms(1) by simp
  note c = stripe_coords(1,2) [OF assms(1) refl assms(2) r, where q = "sp div cs"] stripe_coords(3) [OF assms(1) refl assms(2) r]
  have "?x < (sp div cs + 1) * (k * cs)"
    using c(2) assms(1,2) by (metis Suc_eq_plus1 div_less_iff_less_mult lessI less_nat_zero_code mult_pos_pos neq0_conv)
  also have "\<dots> \<le> N * (k * cs)" using assms(3) by (intro mult_le_mono1) simp
  finally have x: "?x < M64" using assms(4) by linarith
  then have "?x < M128" using M64_le_M128 by linarith
  then have gp: "gp = ?x" by (simp add: gp_def ec_get_global_pointer_def shl128_def Let_def)
  show "gp div (k * cs) = sp div cs" unfolding gp by (rule c(2))
  show "gp < M64" unfolding gp by (rule x)
  show "gp = ?x" by (rule gp)
  have "sp div cs * cs + sp mod cs = sp" by simp
  moreover have "sp div cs * cs \<le> sp div cs * (k * cs)" using assms(2) by (intro mult_le_mono2) simp
  ultimately have "sp < M64" using x by linarith
  then show "ec_get_storage_pointer gp cs (k * cs) = (i, sp)"
    unfolding gp ec_get_storage_pointer_def Let_def c by (simp add: c(3) mult.commute)
qed

text \<open>The storage part of a fragment of the group: inside a chunk of a data storage.\<close>

definition ec_part :: "nat \<Rightarrow> nat \<Rightarrow> nat \<Rightarrow> nat \<times> fragment \<times> nat \<Rightarrow> bool" where
  "ec_part k cs N = (\<lambda>(i, f, off). i < k \<and> in_chunk cs f \<and> pointer f div cs < N)"

lemma ec_part_range: "ec_part k cs N (i, f, off) \<Longrightarrow> pointer f + fsize f \<le> N * cs"
proof -
  assume a: "ec_part k cs N (i, f, off)"
  then have "(pointer f div cs + 1) * cs \<le> N * cs" by (intro mult_le_mono1) (simp add: ec_part_def)
  moreover have "pointer f = pointer f div cs * cs + pointer f mod cs" by simp
  moreover have "pointer f mod cs + fsize f \<le> cs" using a by (simp add: ec_part_def in_chunk_def)
  moreover have "(pointer f div cs + 1) * cs = pointer f div cs * cs + cs" by simp
  ultimately show ?thesis by linarith
qed

lemma ec_fragment_part:
  assumes "0 < cs" and "in_chunk cs f" and "pointer f + fsize f \<le> N * (k * cs)" and "N * (k * cs) < M64"
  shows "\<exists>i sp. ec_get_storage_pointer (pointer f) cs (k * cs) = (i, sp) \<and> i < k \<and> sp mod cs = pointer f mod cs
    \<and> sp div cs < N \<and> sp div cs * (k * cs) + i * cs + sp mod cs = pointer f
    \<and> ec_get_storage_pointer (pointer f + fsize f - 1) cs (k * cs) = (i, sp + fsize f - 1)"
proof -
  let ?p = "pointer f" and ?n = "fsize f"
  let ?i = "?p div cs mod k" and ?q = "?p div cs div k" and ?r = "?p mod cs"
  have n: "0 < ?n" "?r + ?n \<le> cs" using assms(2) by (auto simp: in_chunk_def)
  have p: "?p < M64" "?p + ?n - 1 < M64" using assms(3,4) n(1) by linarith+
  have k: "0 < k" using assms(3) n(1) by (cases k) auto
  have c1: "ec_get_storage_pointer ?p cs (k * cs) = (?i, ?q * cs + ?r)" by (rule ec_storage_coords [OF assms(1) p(1)])
  have last: "?p + ?n - 1 = ?p div cs * cs + (?r + ?n - 1)" using n(1) by simp
  have lt: "?r + ?n - 1 < cs" using n by linarith
  have d: "(?p + ?n - 1) div cs = ?p div cs" "(?p + ?n - 1) mod cs = ?r + ?n - 1"
    unfolding last using lt assms(1) by simp_all
  have c2: "ec_get_storage_pointer (?p + ?n - 1) cs (k * cs) = (?i, ?q * cs + (?r + ?n - 1))"
    using ec_storage_coords [OF assms(1) p(2)] by (simp only: d)
  have "?q = ?p div (k * cs)" using div_mult2_eq [of ?p cs k] by (simp add: mult.commute)
  moreover have "?p < N * (k * cs)" using assms(3) n(1) by linarith
  ultimately have q: "?q < N" using less_mult_imp_div_less by simp
  have i: "?i < k" using k by simp
  have r: "(?q * cs + ?r) mod cs = ?r" "(?q * cs + ?r) div cs = ?q" using assms(1) by simp_all
  have "(?q * k + ?i) * cs + ?r = ?p" by (simp only: div_mult_mod_eq)
  then have s: "?q * (k * cs) + ?i * cs + ?r = ?p" by (simp only: add_mult_distrib mult.assoc)
  show ?thesis
  proof (rule exI [of _ ?i], rule exI [of _ "?q * cs + ?r"], intro conjI)
    show "ec_get_storage_pointer (?p + ?n - 1) cs (k * cs) = (?i, ?q * cs + ?r + ?n - 1)"
      unfolding c2 using n(1) by simp
  qed (simp_all only: c1 i r q s)
qed

subsection \<open>The stripes to reconstruct\<close>

definition stripe_entries :: "(nat \<times> (fragment \<times> nat) list) list \<Rightarrow> (nat \<times> fragment \<times> nat) set" where
  "stripe_entries M = {(q, x). \<exists>xs. (q, xs) \<in> set M \<and> x \<in> set xs}"

lemma stripe_entries_simps [simp]:
  "stripe_entries [] = {}"
  "stripe_entries ((q, xs) # M) = Pair q ` set xs \<union> stripe_entries M"
  by (auto simp: stripe_entries_def)

lemma stripe_push_entries: "stripe_entries (stripe_push q x M) = insert (q, x) (stripe_entries M)"
  by (induction q x M rule: stripe_push.induct) auto

definition group_entry :: "'s ec_view \<Rightarrow> nat \<times> fragment \<times> nat \<Rightarrow> nat \<times> fragment \<times> nat" where
  "group_entry v = (\<lambda>(i, f, off). let gp = ec_global_pointer v (pointer f) i
     in (gp div m_stripe_size v mod M64, mk_fragment gp (fsize f), off))"

lemma get_stripe_ids_inner:
  "stripe_entries (fold (\<lambda>(f, off) rv.
                let global_pointer = ec_global_pointer v (pointer f) i
                in stripe_push (global_pointer div m_stripe_size v mod M64) (mk_fragment global_pointer (fsize f), off) rv)
              fos rv) = stripe_entries rv \<union> group_entry v ` (\<lambda>(f, k). (i, f, k)) ` set fos"
  by (induction fos arbitrary: rv) (auto simp: stripe_push_entries group_entry_def Let_def)

lemma get_stripe_ids_entries:
  assumes "\<And>i. i \<in> fst ` set m \<Longrightarrow> map_of ok i = Some (ec_available v i)"
  shows "stripe_entries (get_stripe_ids v m ok) = group_entry v ` {t \<in> node_triples m. \<not> ec_available v (fst t)}"
proof -
  let ?step = "\<lambda>(i, fs, os) rv.
         if map_of ok i = Some False
         then fold (\<lambda>(f, off) rv.
                let global_pointer = ec_global_pointer v (pointer f) i
                in stripe_push (global_pointer div m_stripe_size v mod M64) (mk_fragment global_pointer (fsize f), off) rv)
              (zip fs os) rv
         else rv"
  have "stripe_entries (fold ?step m rv) = stripe_entries rv \<union> group_entry v ` {t \<in> node_triples m. \<not> ec_available v (fst t)}" for rv
    using assms
  proof (induction m arbitrary: rv)
    case (Cons n m)
    obtain i fs os where n: "n = (i, fs, os)" by (metis surj_pair)
    have ok: "map_of ok i = Some (ec_available v i)" using Cons.prems [of i] by (simp add: n)
    have IH: "stripe_entries (fold ?step m rv') = stripe_entries rv' \<union> group_entry v ` {t \<in> node_triples m. \<not> ec_available v (fst t)}" for rv'
      by (rule Cons.IH) (use Cons.prems in auto)
    have split: "{t \<in> node_triples (n # m). \<not> ec_available v (fst t)} =
        (if ec_available v i then {} else (\<lambda>(f, k). (i, f, k)) ` set (zip fs os)) \<union> {t \<in> node_triples m. \<not> ec_available v (fst t)}"
      by (auto simp: n node_triples_Cons)
    have "stripe_entries (?step n rv) = stripe_entries rv \<union>
        group_entry v ` (if ec_available v i then {} else (\<lambda>(f, k). (i, f, k)) ` set (zip fs os))"
      using ok get_stripe_ids_inner [of v i "zip fs os" rv] by (simp add: n)
    then show ?case unfolding fold.simps comp_apply IH split image_Un by blast
  qed simp
  from this [of "[]"] show ?thesis by (simp add: get_stripe_ids_def)
qed

subsection \<open>Reading what is available\<close>

lemma slice_take: "p + n \<le> L \<Longrightarrow> slice p n (take L xs) = slice p n xs"
  by (simp add: slice_def drop_take min_def)

context storage
begin

definition sholds :: "'s \<Rightarrow> bytes \<Rightarrow> bool" where
  "sholds st C \<longleftrightarrow> sinv st \<and> take (length C) (content st) = C"

lemma sholds_slice:
  "sholds st C \<Longrightarrow> p + n \<le> length C \<Longrightarrow> p + n \<le> length (content st) \<and> slice p n (content st) = slice p n C"
proof -
  assume a: "sholds st C" "p + n \<le> length C"
  then have "length C \<le> length (content st)" by (metis length_take min.cobounded1 sholds_def)
  then show ?thesis using a slice_take [of p n "length C" "content st"] by (simp add: sholds_def)
qed

lemma read_from_storages_ok:
  "wf_nodes m \<Longrightarrow> (\<And>i. i \<in> fst ` set m \<Longrightarrow> ec_available v i \<Longrightarrow> sholds (ec_storages v ! i) (C i)) \<Longrightarrow>
   (\<And>i f k. (i, f, k) \<in> node_triples m \<Longrightarrow> pointer f + fsize f \<le> length (C i)) \<Longrightarrow>
   \<exists>ws. read_from_storages S v m buffer = Some (apply_writes ws buffer, map (\<lambda>(i, _). (i, ec_available v i)) m)
     \<and> set ws = triple_write C ` {t \<in> node_triples m. ec_available v (fst t)}"
proof (induction m arbitrary: buffer)
  case Nil
  then show ?case by (intro exI [of _ "[]"]) simp
next
  case (Cons n m)
  obtain i fs os where n: "n = (i, (fs, os))" by (metis surj_pair)
  have wf: "wf_nodes m" and len: "length os = length fs" using Cons.prems(1) by (simp_all add: wf_nodes_def n)
  have IH: "\<exists>ws. read_from_storages S v m b = Some (apply_writes ws b, map (\<lambda>(i, _). (i, ec_available v i)) m)
     \<and> set ws = triple_write C ` {t \<in> node_triples m. ec_available v (fst t)}" for b
    by (rule Cons.IH [OF wf]) (use Cons.prems(2,3) in \<open>auto simp: n node_triples_Cons\<close>)
  have split: "{t \<in> node_triples (n # m). ec_available v (fst t)} =
      (if ec_available v i then (\<lambda>(f, k). (i, f, k)) ` set (zip fs os) else {}) \<union> {t \<in> node_triples m. ec_available v (fst t)}"
    by (auto simp: n node_triples_Cons)
  show ?case
  proof (cases "ec_available v i")
    case False
    then show ?thesis using IH [of buffer] unfolding split by (auto simp: n)
  next
    case True
    let ?st = "ec_storages v ! i"
    have h: "sholds ?st (C i)" using Cons.prems(2) [of i] True by (simp add: n)
    have r: "pointer f + fsize f \<le> length (C i)" if "f \<in> set fs" for f
    proof -
      obtain k where "(f, k) \<in> set (zip fs os)" using len \<open>f \<in> set fs\<close> by (metis in_set_impl_in_set_zip1)
      then show ?thesis using Cons.prems(3) [of i f k] by (auto simp: node_triples_Cons n)
    qed
    let ?ws = "map (\<lambda>(f, k). (k, slice (pointer f) (fsize f) (C i))) (zip fs os)"
    have "\<forall>f\<in>set fs. pointer f + fsize f \<le> length (content ?st)" using r sholds_slice [OF h] by blast
    then have "read_address S ?st fs os buffer = Some (fold (\<lambda>(f, o1). overwrite o1 (slice (pointer f) (fsize f) (content ?st))) (zip fs os) buffer, Inr ())"
      using h len by (intro read_address_ok) (auto simp: sholds_def)
    moreover have "fold (\<lambda>(f, o1). overwrite o1 (slice (pointer f) (fsize f) (content ?st))) (zip fs os) buffer = apply_writes ?ws buffer"
      unfolding apply_writes_def fold_map
      by (rule fold_cong) (use r sholds_slice [OF h] in \<open>auto dest!: set_zip_leftD\<close>)
    ultimately have ra: "read_address S ?st fs os buffer = Some (apply_writes ?ws buffer, Inr ())" by simp
    obtain ws where ws: "read_from_storages S v m (apply_writes ?ws buffer) =
        Some (apply_writes ws (apply_writes ?ws buffer), map (\<lambda>(i, _). (i, ec_available v i)) m)"
      "set ws = triple_write C ` {t \<in> node_triples m. ec_available v (fst t)}" using IH by blast
    have "set (?ws @ ws) = triple_write C ` {t \<in> node_triples (n # m). ec_available v (fst t)}"
      unfolding split image_Un using ws(2) True by (simp add: image_image triple_write_def split_def)
    then show ?thesis using ra ws(1) True by (intro exI [of _ "?ws @ ws"]) (simp add: n)
  qed
qed

lemma read_shards_ok:
  "(\<And>st. Some st \<in> set sts \<Longrightarrow> sinv st \<and> cs * q + cs \<le> length (content st)) \<Longrightarrow> cs * q < M64 \<Longrightarrow>
   read_shards S cs q sts = Some (map (map_option (\<lambda>st. slice (cs * q) cs (content st))) sts)"
proof (induction sts)
  case (Cons x sts)
  have IH: "read_shards S cs q sts = Some (map (map_option (\<lambda>st. slice (cs * q) cs (content st))) sts)"
    by (rule Cons.IH) (use Cons.prems in auto)
  show ?case
  proof (cases x)
    case (Some st)
    have st: "sinv st" "cs * q + cs \<le> length (content st)" using Cons.prems(1) [of st] Some by auto
    have "read_address S st [mk_fragment (mul64 cs q) cs] [0] (zero_bytes cs) =
        Some (overwrite 0 (slice (cs * q) cs (content st)) (zero_bytes cs), Inr ())"
      using read_address_ok [OF st(1), of "[0]" "[mk_fragment (mul64 cs q) cs]" "zero_bytes cs"] st(2) Cons.prems(2)
      by (simp add: mul64_eq)
    moreover have "overwrite 0 (slice (cs * q) cs (content st)) (zero_bytes cs) = slice (cs * q) cs (content st)"
      using st(2) by (intro overwrite_whole) (simp add: length_slice)
    ultimately show ?thesis using IH Some by simp
  qed (use IH in simp)
qed simp

end

subsection \<open>Reconstructing the rest\<close>

definition ec_geom :: "'s ec_view \<Rightarrow> nat \<Rightarrow> nat \<Rightarrow> nat \<Rightarrow> bool" where
  "ec_geom v k m cs \<longleftrightarrow> data_shards (ec_config v) = k \<and> parity_shards (ec_config v) = m \<and> gc_storages (ec_config v) = k + m
    \<and> gc_id (ec_config v) = 0 \<and> m_chunk_size v = cs \<and> m_stripe_size v = k * cs \<and> 0 < cs \<and> 0 < k
    \<and> length (ec_storages v) = k + m \<and> length (ec_index v) = k + m \<and> length (ec_states v) = k + m"

definition missing :: "nat \<Rightarrow> (nat \<Rightarrow> bool) \<Rightarrow> nat" where
  "missing n av = length (filter (\<lambda>i. \<not> av i) [0..<n])"

lemma present_missing: "length (filter av [0..<n]) + missing n av = n"
  using sum_length_filter_compl [of av "[0..<n]"] by (simp add: missing_def)

lemma length_filter_Some:
  "length (filter (\<lambda>x. x \<noteq> None) (map (\<lambda>i. if av i then Some (g i) else None) is)) = length (filter av is)"
  by (induction "is") auto

lemma recover_ok:
  assumes "codec_laws R k m cs" and "length G = N * (k * cs)" and "q < N" and "0 < k" and "missing (k + m) av \<le> m"
  shows "\<exists>out. recover R k m cs (map (\<lambda>i. if av i then stripe_shards R k cs G q ! i else zero_bytes cs) [0..<k + m])
      (map (\<lambda>i. \<not> av i) [0..<k + m]) = Inr out \<and> take k out = data_chunks k cs G q"
proof -
  let ?sh = "map (\<lambda>i. if av i then stripe_shards R k cs G q ! i else zero_bytes cs) [0..<k + m]"
  let ?lost = "map (\<lambda>i. \<not> av i) [0..<k + m]"
  note d = data_chunks_props [OF assms(2,3)]
  note P = stripe_shards_props [OF assms(1-3)]
  obtain par where par: "rs_encode R (data_chunks k cs G q) = Some par"
    and rec: "\<forall>shards lost. length shards = k + m \<and> length lost = k + m \<and> list_all (\<lambda>d. length d = cs) shards
              \<and> (\<forall>i<k + m. \<not> lost ! i \<longrightarrow> shards ! i = (data_chunks k cs G q @ par) ! i) \<and> length (filter id lost) \<le> m \<longrightarrow>
              (\<exists>out. rs_reconstruct R shards lost = Some out \<and> take k out = data_chunks k cs G q)"
    using assms(1) d unfolding codec_laws_def by blast
  have sh: "stripe_shards R k cs G q = data_chunks k cs G q @ par" using par by (simp add: stripe_shards_def)
  have len: "length s = cs" if "s \<in> set ?sh" for s
    using that P(1,2) by (auto simp: list_all_length)
  have "length (filter id ?lost) \<le> m" using assms(5) by (simp add: missing_def filter_map comp_def)
  then obtain out where out: "rs_reconstruct R ?sh ?lost = Some out" "take k out = data_chunks k cs G q"
    using rec [rule_format, of ?sh ?lost] len sh by (auto simp: list_all_iff)
  have "hd ?sh \<in> set ?sh" using assms(4) by (intro hd_in_set) simp
  then have "length (hd ?sh) = cs" by (rule len)
  then have "recover R k m cs ?sh ?lost = Inr out"
    using out(1) len by (auto simp: recover_def Let_def list_all_iff)
  then show ?thesis using out(2) by blast
qed

lemma copy_recovered_ok:
  assumes "m_chunk_size v = cs"
  shows "(\<And>f off. (f, off) \<in> set xs \<Longrightarrow> \<exists>i sp. ec_storage_pointer v (pointer f) = Inr (i, sp)
      \<and> slice (sp mod cs) (fsize f) (out ! i) = slice (pointer f) (fsize f) G) \<Longrightarrow>
    copy_recovered v out xs buffer = Inr (apply_writes (map (\<lambda>(f, off). (off, slice (pointer f) (fsize f) G)) xs) buffer)"
proof (induction xs arbitrary: buffer)
  case (Cons x xs)
  obtain f off where x: "x = (f, off)" by force
  obtain i sp where "ec_storage_pointer v (pointer f) = Inr (i, sp)"
    "slice (sp mod cs) (fsize f) (out ! i) = slice (pointer f) (fsize f) G" using Cons.prems [of f off] by (auto simp: x)
  moreover have "copy_recovered v out xs b = Inr (apply_writes (map (\<lambda>(f, off). (off, slice (pointer f) (fsize f) G)) xs) b)" for b
    by (rule Cons.IH) (use Cons.prems in auto)
  ultimately show ?case by (simp add: x assms)
qed simp

text \<open>A group fragment within a chunk of stripe \<open>q\<close>.\<close>

definition ec_entry :: "nat \<Rightarrow> nat \<Rightarrow> nat \<Rightarrow> nat \<times> fragment \<times> nat \<Rightarrow> bool" where
  "ec_entry k cs N = (\<lambda>(q, f, off). q < N \<and> (\<exists>i sp. ec_get_storage_pointer (pointer f) cs (k * cs) = (i, sp) \<and> i < k
     \<and> sp mod cs + fsize f \<le> cs \<and> pointer f = q * (k * cs) + i * cs + sp mod cs))"

lemma stripe_push_nonempty: "list_all (\<lambda>e. snd e \<noteq> []) M \<Longrightarrow> list_all (\<lambda>e. snd e \<noteq> []) (stripe_push q x M)"
  by (induction q x M rule: stripe_push.induct) auto

lemma fold_keeps: "(\<And>x a. P a \<Longrightarrow> P (f x a)) \<Longrightarrow> P a \<Longrightarrow> P (fold f xs a)"
  by (induction xs arbitrary: a) auto

lemma get_stripe_ids_nonempty: "list_all (\<lambda>e. snd e \<noteq> []) (get_stripe_ids v m ok)"
  unfolding get_stripe_ids_def
  by (rule fold_keeps) (auto simp: Let_def split: prod.splits intro!: fold_keeps stripe_push_nonempty)

lemma group_entry_ok:
  assumes "ec_geom v k m cs" and "codec_laws R k m cs" and "length G = N * (k * cs)" and "N * (k * cs) < M64" and "ec_part k cs N t"
  shows "ec_entry k cs N (group_entry v t)"
    and "(\<lambda>(q, f, off). (off, slice (pointer f) (fsize f) G)) (group_entry v t) = triple_write (shard_content R k cs G N) t"
proof -
  obtain i f off where t: "t = (i, f, off)" by (rule prod_cases3)
  have g: "m_chunk_size v = cs" "0 < cs" "m_stripe_size v = k * cs" using assms(1) by (auto simp: ec_geom_def)
  let ?sp = "pointer f" and ?gp = "ec_global_pointer v (pointer f) i"
  have p: "i < k" "?sp div cs < N" "?sp mod cs + fsize f \<le> cs" using assms(5) by (auto simp: t ec_part_def in_chunk_def)
  have gp: "?gp = ec_get_global_pointer ?sp 0 i cs (k * cs)" using assms(1) by (simp add: ec_global_pointer_def ec_geom_def g)
  note c = ec_global_coords [OF g(2) p(1,2) assms(4), folded gp]
  have q: "?gp div (k * cs) mod M64 = ?sp div cs"
    using c(1,2) by (metis div_le_dividend le_less_trans mod_less)
  have x: "?gp = ?sp div cs * (k * cs) + i * cs + ?sp mod cs"
    using c(4) by (simp add: mult.commute)
  have e: "group_entry v t = (?sp div cs, mk_fragment ?gp (fsize f), off)" by (simp add: t group_entry_def Let_def g q)
  show "ec_entry k cs N (group_entry v t)"
    unfolding e ec_entry_def using c(3) p x by auto
  have "slice ?sp (fsize f) (shard_content R k cs G N i) = slice ?gp (fsize f) G"
    using shard_content_data [OF assms(2,3) p(1,2,3)] by (simp add: x)
  then show "(\<lambda>(q, f, off). (off, slice (pointer f) (fsize f) G)) (group_entry v t) = triple_write (shard_content R k cs G N) t"
    by (simp add: t group_entry_def Let_def triple_write_def)
qed

lemma aligned_address_props:
  assumes "0 < cs" and "cs < M64" and "L < M64"
  shows "\<forall>f\<in>set addr. 0 < fsize f \<and> pointer f + fsize f \<le> L \<Longrightarrow>
    (\<forall>f\<in>set (get_aligned_address cs addr). in_chunk cs f \<and> pointer f + fsize f \<le> L)
    \<and> total_size (get_aligned_address cs addr) = total_size addr
    \<and> concat (map (\<lambda>f. slice (pointer f) (fsize f) G) (get_aligned_address cs addr)) =
      concat (map (\<lambda>f. slice (pointer f) (fsize f) G) addr)"
proof (induction addr)
  case (Cons f fs)
  have f: "0 < fsize f" "fsize f < M64" "pointer f + fsize f \<le> L" using Cons.prems assms(3) by auto
  have "pointer f + fsize f + cs < M64 + M64" using f(3) assms(2,3) by linarith
  moreover have "M64 + M64 \<le> M128" by (simp add: M64_def M128_def)
  ultimately have "pointer f + fsize f + cs < M128" by linarith
  from split_fragment_props [OF assms(1,2) f(1,2) this, of G] Cons f(3) show ?case
    by (force simp: get_aligned_address_def list_all_iff)
qed (simp add: get_aligned_address_def)

lemma ec_fragment_shard:
  assumes "ec_geom v k m cs" and "codec_laws R k m cs" and "length G = N * (k * cs)" and "N * (k * cs) < M64"
    and "in_chunk cs f" and "pointer f + fsize f \<le> N * (k * cs)"
  shows "\<exists>i sp. ec_storage_pointer v (pointer f) = Inr (i, sp)
    \<and> ec_storage_pointer v (sub128 (add128 (pointer f) (fsize f)) 1) = Inr (i, sp + fsize f - 1)
    \<and> ec_part k cs N (i, mk_fragment sp (fsize f), off) \<and> sp + fsize f \<le> length (shard_content R k cs G N i)
    \<and> slice sp (fsize f) (shard_content R k cs G N i) = slice (pointer f) (fsize f) G"
proof -
  have g: "m_chunk_size v = cs" "0 < cs" "m_stripe_size v = k * cs" "gc_storages (ec_config v) = k + m"
    using assms(1) by (auto simp: ec_geom_def)
  obtain i sp where p: "ec_get_storage_pointer (pointer f) cs (k * cs) = (i, sp)" "i < k" "sp mod cs = pointer f mod cs"
    "sp div cs < N" "sp div cs * (k * cs) + i * cs + sp mod cs = pointer f"
    "ec_get_storage_pointer (pointer f + fsize f - 1) cs (k * cs) = (i, sp + fsize f - 1)"
    using ec_fragment_part [OF g(2) assms(5,6,4)] by blast
  have c: "0 < fsize f" "sp mod cs + fsize f \<le> cs" using assms(5) p(3) by (auto simp: in_chunk_def)
  have "pointer f + fsize f < M128" using assms(4,6) M64_le_M128 by linarith
  then have l: "sub128 (add128 (pointer f) (fsize f)) 1 = pointer f + fsize f - 1" using c(1) by (simp add: add128_eq sub128_eq)
  have "slice (sp div cs * cs + sp mod cs) (fsize f) (shard_content R k cs G N i) =
      slice (sp div cs * (k * cs) + i * cs + sp mod cs) (fsize f) G"
    by (rule shard_content_data [OF assms(2,3) p(2,4) c(2)])
  then have d: "slice sp (fsize f) (shard_content R k cs G N i) = slice (pointer f) (fsize f) G" using p(5) by simp
  have e: "ec_part k cs N (i, mk_fragment sp (fsize f), off)" using p c by (simp add: ec_part_def in_chunk_def)
  have "length (shard_content R k cs G N i) = N * cs"
    using shard_content_slice(2) [OF assms(2,3) _ p(4), of i 0 0] p(2) by simp
  then show ?thesis using p l d e g ec_part_range [OF e]
    by (intro exI [of _ i] exI [of _ sp]) (simp add: ec_storage_pointer_def)
qed

lemma ec_nodes:
  assumes "ec_geom v k m cs" and "codec_laws R k m cs" and "length G = N * (k * cs)" and "N * (k * cs) < M64"
    and "\<forall>f\<in>set fs. in_chunk cs f \<and> pointer f + fsize f \<le> N * (k * cs)" and "total_size fs < M64" and "length buffer = total_size fs"
  defines "C \<equiv> shard_content R k cs G N"
  shows "\<exists>nm. extract_node_address_map fs (ec_storage_pointer v) = Inr nm \<and> wf_nodes nm \<and> (\<forall>i\<in>fst ` set nm. i < k)
    \<and> (\<forall>(i, f, j)\<in>node_triples nm. ec_part k cs N (i, f, j) \<and> pointer f + fsize f \<le> length (C i))
    \<and> (\<forall>ws. set ws = triple_write C ` node_triples nm \<longrightarrow>
          apply_writes ws buffer = concat (map (\<lambda>f. slice (pointer f) (fsize f) G) fs))"
proof -
  let ?gsp = "ec_storage_pointer v"
  note part = ec_fragment_shard [OF assms(1-4), where off = 0]
  have one: "\<forall>f\<in>set fs. in_one_storage ?gsp f" using part assms(5) by (fastforce simp: in_one_storage_def)
  have fit: "\<forall>f\<in>set fs. frag_fits ?gsp C f" using part assms(5) by (fastforce simp: frag_fits_def C_def)
  have data: "map (frag_data ?gsp C) fs = map (\<lambda>f. slice (pointer f) (fsize f) G) fs"
    using part assms(5) by (fastforce simp: frag_data_def C_def)
  obtain nm where nm: "extract_loop ?gsp fs 0 [] = Inr nm" "wf_nodes nm" "node_triples nm = set (frag_triples ?gsp fs 0)"
    using extract_loop_ok [of "[]" fs ?gsp 0] one assms(6) by (auto simp: wf_nodes_def)
  have ids: "\<forall>i\<in>fst ` set nm. i < k"
    using extract_loop_ids [OF nm(1)] part assms(5) by (fastforce simp: ec_part_def)
  have trip: "ec_part k cs N t" if "t \<in> set (frag_triples ?gsp xs j)" "set xs \<subseteq> set fs" for t xs j
    using that
  proof (induction xs arbitrary: j)
    case (Cons f xs)
    obtain i sp where "?gsp (pointer f) = Inr (i, sp)" "ec_part k cs N (i, mk_fragment sp (fsize f), 0)"
      using part [of f] assms(5) Cons.prems(2) by auto
    then show ?case using Cons by (auto simp: ec_part_def)
  qed simp
  have cover: "apply_writes ws buffer = concat (map (frag_data ?gsp C) fs)" if w: "set ws = triple_write C ` node_triples nm" for ws
  proof (rule apply_writes_cover)
    have set: "set ws = set (piece_writes 0 (map (frag_data ?gsp C) fs))"
      using w nm(3) frag_triples_writes [OF fit, of 0] by (metis list.set_map)
    show "writes_of (concat (map (frag_data ?gsp C) fs)) (set ws)" unfolding set by (rule piece_writes_of [of _ "[]"]) auto
    show "length buffer = length (concat (map (frag_data ?gsp C) fs))" using length_concat_data [OF fit] assms(7) by simp
    show "\<exists>(off, bs)\<in>set ws. off \<le> i \<and> i < off + length bs" if "i < length (concat (map (frag_data ?gsp C) fs))" for i
      unfolding set using piece_writes_cover [of 0 i "map (frag_data ?gsp C) fs"] that by simp
  qed
  have "\<forall>(i, f, j)\<in>node_triples nm. ec_part k cs N (i, f, j) \<and> pointer f + fsize f \<le> length (C i)"
    using frag_triples_fits [OF fit] trip nm(3) by blast
  then show ?thesis using nm(1,2) ids cover unfolding data extract_node_address_map_def by blast
qed

context storage
begin

lemma recover_stripe_ok:
  assumes "ec_geom v k m cs" and "codec_laws R k m cs" and "length G = N * (k * cs)" and "N * (k * cs) < M64"
    and "missing (k + m) av \<le> m" and "\<And>i. i < k + m \<Longrightarrow> av i \<Longrightarrow> sholds (st i) (shard_content R k cs G N i)" and q: "q < N"
  defines "sts \<equiv> map (\<lambda>i. if av i then Some (st i) else None) [0..<k + m]"
  shows "\<exists>rs out. read_shards S cs q sts = Some rs \<and> \<not> length (filter (\<lambda>x. x \<noteq> None) rs) < k
    \<and> recover R k m cs (map (\<lambda>x. case x of None \<Rightarrow> zero_bytes cs | Some b \<Rightarrow> b) rs) (map (\<lambda>x. x = None) rs) = Inr out
    \<and> take k out = data_chunks k cs G q"
proof -
  have g: "0 < cs" "0 < k" using assms(1) by (auto simp: ec_geom_def)
  have "(q + 1) * cs \<le> N * cs" using q by (intro mult_le_mono1) simp
  then have qN: "cs * q + cs \<le> N * cs" by (simp add: mult.commute)
  have "N * cs \<le> N * (k * cs)" using g(2) by (intro mult_le_mono2) simp
  then have qm: "cs * q < M64" using qN g(1) assms(4) by linarith
  have sl: "sinv (st i) \<and> cs * q + cs \<le> length (content (st i)) \<and> slice (cs * q) cs (content (st i)) = stripe_shards R k cs G q ! i"
    if "i < k + m" "av i" for i
  proof -
    have sh: "sholds (st i) (shard_content R k cs G N i)" by (rule assms(6) [OF that])
    have l: "length (shard_content R k cs G N i) = N * cs"
      by (rule shard_content_slice(2) [OF assms(2,3) that(1) q, of 0 0]) simp
    have "length (stripe_shards R k cs G q ! i) = cs"
      using stripe_shards_props(1,2) [OF assms(2,3) q] that(1) by (simp add: list_all_length)
    then show ?thesis
      using sholds_slice [OF sh, of "cs * q" cs] shard_content_slice(1) [OF assms(2,3) that(1) q, of 0 cs] qN l sh
      by (simp add: sholds_def mult.commute)
  qed
  define rs where "rs = map (\<lambda>i. if av i then Some (stripe_shards R k cs G q ! i) else None) [0..<k + m]"
  have "read_shards S cs q sts = Some (map (map_option (\<lambda>st. slice (cs * q) cs (content st))) sts)"
    using sl qm by (intro read_shards_ok) (auto simp: sts_def split: if_splits)
  also have "map (map_option (\<lambda>st. slice (cs * q) cs (content st))) sts = rs"
    using sl by (auto simp: sts_def rs_def)
  finally have rd: "read_shards S cs q sts = Some rs" .
  have cnt: "\<not> length (filter (\<lambda>x. x \<noteq> None) rs) < k"
  proof -
    have "length (filter (\<lambda>x. x \<noteq> None) rs) = length (filter av [0..<k + m])"
      unfolding rs_def by (rule length_filter_Some)
    then show ?thesis using present_missing [of av "k + m"] assms(5) by simp
  qed
  have m1: "map (\<lambda>x. case x of None \<Rightarrow> zero_bytes cs | Some b \<Rightarrow> b) rs =
      map (\<lambda>i. if av i then stripe_shards R k cs G q ! i else zero_bytes cs) [0..<k + m]"
    and m2: "map (\<lambda>x. x = None) rs = map (\<lambda>i. \<not> av i) [0..<k + m]" by (auto simp: rs_def)
  obtain out where out: "recover R k m cs (map (\<lambda>x. case x of None \<Rightarrow> zero_bytes cs | Some b \<Rightarrow> b) rs) (map (\<lambda>x. x = None) rs) = Inr out"
    "take k out = data_chunks k cs G q"
    using recover_ok [OF assms(2,3) q g(2) assms(5)] unfolding m1 m2 by blast
  show ?thesis using rd cnt out by blast
qed

lemma recover_stripes_ok:
  assumes "ec_geom v k m cs" and "codec_laws R k m cs" and "length G = N * (k * cs)" and "N * (k * cs) < M64"
    and "missing (k + m) av \<le> m" and "\<And>i. i < k + m \<Longrightarrow> av i \<Longrightarrow> sholds (st i) (shard_content R k cs G N i)"
  defines "sts \<equiv> map (\<lambda>i. if av i then Some (st i) else None) [0..<k + m]"
  shows "(\<And>e. e \<in> stripe_entries M \<Longrightarrow> ec_entry k cs N e) \<Longrightarrow> (\<And>q xs. (q, xs) \<in> set M \<Longrightarrow> xs \<noteq> []) \<Longrightarrow>
    \<exists>ws. recover_stripes S R v sts M buffer = Some (apply_writes ws buffer, Inr ())
      \<and> set ws = (\<lambda>(q, f, off). (off, slice (pointer f) (fsize f) G)) ` stripe_entries M"
proof (induction M arbitrary: buffer)
  case Nil
  then show ?case by (intro exI [of _ "[]"]) simp
next
  case (Cons e M)
  obtain q xs where e: "e = (q, xs)" by force
  have g: "data_shards (ec_config v) = k" "parity_shards (ec_config v) = m" "m_chunk_size v = cs" "0 < cs" "0 < k"
    "m_stripe_size v = k * cs" "gc_storages (ec_config v) = k + m" using assms(1) by (auto simp: ec_geom_def)
  have "(q, hd xs) \<in> stripe_entries (e # M)" using Cons.prems(2) [of q xs] by (simp add: e)
  then have "ec_entry k cs N (q, hd xs)" by (rule Cons.prems(1))
  then have q: "q < N" by (cases "hd xs") (simp add: ec_entry_def)
  obtain rs out where rd: "read_shards S cs q sts = Some rs" and cnt: "\<not> length (filter (\<lambda>x. x \<noteq> None) rs) < k"
    and out: "recover R k m cs (map (\<lambda>x. case x of None \<Rightarrow> zero_bytes cs | Some b \<Rightarrow> b) rs) (map (\<lambda>x. x = None) rs) = Inr out"
      "take k out = data_chunks k cs G q"
    using recover_stripe_ok [where av = av and st = st, OF assms(1-6) q] unfolding sts_def by blast
  have chunk: "out ! i = slice (q * (k * cs) + i * cs) cs G" if "i < k" for i
    using that out(2) by (metis (no_types, lifting) add_cancel_left_left data_chunks_def diff_zero length_upt nth_map nth_take nth_upt)
  have cp: "\<exists>i sp. ec_storage_pointer v (pointer f) = Inr (i, sp)
      \<and> slice (sp mod cs) (fsize f) (out ! i) = slice (pointer f) (fsize f) G" if fx: "(f, off) \<in> set xs" for f off
  proof -
    obtain i sp where "ec_get_storage_pointer (pointer f) cs (k * cs) = (i, sp)" "i < k"
      "sp mod cs + fsize f \<le> cs" "pointer f = q * (k * cs) + i * cs + sp mod cs"
      using Cons.prems(1) [of "(q, f, off)"] fx by (auto simp: e ec_entry_def)
    then show ?thesis using chunk g by (intro exI [of _ i] exI [of _ sp]) (simp add: ec_storage_pointer_def slice_slice)
  qed
  let ?w = "map (\<lambda>(f, off). (off, slice (pointer f) (fsize f) G)) xs"
  have cpy: "copy_recovered v out xs buffer = Inr (apply_writes ?w buffer)"
    by (rule copy_recovered_ok [OF g(3) cp])
  have pM: "ec_entry k cs N x" if "x \<in> stripe_entries M" for x using Cons.prems(1) [of x] that by (simp add: e)
  have pM': "ys \<noteq> []" if "(p, ys) \<in> set M" for p ys using Cons.prems(2) [of p ys] that by simp
  have "\<exists>ws. recover_stripes S R v sts M (apply_writes ?w buffer) = Some (apply_writes ws (apply_writes ?w buffer), Inr ())
      \<and> set ws = (\<lambda>(q, f, off). (off, slice (pointer f) (fsize f) G)) ` stripe_entries M"
    by (rule Cons.IH) (erule pM, erule pM')
  then obtain ws where ws: "recover_stripes S R v sts M (apply_writes ?w buffer) = Some (apply_writes ws (apply_writes ?w buffer), Inr ())"
    "set ws = (\<lambda>(q, f, off). (off, slice (pointer f) (fsize f) G)) ` stripe_entries M" by blast
  have "recover_stripes S R v sts (e # M) buffer = Some (apply_writes (?w @ ws) buffer, Inr ())"
    using rd cnt out(1) cpy ws(1) by (simp add: e g)
  moreover have "set (?w @ ws) = (\<lambda>(q, f, off). (off, slice (pointer f) (fsize f) G)) ` stripe_entries (e # M)"
    using ws(2) by (simp add: e image_Un image_image split_def)
  ultimately show ?case by blast
qed

lemma recover_missing_ok:
  assumes "ec_geom v k m cs" and "codec_laws R k m cs" and "length G = N * (k * cs)" and "N * (k * cs) < M64"
    and "missing (k + m) (ec_available v) \<le> m"
    and "\<And>i. i < k + m \<Longrightarrow> ec_available v i \<Longrightarrow> sholds (ec_storages v ! i) (shard_content R k cs G N i)"
    and pt: "\<And>t. t \<in> node_triples nm \<Longrightarrow> ec_part k cs N t"
    and ok: "\<And>i. i \<in> fst ` set nm \<Longrightarrow> map_of ok i = Some (ec_available v i)"
  defines "sts \<equiv> map (\<lambda>i. if ec_available v i then Some (ec_storages v ! i) else None) [0..<k + m]"
  shows "\<exists>ws. recover_stripes S R v sts (get_stripe_ids v nm ok) buffer = Some (apply_writes ws buffer, Inr ())
    \<and> set ws = triple_write (shard_content R k cs G N) ` {t \<in> node_triples nm. \<not> ec_available v (fst t)}"
proof -
  let ?M = "get_stripe_ids v nm ok"
  have E: "stripe_entries ?M = group_entry v ` {t \<in> node_triples nm. \<not> ec_available v (fst t)}"
    by (rule get_stripe_ids_entries) (rule ok)
  note ge = group_entry_ok [OF assms(1-4) pt]
  have W: "(\<lambda>(q, f, off). (off, slice (pointer f) (fsize f) G)) ` stripe_entries ?M =
      triple_write (shard_content R k cs G N) ` {t \<in> node_triples nm. \<not> ec_available v (fst t)}"
    unfolding E image_image by (rule image_cong [OF refl]) (use ge(2) in blast)
  have "\<exists>ws. recover_stripes S R v sts ?M buffer = Some (apply_writes ws buffer, Inr ())
      \<and> set ws = (\<lambda>(q, f, off). (off, slice (pointer f) (fsize f) G)) ` stripe_entries ?M"
    unfolding sts_def
  proof (rule recover_stripes_ok [OF assms(1-4)])
    show "ec_entry k cs N e" if "e \<in> stripe_entries ?M" for e using that ge(1) unfolding E by blast
    show "xs \<noteq> []" if "(q, xs) \<in> set ?M" for q xs using that get_stripe_ids_nonempty [of v nm ok] by (auto simp: list_all_iff)
  qed (use assms(5,6) in simp_all)
  then show ?thesis unfolding W .
qed

lemma ec_read_ok:
  assumes "ec_geom v k m cs" and "codec_laws R k m cs" and "length G = N * (k * cs)" and "N * (k * cs) < M64"
    and "cs < M64" and "missing (k + m) (ec_available v) \<le> m"
    and "\<And>i. i < k + m \<Longrightarrow> ec_available v i \<Longrightarrow> sholds (ec_storages v ! i) (shard_content R k cs G N i)"
    and "\<forall>f\<in>set addr. 0 < fsize f \<and> pointer f + fsize f \<le> length G"
    and "total_size addr < M64" and "length buffer = total_size addr"
  shows "ec_read_address S R v addr buffer =
    Some (concat (map (\<lambda>f. slice (pointer f) (fsize f) G) addr), Inr (total_size addr))"
proof -
  have g: "data_shards (ec_config v) = k" "m_chunk_size v = cs" "0 < cs" "length (ec_storages v) = k + m"
    using assms(1) by (auto simp: ec_geom_def)
  define fs where "fs = get_aligned_address cs addr"
  have Lm: "length G < M64" using assms(3,4) by simp
  note A = aligned_address_props [OF g(3) assms(5) Lm assms(8), of G, folded fs_def]
  let ?C = "shard_content R k cs G N" and ?T = "concat (map (\<lambda>f. slice (pointer f) (fsize f) G) addr)"
  obtain nm where nm: "extract_node_address_map fs (ec_storage_pointer v) = Inr nm" "wf_nodes nm" "\<forall>i\<in>fst ` set nm. i < k"
    "\<forall>(i, f, j)\<in>node_triples nm. ec_part k cs N (i, f, j) \<and> pointer f + fsize f \<le> length (?C i)"
    "\<And>ws. set ws = triple_write ?C ` node_triples nm \<Longrightarrow> apply_writes ws buffer = ?T"
    using ec_nodes [OF assms(1-4), of fs buffer] A assms(3,9,10) by auto
  define av where "av = ec_available v"
  let ?ok = "map (\<lambda>(i, _). (i, av i)) nm"
  obtain ws1 where ws1: "read_from_storages S v nm buffer = Some (apply_writes ws1 buffer, ?ok)"
    "set ws1 = triple_write ?C ` {t \<in> node_triples nm. av (fst t)}"
    using read_from_storages_ok [OF nm(2), of v ?C buffer] assms(7) nm(3,4) unfolding av_def by fastforce
  have rd: "\<not> (\<exists>i\<in>set (map fst nm). i \<ge> k)" using nm(3) by auto
  show ?thesis
  proof (cases "list_all snd ?ok")
    case True
    then have "{t \<in> node_triples nm. av (fst t)} = node_triples nm"
      by (auto simp: node_triples_def list_all_iff)
    then have "apply_writes ws1 buffer = ?T" using nm(5) ws1(2) by simp
    then show ?thesis
      using nm(1) rd ws1(1) True assms(9) unfolding ec_read_address_def g fs_def [symmetric] by (simp add: data_size_eq)
  next
    case False
    have ok: "map_of ?ok i = Some (av i)" if "i \<in> fst ` set nm" for i
      using that by (induction nm) (auto simp: split_def)
    have ok': "map_of ?ok i \<noteq> Some False" if "av i" for i
      using that by (induction nm) (auto simp: split_def)
    let ?sts = "map (\<lambda>i. if av i then Some (ec_storages v ! i) else None) [0..<k + m]"
    have sts: "map (\<lambda>i. if ec_available v i \<and> map_of ?ok i \<noteq> Some False then Some (ec_storages v ! i) else None)
        [0..<k + m] = ?sts"
      using ok' by (auto simp: av_def)
    have cnt: "\<not> length (filter (\<lambda>x. x \<noteq> None) ?sts) < k"
      using present_missing [of av "k + m"] assms(6) unfolding length_filter_Some av_def by linarith
    let ?M = "get_stripe_ids v nm ?ok"
    have pt: "ec_part k cs N t" if "t \<in> node_triples nm" for t using nm(4) that by (cases t) auto
    obtain ws2 where ws2: "recover_stripes S R v ?sts ?M (apply_writes ws1 buffer) = Some (apply_writes ws2 (apply_writes ws1 buffer), Inr ())"
      "set ws2 = triple_write ?C ` {t \<in> node_triples nm. \<not> av (fst t)}"
      using recover_missing_ok [OF assms(1-4,6,7) pt ok [unfolded av_def], folded av_def] by blast
    have "{t \<in> node_triples nm. av (fst t)} \<union> {t \<in> node_triples nm. \<not> av (fst t)} = node_triples nm" by blast
    then have "set (ws1 @ ws2) = triple_write ?C ` node_triples nm"
      unfolding set_append ws1(2) ws2(2) image_Un [symmetric] by (rule arg_cong)
    then have "apply_writes (ws1 @ ws2) buffer = ?T" by (rule nm(5))
    then have "recover_stripes S R v ?sts ?M (apply_writes ws1 buffer) = Some (?T, Inr ())" using ws2(1) by simp
    then show ?thesis
      using assms(9) False cnt unfolding ec_read_address_def g fs_def [symmetric] nm(1) sum.case if_not_P [OF rd] ws1(1)
        option.case prod.case Let_def sts by (simp add: data_size_eq)
  qed
qed

end

end
