(* ===== verification/Vrm_RRView.thy ===== *)
theory Vrm_RRView
  imports Vrm_Group
begin

text \<open>
  The round-robin view on a storage group (\<open>src/storage/group/rr_data_view.cpp\<close>): each write
  goes to the next storage in turn, reads go to the storage the pointer names, and references
  are counted per storage and stripe. The view holds the storages themselves
  (\<open>rr_storages\<close>), which of them the storage index currently lists (\<open>rr_index\<close>) and the load
  balancer.
\<close>

record 's rr_view =
  rr_config :: group_config
  rr_lb :: load_balancer
  rr_storages :: "'s list"
  rr_index :: "bool list"

definition rr_compute_address :: "group_config \<Rightarrow> size_t list \<Rightarrow> size_t \<Rightarrow> nat \<Rightarrow> size_t \<Rightarrow> address" where
  "rr_compute_address c offsets n storage_id base_offset =
     fragment_list (\<lambda>o1. rr_get_global_pointer (add64 base_offset o1) (gc_id c) storage_id) offsets n"

definition rr_stripes :: "group_config \<Rightarrow> fragment \<Rightarrow> nat list" where
  "rr_stripes c f = stripes_of (get_stripe_size c) (snd (rr_get_storage_pointer (pointer f))) (fsize f)"

definition rr_extract_refcounts :: "group_config \<Rightarrow> address \<Rightarrow> refcount list list" where
  "rr_extract_refcounts c addr =
     map (\<lambda>i. count_stripes (concat (map (rr_stripes c)
            (filter (\<lambda>f. fst (rr_get_storage_pointer (pointer f)) mod 2 ^ 16 = i) addr))))
       [0..<gc_storages c]"

definition rr_compute_rejected_address :: "group_config \<Rightarrow> refcount list list \<Rightarrow> address \<Rightarrow> address" where
  "rr_compute_rejected_address c rejected_refcounts original_addr =
     (let rejected = rejected_stripes rejected_refcounts
      in if rejected = [] then []
         else filter (\<lambda>f. \<exists>i\<in>set (rr_stripes c f). i \<in> set rejected) original_addr)"

definition rr_write :: "'s storage_ops \<Rightarrow> 's rr_view \<Rightarrow> bytes \<Rightarrow> size_t list \<Rightarrow> ('s rr_view \<times> address res) option" where
  "rr_write S v data offsets =
     (case lb_get (rr_lb v) of
        (lb, Inl e) \<Rightarrow> Some (v\<lparr>rr_lb := lb\<rparr>, Inl e)
      | (lb, Inr storage_id) \<Rightarrow>
          if storage_id \<ge> length (rr_storages v) then Some (v\<lparr>rr_lb := lb\<rparr>, Inl Out_of_range)
          else case so_allocate S (rr_storages v ! storage_id) (length data) DEFAULT_PAGE_SIZE of
                 (st, Inl e) \<Rightarrow> Some (v\<lparr>rr_lb := lb, rr_storages := (rr_storages v)[storage_id := st]\<rparr>, Inl e)
               | (st, Inr a) \<Rightarrow>
                   let rv = rr_compute_address (rr_config v) offsets (length data) storage_id (alloc_offset a);
                       refcounts = rr_extract_refcounts (rr_config v) rv
                   in case so_write S st a [data] (refcounts ! storage_id) of
                        None \<Rightarrow> None
                      | Some (st', r) \<Rightarrow>
                          Some (v\<lparr>rr_lb := lb, rr_storages := (rr_storages v)[storage_id := st']\<rparr>,
                                bindE r (\<lambda>_. Inr rv)))"

definition rr_storage_at :: "'s rr_view \<Rightarrow> nat \<Rightarrow> 's res" where
  "rr_storage_at v i =
     (if i \<ge> length (rr_storages v) then Inl Out_of_range
      else if \<not> rr_index v ! i then Inl Runtime_error else Inr (rr_storages v ! i))"

definition rr_read :: "'s storage_ops \<Rightarrow> 's rr_view \<Rightarrow> nat \<Rightarrow> size_t \<Rightarrow> bytes res option" where
  "rr_read S v ptr n =
     (if n = 0 then Some (Inl Runtime_error)
      else case rr_get_storage_pointer ptr of
             (i, storage_pointer) \<Rightarrow>
               (case rr_storage_at v i of
                  Inl e \<Rightarrow> Some (Inl e)
                | Inr st \<Rightarrow> so_read S st storage_pointer n))"

text \<open>An id beyond the storages is undefined behaviour in the source; the model throws.\<close>

definition rr_read_address :: "'s storage_ops \<Rightarrow> 's rr_view \<Rightarrow> address \<Rightarrow> bytes \<Rightarrow> (bytes \<times> size_t res) option" where
  "rr_read_address S v addr buffer =
     (case extract_node_address_map addr (\<lambda>p. Inr (rr_get_storage_pointer p)) of
        Inl e \<Rightarrow> Some (buffer, Inl e)
      | Inr m \<Rightarrow> map_option (\<lambda>(b, r). (b, bindE r (\<lambda>_. Inr (data_size addr)))) (read_nodes S (rr_storage_at v) m buffer))"

definition rr_get_used_space :: "'s storage_ops \<Rightarrow> 's rr_view \<Rightarrow> size_t" where
  "rr_get_used_space S v =
     fold (\<lambda>(st, present) used. if present then add64 used (so_get_used_space S st) else used)
       (zip (rr_storages v) (rr_index v)) 0"

definition rr_link :: "'s storage_ops \<Rightarrow> 's rr_view \<Rightarrow> address \<Rightarrow> ('s rr_view \<times> address res) option" where
  "rr_link S v addr =
     (let refcounts_by_storage = rr_extract_refcounts (rr_config v) addr
      in map_option (\<lambda>(sts, r). (v\<lparr>rr_storages := sts\<rparr>,
             bindE r (\<lambda>refcounts. Inr (rr_compute_rejected_address (rr_config v) refcounts addr))))
           (run_for_all (\<lambda>i st. Some (if \<not> rr_index v ! i then (st, Inl Runtime_error)
                                      else so_link S st (refcounts_by_storage ! i))) 0 (rr_storages v)))"

definition rr_unlink :: "'s storage_ops \<Rightarrow> 's rr_view \<Rightarrow> address \<Rightarrow> ('s rr_view \<times> size_t res) option" where
  "rr_unlink S v addr =
     (let refcounts_by_storage = rr_extract_refcounts (rr_config v) addr
      in map_option (\<lambda>(sts, r). (v\<lparr>rr_storages := sts\<rparr>, bindE r (\<lambda>freed. Inr (fold (\<lambda>x acc. add64 acc x) freed 0))))
           (run_for_all (\<lambda>i st. Some (if \<not> rr_index v ! i then (st, Inl Runtime_error)
                                      else so_unlink S st (refcounts_by_storage ! i))) 0 (rr_storages v)))"

subsection \<open>What was written can be read\<close>

definition write_offsets_ok :: "size_t list \<Rightarrow> nat \<Rightarrow> bool" where
  "write_offsets_ok offsets n \<longleftrightarrow> offsets \<noteq> [] \<and> hd offsets = 0 \<and> sorted_wrt (<) offsets \<and> list_all (\<lambda>x. x < n) offsets"

definition rr_inv :: "('s \<Rightarrow> bool) \<Rightarrow> 's rr_view \<Rightarrow> bool" where
  "rr_inv P v \<longleftrightarrow> list_all P (rr_storages v) \<and> length (rr_index v) = length (rr_storages v) \<and> gc_id (rr_config v) < 2 ^ 32
    \<and> length (rr_storages v) \<le> 2 ^ 16"

lemma rr_frag_pointers:
  assumes "g < 2 ^ 32" and "s < 2 ^ 32" and "base + o1 + k \<le> M64" and "0 < k"
  defines "p \<equiv> rr_get_global_pointer (base + o1) g s"
  shows "rr_get_storage_pointer p = (s, base + o1)"
    and "rr_get_storage_pointer (sub128 (add128 p k) 1) = (s, base + o1 + k - 1)"
proof -
  have lt: "base + o1 < M64" "base + o1 + k - 1 < M64" using assms(3,4) by linarith+
  show "rr_get_storage_pointer p = (s, base + o1)"
    unfolding p_def using rr_pointer_fields [OF assms(1,2) lt(1)] by simp
  have sum: "p = g * 2 ^ 96 + s * 2 ^ 64 + (base + o1)"
    unfolding p_def by (rule rr_global_pointer_sum [OF assms(1,2) lt(1)])
  have "g * 2 ^ 96 \<le> (2 ^ 32 - 1) * 2 ^ 96" "s * 2 ^ 64 \<le> (2 ^ 32 - 1) * 2 ^ 64"
    using assms(1,2) by (intro mult_le_mono1, simp)+
  moreover have "p + k \<le> g * 2 ^ 96 + s * 2 ^ 64 + M64" unfolding sum using assms(3) by linarith
  moreover have "(2 ^ 32 - 1) * 2 ^ 96 + (2 ^ 32 - 1) * 2 ^ 64 + M64 = M128"
    by (simp add: M64_def M128_def)
  ultimately have "p + k \<le> M128" by linarith
  then have "sub128 (add128 p k) 1 = p + k - 1"
  proof (cases "p + k = M128")
    case True
    then show ?thesis by (simp add: add128_def sub128_def M128_def)
  next
    case False
    with \<open>p + k \<le> M128\<close> show ?thesis using assms(4) by (simp add: add128_eq sub128_eq)
  qed
  also have "\<dots> = rr_get_global_pointer (base + o1 + k - 1) g s"
    unfolding rr_global_pointer_sum [OF assms(1,2) lt(2)] sum using assms(4) by simp
  finally show "rr_get_storage_pointer (sub128 (add128 p k) 1) = (s, base + o1 + k - 1)"
    using rr_pointer_fields [OF assms(1,2) lt(2)] by simp
qed

context storage
begin

lemma rr_address_readable:
  assumes "rr_inv sinv v" and "sid < length (rr_storages v)" and "rr_index v ! sid"
    and "write_offsets_ok offsets (length data)" and "base + length data \<le> length (content (rr_storages v ! sid))"
    and "slice base (length data) (content (rr_storages v ! sid)) = data" and "base + length data < M64"
    and "length buffer = length data"
  shows "rr_read_address S v (rr_compute_address (rr_config v) offsets (length data) sid base) buffer =
    Some (data, Inr (length data))"
proof -
  let ?n = "length data" and ?g = "gc_id (rr_config v)"
  let ?ptr = "\<lambda>o1. rr_get_global_pointer (add64 base o1) ?g sid"
  let ?gsp = "\<lambda>p. Inr (rr_get_storage_pointer p) :: (nat \<times> nat) res"
  let ?C = "\<lambda>i. content (rr_storages v ! i)"
  define addr where "addr = rr_compute_address (rr_config v) offsets ?n sid base"
  obtain os where os: "offsets = 0 # os" using assms(4) by (cases offsets) (auto simp: write_offsets_ok_def)
  have srt: "sorted_wrt (<) (0 # os)" "\<forall>x\<in>set (0 # os). x < ?n"
    using assms(4) by (auto simp: write_offsets_ok_def os list_all_iff)
  have nm: "?n < M64" using assms(7) by linarith
  have g: "?g < 2 ^ 32" "sid < 2 ^ 32" using assms(1,2) by (auto simp: rr_inv_def)
  have ptr: "?gsp (pointer f) = Inr (sid, base + o1)" "?gsp (sub128 (add128 (pointer f) (fsize f)) 1) = Inr (sid, base + o1 + fsize f - 1)"
    if "pointer f = ?ptr o1" "o1 + fsize f \<le> ?n" "0 < fsize f" for f o1
  proof -
    have a: "add64 base o1 = base + o1" using that(2) assms(7) by (intro add64_eq) linarith
    have le: "base + o1 + fsize f \<le> M64" using that(2) assms(7) by linarith
    show "?gsp (pointer f) = Inr (sid, base + o1)" "?gsp (sub128 (add128 (pointer f) (fsize f)) 1) = Inr (sid, base + o1 + fsize f - 1)"
      using rr_frag_pointers [OF g le that(3)] that(1) a by simp_all
  qed
  have fr: "\<exists>o1. pointer f = ?ptr o1 \<and> o1 + fsize f \<le> ?n \<and> 0 < fsize f" if "f \<in> set addr" for f
    using fragment_list_frags [OF nm srt, of f ?ptr] that by (auto simp: addr_def rr_compute_address_def os)
  have A: "\<forall>f\<in>set addr. in_one_storage ?gsp f \<and> frag_fits ?gsp ?C f"
    using fr ptr assms(5) by (fastforce simp: in_one_storage_def frag_fits_def)
  have B: "\<exists>st. rr_storage_at v i = Inr st \<and> sinv st \<and> content st = ?C i" if "f \<in> set addr" "?gsp (pointer f) = Inr (i, p)" for f i p
    using fr [OF that(1)] ptr that(2) assms(1-3) by (fastforce simp: rr_storage_at_def rr_inv_def list_all_length)
  have T: "total_size addr = ?n"
    using total_size_fragment_list [OF nm srt, of ?ptr] by (simp add: addr_def rr_compute_address_def os)
  have D: "frag_data ?gsp ?C (mk_fragment (?ptr o1) k) = slice o1 k data" if "o1 + k \<le> ?n" "0 < k" for o1 k
  proof -
    have "slice (base + o1) k (?C sid) = slice o1 k data"
    proof -
      have e: "?n = o1 + (k + (?n - o1 - k))" using that(1) by simp
      have "data = slice base o1 (?C sid) @ slice (base + o1) k (?C sid) @ slice (base + o1 + k) (?n - o1 - k) (?C sid)"
        using assms(6) e by (metis slice_append)
      moreover have "length (slice base o1 (?C sid)) = o1" "length (slice (base + o1) k (?C sid)) = k"
        using that(1) assms(5) by (simp_all add: length_slice)
      ultimately show ?thesis by (metis append_eq_conv_conj slice_def)
    qed
    then show ?thesis using ptr(1) [of "mk_fragment (?ptr o1) k" o1] that by (simp add: frag_data_def)
  qed
  have "concat (map (frag_data ?gsp ?C) addr) = data"
    using fragment_list_data [where D = "frag_data ?gsp ?C" and ptr = ?ptr, OF D refl nm srt]
    by (simp add: addr_def rr_compute_address_def os)
  moreover have "\<exists>m. extract_node_address_map addr ?gsp = Inr m \<and>
    read_nodes S (rr_storage_at v) m buffer = Some (concat (map (frag_data ?gsp ?C) addr), Inr ())"
  proof (rule read_fragments_ok [OF A])
    fix f i p assume "f \<in> set addr" "?gsp (pointer f) = Inr (i, p)"
    then show "\<exists>st. rr_storage_at v i = Inr st \<and> sinv st \<and> content st = ?C i" by (rule B)
  qed (use T nm assms(8) in simp_all)
  ultimately show ?thesis
    using T nm unfolding rr_read_address_def addr_def [symmetric] by (auto simp: data_size_eq)
qed

lemma rr_write_then_read:
  assumes "rr_inv sinv v" and "write_offsets_ok offsets (length data)"
    and "lb_get (rr_lb v) = (lb, Inr sid)" and "sid < length (rr_storages v)" and "rr_index v ! sid"
    and "so_allocate S (rr_storages v ! sid) (length data) DEFAULT_PAGE_SIZE = (st, Inr a)"
    and "fits (rr_storages v ! sid) (top (rr_storages v ! sid) + DEFAULT_PAGE_SIZE + length data)"
    and "length buffer = length data"
  shows "\<exists>v' addr. rr_write S v data offsets = Some (v', Inr addr) \<and> rr_inv sinv v'
    \<and> rr_read_address S v' addr buffer = Some (data, Inr (length data))
    \<and> (\<forall>i p k. i < length (rr_storages v) \<and> p + k \<le> top (rr_storages v ! i) \<and> p + k \<le> length (content (rr_storages v ! i)) \<longrightarrow>
          slice p k (content (rr_storages v' ! i)) = slice p k (content (rr_storages v ! i)))"
proof -
  let ?st = "rr_storages v ! sid"
  have n: "0 < length data" using assms(2) by (cases offsets) (auto simp: write_offsets_ok_def)
  have inv: "sinv ?st" using assms(1,4) by (simp add: rr_inv_def list_all_length)
  have pg: "0 < DEFAULT_PAGE_SIZE" by (simp add: DEFAULT_PAGE_SIZE_def KIBI_BYTE_def)
  note A = allocate_law [OF inv n pg assms(7,6)]
  have f2: "fits st (alloc_offset a + length (concat [data]))"
    using A fits_mono [OF assms(7), of "alloc_offset a + length data"] by simp
  let ?rv = "rr_compute_address (rr_config v) offsets (length data) sid (alloc_offset a)"
  let ?rc = "rr_extract_refcounts (rr_config v) ?rv ! sid"
  have aa: "\<lparr>alloc_offset = alloc_offset a, alloc_size = length data\<rparr> = a" using A by (cases a) simp
  obtain st' where w: "so_write S st a [data] ?rc = Some (st', Inr ())" "sinv st'"
    "alloc_offset a + length data \<le> length (content st')" "slice (alloc_offset a) (length data) (content st') = data"
    "\<forall>p k. p + k \<le> length (content st) \<and> p + k \<le> alloc_offset a \<longrightarrow> slice p k (content st') = slice p k (content st)"
    using write_law [of st "alloc_offset a" "[data]" ?rc] A f2 by (auto simp: aa)
  define v' where "v' = v\<lparr>rr_lb := lb, rr_storages := (rr_storages v)[sid := st']\<rparr>"
  have wr: "rr_write S v data offsets = Some (v', Inr ?rv)"
    using assms(3,4,6) w(1) by (simp add: rr_write_def Let_def v'_def)
  have inv': "rr_inv sinv v'"
    using assms(1,4) w(2) unfolding v'_def rr_inv_def list_all_length by (auto simp: nth_list_update)
  have "alloc_offset a + length data < M64" using fits_bound [OF f2] by simp
  moreover have v': "rr_storages v' ! sid = st'" "rr_config v' = rr_config v" "length (rr_storages v') = length (rr_storages v)"
    "rr_index v' ! sid" using assms(4,5) by (simp_all add: v'_def)
  ultimately have "rr_read_address S v' ?rv buffer = Some (data, Inr (length data))"
    using rr_address_readable [OF inv', of sid offsets data "alloc_offset a" buffer] assms(2,4,8) w(3,4) by simp
  moreover have "slice p k (content (rr_storages v' ! i)) = slice p k (content (rr_storages v ! i))"
    if "p + k \<le> top (rr_storages v ! i)" "p + k \<le> length (content (rr_storages v ! i))" for i p k
    using that w(5) A v'(1) by (cases "i = sid") (auto simp: v'_def)
  ultimately show ?thesis using wr inv' by blast
qed

end

text \<open>
  C11: A round-robin group on local storages returns what was written. If the load balancer
  names an available storage that can allocate the data, then \<open>write\<close> with increasing
  fragment offsets starting at 0 succeeds, reading the returned address yields the data, and
  what the storages held below their write offsets is unchanged.
\<close>

theorem rr_write_read:
  assumes "os_ok s" and "rr_inv ds_inv v" and "write_offsets_ok offsets (length data)"
    and "lb_get (rr_lb v) = (lb, Inr sid)" and "sid < length (rr_storages v)" and "rr_index v ! sid"
    and "ds_allocate (rr_storages v ! sid) (length data) DEFAULT_PAGE_SIZE = (st, Inr a)"
    and "ds_fits (rr_storages v ! sid) (m_write_offset (rr_storages v ! sid) + DEFAULT_PAGE_SIZE + length data)"
    and "length buffer = length data"
  shows "\<exists>v' addr. rr_write (local_ops s K) v data offsets = Some (v', Inr addr) \<and> rr_inv ds_inv v'
    \<and> rr_read_address (local_ops s K) v' addr buffer = Some (data, Inr (length data))
    \<and> (\<forall>i p k. i < length (rr_storages v) \<and> p + k \<le> m_write_offset (rr_storages v ! i)
          \<and> p + k \<le> length (ds_bytes (rr_storages v ! i)) \<longrightarrow>
          slice p k (ds_bytes (rr_storages v' ! i)) = slice p k (ds_bytes (rr_storages v ! i)))"
proof -
  have "so_allocate (local_ops s K) (rr_storages v ! sid) (length data) DEFAULT_PAGE_SIZE = (st, Inr a)"
    using assms(7) by (simp add: local_ops_def)
  from storage.rr_write_then_read [OF local_storage_contract [OF assms(1)] assms(2-6) this assms(8,9)]
  show ?thesis .
qed

definition sample_rr :: "(size_t \<Rightarrow> size_t option) data_store rr_view" where
  "sample_rr = \<lparr>rr_config = \<lparr>gc_id = 0, gc_type = ROUND_ROBIN, gc_storages = 1, data_shards = 1, parity_shards = 0,
       stripe_size_kib = 8\<rparr>,
     rr_lb = \<lparr>lb_services = [0], lb_robin = None\<rparr>,
     rr_storages = [sample_store\<lparr>m_conf := \<lparr>max_file_size = 8, max_data_store_size = 65536, page_size = 4\<rparr>\<rparr>],
     rr_index = [True]\<rparr>"

theorem rr_write_read_witness:
  "\<exists>v' addr. rr_write (local_ops slow_os map_kv) sample_rr ''hello'' [0, 2] = Some (v', Inr addr)
    \<and> rr_read_address (local_ops slow_os map_kv) v' addr (zero_bytes 5) = Some (''hello'', Inr 5)"
proof -
  let ?st = "sample_store\<lparr>m_conf := \<lparr>max_file_size = 8, max_data_store_size = 65536, page_size = 4\<rparr>\<rparr>"
  have st: "rr_storages sample_rr = [?st]" by (simp add: sample_rr_def)
  have "ds_inv ?st" using sample_store_inv by (simp add: ds_inv_def sample_store_def)
  then have i: "rr_inv ds_inv sample_rr" by (simp add: rr_inv_def sample_rr_def)
  have o: "write_offsets_ok [0, 2] (length ''hello'')" by (simp add: write_offsets_ok_def)
  have l: "lb_get (rr_lb sample_rr) = (\<lparr>lb_services = [0], lb_robin = None\<rparr>, Inr 0)"
    by (simp add: sample_rr_def lb_get_def lb_next_def)
  have a: "ds_allocate (rr_storages sample_rr ! 0) (length ''hello'') DEFAULT_PAGE_SIZE =
      (?st\<lparr>m_write_offset := 8197\<rparr>, Inr \<lparr>alloc_offset = 8192, alloc_size = 5\<rparr>)"
    by (simp add: st sample_store_def ds_allocate_def aligned_start_def DEFAULT_PAGE_SIZE_def KIBI_BYTE_def
        add64_def sub64_def M64_def)
  have f: "ds_fits (rr_storages sample_rr ! 0) (m_write_offset (rr_storages sample_rr ! 0) + DEFAULT_PAGE_SIZE + length ''hello'')"
    by (simp add: ds_fits_def st sample_store_def DEFAULT_PAGE_SIZE_def KIBI_BYTE_def M64_def)
  have x: "rr_index sample_rr ! 0" "0 < length (rr_storages sample_rr)" by (simp_all add: sample_rr_def)
  have b: "length (zero_bytes 5) = length ''hello''" by simp
  from rr_write_read [OF slow_os_ok i o l x(2,1) a f b, of map_kv] show ?thesis by auto
qed

subsection \<open>Reference counts\<close>

definition overlaps_stripe :: "size_t \<Rightarrow> nat \<Rightarrow> size_t \<Rightarrow> nat \<Rightarrow> bool" where
  "overlaps_stripe ss p n k \<longleftrightarrow> p < (k + 1) * ss \<and> k * ss < p + n"

lemma set_stripes_of:
  assumes "0 < ss" and "0 < n" and "p + n < M64"
  shows "k \<in> set (stripes_of ss p n) \<longleftrightarrow> overlaps_stripe ss p n k"
proof -
  have "sub64 (add64 p n) 1 = p + n - 1" using assms by (simp add: add64_eq sub64_eq)
  then have "k \<in> set (stripes_of ss p n) \<longleftrightarrow> p div ss < k + 1 \<and> k \<le> (p + n - 1) div ss"
    by (auto simp: stripes_of_def)
  also have "\<dots> \<longleftrightarrow> p < (k + 1) * ss \<and> k * ss \<le> p + n - 1"
    using assms(1) by (simp only: div_less_iff_less_mult less_eq_div_iff_mult_less_eq)
  finally show ?thesis using assms(2) unfolding overlaps_stripe_def by linarith
qed

lemma count_list_distinct: "distinct xs \<Longrightarrow> count_list xs k = (if k \<in> set xs then 1 else 0)"
  by (induction xs) auto

lemma count_list_concat_distinct:
  "\<forall>x\<in>set xs. distinct (g x) \<Longrightarrow> count_list (concat (map g xs)) k = length (filter (\<lambda>x. k \<in> set (g x)) xs)"
proof (induction xs)
  case (Cons x xs)
  have "count_list (g x) k = (if k \<in> set (g x) then 1 else 0)" using Cons.prems by (simp add: count_list_distinct)
  then show ?case using Cons by simp
qed simp

text \<open>
  C30: The reference counts a round-robin view derives from an address are exact: for every
  storage of the group and every stripe, the count is the number of fragments of the address
  that lie on that storage and overlap the stripe.
\<close>

theorem rr_refcounts_exact:
  assumes "0 < get_stripe_size c" and "gc_storages c \<le> 2 ^ 16" and "i < gc_storages c"
    and "\<forall>f\<in>set addr. 0 < fsize f \<and> fst (rr_get_storage_pointer (pointer f)) < 2 ^ 16
          \<and> snd (rr_get_storage_pointer (pointer f)) + fsize f < M64"
    and "length (concat (map (rr_stripes c) addr)) < M64"
  shows "requested k (rr_extract_refcounts c addr ! i) =
    length (filter (\<lambda>f. fst (rr_get_storage_pointer (pointer f)) = i \<and>
       overlaps_stripe (get_stripe_size c) (snd (rr_get_storage_pointer (pointer f))) (fsize f) k) addr)"
proof -
  let ?fs = "filter (\<lambda>f. fst (rr_get_storage_pointer (pointer f)) mod 2 ^ 16 = i) addr"
  have "length (concat (map g (filter P xs))) \<le> length (concat (map g xs))" for g :: "fragment \<Rightarrow> nat list" and P xs
    by (induction xs) auto
  then have len: "length (concat (map (rr_stripes c) ?fs)) < M64" using assms(5) le_less_trans by blast
  have d: "distinct (rr_stripes c f)" for f by (simp add: rr_stripes_def stripes_of_def)
  have "rr_extract_refcounts c addr ! i = count_stripes (concat (map (rr_stripes c) ?fs))"
    using assms(3) by (simp add: rr_extract_refcounts_def)
  then have "requested k (rr_extract_refcounts c addr ! i) = length (filter (\<lambda>f. k \<in> set (rr_stripes c f)) ?fs)"
    using requested_count_stripes [OF len] d by (simp add: count_list_concat_distinct)
  also have "filter (\<lambda>f. k \<in> set (rr_stripes c f)) ?fs =
      filter (\<lambda>f. fst (rr_get_storage_pointer (pointer f)) = i \<and>
       overlaps_stripe (get_stripe_size c) (snd (rr_get_storage_pointer (pointer f))) (fsize f) k) addr"
    unfolding filter_filter using assms(1,4)
    by (intro filter_cong) (auto simp: rr_stripes_def set_stripes_of)
  finally show ?thesis .
qed

theorem rr_refcounts_exact_witness:
  "let c = rr_config sample_rr; addr = [mk_fragment 8000 400, mk_fragment 9000 10] in
   requested 1 (rr_extract_refcounts c addr ! 0) =
    length (filter (\<lambda>f. fst (rr_get_storage_pointer (pointer f)) = 0 \<and>
       overlaps_stripe (get_stripe_size c) (snd (rr_get_storage_pointer (pointer f))) (fsize f) 1) addr)"
proof -
  let ?c = "rr_config sample_rr" and ?addr = "[mk_fragment 8000 400, mk_fragment 9000 10]"
  have ss: "get_stripe_size ?c = 8192" "gc_storages ?c = 1"
    by (simp_all add: sample_rr_def get_stripe_size_def mul64_def KIBI_BYTE_def M64_def)
  have p: "rr_get_storage_pointer 8000 = (0, 8000)" "rr_get_storage_pointer 9000 = (0, 9000)"
    by (simp_all add: rr_get_storage_pointer_def drop_bit_eq_div M64_def)
  have st: "stripes_of 8192 8000 400 = [0, 1]" "stripes_of 8192 9000 10 = [1]"
    by (simp_all add: stripes_of_def add64_def sub64_def M64_def upt_rec)
  have a: "\<forall>f\<in>set ?addr. 0 < fsize f \<and> fst (rr_get_storage_pointer (pointer f)) < 2 ^ 16
      \<and> snd (rr_get_storage_pointer (pointer f)) + fsize f < M64" by (simp add: p M64_def)
  have "length (concat (map (rr_stripes ?c) ?addr)) < M64" by (simp add: rr_stripes_def ss p st M64_def)
  from rr_refcounts_exact [OF _ _ _ a this, of 0 1] show ?thesis unfolding Let_def by (simp add: ss)
qed

text \<open>
  A stripe rejected by one storage also rejects fragments of other storages with the same
  stripe number: \<open>compute_rejected_address\<close> does not compare storage ids. Here storage 0
  rejects its stripe 0, and a fragment in stripe 0 of storage 1 is reported as rejected.
\<close>

lemma rr_rejects_other_storage:
  "rr_compute_rejected_address (rr_config sample_rr) [[mk_refcount 0 1], []] [mk_fragment (2 ^ 64 + 100) 10] =
     [mk_fragment (2 ^ 64 + 100) 10] \<and> fst (rr_get_storage_pointer (2 ^ 64 + 100)) = 1"
proof -
  have p: "rr_get_storage_pointer (2 ^ 64 + 100) = (1, 100)"
    by (simp add: rr_get_storage_pointer_def drop_bit_eq_div M64_def)
  have "get_stripe_size (rr_config sample_rr) = 8192"
    by (simp add: sample_rr_def get_stripe_size_def mul64_def KIBI_BYTE_def M64_def)
  moreover have "stripes_of 8192 100 10 = [0]"
    by (simp add: stripes_of_def add64_def sub64_def M64_def)
  ultimately show ?thesis
    using p by (simp add: rr_compute_rejected_address_def rejected_stripes_def rr_stripes_def)
qed

end
