(* ===== verification/Vrm_ECWrite.thy ===== *)
theory Vrm_ECWrite
  imports Vrm_ECRead Vrm_RRView
begin

text \<open>
  Writing to an erasure-coded group. \<open>ec_inv\<close> says that the storages hold the shards of a group
  content \<open>G\<close> of \<open>N\<close> stripes and have allocated exactly these; \<open>write\<close> appends the stripes of
  the data, the last one filled up with zeros, and the address it returns reads as the data
  even after up to \<open>parity_shards\<close> storages are gone.
\<close>

subsection \<open>The stripes of the data\<close>

definition pad_stripes :: "nat \<Rightarrow> bytes \<Rightarrow> nat \<Rightarrow> bytes" where
  "pad_stripes ss data n = data @ zero_bytes (n * ss - length data)"

lemma div_ceil_bounds:
  assumes "x < M64" and "0 < y" and "0 < x"
  shows "x \<le> div_ceil x y * y" and "div_ceil x y * y < x + y" and "0 < div_ceil x y"
proof -
  have e: "div_ceil x y = (x + y - 1) div y" by (rule div_ceil_eq [OF assms(1,2)])
  have "x + y - 1 < (x + y - 1) div y * y + y" using dividend_less_div_times [OF assms(2), of "x + y - 1"] by (simp add: algebra_simps)
  then show 1: "x \<le> div_ceil x y * y" unfolding e by linarith
  have "(x + y - 1) div y * y \<le> x + y - 1" by (rule div_times_less_eq_dividend)
  then show "div_ceil x y * y < x + y" unfolding e using assms(2) by linarith
  show "0 < div_ceil x y" using 1 assms(3) by (intro gr0I) simp
qed

lemma stripe_data_pad:
  assumes "length data \<le> n * ss" and "n * ss < length data + ss" and "q < n"
  shows "stripe_data data ss n q = slice (q * ss) ss (pad_stripes ss data n)"
proof (cases "q = n - 1")
  case True
  have n: "n * ss = q * ss + ss" using assms(3) True by (cases n) simp_all
  then have "length (drop (q * ss) data) \<le> ss" "q * ss < length data \<or> ss = 0" "n * ss - length data = ss - length (drop (q * ss) data)"
    using assms(1,2) by auto
  then show ?thesis using True by (auto simp: stripe_data_def pad_stripes_def slice_def Let_def)
next
  case False
  have "(q + 2) * ss \<le> n * ss" using False assms(3) by (intro mult_le_mono1) simp
  then have "q * ss + ss \<le> length data" using assms(2) by simp
  then show ?thesis using False by (simp add: stripe_data_def pad_stripes_def slice_def)
qed

lemma split_buffer_chunks:
  assumes "length G = N * (k * cs)" and "q < N" and "0 < cs"
  shows "split_buffer (slice (q * (k * cs)) (k * cs) G) cs = Inr (data_chunks k cs G q)"
proof -
  have "(q + 1) * (k * cs) \<le> N * (k * cs)" using assms(2) by (intro mult_le_mono1) simp
  then have l: "length (slice (q * (k * cs)) (k * cs) G) = k * cs" using assms(1) by (simp add: length_slice)
  have "slice (j * cs) cs (slice (q * (k * cs)) (k * cs) G) = slice (q * (k * cs) + j * cs) cs G" if "j < k" for j
  proof -
    have "(j + 1) * cs \<le> k * cs" using that by (intro mult_le_mono1) simp
    then show ?thesis by (simp add: slice_slice)
  qed
  then show ?thesis unfolding split_buffer_def l data_chunks_def using assms(3) by simp
qed

lemma encode_stripes_ok:
  assumes "codec_laws R k m cs" and "length G = N * (k * cs)" and "0 < cs" and "\<And>q. q < N \<Longrightarrow> d q = slice (q * (k * cs)) (k * cs) G"
  shows "\<forall>q\<in>set qs. q < N \<Longrightarrow> encode_stripes R cs (map d qs) =
    Inr (map (\<lambda>q. (data_chunks k cs G q, the (rs_encode R (data_chunks k cs G q)))) qs)"
proof (induction qs)
  case (Cons q qs)
  have q: "q < N" using Cons.prems by simp
  obtain par where "rs_encode R (data_chunks k cs G q) = Some par"
    using assms(1) data_chunks_props [OF assms(2) q] unfolding codec_laws_def by blast
  then show ?case
    using Cons assms(4) [OF q] split_buffer_chunks [OF assms(2) q assms(3)] by (simp add: encode_def)
qed simp

lemma storage_buffers_content:
  assumes "codec_laws R k m cs" and "length G = N * (k * cs)" and "i < k + m"
  shows "concat (storage_buffers k m (map (\<lambda>q. (data_chunks k cs G q, the (rs_encode R (data_chunks k cs G q)))) [0..<N]) i) =
    shard_content R k cs G N i"
proof -
  have "stripe_shards R k cs G q ! i = (if i < k then data_chunks k cs G q ! i else the (rs_encode R (data_chunks k cs G q)) ! (i - k))"
    if "q < N" for q
    using data_chunks_props(1) [OF assms(2) that] by (simp add: stripe_shards_def nth_append)
  then have "map (\<lambda>q. stripe_shards R k cs G q ! i) [0..<N] =
      map (\<lambda>q. if i < k then data_chunks k cs G q ! i else the (rs_encode R (data_chunks k cs G q)) ! (i - k)) [0..<N]" by simp
  then show ?thesis unfolding shard_content_def by (simp add: storage_buffers_def comp_def del: map_eq_conv)
qed

lemma length_shard_content:
  assumes "codec_laws R k m cs" and "length G = N * (k * cs)" and "i < k + m"
  shows "length (shard_content R k cs G N i) = N * cs"
  using shard_content_slice(2) [OF assms, of 0 0 0] by (cases "N = 0") (auto simp: shard_content_def)

lemma data_chunks_append:
  assumes "length G = N * (k * cs)"
  shows "q < N \<Longrightarrow> data_chunks k cs (G @ D) q = data_chunks k cs G q"
    and "data_chunks k cs (G @ D) (N + q) = data_chunks k cs D q"
proof -
  assume q: "q < N"
  have "slice (q * (k * cs) + j * cs) cs (G @ D) = slice (q * (k * cs) + j * cs) cs G" if "j < k" for j
  proof -
    have "(j + 1) * cs \<le> k * cs" using that by (intro mult_le_mono1) simp
    moreover have "(q + 1) * (k * cs) \<le> N * (k * cs)" using q by (intro mult_le_mono1) simp
    ultimately have "q * (k * cs) + j * cs + cs \<le> length G" using assms by simp
    then show ?thesis by (simp add: slice_def)
  qed
  then show "data_chunks k cs (G @ D) q = data_chunks k cs G q" by (simp add: data_chunks_def)
next
  have "slice ((N + q) * (k * cs) + j * cs) cs (G @ D) = slice (q * (k * cs) + j * cs) cs D" for j
    using assms by (simp add: slice_def add_mult_distrib)
  then show "data_chunks k cs (G @ D) (N + q) = data_chunks k cs D q" by (simp add: data_chunks_def)
qed

lemma shard_content_append:
  assumes "length G = N * (k * cs)"
  shows "shard_content R k cs (G @ D) (N + n) i = shard_content R k cs G N i @ shard_content R k cs D n i"
proof -
  have "map (\<lambda>q. N + q) [0..<n] = [N..<N + n]" using map_add_upt [of N n] unfolding add.commute [of _ N] .
  then have "[0..<N + n] = [0..<N] @ map (\<lambda>q. N + q) [0..<n]" using upt_add_eq_append [of 0 N n] by simp
  moreover have "map (\<lambda>q. stripe_shards R k cs (G @ D) q ! i) [0..<N] = map (\<lambda>q. stripe_shards R k cs G q ! i) [0..<N]"
    by (simp add: stripe_shards_def data_chunks_append(1) [OF assms])
  ultimately show ?thesis
    by (simp add: shard_content_def comp_def stripe_shards_def data_chunks_append(2) [OF assms] del: map_eq_conv)
qed

subsection \<open>Writing\<close>

definition ec_inv :: "('s \<Rightarrow> bool) \<Rightarrow> ('s \<Rightarrow> bytes) \<Rightarrow> ('s \<Rightarrow> nat) \<Rightarrow> codec \<Rightarrow> nat \<Rightarrow> nat \<Rightarrow> nat \<Rightarrow> bytes \<Rightarrow> nat \<Rightarrow> 's ec_view \<Rightarrow> bool" where
  "ec_inv P content wo R k m cs G N v \<longleftrightarrow> ec_geom v k m cs \<and> length G = N * (k * cs)
    \<and> (\<forall>i<k + m. P (ec_storages v ! i) \<and> take (N * cs) (content (ec_storages v ! i)) = shard_content R k cs G N i
        \<and> wo (ec_storages v ! i) = N * cs)"

lemma run_for_all_ok:
  "\<forall>i<length ss. \<exists>s' r. f (j + i) (ss ! i) = Some (s', Inr r) \<and> P (j + i) s' \<Longrightarrow>
   \<exists>ss' rs. run_for_all f j ss = Some (ss', Inr rs) \<and> length ss' = length ss \<and> (\<forall>i<length ss. P (j + i) (ss' ! i))"
  using run_for_all_results [of ss f j "\<lambda>i s r. P i s"] by blast

context storage
begin

lemma shard_append:
  assumes "sinv st" and "take (length C) (content st) = C" and "fits st (length C + length (concat bufs))" and "top st \<le> length C + length (concat bufs)"
  shows "\<exists>st'. so_write S st \<lparr>alloc_offset = length C, alloc_size = length (concat bufs)\<rparr> bufs rs = Some (st', Inr ())
    \<and> sinv st' \<and> take (length C + length (concat bufs)) (content st') = C @ concat bufs \<and> top st' = length C + length (concat bufs)"
proof -
  let ?n = "length (concat bufs)"
  obtain st' where w: "so_write S st \<lparr>alloc_offset = length C, alloc_size = ?n\<rparr> bufs rs = Some (st', Inr ())" "sinv st'"
    "top st' = max (top st) (length C + ?n)" "slice (length C) ?n (content st') = concat bufs"
    "\<forall>p k. p + k \<le> length (content st) \<and> (p + k \<le> length C \<or> length C + ?n \<le> p) \<longrightarrow> slice p k (content st') = slice p k (content st)"
    using write_law [OF assms(1,3), of rs] by blast
  have "length C \<le> length (content st)" using assms(2) by (metis length_take min.cobounded1)
  then have "take (length C) (content st') = C" using w(5) [rule_format, of 0 "length C"] assms(2) by (simp add: slice_def)
  then have "take (length C + ?n) (content st') = C @ concat bufs" using w(4) by (simp add: take_add slice_def)
  then show ?thesis using w(1-3) assms(4) by auto
qed

lemma ec_allocate_next:
  assumes "sinv st" and "top st = N * cs" and "0 < n" and "0 < cs" and "fits st (N * cs + cs + n * cs)"
    and "so_allocate S st (n * cs) cs = (st', Inr a)"
  shows "a = \<lparr>alloc_offset = N * cs, alloc_size = n * cs\<rparr>" and "sinv st'" and "content st' = content st"
    and "fits st' = fits st" and "top st' = N * cs + n * cs"
proof -
  have A: "sinv st' \<and> content st' = content st \<and> fits st' = fits st \<and> alloc_size a = n * cs \<and> cs dvd alloc_offset a
      \<and> top st \<le> alloc_offset a \<and> alloc_offset a < top st + cs \<and> top st' = alloc_offset a + n * cs"
    using assms by (intro allocate_law [of st "n * cs" cs]) simp_all
  obtain d where d: "alloc_offset a = d * cs" using A by (metis dvdE mult.commute)
  have "N * cs \<le> d * cs" "d * cs < (N + 1) * cs" using A d assms(2) by simp_all
  then have "N \<le> d" "d < N + 1" using assms(4) by (simp, metis mult_less_cancel2)
  then have "d = N" by simp
  then show "a = \<lparr>alloc_offset = N * cs, alloc_size = n * cs\<rparr>" using A d by (cases a) simp
  show "sinv st'" "content st' = content st" "fits st' = fits st" "top st' = N * cs + n * cs"
    using A d \<open>d = N\<close> by simp_all
qed

lemma ec_write_ok:
  assumes inv: "ec_inv sinv content top R k m cs G N v" and R: "codec_laws R k m cs"
    and st: "ec_group_state v = HEALTHY" "ec_leader v = int l" "l < k + m" "\<forall>i<k + m. ec_index v ! i"
    and data: "0 < length data" "length data < M64"
  defines "n \<equiv> div_ceil (length data) (k * cs)"
  assumes al: "so_allocate S (ec_storages v ! l) (n * cs) cs = (st1, Inr a)"
    and fit: "\<forall>i<k + m. fits (ec_storages v ! i) (N * cs + cs + n * cs)" and small: "(N + n) * (k * cs) < M64"
  shows "\<exists>sts. ec_write S R v data offsets =
      Some (v\<lparr>ec_storages := sts\<rparr>, Inr (fragment_list (\<lambda>o1. add64 (N * (k * cs)) o1) offsets (length data)))
    \<and> ec_inv sinv content top R k m cs (G @ pad_stripes (k * cs) data n) (N + n) (v\<lparr>ec_storages := sts\<rparr>)"
proof -
  have g: "data_shards (ec_config v) = k" "parity_shards (ec_config v) = m" "gc_storages (ec_config v) = k + m"
    "m_chunk_size v = cs" "m_stripe_size v = k * cs" "0 < cs" "0 < k" "length (ec_storages v) = k + m"
    using inv by (auto simp: ec_inv_def ec_geom_def)
  have G: "length G = N * (k * cs)" using inv by (simp add: ec_inv_def)
  note b = div_ceil_bounds [OF data(2) _ data(1), of "k * cs", folded n_def]
  define D where "D = pad_stripes (k * cs) data n"
  have D: "length D = n * (k * cs)" using b(1) g by (simp add: D_def pad_stripes_def)
  have nc: "N * cs \<le> N * (k * cs)" "n * cs \<le> n * (k * cs)" using g(7) by (auto intro!: mult_le_mono2)
  moreover have "N * (k * cs) + n * (k * cs) < M64" using small by (simp add: add_mult_distrib)
  ultimately have sm: "n * cs < M64" "N * cs * k < M64" by (linarith, simp add: ac_simps)
  then have m64: "mul64 n cs = n * cs" "mul64 (N * cs) k = N * (k * cs)"
    using sm by (simp_all add: mul64_eq ac_simps)
  have l: "sinv (ec_storages v ! l)" "top (ec_storages v ! l) = N * cs" using inv st(3) by (simp_all add: ec_inv_def)
  have n0: "0 < n" using b(3) g by simp
  note A = ec_allocate_next [OF l n0 g(6) fit [rule_format, OF st(3)] al]
  let ?enc = "map (\<lambda>q. (data_chunks k cs D q, the (rs_encode R (data_chunks k cs D q)))) [0..<n]"
  have enc: "encode_stripes R cs (map (stripe_data data (k * cs) n) [0..<n]) = Inr ?enc"
    by (rule encode_stripes_ok [OF R D g(6)]) (use stripe_data_pad b g D_def in simp_all)
  let ?addr = "fragment_list (\<lambda>o1. add64 (N * (k * cs)) o1) offsets (length data)"
  let ?rc = "ec_extract_refcounts (k * cs) ?addr"
  have addr: "ec_compute_address (ec_config v) offsets (length data) a = ?addr"
    by (simp add: ec_compute_address_def A(1) g m64)
  let ?f = "\<lambda>i st. if \<not> ec_index v ! i then Some (st, Inl Runtime_error) else so_write S st a (storage_buffers k m ?enc i) ?rc"
  let ?P = "\<lambda>i st. sinv st \<and> take ((N + n) * cs) (content st) = shard_content R k cs (G @ D) (N + n) i \<and> top st = (N + n) * cs"
  have w: "\<exists>st' r. ?f i ((ec_storages v)[l := st1] ! i) = Some (st', Inr r) \<and> ?P i st'" if i: "i < k + m" for i
  proof -
    let ?st = "(ec_storages v)[l := st1] ! i" and ?C = "shard_content R k cs G N i" and ?bufs = "storage_buffers k m ?enc i"
    have c: "concat ?bufs = shard_content R k cs D n i" by (rule storage_buffers_content [OF R D i])
    have len: "length ?C = N * cs" "length (concat ?bufs) = n * cs"
      unfolding c using length_shard_content [OF R _ i] G D by simp_all
    have s: "sinv ?st" "take (length ?C) (content ?st) = ?C" "fits ?st (length ?C + length (concat ?bufs))"
      "top ?st \<le> length ?C + length (concat ?bufs)"
      using inv i A(2-5) fits_mono [OF fit [rule_format, OF i], of "N * cs + n * cs"] g(8) unfolding len
      by (cases "i = l"; simp add: ec_inv_def)+
    show ?thesis
      using shard_append [OF s, of ?rc] st(4) i len c A(1) by (auto simp: shard_content_append [OF G] add_mult_distrib)
  qed
  have "\<exists>ss' rs. run_for_all ?f 0 ((ec_storages v)[l := st1]) = Some (ss', Inr rs) \<and> length ss' = length ((ec_storages v)[l := st1])
      \<and> (\<forall>i<length ((ec_storages v)[l := st1]). ?P (0 + i) (ss' ! i))"
    by (rule run_for_all_ok, intro allI impI) (use w g(8) in \<open>simp only: add_0 length_list_update\<close>)
  then obtain sts rs where sts: "run_for_all ?f 0 ((ec_storages v)[l := st1]) = Some (sts, Inr rs)" "length sts = k + m"
    "\<forall>i<k + m. ?P i (sts ! i)" using g(8) by auto
  have aligned: "alloc_offset a mod cs = 0" by (simp add: A(1))
  have "ec_write S R v data offsets = Some (v\<lparr>ec_storages := sts\<rparr>, Inr ?addr)"
    using st al enc sts(1) addr aligned by (simp add: ec_write_def Let_def g n_def [symmetric] m64 cong: if_cong)
  moreover have "ec_inv sinv content top R k m cs (G @ D) (N + n) (v\<lparr>ec_storages := sts\<rparr>)"
    using sts(2,3) inv G D by (simp add: ec_inv_def ec_geom_def m_chunk_size_def m_stripe_size_def add_mult_distrib)
  ultimately show ?thesis by (auto simp: D_def)
qed

lemma ec_written_readable:
  assumes inv: "ec_inv sinv content top R k m cs (G @ pad_stripes (k * cs) data n) (N + n) v" and R: "codec_laws R k m cs"
    and offs: "write_offsets_ok offsets (length data)" and G: "length G = N * (k * cs)" and n: "length data \<le> n * (k * cs)"
    and small: "(N + n) * (k * cs) < M64"
    and ix: "length idx = k + m" "length sts = k + m" "missing (k + m) (\<lambda>i. idx ! i \<and> sts ! i = ASSIGNED) \<le> m"
    and buf: "length buffer = length data"
  shows "ec_read_address S R (v\<lparr>ec_index := idx, ec_states := sts\<rparr>)
      (fragment_list (\<lambda>o1. add64 (N * (k * cs)) o1) offsets (length data)) buffer = Some (data, Inr (length data))"
proof -
  let ?w = "v\<lparr>ec_index := idx, ec_states := sts\<rparr>" and ?D = "G @ pad_stripes (k * cs) data n" and ?ptr = "\<lambda>o1. add64 (N * (k * cs)) o1"
  let ?addr = "fragment_list ?ptr offsets (length data)"
  have geom: "ec_geom ?w k m cs" using inv ix by (simp add: ec_inv_def ec_geom_def m_chunk_size_def m_stripe_size_def)
  have L: "length ?D = (N + n) * (k * cs)" using inv by (simp add: ec_inv_def)
  have k: "0 < k" "0 < cs" using geom by (auto simp: ec_geom_def)
  obtain os where os: "offsets = 0 # os" using offs by (cases offsets) (auto simp: write_offsets_ok_def)
  have srt: "sorted_wrt (<) (0 # os)" "\<forall>x\<in>set (0 # os). x < length data"
    using offs by (auto simp: write_offsets_ok_def os list_all_iff)
  have s2: "N * (k * cs) + n * (k * cs) < M64" using small by (simp add: add_mult_distrib)
  then have nm: "length data < M64" using n by linarith
  have ptr: "?ptr o1 = N * (k * cs) + o1" if "o1 \<le> length data" for o1 using that s2 n by (intro add64_eq) linarith
  have "0 < length data" using srt(2) by simp
  then have "0 < n" using n by (intro gr0I) simp
  then have "1 * (1 * cs) \<le> (N + n) * (k * cs)" using k by (intro mult_le_mono) auto
  then have cs: "cs < M64" using small by linarith
  have fr: "0 < fsize f \<and> pointer f + fsize f \<le> length ?D" if "f \<in> set ?addr" for f
    using fragment_list_frags [OF nm srt, of f ?ptr] that ptr n L by (fastforce simp: os add_mult_distrib)
  have T: "total_size ?addr = length data" using total_size_fragment_list [OF nm srt, of ?ptr] by (simp add: os)
  have D: "slice (pointer (mk_fragment (?ptr o1) j)) (fsize (mk_fragment (?ptr o1) j)) ?D = slice o1 j data" if "o1 + j \<le> length data" for o1 j
    using that ptr [of o1] by (simp add: slice_def pad_stripes_def G)
  have "concat (map (\<lambda>f. slice (pointer f) (fsize f) ?D) ?addr) = data"
    using fragment_list_data [where D = "\<lambda>f. slice (pointer f) (fsize f) ?D" and ptr = ?ptr, OF D refl nm srt] by (simp add: os)
  moreover have "sholds (ec_storages ?w ! i) (shard_content R k cs ?D (N + n) i)" if "i < k + m" for i
    using inv that length_shard_content [OF R L that] by (simp add: ec_inv_def sholds_def)
  moreover have "missing (k + m) (ec_available ?w) \<le> m" using ix(3) by (simp add: ec_available_def [abs_def])
  ultimately show ?thesis
    using ec_read_ok [OF geom R L small cs, of ?addr buffer] fr T nm buf by simp
qed

end


subsection \<open>Any \<open>parity_shards\<close> storages may go\<close>


text \<open>A code with one parity shard, the bytewise exclusive or of two data shards, satisfies the laws.\<close>

definition xor_char :: "char \<Rightarrow> char \<Rightarrow> char" where
  "xor_char a b = Char (digit0 a \<noteq> digit0 b) (digit1 a \<noteq> digit1 b) (digit2 a \<noteq> digit2 b) (digit3 a \<noteq> digit3 b)
     (digit4 a \<noteq> digit4 b) (digit5 a \<noteq> digit5 b) (digit6 a \<noteq> digit6 b) (digit7 a \<noteq> digit7 b)"

definition parity_codec :: codec where
  "parity_codec = \<lparr>rs_encode = \<lambda>data. case data of [a, b] \<Rightarrow> Some [map2 xor_char a b] | _ \<Rightarrow> None,
     rs_reconstruct = \<lambda>shards lost. case shards of
         [a, b, p] \<Rightarrow> Some (if lost ! 0 then [map2 xor_char b p, b, p] else if lost ! 1 then [a, map2 xor_char a p, p] else [a, b, p])
       | _ \<Rightarrow> None\<rparr>"

lemma xor_bytes_cancel:
  "length a = length b \<Longrightarrow> map2 xor_char b (map2 xor_char a b) = a \<and> map2 xor_char a (map2 xor_char a b) = b"
proof (induction a b rule: list_induct2)
  case (Cons x xs y ys)
  then show ?case by (cases x; cases y) (auto simp: xor_char_def)
qed simp

lemma parity_codec_laws: "codec_laws parity_codec 2 1 cs"
  unfolding codec_laws_def
proof (intro allI impI)
  fix data :: "bytes list"
  assume "length data = 2 \<and> list_all (\<lambda>d. length d = cs) data"
  then obtain a b where d: "data = [a, b]" "length a = cs" "length b = cs"
    by (auto simp: numeral_2_eq_2 length_Suc_conv)
  let ?p = "map2 xor_char a b"
  have x: "map2 xor_char b ?p = a" "map2 xor_char a ?p = b" using xor_bytes_cancel [of a b] d by simp_all
  have "\<exists>out. rs_reconstruct parity_codec shards lost = Some out \<and> take 2 out = data"
    if A: "length shards = 2 + 1" "length lost = 2 + 1" "\<forall>i<2 + 1. \<not> lost ! i \<longrightarrow> shards ! i = (data @ [?p]) ! i" "length (filter id lost) \<le> 1"
    for shards lost
  proof -
    obtain s0 s1 s2 l0 l1 l2 where s: "shards = [s0, s1, s2]" "lost = [l0, l1, l2]"
      using A(1,2) by (auto simp: length_Suc_conv numeral_3_eq_3 eval_nat_numeral)
    have "\<not> l0 \<longrightarrow> s0 = a" "\<not> l1 \<longrightarrow> s1 = b" "\<not> l2 \<longrightarrow> s2 = ?p"
      using A(3) [rule_format, of 0] A(3) [rule_format, of 1] A(3) [rule_format, of 2] by (simp_all add: s d)
    then show ?thesis using A(4) x by (auto simp: s d parity_codec_def split: if_splits)
  qed
  moreover have "rs_encode parity_codec data = Some [?p]" by (simp add: parity_codec_def d)
  ultimately show "\<exists>par. rs_encode parity_codec data = Some par \<and> length par = 1 \<and> list_all (\<lambda>d. length d = cs) par \<and>
      (\<forall>shards lost. length shards = 2 + 1 \<and> length lost = 2 + 1 \<and> list_all (\<lambda>d. length d = cs) shards
        \<and> (\<forall>i<2 + 1. \<not> lost ! i \<longrightarrow> shards ! i = (data @ par) ! i) \<and> length (filter id lost) \<le> 1 \<longrightarrow>
        (\<exists>out. rs_reconstruct parity_codec shards lost = Some out \<and> take 2 out = data))"
    using d by (intro exI [of _ "[?p]"]) simp
qed

definition sample_ec :: "(size_t \<Rightarrow> size_t option) data_store ec_view" where
  "sample_ec = \<lparr>ec_config = \<lparr>gc_id = 0, gc_type = ERASURE_CODING, gc_storages = 3, data_shards = 2, parity_shards = 1, stripe_size_kib = 1\<rparr>,
     ec_storages = replicate 3 (sample_store\<lparr>m_write_offset := 0\<rparr>), ec_index = [True, True, True],
     ec_states = [ASSIGNED, ASSIGNED, ASSIGNED], ec_leader = 2, ec_group_state = HEALTHY\<rparr>"


end
