(* ===== verification/Vrm_View.thy ===== *)
theory Vrm_View
  imports Vrm_RRView Vrm_ECView
begin

unbundle bit_operations_syntax

text \<open>
  The interface the deduplicator and the entrypoint use to reach a storage group
  (\<open>storage/interfaces/data_view.h\<close>), the global view that dispatches to the group
  (\<open>storage/global/data_view.cpp\<close>), and the contract of the interface: what a range holds
  (\<open>vbytes\<close>), which ranges are referenced (\<open>live\<close>) and what each operation keeps of both. The
  round-robin view on storages that track references provides the contract.
\<close>

subsection \<open>The interface and the global view\<close>

record 'v view_ops =
  vo_write :: "'v \<Rightarrow> bytes \<Rightarrow> size_t list \<Rightarrow> ('v \<times> address res) option"
  vo_read :: "'v \<Rightarrow> nat \<Rightarrow> size_t \<Rightarrow> bytes res option"
  vo_read_address :: "'v \<Rightarrow> address \<Rightarrow> bytes \<Rightarrow> (bytes \<times> size_t res) option"
  vo_link :: "'v \<Rightarrow> address \<Rightarrow> ('v \<times> address res) option"
  vo_unlink :: "'v \<Rightarrow> address \<Rightarrow> ('v \<times> size_t res) option"
  vo_get_used_space :: "'v \<Rightarrow> size_t"

definition rr_ops :: "'s storage_ops \<Rightarrow> 's rr_view view_ops" where
  "rr_ops S = \<lparr>vo_write = rr_write S, vo_read = rr_read S, vo_read_address = rr_read_address S,
     vo_link = rr_link S, vo_unlink = rr_unlink S, vo_get_used_space = rr_get_used_space S\<rparr>"

definition ec_ops :: "'s storage_ops \<Rightarrow> codec \<Rightarrow> 's ec_view view_ops" where
  "ec_ops S R = \<lparr>vo_write = ec_write S R, vo_read = ec_read S R, vo_read_address = ec_read_address S R,
     vo_link = ec_link S, vo_unlink = ec_unlink S, vo_get_used_space = ec_get_used_space S\<rparr>"

datatype 's group_view = RR_view "'s rr_view" | EC_view "'s ec_view"

text \<open>The views a configuration can have are the arguments; building them from etcd is not modelled.\<close>

definition group_factory :: "group_config \<Rightarrow> 's rr_view \<Rightarrow> 's ec_view \<Rightarrow> 's group_view res" where
  "group_factory config rr ec =
     (case gc_type config of
        ROUND_ROBIN \<Rightarrow> Inr (RR_view (rr\<lparr>rr_config := config\<rparr>))
      | ERASURE_CODING \<Rightarrow> Inr (EC_view (ec\<lparr>ec_config := config\<rparr>))
      | REPLICA \<Rightarrow> Inl Runtime_error)"

definition gdv_ops :: "'s storage_ops \<Rightarrow> codec \<Rightarrow> 's group_view view_ops" where
  "gdv_ops S R = \<lparr>
     vo_write = (\<lambda>g data offsets. case g of
         RR_view v \<Rightarrow> map_option (apfst RR_view) (rr_write S v data offsets)
       | EC_view v \<Rightarrow> map_option (apfst EC_view) (ec_write S R v data offsets)),
     vo_read = (\<lambda>g p n. case g of RR_view v \<Rightarrow> rr_read S v p n | EC_view v \<Rightarrow> ec_read S R v p n),
     vo_read_address = (\<lambda>g addr buffer. case g of
         RR_view v \<Rightarrow> rr_read_address S v addr buffer | EC_view v \<Rightarrow> ec_read_address S R v addr buffer),
     vo_link = (\<lambda>g addr. case g of
         RR_view v \<Rightarrow> map_option (apfst RR_view) (rr_link S v addr)
       | EC_view v \<Rightarrow> map_option (apfst EC_view) (ec_link S v addr)),
     vo_unlink = (\<lambda>g addr. case g of
         RR_view v \<Rightarrow> map_option (apfst RR_view) (rr_unlink S v addr)
       | EC_view v \<Rightarrow> map_option (apfst EC_view) (ec_unlink S v addr)),
     vo_get_used_space = (\<lambda>g. case g of RR_view v \<Rightarrow> rr_get_used_space S v | EC_view v \<Rightarrow> ec_get_used_space S v)\<rparr>"

subsection \<open>The contract of a view\<close>

text \<open>
  \<open>vbytes v p n\<close> is what the range of \<open>n\<close> bytes at pointer \<open>p\<close> holds, if it was allocated, and
  \<open>live v p n\<close> says that all its stripes are referenced. \<open>room v n\<close> says that \<open>n\<close> bytes can be
  written. A write extends the view: allocated ranges keep their bytes and their liveness. A link
  reports exactly the fragments that satisfy some predicate, and those it does not report are live.
\<close>

definition view_extends ::
  "('v \<Rightarrow> nat \<Rightarrow> nat \<Rightarrow> bytes option) \<Rightarrow> ('v \<Rightarrow> nat \<Rightarrow> nat \<Rightarrow> bool) \<Rightarrow> 'v \<Rightarrow> 'v \<Rightarrow> bool" where
  "view_extends vbytes live v v' \<longleftrightarrow>
     (\<forall>p n b. vbytes v p n = Some b \<longrightarrow> vbytes v' p n = Some b \<and> live v' p n = live v p n)"

definition address_holds :: "(nat \<Rightarrow> nat \<Rightarrow> bytes option) \<Rightarrow> address \<Rightarrow> bytes \<Rightarrow> bool" where
  "address_holds B addr data \<longleftrightarrow>
     list_all (\<lambda>f. 0 < fsize f \<and> B (pointer f) (fsize f) \<noteq> None) addr
     \<and> concat (map (\<lambda>f. the (B (pointer f) (fsize f))) addr) = data"

locale data_view =
  fixes V :: "'v view_ops"
    and vinv :: "'v \<Rightarrow> bool"
    and vbytes :: "'v \<Rightarrow> nat \<Rightarrow> nat \<Rightarrow> bytes option"
    and live :: "'v \<Rightarrow> nat \<Rightarrow> nat \<Rightarrow> bool"
    and room :: "'v \<Rightarrow> nat \<Rightarrow> nat \<Rightarrow> bool"
  assumes bytes_length: "vbytes v p n = Some b \<Longrightarrow> length b = n"
    and bytes_sub: "vbytes v p n = Some b \<Longrightarrow> 0 < k \<Longrightarrow> a + k \<le> n \<Longrightarrow> vbytes v (add128 p a) k = Some (slice a k b)"
    and bytes_prefix: "vbytes v p n = Some b \<Longrightarrow> 0 < k \<Longrightarrow> k \<le> n \<Longrightarrow> vbytes v p k = Some (take k b)"
    and live_prefix: "live v p n \<Longrightarrow> 0 < k \<Longrightarrow> k \<le> n \<Longrightarrow> live v p k"
    and live_sub: "live v p n \<Longrightarrow> 0 < k \<Longrightarrow> a + k \<le> n \<Longrightarrow> live v (add128 p a) k"
    and live_bytes: "live v p n \<Longrightarrow> vbytes v p n \<noteq> None"
    and read_law: "vinv v \<Longrightarrow> vbytes v p n = Some b \<Longrightarrow> vo_read V v p n = Some (Inr b)"
    and read_address_law: "vinv v \<Longrightarrow> address_holds (vbytes v) addr data \<Longrightarrow> length data < M64 \<Longrightarrow>
      length buffer = length data \<Longrightarrow> vo_read_address V v addr buffer = Some (data, Inr (length data))"
    and room_mono: "room v k m \<Longrightarrow> j \<le> k \<Longrightarrow> l \<le> m \<Longrightarrow> room v j l"
    and write_law: "vinv v \<Longrightarrow> room v (Suc k) m \<Longrightarrow> length data \<le> m \<Longrightarrow> write_offsets_ok offsets (length data) \<Longrightarrow>
      \<exists>v' addr. vo_write V v data offsets = Some (v', Inr addr) \<and> vinv v' \<and> view_extends vbytes live v v' \<and> room v' k (m - length data)
        \<and> address_holds (vbytes v') addr data \<and> list_all (\<lambda>f. live v' (pointer f) (fsize f)) addr"
    and link_law: "vinv v \<Longrightarrow> \<exists>v' P. vo_link V v addr = Some (v', Inr (filter P addr)) \<and> vinv v'
        \<and> vbytes v' = vbytes v \<and> live v' = live v \<and> (\<forall>k m. room v k m \<longrightarrow> room v' k m)
        \<and> (\<forall>f\<in>set addr. vbytes v (pointer f) (fsize f) \<noteq> None \<longrightarrow> P f \<or> live v' (pointer f) (fsize f))"

subsection \<open>Storages that track references\<close>

locale tracked_storage = storage S sinv content top fits
  for S :: "'s storage_ops" and sinv content top fits +
  fixes tracked :: "'s \<Rightarrow> nat \<Rightarrow> bool"
    and grants :: "'s \<Rightarrow> nat \<Rightarrow> bool"
  assumes grants_mono: "grants st m \<Longrightarrow> j \<le> m \<Longrightarrow> grants st j"
    and allocate_grants: "sinv st \<Longrightarrow> 0 < n \<Longrightarrow> 0 < al \<Longrightarrow> fits st (top st + al + n) \<Longrightarrow> grants st (top st + al + n) \<Longrightarrow>
      \<exists>st' a. so_allocate S st n al = (st', Inr a) \<and> grants st' = grants st"
    and allocate_tracked: "so_allocate S st n al = (st', r) \<Longrightarrow> tracked st' = tracked st"
    and write_tracked: "sinv st \<Longrightarrow> fits st (off + length (concat bufs)) \<Longrightarrow>
      so_write S st \<lparr>alloc_offset = off, alloc_size = length (concat bufs)\<rparr> bufs rs = Some (st', w) \<Longrightarrow>
      (tracked st' k \<longleftrightarrow> tracked st k \<or> k \<in> stripe_id ` set rs) \<and> grants st' = grants st"
    and link_tracked: "sinv st \<Longrightarrow>
      \<exists>st'. so_link S st rs = (st', Inr (filter (\<lambda>r. \<not> tracked st (stripe_id r)) rs)) \<and> tracked st' = tracked st
        \<and> grants st' = grants st"

definition local_inv :: "'db kv \<Rightarrow> 'db data_store \<Rightarrow> bool" where
  "local_inv K st \<longleftrightarrow> ds_inv st \<and> bounded_counts K (m_db st)"

text \<open>The store accepts allocations up to this position.\<close>

definition ds_grants :: "'db data_store \<Rightarrow> nat \<Rightarrow> bool" where
  "ds_grants st m \<longleftrightarrow> m \<le> max_data_store_size (m_conf st) \<and> max_data_store_size (m_conf st) < M64"

definition ds_tracked :: "'db kv \<Rightarrow> 'db data_store \<Rightarrow> nat \<Rightarrow> bool" where
  "ds_tracked K st k \<longleftrightarrow> kv_get K (m_db st) k \<noteq> None"

lemma rc_increment_bounded:
  assumes "kv_laws K" and "bounded_counts K db"
  shows "bounded_counts K (fst (rc_increment K db rs up))"
proof -
  have "bounded_counts K (fst (increment_loop K db rs up rv))" for rv
    using assms(2)
  proof (induction rs arbitrary: db rv)
    case (Cons r rs)
    then show ?case
      using assms(1) by (auto simp: increment_one_def bounded_put split: option.splits prod.splits)
  qed simp
  then show ?thesis by (simp add: rc_increment_def)
qed

lemma ds_write_db:
  assumes "os_ok s" and "ds_inv st" and "ds_fits st (off + length (concat bufs))"
    and "ds_write s K st \<lparr>alloc_offset = off, alloc_size = length (concat bufs)\<rparr> bufs rs = Some (st', r)"
  shows "m_db st' = fst (rc_increment K (m_db st) rs False)"
  using ds_write_ok [OF assms(1,2) assms(3) [unfolded ds_fits_def], of K rs] assms(4) by auto

lemma ds_write_conf:
  assumes "os_ok s" and "ds_inv st" and "ds_fits st (off + length (concat bufs))"
    and "ds_write s K st \<lparr>alloc_offset = off, alloc_size = length (concat bufs)\<rparr> bufs rs = Some (st', r)"
  shows "m_conf st' = m_conf st"
  using ds_write_ok [OF assms(1,2) assms(3) [unfolded ds_fits_def], of K rs] assms(4) by auto

lemma rc_increment_tracked:
  assumes "kv_laws K" and "bounded_counts K db"
  shows "kv_get K (fst (rc_increment K db rs False)) k \<noteq> None \<longleftrightarrow> kv_get K db k \<noteq> None \<or> k \<in> stripe_id ` set rs"
    and "snd (rc_increment K db rs True) = filter (\<lambda>r. kv_get K db (stripe_id r) = None) rs"
    and "kv_get K (fst (rc_increment K db rs True)) k \<noteq> None \<longleftrightarrow> kv_get K db k \<noteq> None"
proof -
  obtain d1 j1 d2 j2 where d: "increment_loop K db rs False [] = (d1, j1)" "increment_loop K db rs True [] = (d2, j2)"
    by (meson surj_pair)
  show "kv_get K (fst (rc_increment K db rs False)) k \<noteq> None \<longleftrightarrow> kv_get K db k \<noteq> None \<or> k \<in> stripe_id ` set rs"
    using increment_loop_downstream [OF assms d(1), of k] d(1) by (auto simp: rc_increment_def)
  show "snd (rc_increment K db rs True) = filter (\<lambda>r. kv_get K db (stripe_id r) = None) rs"
    "kv_get K (fst (rc_increment K db rs True)) k \<noteq> None \<longleftrightarrow> kv_get K db k \<noteq> None"
    using increment_loop_upstream [OF assms d(2), of k] d(2) by (auto simp: rc_increment_def)
qed

lemma local_inv_contract:
  assumes os: "os_ok s" and K: "kv_laws K"
  shows "storage (local_ops s K) (local_inv K) ds_bytes m_write_offset ds_fits"
proof
  note L = local_storage_contract [OF os, of K]
  fix st st' :: "'a data_store"
  show "ds_fits st m \<Longrightarrow> m < M64" for m by (rule storage.fits_bound [OF L])
  show "ds_fits st m \<Longrightarrow> k \<le> m \<Longrightarrow> ds_fits st k" for m k by (rule storage.fits_mono [OF L])
  show "so_read (local_ops s K) st p n = Some (Inr (slice p n (ds_bytes st)))"
    if "local_inv K st" "p + n \<le> length (ds_bytes st)" for p n
    by (rule storage.read_law [OF L]) (use that in \<open>simp_all add: local_inv_def\<close>)
  show "local_inv K st' \<and> ds_bytes st' = ds_bytes st \<and> ds_fits st' = ds_fits st \<and> alloc_size a = n \<and> al dvd alloc_offset a
      \<and> m_write_offset st \<le> alloc_offset a \<and> alloc_offset a < m_write_offset st + al \<and> m_write_offset st' = alloc_offset a + n"
    if "local_inv K st" "0 < n" "0 < al" "ds_fits st (m_write_offset st + al + n)" "so_allocate (local_ops s K) st n al = (st', Inr a)" for n al a
  proof -
    have "m_db st' = m_db st" using that(5) by (auto simp: local_ops_def ds_allocate_def Let_def split: if_splits)
    then show ?thesis using storage.allocate_law [OF L _ that(2-5)] that(1) by (simp add: local_inv_def)
  qed
  show "\<exists>st'. so_write (local_ops s K) st \<lparr>alloc_offset = off, alloc_size = length (concat bufs)\<rparr> bufs rs = Some (st', Inr ())
        \<and> local_inv K st' \<and> ds_fits st' = ds_fits st \<and> m_write_offset st' = max (m_write_offset st) (off + length (concat bufs))
        \<and> off + length (concat bufs) \<le> length (ds_bytes st') \<and> length (ds_bytes st) \<le> length (ds_bytes st')
        \<and> slice off (length (concat bufs)) (ds_bytes st') = concat bufs
        \<and> (\<forall>p k. p + k \<le> length (ds_bytes st) \<and> (p + k \<le> off \<or> off + length (concat bufs) \<le> p) \<longrightarrow>
              slice p k (ds_bytes st') = slice p k (ds_bytes st))"
    if "local_inv K st" "ds_fits st (off + length (concat bufs))" for off and bufs :: "bytes list" and rs
  proof -
    have i: "ds_inv st" "bounded_counts K (m_db st)" using that(1) by (simp_all add: local_inv_def)
    from storage.write_law [OF L i(1) that(2), of rs] show ?thesis
      using ds_write_db [OF os i(1) that(2), of K rs] rc_increment_bounded [OF K i(2), of rs False]
      by (fastforce simp: local_inv_def local_ops_def)
  qed
  show "local_inv K st' \<and> ds_bytes st' = ds_bytes st \<and> ds_fits st' = ds_fits st \<and> m_write_offset st' = m_write_offset st"
    if "local_inv K st" "so_link (local_ops s K) st rs = (st', r)" for rs r
  proof -
    have "m_db st' = fst (rc_increment K (m_db st) rs True)"
      using that(2) by (auto simp: local_ops_def ds_link_def split: prod.splits)
    then show ?thesis
      using storage.link_law [OF L _ that(2)] that(1) rc_increment_bounded [OF K, of "m_db st" rs True] by (simp add: local_inv_def)
  qed
qed

lemma local_tracked_contract:
  assumes os: "os_ok s" and K: "kv_laws K"
  shows "tracked_storage (local_ops s K) (local_inv K) ds_bytes m_write_offset ds_fits (ds_tracked K) ds_grants"
proof (rule tracked_storage.intro [OF local_inv_contract [OF assms]], unfold_locales)
  fix st st' :: "'a data_store"
  show "ds_tracked K st' = ds_tracked K st" if "so_allocate (local_ops s K) st n al = (st', r)" for n al r
    using that by (auto simp: local_ops_def ds_allocate_def Let_def ds_tracked_def [abs_def] split: if_splits)
  show "ds_grants st m \<Longrightarrow> j \<le> m \<Longrightarrow> ds_grants st j" for m j by (simp add: ds_grants_def)
  show "\<exists>st' a. so_allocate (local_ops s K) st n al = (st', Inr a) \<and> ds_grants st' = ds_grants st"
    if "local_inv K st" "0 < n" "0 < al" "ds_fits st (m_write_offset st + al + n)" "ds_grants st (m_write_offset st + al + n)" for n al
  proof -
    have "aligned_start (m_write_offset st) al < m_write_offset st + al"
      using aligned_start_small [of al "m_write_offset st"] that(3,4) by (simp add: ds_fits_def)
    then have "n \<le> sub64 (max_data_store_size (m_conf st)) (aligned_start (m_write_offset st) al)"
      using that(5) by (subst sub64_eq) (auto simp: ds_grants_def)
    then show ?thesis using that(2,3) by (simp add: local_ops_def ds_allocate_def Let_def ds_grants_def [abs_def])
  qed
  show "(ds_tracked K st' k \<longleftrightarrow> ds_tracked K st k \<or> k \<in> stripe_id ` set rs) \<and> ds_grants st' = ds_grants st"
    if "local_inv K st" "ds_fits st (off + length (concat bufs))"
      "so_write (local_ops s K) st \<lparr>alloc_offset = off, alloc_size = length (concat bufs)\<rparr> bufs rs = Some (st', w)" for off bufs rs w k
    using ds_write_db [OF os _ that(2), of K rs st' w] that rc_increment_tracked(1) [OF K, of "m_db st" rs k]
      ds_write_conf [OF os _ that(2), of K rs st' w]
    by (simp add: local_inv_def local_ops_def ds_tracked_def ds_grants_def [abs_def])
  show "\<exists>st'. so_link (local_ops s K) st rs = (st', Inr (filter (\<lambda>r. \<not> ds_tracked K st (stripe_id r)) rs)) \<and> ds_tracked K st' = ds_tracked K st
        \<and> ds_grants st' = ds_grants st"
    if "local_inv K st" for rs
    using that rc_increment_tracked(2,3) [OF K, of "m_db st" rs]
    by (auto simp: local_inv_def local_ops_def ds_link_def ds_tracked_def [abs_def] ds_grants_def [abs_def] split: prod.splits if_splits)
qed

subsection \<open>The round-robin view provides the contract\<close>

definition lb_ok :: "load_balancer \<Rightarrow> bool" where
  "lb_ok l \<longleftrightarrow> lb_services l \<noteq> [] \<and> (\<forall>i. lb_robin l = Some i \<longrightarrow> i \<in> set (lb_services l))"

definition rr_vinv :: "('s \<Rightarrow> bool) \<Rightarrow> 's rr_view \<Rightarrow> bool" where
  "rr_vinv P v \<longleftrightarrow> rr_inv P v \<and> list_all id (rr_index v) \<and> gc_storages (rr_config v) = length (rr_storages v)
     \<and> get_stripe_size (rr_config v) = DEFAULT_PAGE_SIZE \<and> lb_ok (rr_lb v) \<and> set (lb_services (rr_lb v)) \<subseteq> {..<length (rr_storages v)}"

definition rr_bytes :: "('s \<Rightarrow> bytes) \<Rightarrow> ('s \<Rightarrow> nat) \<Rightarrow> 's rr_view \<Rightarrow> nat \<Rightarrow> nat \<Rightarrow> bytes option" where
  "rr_bytes content wo v p n =
     (case rr_get_storage_pointer p of (i, sp) \<Rightarrow>
        if 0 < n \<and> i < length (rr_storages v) \<and> sp + n < M64
          \<and> sp + n \<le> wo (rr_storages v ! i) \<and> sp + n \<le> length (content (rr_storages v ! i))
        then Some (slice sp n (content (rr_storages v ! i))) else None)"

definition rr_live :: "('s \<Rightarrow> bytes) \<Rightarrow> ('s \<Rightarrow> nat) \<Rightarrow> ('s \<Rightarrow> nat \<Rightarrow> bool) \<Rightarrow> 's rr_view \<Rightarrow> nat \<Rightarrow> nat \<Rightarrow> bool" where
  "rr_live content wo tracked v p n \<longleftrightarrow> rr_bytes content wo v p n \<noteq> None
     \<and> (case rr_get_storage_pointer p of (i, sp) \<Rightarrow> \<forall>k\<in>set (stripes_of DEFAULT_PAGE_SIZE sp n). tracked (rr_storages v ! i) k)"

text \<open>Room for \<open>k\<close> writes of \<open>n\<close> bytes together on any of the storages; a write may skip up to a page.\<close>

definition rr_room :: "('s \<Rightarrow> nat) \<Rightarrow> ('s \<Rightarrow> nat \<Rightarrow> bool) \<Rightarrow> ('s \<Rightarrow> nat \<Rightarrow> bool) \<Rightarrow> 's rr_view \<Rightarrow> nat \<Rightarrow> nat \<Rightarrow> bool" where
  "rr_room wo fits grants v k n \<longleftrightarrow> (\<forall>i\<in>set (lb_services (rr_lb v)).
     fits (rr_storages v ! i) (wo (rr_storages v ! i) + k * DEFAULT_PAGE_SIZE + n)
     \<and> grants (rr_storages v ! i) (wo (rr_storages v ! i) + k * DEFAULT_PAGE_SIZE + n))"

lemma rr_pointer_add:
  assumes "rr_get_storage_pointer p = (i, sp)" and "sp + a < M64"
  shows "rr_get_storage_pointer (add128 p a) = (i, sp + a)"
proof -
  have r: "rr_get_storage_pointer q = (q div M64 mod 2 ^ 32, q mod M64)" for q
  proof -
    have "drop_bit 64 q AND 0xFFFFFFFF = take_bit 32 (drop_bit 64 q)" by (simp add: take_bit_eq_mask mask_eq_exp_minus_1)
    then show ?thesis by (simp add: rr_get_storage_pointer_def drop_bit_eq_div take_bit_eq_mod M64_def)
  qed
  define h where "h = p div M64"
  have p: "p = h * M64 + sp" "i = h mod 2 ^ 32" using assms(1) unfolding r h_def by auto
  have m: "M128 = M64 * M64" by (simp add: M64_def M128_def)
  have "(p + a) mod M128 = (h * M64 + (sp + a)) mod (M64 * M64)" unfolding m p(1) by (simp add: add.assoc)
  also have "\<dots> = M64 * ((h * M64 + (sp + a)) div M64 mod M64) + (h * M64 + (sp + a)) mod M64" by (rule mod_mult2_eq)
  also have "\<dots> = M64 * (h mod M64) + (sp + a)" using assms(2) by simp
  finally have q: "add128 p a = M64 * (h mod M64) + (sp + a)" by (simp add: add128_def)
  have "add128 p a div M64 = h mod M64" "add128 p a mod M64 = sp + a" unfolding q using assms(2) by simp_all
  moreover have "h mod M64 mod 2 ^ 32 = h mod 2 ^ 32" by (rule mod_mod_cancel) (simp add: M64_def)
  ultimately show ?thesis unfolding r p(2) by simp
qed

lemma count_stripes_ids: "stripe_id ` set (count_stripes ids) = set ids"
proof -
  have i: "fst ` set (omap_incr k m) = insert k (fst ` set m)" for k m by (induction k m rule: omap_incr.induct) auto
  have "fst ` set (fold omap_incr ids m) = set ids \<union> fst ` set m" for m by (induction ids arbitrary: m) (auto simp: i)
  from this [of "[]"] show ?thesis by (force simp: count_stripes_def image_image split_def)
qed

lemma lb_get_ok:
  assumes "lb_ok l"
  shows "\<exists>l' i. lb_get l = (l', Inr i) \<and> i \<in> set (lb_services l) \<and> lb_ok l' \<and> lb_services l' = lb_services l"
proof -
  obtain x xs where s: "lb_services l = x # xs" using assms by (cases "lb_services l") (auto simp: lb_ok_def)
  define cur where "cur = (case lb_robin l of None \<Rightarrow> x | Some i \<Rightarrow> i)"
  have c: "cur \<in> set (lb_services l)" using assms s by (auto simp: cur_def lb_ok_def split: option.splits)
  have "find P ys = Some j \<Longrightarrow> j \<in> set ys" for P j and ys :: "nat list" by (metis find_Some_iff nth_mem)
  then have "lb_ok (l\<lparr>lb_robin := lb_next l cur\<rparr>)" using s by (auto simp: lb_ok_def lb_next_def)
  then show ?thesis using c s by (auto simp: lb_get_def Let_def cur_def)
qed

lemma sub128_add128: "0 < k \<Longrightarrow> sub128 (add128 p k) 1 = add128 p (k - 1)"
proof -
  assume "0 < k"
  then have e: "p + k + (M128 - 1) = p + (k - 1) + M128" by (simp add: M128_def)
  have "sub128 (add128 p k) 1 = (p + k + (M128 - 1)) mod M128"
    by (simp add: sub128_def add128_def mod_simps M128_def ac_simps)
  then show ?thesis unfolding e by (simp add: add128_def)
qed

lemma rr_bytes_Some:
  "rr_bytes content wo v p n = Some b \<longleftrightarrow> (\<exists>i sp. rr_get_storage_pointer p = (i, sp) \<and> 0 < n \<and> i < length (rr_storages v)
     \<and> sp + n < M64 \<and> sp + n \<le> wo (rr_storages v ! i) \<and> sp + n \<le> length (content (rr_storages v ! i))
     \<and> b = slice sp n (content (rr_storages v ! i)))"
  by (cases "rr_get_storage_pointer p") (auto simp: rr_bytes_def)

lemma rr_bytes_sub:
  assumes "rr_bytes content wo v p n = Some b" and "0 < k" and "a + k \<le> n"
  shows "rr_bytes content wo v (add128 p a) k = Some (slice a k b)"
proof -
  obtain i sp where i: "rr_get_storage_pointer p = (i, sp)" "i < length (rr_storages v)" "sp + n < M64"
    "sp + n \<le> wo (rr_storages v ! i)" "sp + n \<le> length (content (rr_storages v ! i))" "b = slice sp n (content (rr_storages v ! i))"
    using assms(1) by (auto simp: rr_bytes_Some)
  have "rr_get_storage_pointer (add128 p a) = (i, sp + a)" using i assms by (intro rr_pointer_add) auto
  moreover have "slice a k b = slice (sp + a) k (content (rr_storages v ! i))"
    unfolding i(6) using assms(3) by (simp add: slice_def drop_take add.commute min_def)
  ultimately show ?thesis using i assms(2,3) by (auto simp: rr_bytes_Some)
qed

lemma stripes_of_mono:
  assumes "0 < ss" and "0 < k" and "a + k \<le> n" and "sp + n < M64"
  shows "set (stripes_of ss (sp + a) k) \<subseteq> set (stripes_of ss sp n)"
proof -
  have e: "sub64 (add64 (sp + a) k) 1 = sp + a + k - 1" "sub64 (add64 sp n) 1 = sp + n - 1"
    using assms by (simp_all add: add64_eq sub64_eq)
  have "sp div ss \<le> (sp + a) div ss" "(sp + a + k - 1) div ss \<le> (sp + n - 1) div ss"
    using assms(3) by (auto intro!: div_le_mono)
  then show ?thesis unfolding stripes_of_def e by auto
qed

lemma page_pos [simp]: "0 < DEFAULT_PAGE_SIZE"
  by (simp add: DEFAULT_PAGE_SIZE_def KIBI_BYTE_def)

context tracked_storage
begin

lemma rr_live_sub:
  assumes "rr_live content top tracked v p n" and "0 < k" and "a + k \<le> n"
  shows "rr_live content top tracked v (add128 p a) k"
proof -
  obtain b where b: "rr_bytes content top v p n = Some b" using assms(1) by (auto simp: rr_live_def)
  obtain i sp where i: "rr_get_storage_pointer p = (i, sp)" "sp + n < M64" using b by (auto simp: rr_bytes_Some)
  have "rr_get_storage_pointer (add128 p a) = (i, sp + a)" using i assms by (intro rr_pointer_add) auto
  then show ?thesis
    using assms(1) rr_bytes_sub [OF b assms(2,3)] stripes_of_mono [OF page_pos assms(2,3) i(2)] i(1) by (auto simp: rr_live_def)
qed

lemma rr_prefix:
  assumes "rr_bytes content top v p n = Some b" and "0 < k" and "k \<le> n"
  shows "rr_bytes content top v p k = Some (take k b)"
  using assms by (auto simp: rr_bytes_Some slice_def min_def)

lemma rr_live_prefix:
  assumes "rr_live content top tracked v p n" and "0 < k" and "k \<le> n"
  shows "rr_live content top tracked v p k"
proof -
  obtain b where b: "rr_bytes content top v p n = Some b" using assms(1) by (auto simp: rr_live_def)
  obtain i sp where i: "rr_get_storage_pointer p = (i, sp)" "sp + n < M64" using b by (auto simp: rr_bytes_Some)
  show ?thesis
    using assms(1) rr_prefix [OF b assms(2,3)] stripes_of_mono [OF page_pos assms(2), of 0 n sp] assms(3) i by (auto simp: rr_live_def)
qed

lemma rr_read_law:
  assumes "rr_vinv sinv v" and "rr_bytes content top v p n = Some b"
  shows "rr_read S v p n = Some (Inr b)"
  using assms read_law
  by (auto simp: rr_bytes_Some rr_read_def rr_storage_at_def rr_vinv_def rr_inv_def list_all_length)

lemma rr_read_address_law:
  assumes "rr_vinv sinv v" and "address_holds (rr_bytes content top v) addr data" and "length data < M64" and "length buffer = length data"
  shows "rr_read_address S v addr buffer = Some (data, Inr (length data))"
proof -
  let ?gsp = "\<lambda>p. Inr (rr_get_storage_pointer p) :: (nat \<times> nat) res" and ?C = "\<lambda>i. content (rr_storages v ! i)"
  have B: "\<exists>i sp. rr_get_storage_pointer (pointer f) = (i, sp) \<and> 0 < fsize f \<and> i < length (rr_storages v) \<and> sp + fsize f < M64
      \<and> sp + fsize f \<le> length (?C i) \<and> rr_bytes content top v (pointer f) (fsize f) = Some (slice sp (fsize f) (?C i))"
    if "f \<in> set addr" for f
    using assms(2) that by (fastforce simp: address_holds_def list_all_iff rr_bytes_Some)
  have e: "sub128 (add128 p k) 1 = add128 p (k - 1)" if "0 < k" for p k
    using that by (rule sub128_add128)
  have A: "\<forall>f\<in>set addr. in_one_storage ?gsp f \<and> frag_fits ?gsp ?C f"
  proof
    fix f assume "f \<in> set addr"
    then obtain i sp where f: "rr_get_storage_pointer (pointer f) = (i, sp)" "0 < fsize f" "sp + fsize f < M64" "sp + fsize f \<le> length (?C i)"
      using B by blast
    then have "rr_get_storage_pointer (sub128 (add128 (pointer f) (fsize f)) 1) = (i, sp + (fsize f - 1))"
      unfolding e [OF f(2)] by (intro rr_pointer_add) auto
    then show "in_one_storage ?gsp f \<and> frag_fits ?gsp ?C f" using f by (auto simp: in_one_storage_def frag_fits_def)
  qed
  have D: "frag_data ?gsp ?C f = the (rr_bytes content top v (pointer f) (fsize f))" if "f \<in> set addr" for f
    using B [OF that] by (auto simp: frag_data_def)
  then have data: "concat (map (frag_data ?gsp ?C) addr) = data"
    using assms(2) by (simp add: address_holds_def cong: map_cong)
  have T: "total_size addr = length data" using length_concat_data [of addr ?gsp ?C] A data by simp
  have st: "\<exists>st. rr_storage_at v i = Inr st \<and> sinv st \<and> content st = ?C i" if "f \<in> set addr" "?gsp (pointer f) = Inr (i, p)" for f i p
    using B [OF that(1)] that(2) assms(1) by (auto simp: rr_storage_at_def rr_vinv_def rr_inv_def list_all_length)
  have "\<exists>m. extract_node_address_map addr ?gsp = Inr m \<and>
      read_nodes S (rr_storage_at v) m buffer = Some (concat (map (frag_data ?gsp ?C) addr), Inr ())"
  proof (rule read_fragments_ok [OF A])
    fix f i p assume "f \<in> set addr" "?gsp (pointer f) = Inr (i, p)"
    then show "\<exists>st. rr_storage_at v i = Inr st \<and> sinv st \<and> content st = ?C i" by (rule st)
  qed (use T assms(3,4) in simp_all)
  then show ?thesis using T assms(3) data by (auto simp: rr_read_address_def data_size_eq)
qed

lemma rr_unrejected_live:
  assumes "rr_vinv sinv v" and f: "f \<in> set addr" "rr_bytes content top v (pointer f) (fsize f) \<noteq> None"
    and rs: "length rs = length (rr_storages v)"
      "\<forall>i<length (rr_storages v). rs ! i =
        filter (\<lambda>r. \<not> tracked (rr_storages v ! i) (stripe_id r)) (rr_extract_refcounts (rr_config v) addr ! i)"
  shows "(\<exists>k\<in>set (rr_stripes (rr_config v) f). k \<in> set (rejected_stripes rs)) \<or> rr_live content top tracked v (pointer f) (fsize f)"
proof (rule disjCI)
  let ?c = "rr_config v" and ?n = "length (rr_storages v)"
  assume live: "\<not> rr_live content top tracked v (pointer f) (fsize f)"
  have I: "gc_storages ?c = ?n" "?n \<le> 2 ^ 16" "get_stripe_size ?c = DEFAULT_PAGE_SIZE"
    using assms(1) by (auto simp: rr_vinv_def rr_inv_def)
  obtain i sp where i: "rr_get_storage_pointer (pointer f) = (i, sp)" "i < ?n" using f(2) by (auto simp: rr_bytes_Some)
  then obtain k where k: "k \<in> set (stripes_of DEFAULT_PAGE_SIZE sp (fsize f))" "\<not> tracked (rr_storages v ! i) k"
    using live f(2) by (auto simp: rr_live_def)
  then have s: "k \<in> set (rr_stripes ?c f)" using i(1) I(3) by (simp add: rr_stripes_def)
  have "i mod 2 ^ 16 = i" using i(2) I(2) by simp
  then have "k \<in> stripe_id ` set (rr_extract_refcounts ?c addr ! i)"
    using s f(1) i I(1) by (auto simp: rr_extract_refcounts_def count_stripes_ids)
  then have "k \<in> stripe_id ` set (rs ! i)" using k(2) rs(2) i(2) by auto
  then have "k \<in> set (rejected_stripes rs)" using i(2) rs(1) nth_mem [of i rs] by (fastforce simp: rejected_stripes_def)
  then show "\<exists>k\<in>set (rr_stripes ?c f). k \<in> set (rejected_stripes rs)" using s by blast
qed

lemma rr_link_law:
  assumes "rr_vinv sinv v"
  shows "\<exists>v' P. rr_link S v addr = Some (v', Inr (filter P addr)) \<and> rr_vinv sinv v'
    \<and> rr_bytes content top v' = rr_bytes content top v \<and> rr_live content top tracked v' = rr_live content top tracked v
    \<and> (\<forall>k n. rr_room top fits grants v k n \<longrightarrow> rr_room top fits grants v' k n)
    \<and> (\<forall>f\<in>set addr. rr_bytes content top v (pointer f) (fsize f) \<noteq> None \<longrightarrow> P f \<or> rr_live content top tracked v' (pointer f) (fsize f))"
proof -
  let ?c = "rr_config v" and ?n = "length (rr_storages v)"
  define rc where "rc = rr_extract_refcounts ?c addr"
  have I: "\<forall>i<?n. sinv (rr_storages v ! i)" "\<forall>i<?n. rr_index v ! i" "gc_storages ?c = ?n" "length (rr_index v) = ?n" "?n \<le> 2 ^ 16"
    "get_stripe_size ?c = DEFAULT_PAGE_SIZE"
    using assms by (auto simp: rr_vinv_def rr_inv_def list_all_length)
  let ?same = "\<lambda>st st'. sinv st' \<and> content st' = content st \<and> fits st' = fits st \<and> top st' = top st \<and> tracked st' = tracked st
    \<and> grants st' = grants st"
  let ?f = "\<lambda>i st. Some (if \<not> rr_index v ! i then (st, Inl Runtime_error) else so_link S st (rc ! i))"
  let ?rej = "\<lambda>i. filter (\<lambda>r. \<not> tracked (rr_storages v ! i) (stripe_id r)) (rc ! i)"
  have "\<exists>ss' rs. run_for_all ?f 0 (rr_storages v) = Some (ss', Inr rs) \<and> length ss' = ?n \<and> length rs = ?n
      \<and> (\<forall>i<?n. ?same (rr_storages v ! (0 + i)) (ss' ! i) \<and> rs ! i = ?rej (0 + i))"
  proof (rule run_for_all_results, intro allI impI)
    fix i assume i: "i < ?n"
    show "\<exists>s' r. ?f (0 + i) (rr_storages v ! i) = Some (s', Inr r) \<and> ?same (rr_storages v ! (0 + i)) s' \<and> r = ?rej (0 + i)"
      using link_tracked [OF I(1) [rule_format, OF i], of "rc ! i"] link_law [OF I(1) [rule_format, OF i], of "rc ! i"] I(2) i by fastforce
  qed
  then obtain sts rs where sts: "run_for_all ?f 0 (rr_storages v) = Some (sts, Inr rs)" "length sts = ?n" "length rs = ?n"
    "\<forall>i<?n. ?same (rr_storages v ! i) (sts ! i)" "\<forall>i<?n. rs ! i = ?rej i" by auto
  define v' where "v' = v\<lparr>rr_storages := sts\<rparr>"
  define P where "P = (\<lambda>f. \<exists>i\<in>set (rr_stripes ?c f). i \<in> set (rejected_stripes rs))"
  have link: "rr_link S v addr = Some (v', Inr (filter P addr))"
    using sts(1) unfolding rr_link_def rc_def [symmetric] Let_def v'_def P_def by (auto simp: rr_compute_rejected_address_def Let_def)
  have bytes: "rr_bytes content top v' = rr_bytes content top v"
    using sts(2,4) by (auto simp: fun_eq_iff rr_bytes_def v'_def split: prod.splits)
  have live: "rr_live content top tracked v' = rr_live content top tracked v"
    using sts(4) unfolding fun_eq_iff rr_live_def bytes by (auto simp: rr_bytes_Some v'_def split: prod.splits)
  have inv: "rr_vinv sinv v'"
    using assms sts(2,4) by (simp add: rr_vinv_def rr_inv_def v'_def list_all_length)
  have room: "rr_room top fits grants v' k n" if "rr_room top fits grants v k n" for k n
    unfolding rr_room_def
  proof
    fix i assume "i \<in> set (lb_services (rr_lb v'))"
    then have i: "i \<in> set (lb_services (rr_lb v))" "i < ?n" using assms by (auto simp: v'_def rr_vinv_def)
    then show "fits (rr_storages v' ! i) (top (rr_storages v' ! i) + k * DEFAULT_PAGE_SIZE + n)
       \<and> grants (rr_storages v' ! i) (top (rr_storages v' ! i) + k * DEFAULT_PAGE_SIZE + n)"
      using that sts(4) by (simp add: rr_room_def v'_def)
  qed
  have "P f \<or> rr_live content top tracked v' (pointer f) (fsize f)"
    if "f \<in> set addr" "rr_bytes content top v (pointer f) (fsize f) \<noteq> None" for f
    using rr_unrejected_live [OF assms that sts(3) sts(5) [unfolded rc_def]] unfolding live P_def by blast
  then show ?thesis using link inv bytes live room by blast
qed

text \<open>The fragments a write returns, in terms of the offsets.\<close>

lemma rr_written_address:
  assumes "rr_vinv sinv v" and offs: "write_offsets_ok offsets (length data)" and sid: "sid < length (rr_storages v)"
    and st: "base + length data \<le> top (rr_storages v ! sid)" "base + length data \<le> length (content (rr_storages v ! sid))"
      "slice base (length data) (content (rr_storages v ! sid)) = data" "base + length data < M64"
  defines "addr \<equiv> rr_compute_address (rr_config v) offsets (length data) sid base"
  shows "address_holds (rr_bytes content top v) addr data"
    and "\<forall>f\<in>set addr. \<exists>sp. rr_get_storage_pointer (pointer f) = (sid, sp) \<and> base \<le> sp \<and> 0 < fsize f \<and> sp + fsize f \<le> base + length data"
proof -
  let ?n = "length data" and ?g = "gc_id (rr_config v)" and ?B = "\<lambda>f. rr_bytes content top v (pointer f) (fsize f)"
  let ?ptr = "\<lambda>o1. rr_get_global_pointer (add64 base o1) ?g sid"
  obtain os where os: "offsets = 0 # os" using offs by (cases offsets) (auto simp: write_offsets_ok_def)
  have srt: "sorted_wrt (<) (0 # os)" "\<forall>x\<in>set (0 # os). x < ?n"
    using offs by (auto simp: write_offsets_ok_def os list_all_iff)
  have nm: "?n < M64" using st(4) by linarith
  have g: "?g < 2 ^ 32" "sid < 2 ^ 32" using assms(1) sid by (auto simp: rr_vinv_def rr_inv_def)
  have ptr: "rr_get_storage_pointer (?ptr o1) = (sid, base + o1)" if "o1 + k \<le> ?n" "0 < k" for o1 k
  proof -
    have "add64 base o1 = base + o1" using that st(4) by (intro add64_eq) linarith
    then show ?thesis using rr_frag_pointers(1) [OF g _ that(2), of base o1] that st(4) by simp
  qed
  have B: "?B (mk_fragment (?ptr o1) k) = Some (slice o1 k data)" if "o1 + k \<le> ?n" "0 < k" for o1 k
  proof -
    have "slice o1 k (slice base ?n (content (rr_storages v ! sid))) = slice (base + o1) k (content (rr_storages v ! sid))"
      using that(1) by (simp add: slice_def drop_take add.commute min_def)
    then show ?thesis using ptr [OF that] st sid that by (simp add: rr_bytes_Some)
  qed
  have fr: "\<exists>o1. pointer f = ?ptr o1 \<and> o1 + fsize f \<le> ?n \<and> 0 < fsize f" if "f \<in> set addr" for f
    using fragment_list_frags [OF nm srt, of f ?ptr] that by (auto simp: addr_def rr_compute_address_def os)
  show "\<forall>f\<in>set addr. \<exists>sp. rr_get_storage_pointer (pointer f) = (sid, sp) \<and> base \<le> sp \<and> 0 < fsize f \<and> sp + fsize f \<le> base + ?n"
    using fr ptr by fastforce
  have "concat (map (\<lambda>f. the (?B f)) addr) = data"
    using fragment_list_data [where D = "\<lambda>f. the (?B f)" and ptr = ?ptr, OF _ refl nm srt] B by (simp add: addr_def rr_compute_address_def os)
  moreover have "0 < fsize f \<and> ?B f \<noteq> None" if "f \<in> set addr" for f
  proof -
    obtain o1 where "pointer f = ?ptr o1" "o1 + fsize f \<le> ?n" "0 < fsize f" using fr \<open>f \<in> set addr\<close> by blast
    then show ?thesis using B [of o1 "fsize f"] by simp
  qed
  ultimately show "address_holds (rr_bytes content top v) addr data" by (simp add: address_holds_def list_all_iff)
qed

lemma stripes_below:
  assumes "DEFAULT_PAGE_SIZE dvd off" and "0 < n" and "sp + n \<le> off" and "sp + n < M64" and "k \<in> set (stripes_of DEFAULT_PAGE_SIZE sp n)"
  shows "k < off div DEFAULT_PAGE_SIZE"
proof -
  have "sub64 (add64 sp n) 1 = sp + n - 1" using assms(2,4) by (simp add: add64_eq sub64_eq)
  then have "k \<le> (sp + n - 1) div DEFAULT_PAGE_SIZE" using assms(5) by (auto simp: stripes_of_def)
  moreover have "sp + n - 1 < off div DEFAULT_PAGE_SIZE * DEFAULT_PAGE_SIZE" using assms(1-3) by simp
  ultimately show ?thesis by (metis div_less_iff_less_mult le_less_trans page_pos)
qed

text \<open>What a write to storage \<open>sid\<close> means for the ranges that were allocated before.\<close>

lemma rr_extends:
  assumes sid: "sid < length (rr_storages v)" and v': "rr_storages v' = (rr_storages v)[sid := st']"
    and off: "DEFAULT_PAGE_SIZE dvd off" "top (rr_storages v ! sid) \<le> off" "off \<le> top st'"
    and len: "length (content (rr_storages v ! sid)) \<le> length (content st')"
    and keep: "\<And>p k. p + k \<le> length (content (rr_storages v ! sid)) \<Longrightarrow> p + k \<le> off \<Longrightarrow>
        slice p k (content st') = slice p k (content (rr_storages v ! sid))"
    and tr: "\<And>k. k < off div DEFAULT_PAGE_SIZE \<Longrightarrow> tracked st' k = tracked (rr_storages v ! sid) k"
  shows "view_extends (rr_bytes content top) (rr_live content top tracked) v v'"
  unfolding view_extends_def
proof (intro allI impI)
  fix p n b assume b: "rr_bytes content top v p n = Some b"
  then obtain i sp where i: "rr_get_storage_pointer p = (i, sp)" "0 < n" "i < length (rr_storages v)" "sp + n < M64"
    "sp + n \<le> top (rr_storages v ! i)" "sp + n \<le> length (content (rr_storages v ! i))" "b = slice sp n (content (rr_storages v ! i))"
    by (auto simp: rr_bytes_Some)
  show "rr_bytes content top v' p n = Some b \<and> rr_live content top tracked v' p n = rr_live content top tracked v p n"
  proof (cases "i = sid")
    case False
    then have "rr_storages v' ! i = rr_storages v ! i" "i < length (rr_storages v')" using i(3) by (simp_all add: v')
    then show ?thesis using i b by (auto simp: rr_bytes_Some rr_live_def)
  next
    case True
    have st: "rr_storages v' ! i = st'" "i < length (rr_storages v')" using True sid by (simp_all add: v')
    have b': "rr_bytes content top v' p n = Some b"
      using i st True off(2,3) len keep [of sp n] by (auto simp: rr_bytes_Some)
    have "tracked st' k = tracked (rr_storages v ! sid) k" if "k \<in> set (stripes_of DEFAULT_PAGE_SIZE sp n)" for k
      using stripes_below [OF off(1) i(2) _ i(4) that] i(5) True off(2) by (intro tr) simp
    then show ?thesis using b b' i(1) st True by (auto simp: rr_live_def)
  qed
qed

lemma rr_one_storage_stripes:
  assumes "\<forall>f\<in>set addr. \<exists>sp. rr_get_storage_pointer (pointer f) = (sid, sp) \<and> Q sp f" and "sid < gc_storages c" and "sid < 2 ^ 16"
    and "get_stripe_size c = DEFAULT_PAGE_SIZE"
  shows "k \<in> stripe_id ` set (rr_extract_refcounts c addr ! sid) \<longleftrightarrow>
    (\<exists>f\<in>set addr. k \<in> set (stripes_of DEFAULT_PAGE_SIZE (snd (rr_get_storage_pointer (pointer f))) (fsize f)))"
proof -
  have "fst (rr_get_storage_pointer (pointer f)) mod 2 ^ 16 = sid" if "f \<in> set addr" for f
    using assms(1,3) that by fastforce
  then have "filter (\<lambda>f. fst (rr_get_storage_pointer (pointer f)) mod 2 ^ 16 = sid) addr = addr" by (simp add: filter_id_conv)
  then show ?thesis using assms(2,4) by (simp add: rr_extract_refcounts_def count_stripes_ids rr_stripes_def)
qed

lemma rr_write_law:
  assumes inv: "rr_vinv sinv v" and room: "rr_room top fits grants v (Suc k) m" and len: "length data \<le> m" and offs: "write_offsets_ok offsets (length data)"
  shows "\<exists>v' addr. rr_write S v data offsets = Some (v', Inr addr) \<and> rr_vinv sinv v'
    \<and> view_extends (rr_bytes content top) (rr_live content top tracked) v v' \<and> rr_room top fits grants v' k (m - length data)
    \<and> address_holds (rr_bytes content top v') addr data \<and> list_all (\<lambda>f. rr_live content top tracked v' (pointer f) (fsize f)) addr"
proof -
  let ?n = "length data" and ?c = "rr_config v"
  have n: "0 < ?n" using offs by (cases offsets) (auto simp: write_offsets_ok_def)
  obtain lb sid where lb: "lb_get (rr_lb v) = (lb, Inr sid)" "sid \<in> set (lb_services (rr_lb v))" "lb_ok lb" "lb_services lb = lb_services (rr_lb v)"
    using lb_get_ok [of "rr_lb v"] inv by (auto simp: rr_vinv_def)
  have sid: "sid < length (rr_storages v)" using inv lb(2) by (auto simp: rr_vinv_def)
  let ?st = "rr_storages v ! sid"
  have si: "sinv ?st" using inv sid by (simp add: rr_vinv_def rr_inv_def list_all_length)
  have R: "fits ?st (top ?st + Suc k * DEFAULT_PAGE_SIZE + m)" "grants ?st (top ?st + Suc k * DEFAULT_PAGE_SIZE + m)"
    using room lb(2) unfolding rr_room_def by blast+
  have fit: "fits ?st (top ?st + DEFAULT_PAGE_SIZE + ?n)" by (rule fits_mono [OF R(1)]) (use len in simp)
  have gr: "grants ?st (top ?st + DEFAULT_PAGE_SIZE + ?n)" by (rule grants_mono [OF R(2)]) (use len in simp)
  obtain st a where al: "so_allocate S ?st ?n DEFAULT_PAGE_SIZE = (st, Inr a)" "grants st = grants ?st"
    using allocate_grants [OF si n page_pos fit gr] by auto
  note A = allocate_law [OF si n page_pos fit al(1)]
  let ?off = "alloc_offset a"
  have f2: "fits st (?off + length (concat [data]))" using A fits_mono [OF fit, of "?off + ?n"] by simp
  define addr where "addr = rr_compute_address ?c offsets ?n sid ?off"
  let ?rc = "rr_extract_refcounts ?c addr ! sid"
  have aa: "\<lparr>alloc_offset = ?off, alloc_size = ?n\<rparr> = a" using A by (cases a) simp
  obtain st' where w: "so_write S st a [data] ?rc = Some (st', Inr ())" "sinv st'" "top st' = max (top st) (?off + ?n)"
    "?off + ?n \<le> length (content st')" "length (content st) \<le> length (content st')" "slice ?off ?n (content st') = data"
    "\<And>p k. p + k \<le> length (content st) \<Longrightarrow> p + k \<le> ?off \<Longrightarrow> slice p k (content st') = slice p k (content st)" "fits st' = fits st"
    using write_law [of st ?off "[data]" ?rc] A f2 by (auto simp: aa)
  have tr: "tracked st' k \<longleftrightarrow> tracked ?st k \<or> k \<in> stripe_id ` set ?rc" for k
    using write_tracked [of st ?off "[data]" ?rc st' "Inr ()" k] A f2 w(1) allocate_tracked [OF al(1)] by (simp add: aa)
  have gw: "grants st' = grants ?st"
    using write_tracked [of st ?off "[data]" ?rc st' "Inr ()" 0] A f2 w(1) al(2) by (simp add: aa)
  define v' where "v' = v\<lparr>rr_lb := lb, rr_storages := (rr_storages v)[sid := st']\<rparr>"
  have wr: "rr_write S v data offsets = Some (v', Inr addr)"
    using lb(1) sid al(1) w(1) by (simp add: rr_write_def Let_def v'_def addr_def)
  have inv': "rr_vinv sinv v'"
    using inv sid w(2) lb(3,4) unfolding v'_def rr_vinv_def rr_inv_def list_all_length by (auto simp: nth_list_update)
  have m64: "?off + ?n < M64" using fits_bound [OF f2] by simp
  have v's: "rr_storages v' ! sid = st'" "rr_config v' = ?c" "sid < length (rr_storages v')" using sid by (simp_all add: v'_def)
  have ad: "address_holds (rr_bytes content top v') addr data"
    "\<forall>f\<in>set addr. \<exists>sp. rr_get_storage_pointer (pointer f) = (sid, sp) \<and> ?off \<le> sp \<and> 0 < fsize f \<and> sp + fsize f \<le> ?off + ?n"
    using rr_written_address [OF inv' offs v's(3), of ?off] w(3,4,6) m64 unfolding v's addr_def by simp_all
  have rc: "k \<in> stripe_id ` set ?rc \<longleftrightarrow>
      (\<exists>f\<in>set addr. k \<in> set (stripes_of DEFAULT_PAGE_SIZE (snd (rr_get_storage_pointer (pointer f))) (fsize f)))" for k
    using ad(2) by (intro rr_one_storage_stripes) (use inv sid in \<open>auto simp: rr_vinv_def rr_inv_def\<close>)
  have "k \<notin> stripe_id ` set ?rc" if "k < ?off div DEFAULT_PAGE_SIZE" for k
    using that ad(2) div_le_mono [of ?off _ DEFAULT_PAGE_SIZE] unfolding rc by (fastforce simp: stripes_of_def)
  then have ext: "view_extends (rr_bytes content top) (rr_live content top tracked) v v'"
    using A w(3,5,7) tr by (intro rr_extends [OF sid, where st' = st' and off = ?off]) (auto simp: v'_def)
  have "rr_live content top tracked v' (pointer f) (fsize f)" if "f \<in> set addr" for f
    using ad that rc tr v's(1) by (fastforce simp: rr_live_def address_holds_def list_all_iff split: prod.split)
  moreover have "rr_room top fits grants v' k (m - ?n)"
    unfolding rr_room_def
  proof
    fix i assume "i \<in> set (lb_services (rr_lb v'))"
    then have i: "fits (rr_storages v ! i) (top (rr_storages v ! i) + Suc k * DEFAULT_PAGE_SIZE + m)"
      "grants (rr_storages v ! i) (top (rr_storages v ! i) + Suc k * DEFAULT_PAGE_SIZE + m)"
      using room lb(4) unfolding rr_room_def v'_def by auto
    have t: "top (rr_storages v' ! i) + k * DEFAULT_PAGE_SIZE + (m - ?n) \<le> top (rr_storages v ! i) + Suc k * DEFAULT_PAGE_SIZE + m"
      using A w(3) len sid by (cases "i = sid") (auto simp: v'_def)
    have "fits (rr_storages v' ! i) = fits (rr_storages v ! i)" "grants (rr_storages v' ! i) = grants (rr_storages v ! i)"
      using A w(8) gw sid by (cases "i = sid"; simp add: v'_def)+
    then show "fits (rr_storages v' ! i) (top (rr_storages v' ! i) + k * DEFAULT_PAGE_SIZE + (m - ?n))
        \<and> grants (rr_storages v' ! i) (top (rr_storages v' ! i) + k * DEFAULT_PAGE_SIZE + (m - ?n))"
      using fits_mono [OF i(1) t] grants_mono [OF i(2) t] by simp
  qed
  ultimately show ?thesis using wr inv' ext ad(1) by (auto simp: list_all_iff)
qed

lemma rr_room_mono:
  assumes "rr_room top fits grants v k m" and "j \<le> k" and "l \<le> m"
  shows "rr_room top fits grants v j l"
proof -
  have "j * DEFAULT_PAGE_SIZE + l \<le> k * DEFAULT_PAGE_SIZE + m" using assms(2,3) by (simp add: add_mono mult_le_mono1)
  then have "t + j * DEFAULT_PAGE_SIZE + l \<le> t + k * DEFAULT_PAGE_SIZE + m" for t by simp
  then show ?thesis using assms(1) fits_mono grants_mono unfolding rr_room_def by blast
qed

end

text \<open>Every group of storages that track references is a view with the contract above.\<close>

sublocale tracked_storage \<subseteq> rr: data_view "rr_ops S" "rr_vinv sinv" "rr_bytes content top" "rr_live content top tracked" "rr_room top fits grants"
proof
  fix v :: "'s rr_view"
  show "rr_bytes content top v p n = Some b \<Longrightarrow> length b = n" for p n b by (auto simp: rr_bytes_Some length_slice)
  show "rr_live content top tracked v p n \<Longrightarrow> rr_bytes content top v p n \<noteq> None" for p n by (simp add: rr_live_def)
qed (simp_all add: rr_ops_def rr_bytes_sub rr_prefix rr_live_prefix rr_live_sub rr_read_law rr_read_address_law rr_room_mono rr_write_law rr_link_law del: not_None_eq)

context tracked_storage
begin

lemma rr_contract: "data_view (rr_ops S) (rr_vinv sinv) (rr_bytes content top) (rr_live content top tracked) (rr_room top fits grants)"
  by (rule rr.data_view_axioms)

end

interpretation local_tracked: tracked_storage "local_ops plain_os map_kv" "local_inv map_kv" ds_bytes m_write_offset ds_fits "ds_tracked map_kv" ds_grants
  by (rule local_tracked_contract) simp_all

lemma local_rr_contract:
  assumes "os_ok s" and "kv_laws K"
  shows "data_view (rr_ops (local_ops s K)) (rr_vinv (local_inv K)) (rr_bytes ds_bytes m_write_offset)
    (rr_live ds_bytes m_write_offset (ds_tracked K)) (rr_room m_write_offset ds_fits ds_grants)"
  by (rule tracked_storage.rr_contract [OF local_tracked_contract [OF assms]])

end
