(* ===== verification/Vrm_Caches.thy ===== *)
theory Vrm_Caches
  imports Vrm_Prelude "HOL-Library.AList"
begin

text \<open>
  The caches of \<open>common/caches\<close>. An \<open>lru_cache\<close> is its list of nodes, least recently used
  first (the hash map only indexes this list). An \<open>lfu_cache\<close> has a table of keys and a list of
  frequency buckets; list iterators are positions that are never reused, so that a key whose
  table entry was erased stays behind in its bucket as in the source. A removal callback is the
  value an operation returns. \<open>timed_cache\<close> takes the current time as an argument, and the
  serializer of \<open>plain_cache\<close> is a parameter.
\<close>

subsection \<open>Least recently used\<close>

definition touch :: "'k \<Rightarrow> 'v \<Rightarrow> ('k \<times> 'v) list \<Rightarrow> ('k \<times> 'v) list" where
  "touch k v xs = filter (\<lambda>e. fst e \<noteq> k) xs @ [(k, v)]"

definition lru_put :: "size_t \<Rightarrow> 'k \<Rightarrow> 'v \<Rightarrow> ('k \<times> 'v) list \<Rightarrow> ('k \<times> 'v) list" where
  "lru_put capacity k v xs =
     (case map_of xs k of
        Some _ \<Rightarrow> touch k v xs
      | None \<Rightarrow> (if length xs \<ge> capacity then tl xs else xs) @ [(k, v)])"

definition lru_get :: "'k \<Rightarrow> ('k \<times> 'v) list \<Rightarrow> ('k \<times> 'v) list \<times> 'v option" where
  "lru_get k xs = (case map_of xs k of Some v \<Rightarrow> (touch k v xs, Some v) | None \<Rightarrow> (xs, None))"

subsection \<open>Least frequently used\<close>

record ('k, 'v) lfu =
  lfu_capacity :: size_t
  lfu_keys :: "('k \<times> 'v \<times> nat \<times> nat) list"
  lfu_buckets :: "(nat \<times> (nat \<times> 'k) list) list"
  lfu_next :: nat

definition lfu_new :: "size_t \<Rightarrow> ('k, 'v) lfu" where
  "lfu_new capacity = \<lparr>lfu_capacity = capacity, lfu_keys = [], lfu_buckets = [], lfu_next = 0\<rparr>"

text \<open>
  \<open>increment\<close> moves the node at position \<open>pos\<close> of the bucket with frequency \<open>fq\<close> to the end of
  the next bucket, which is created when there is none with frequency \<open>fq + 1\<close>.
\<close>

definition bucket_append :: "nat \<Rightarrow> nat \<times> 'k \<Rightarrow> (nat \<times> (nat \<times> 'k) list) list \<Rightarrow> (nat \<times> (nat \<times> 'k) list) list" where
  "bucket_append fq x bs =
     (case bs of
        (f, items) # rest \<Rightarrow> if f = fq then (f, items @ [x]) # rest else (fq, [x]) # bs
      | [] \<Rightarrow> [(fq, [x])])"

fun bucket_move :: "nat \<Rightarrow> nat \<Rightarrow> nat \<times> 'k \<Rightarrow> (nat \<times> (nat \<times> 'k) list) list \<Rightarrow> (nat \<times> (nat \<times> 'k) list) list" where
  "bucket_move fq pos x [] = []"
| "bucket_move fq pos x ((f, items) # bs) =
     (if f = fq then
        let items' = filter (\<lambda>e. fst e \<noteq> pos) items; bs' = bucket_append (fq + 1) x bs
        in if items' = [] then bs' else (f, items') # bs'
      else (f, items) # bucket_move fq pos x bs)"

definition lfu_increment :: "'k \<Rightarrow> 'v \<times> nat \<times> nat \<Rightarrow> ('k, 'v) lfu \<Rightarrow> ('k, 'v) lfu" where
  "lfu_increment k d c =
     (case d of (v, fq, pos) \<Rightarrow>
        c\<lparr>lfu_keys := AList.update k (v, fq + 1, lfu_next c) (lfu_keys c),
          lfu_buckets := bucket_move fq pos (lfu_next c, k) (lfu_buckets c),
          lfu_next := lfu_next c + 1\<rparr>)"

definition lfu_use :: "'k \<Rightarrow> ('k, 'v) lfu \<Rightarrow> ('k, 'v) lfu" where
  "lfu_use k c = (case map_of (lfu_keys c) k of Some d \<Rightarrow> lfu_increment k d c | None \<Rightarrow> c)"

definition lfu_get :: "'k \<Rightarrow> ('k, 'v) lfu \<Rightarrow> ('k, 'v) lfu \<times> 'v option" where
  "lfu_get k c =
     (case map_of (lfu_keys c) k of Some d \<Rightarrow> (lfu_increment k d c, Some (fst d)) | None \<Rightarrow> (c, None))"

text \<open>The loop that evicts drops the front nodes of the front bucket up to the first one whose key is in the table.\<close>

function lfu_evict :: "(nat \<times> (nat \<times> 'k) list) list \<Rightarrow> ('k \<times> 'v \<times> nat \<times> nat) list
    \<Rightarrow> (nat \<times> (nat \<times> 'k) list) list \<times> ('k \<times> 'v \<times> nat \<times> nat) list \<times> 'v option" where
  "lfu_evict [] ks = ([], ks, None)"
| "lfu_evict ((f, []) # bs) ks = lfu_evict bs ks"
| "lfu_evict ((f, (pos, k) # items) # bs) ks =
     (let bs' = if items = [] then bs else (f, items) # bs
      in case map_of ks k of
           Some d \<Rightarrow> (bs', AList.delete k ks, Some (fst d))
         | None \<Rightarrow> lfu_evict bs' ks)"
  by pat_completeness auto
termination
  by (relation "measure (\<lambda>(bs, ks). sum_list (map (\<lambda>b. 1 + length (snd b)) bs))") auto

definition lfu_put_non_existing :: "'k \<Rightarrow> 'v \<Rightarrow> ('k, 'v) lfu \<Rightarrow> ('k, 'v) lfu \<times> 'v option" where
  "lfu_put_non_existing k v c =
     (let x = (lfu_next c, k);
          bs = bucket_append 1 x (lfu_buckets c);
          ks = (case map_of (lfu_keys c) k of Some _ \<Rightarrow> lfu_keys c | None \<Rightarrow> lfu_keys c @ [(k, v, 1, lfu_next c)])
      in if lfu_capacity c = 0 then
           (case lfu_evict bs ks of (bs', ks', r) \<Rightarrow> (c\<lparr>lfu_keys := ks', lfu_buckets := bs', lfu_next := lfu_next c + 1\<rparr>, r))
         else (c\<lparr>lfu_capacity := lfu_capacity c - 1, lfu_keys := ks, lfu_buckets := bs, lfu_next := lfu_next c + 1\<rparr>, None))"

definition lfu_put :: "'k \<Rightarrow> 'v \<Rightarrow> ('k, 'v) lfu \<Rightarrow> ('k, 'v) lfu \<times> 'v option" where
  "lfu_put k v c =
     (case map_of (lfu_keys c) k of Some d \<Rightarrow> (lfu_increment k d c, None) | None \<Rightarrow> lfu_put_non_existing k v c)"

definition lfu_erase :: "'k \<Rightarrow> ('k, 'v) lfu \<Rightarrow> ('k, 'v) lfu \<times> 'v option" where
  "lfu_erase k c =
     (case map_of (lfu_keys c) k of
        Some d \<Rightarrow> (c\<lparr>lfu_keys := AList.delete k (lfu_keys c), lfu_capacity := add64 (lfu_capacity c) 1\<rparr>, Some (fst d))
      | None \<Rightarrow> (c, None))"

subsection \<open>Entries with a deadline, and batches\<close>

definition timed_get :: "nat \<Rightarrow> 'k \<Rightarrow> ('k \<rightharpoonup> nat \<times> 'v) \<Rightarrow> ('k \<rightharpoonup> nat \<times> 'v) \<times> 'v option" where
  "timed_get now k m =
     (case m k of
        None \<Rightarrow> (m, None)
      | Some (deadline, v) \<Rightarrow> if deadline < now then (m(k := None), None) else (m, Some v))"

definition timed_put :: "nat \<Rightarrow> nat \<Rightarrow> 'k \<Rightarrow> 'v \<Rightarrow> ('k \<rightharpoonup> nat \<times> 'v) \<Rightarrow> ('k \<rightharpoonup> nat \<times> 'v)" where
  "timed_put retention now k v m = m(k \<mapsto> (now + retention, v))"

record plain_cache =
  pc_memory :: bytes
  pc_capacity :: size_t
  pc_elements :: size_t
  pc_flushed :: "bytes list"

definition plain_flush :: "plain_cache \<Rightarrow> plain_cache" where
  "plain_flush c = c\<lparr>pc_flushed := pc_flushed c @ [pc_memory c], pc_memory := [], pc_elements := 0\<rparr>"

definition plain_append :: "('a \<Rightarrow> bytes) \<Rightarrow> 'a \<Rightarrow> plain_cache \<Rightarrow> plain_cache" where
  "plain_append enc x c =
     (let c1 = c\<lparr>pc_memory := pc_memory c @ enc x, pc_elements := add64 (pc_elements c) 1\<rparr>
      in if pc_elements c1 = pc_capacity c1 then plain_flush c1 else c1)"

subsection \<open>An LRU cache is the end of an unbounded recency list\<close>

datatype ('k, 'v) cache_op = Put 'k 'v | Get 'k

fun lru_run :: "size_t \<Rightarrow> ('k, 'v) cache_op list \<Rightarrow> ('k \<times> 'v) list \<Rightarrow> ('k \<times> 'v) list \<times> 'v option list" where
  "lru_run cap [] xs = (xs, [])"
| "lru_run cap (Put k v # ops) xs = lru_run cap ops (lru_put cap k v xs)"
| "lru_run cap (Get k # ops) xs =
     (case lru_get k xs of (xs', r) \<Rightarrow> case lru_run cap ops xs' of (xs'', rs) \<Rightarrow> (xs'', r # rs))"

definition last_n :: "nat \<Rightarrow> 'a list \<Rightarrow> 'a list" where
  "last_n n xs = drop (length xs - n) xs"

text \<open>The specification keeps every key ever put, in the order of the last access; a key is a hit when it is among the last \<open>cap\<close> ones.\<close>

fun recency_run :: "size_t \<Rightarrow> ('k, 'v) cache_op list \<Rightarrow> ('k \<times> 'v) list \<Rightarrow> ('k \<times> 'v) list \<times> 'v option list" where
  "recency_run cap [] R = (R, [])"
| "recency_run cap (Put k v # ops) R = recency_run cap ops (touch k v R)"
| "recency_run cap (Get k # ops) R =
     (let r = map_of (last_n cap R) k
      in case recency_run cap ops (case r of Some v \<Rightarrow> touch k v R | None \<Rightarrow> R) of (R', rs) \<Rightarrow> (R', r # rs))"

lemma distinct_touch: "distinct (map fst xs) \<Longrightarrow> distinct (map fst (touch k v xs))"
  by (induction xs) (auto simp: touch_def)

lemma filter_not_key: "k \<notin> fst ` set xs \<Longrightarrow> filter (\<lambda>e. fst e \<noteq> k) xs = xs"
  by (rule filter_True) force

lemma length_filter_key:
  "distinct (map fst xs) \<Longrightarrow> k \<in> fst ` set xs \<Longrightarrow> length (filter (\<lambda>e. fst e \<noteq> k) xs) + 1 = length xs"
proof (induction xs)
  case (Cons x xs)
  then show ?case by (cases "fst x = k") (auto simp: filter_not_key)
qed simp

lemma last_n_append: "length ys \<le> n \<Longrightarrow> last_n n (xs @ ys) = last_n (n - length ys) xs @ ys"
  by (simp add: last_n_def)

lemma last_n_split: "R = take (length R - n) R @ last_n n R" and length_last_n: "length (last_n n R) = min n (length R)"
  by (simp_all add: last_n_def)

lemma touch_last_n:
  assumes "distinct (map fst R)" and "k \<in> fst ` set (last_n cap R)"
  shows "touch k v (last_n cap R) = last_n cap (touch k v R)"
proof -
  let ?A = "take (length R - cap) R" and ?xs = "last_n cap R" and ?P = "\<lambda>e. fst e \<noteq> k"
  have R: "R = ?A @ ?xs" by (rule last_n_split)
  have d: "distinct (map fst ?A @ map fst ?xs)" using assms(1) R by (metis map_append)
  then have "k \<notin> fst ` set ?A" using assms(2) by auto
  then have f: "filter ?P R = ?A @ filter ?P ?xs" using R filter_not_key by (metis filter_append)
  have l: "length (filter ?P ?xs) + 1 = length ?xs" using d assms(2) by (intro length_filter_key) auto
  have cap: "1 \<le> cap" using assms(2) by (cases cap) (auto simp: last_n_def)
  have "last_n (cap - 1) (?A @ filter ?P ?xs) = filter ?P ?xs"
  proof (cases "cap \<le> length R")
    case True
    then show ?thesis using l length_last_n [of cap R] by (simp add: last_n_def)
  next
    case False
    then show ?thesis using l length_last_n [of cap R] by (simp add: last_n_def)
  qed
  then show ?thesis using cap last_n_append [of "[(k, v)]" cap "?A @ filter ?P ?xs"] by (simp add: touch_def f)
qed

lemma lru_put_last_n:
  assumes "distinct (map fst R)" and "0 < cap"
  shows "lru_put cap k v (last_n cap R) = last_n cap (touch k v R)"
proof (cases "map_of (last_n cap R) k")
  case (Some w)
  then have "k \<in> fst ` set (last_n cap R)" by (force dest: map_of_SomeD)
  then show ?thesis using Some touch_last_n [OF assms(1)] by (simp add: lru_put_def)
next
  case None
  let ?A = "take (length R - cap) R" and ?xs = "last_n cap R" and ?P = "\<lambda>e. fst e \<noteq> k"
  have k: "k \<notin> fst ` set ?xs" using None by (simp add: map_of_eq_None_iff)
  then have f: "filter ?P R = filter ?P ?A @ ?xs" using last_n_split [of R cap] filter_not_key by (metis filter_append)
  have "last_n (cap - 1) (filter ?P ?A @ ?xs) = (if length ?xs \<ge> cap then tl ?xs else ?xs)"
  proof (cases "cap \<le> length R")
    case True
    then have "length ?xs = cap" by (simp add: length_last_n)
    then show ?thesis using assms(2) by (simp add: last_n_def drop_Suc tl_drop)
  next
    case False
    then show ?thesis by (simp add: last_n_def)
  qed
  then show ?thesis
    using None assms(2) last_n_append [of "[(k, v)]" cap "filter ?P ?A @ ?xs"] by (simp add: lru_put_def touch_def f)
qed

text \<open>
  C32: An LRU cache of positive capacity behaves like the end of an unbounded recency list: after
  any sequence of \<open>put\<close> and \<open>get\<close> calls it holds exactly the \<open>cap\<close> most recently accessed
  entries in that order, and every \<open>get\<close> finds a key if and only if it is among these.
\<close>

theorem lru_is_recency_suffix:
  assumes "0 < cap"
  shows "lru_run cap ops [] = apfst (last_n cap) (recency_run cap ops [])"
proof -
  have "distinct (map fst R) \<Longrightarrow> lru_run cap ops (last_n cap R) = apfst (last_n cap) (recency_run cap ops R)" for R
  proof (induction ops arbitrary: R)
    case (Cons x ops)
    show ?case
    proof (cases x)
      case (Put k v)
      then show ?thesis using Cons lru_put_last_n [OF Cons.prems assms] by (simp add: distinct_touch)
    next
      case (Get k)
      show ?thesis
      proof (cases "map_of (last_n cap R) k")
        case None
        then show ?thesis using Get Cons by (simp add: lru_get_def split: prod.split)
      next
        case (Some v)
        then have "k \<in> fst ` set (last_n cap R)" by (force dest: map_of_SomeD)
        then show ?thesis
          using Some Get Cons.IH [OF distinct_touch [OF Cons.prems, of k v]] touch_last_n [OF Cons.prems]
          by (simp add: lru_get_def split: prod.split)
      qed
    qed
  qed simp
  from this [of "[]"] show ?thesis by (simp add: last_n_def)
qed

theorem lru_is_recency_suffix_witness:
  "lru_run 2 [Put ''a'' 1, Put ''b'' 2, Get ''a'', Put ''c'' (3 :: nat), Get ''b'', Get ''a''] [] = ([(''c'', 3), (''a'', 1)], [Some 1, None, Some 1])"
proof -
  have "recency_run 2 [Put ''a'' 1, Put ''b'' 2, Get ''a'', Put ''c'' (3 :: nat), Get ''b'', Get ''a''] [] =
      ([(''b'', 2), (''c'', 3), (''a'', 1)], [Some 1, None, Some 1])" by code_simp
  then show ?thesis
    using lru_is_recency_suffix [of 2 "[Put ''a'' 1, Put ''b'' 2, Get ''a'', Put ''c'' (3 :: nat), Get ''b'', Get ''a'']"]
    by (simp add: last_n_def)
qed

subsection \<open>An LFU cache evicts a least frequently used key\<close>

text \<open>
  The invariant: buckets are non-empty and sorted by frequency, positions are unique, every key of
  the table is at its position in the bucket of its frequency, a key left behind by \<open>erase\<close> is not
  in the table, and the free capacity and the table together make up the capacity.
\<close>

definition bucket_nodes :: "(nat \<times> (nat \<times> 'k) list) list \<Rightarrow> (nat \<times> nat \<times> 'k) set" where
  "bucket_nodes bs = {(f, x). \<exists>items. (f, items) \<in> set bs \<and> x \<in> set items}"

definition nodes_ok :: "(nat \<times> (nat \<times> 'k) list) list \<Rightarrow> ('k \<times> 'v \<times> nat \<times> nat) list \<Rightarrow> bool" where
  "nodes_ok bs ks \<longleftrightarrow> (\<forall>f p k d. (f, p, k) \<in> bucket_nodes bs \<and> map_of ks k = Some d \<longrightarrow> snd d = (f, p))
     \<and> (\<forall>k v f p. map_of ks k = Some (v, f, p) \<longrightarrow> (f, p, k) \<in> bucket_nodes bs)"

definition lfu_inv :: "nat \<Rightarrow> ('k, 'v) lfu \<Rightarrow> bool" where
  "lfu_inv cap c \<longleftrightarrow>
     sorted_wrt (<) (map fst (lfu_buckets c)) \<and> (\<forall>b\<in>set (lfu_buckets c). snd b \<noteq> [] \<and> 0 < fst b)
     \<and> (\<forall>f p k. (f, p, k) \<in> bucket_nodes (lfu_buckets c) \<longrightarrow> p < lfu_next c)
     \<and> (\<forall>f p k f' k'. (f, p, k) \<in> bucket_nodes (lfu_buckets c) \<and> (f', p, k') \<in> bucket_nodes (lfu_buckets c) \<longrightarrow> f = f' \<and> k = k')
     \<and> distinct (map fst (lfu_keys c)) \<and> nodes_ok (lfu_buckets c) (lfu_keys c)
     \<and> lfu_capacity c + length (lfu_keys c) = cap"

definition lfu_freq :: "('k, 'v) lfu \<Rightarrow> 'k \<rightharpoonup> nat" where
  "lfu_freq c k = map_option (fst \<circ> snd) (map_of (lfu_keys c) k)"

definition lfu_known :: "('k, 'v) lfu \<Rightarrow> 'k set" where
  "lfu_known c = (snd \<circ> snd) ` bucket_nodes (lfu_buckets c)"

lemma bucket_nodes_simps [simp]:
  "bucket_nodes [] = {}"
  "bucket_nodes ((f, items) # bs) = Pair f ` set items \<union> bucket_nodes bs"
  by (auto simp: bucket_nodes_def)

lemma bucket_nodes_freq: "(f, x) \<in> bucket_nodes bs \<Longrightarrow> f \<in> fst ` set bs"
  by (force simp: bucket_nodes_def)

lemma bucket_append_nodes: "bucket_nodes (bucket_append fq x bs) = insert (fq, x) (bucket_nodes bs)"
  by (auto simp: bucket_append_def split: list.splits)

lemma bucket_append_front:
  assumes "sorted_wrt (<) (map fst bs)" and "\<forall>b\<in>set bs. snd b \<noteq> [] \<and> 0 < fst b" and "0 < fq" and "\<forall>b\<in>set bs. fq \<le> fst b"
  shows "sorted_wrt (<) (map fst (bucket_append fq x bs)) \<and> (\<forall>b\<in>set (bucket_append fq x bs). snd b \<noteq> [] \<and> 0 < fst b \<and> fq \<le> fst b)"
proof (cases bs)
  case (Cons b rest)
  then show ?thesis using assms by (cases b; cases "fst b = fq") (auto simp: bucket_append_def)
qed (use assms in \<open>simp add: bucket_append_def\<close>)

lemma lfu_evict_least:
  "sorted_wrt (<) (map fst bs) \<Longrightarrow> \<forall>b\<in>set bs. snd b \<noteq> [] \<Longrightarrow> nodes_ok bs ks \<Longrightarrow> ks \<noteq> [] \<Longrightarrow>
   \<exists>bs' k v f p. lfu_evict bs ks = (bs', AList.delete k ks, Some v) \<and> map_of ks k = Some (v, f, p)
    \<and> (\<forall>k' v' f' p'. map_of ks k' = Some (v', f', p') \<longrightarrow> f \<le> f')
    \<and> sorted_wrt (<) (map fst bs') \<and> (\<forall>b\<in>set bs'. snd b \<noteq> []) \<and> bucket_nodes bs' \<subseteq> bucket_nodes bs
    \<and> (\<forall>k' v' f' p'. k' \<noteq> k \<and> map_of ks k' = Some (v', f', p') \<longrightarrow> (f', p', k') \<in> bucket_nodes bs')"
proof (induction bs ks rule: lfu_evict.induct)
  case (1 ks)
  then obtain k v f p where "map_of ks k = Some (v, f, p)" by (cases ks) force+
  then show ?case using 1(3) by (auto simp: nodes_ok_def)
next
  case (2 f bs ks)
  then show ?case by simp
next
  case (3 f pos k items bs ks)
  define bs' where "bs' = (if items = [] then bs else (f, items) # bs)"
  have n: "bucket_nodes ((f, (pos, k) # items) # bs) = insert (f, pos, k) (bucket_nodes bs')" by (auto simp: bs'_def)
  have ok: "snd d = (f', p')" if "(f', p', k') \<in> insert (f, pos, k) (bucket_nodes bs')" "map_of ks k' = Some d" for f' p' k' d
    using 3(4) that unfolding nodes_ok_def n by blast
  have ok': "(f', p', k') \<in> insert (f, pos, k) (bucket_nodes bs')" if "map_of ks k' = Some (v', f', p')" for f' p' k' v'
    using 3(4) that unfolding nodes_ok_def n by blast
  have s: "sorted_wrt (<) (map fst bs')" "\<forall>b\<in>set bs'. snd b \<noteq> []" using 3(2,3) by (auto simp: bs'_def)
  have least: "f \<le> f'" if "(f', x) \<in> insert (f, pos, k) (bucket_nodes bs')" for f' x
    using bucket_nodes_freq [OF that [folded n]] 3(2) by auto
  show ?case
  proof (cases "map_of ks k")
    case None
    have e: "lfu_evict ((f, (pos, k) # items) # bs) ks = lfu_evict bs' ks" using None by (simp add: bs'_def)
    have "nodes_ok bs' ks" using ok ok' None unfolding nodes_ok_def by (metis insertCI insertE option.distinct(1) prod.inject)
    from 3(1) [OF bs'_def None s this 3(5)] show ?thesis
      unfolding e n by (elim exE conjE, intro exI conjI) (assumption | erule subset_insertI2)+
  next
    case (Some d)
    then have d: "map_of ks k = Some (fst d, f, pos)" using ok [of f pos k d] by (metis insertI1 prod.collapse)
    have "(f', p', k') \<in> bucket_nodes bs'" if "k' \<noteq> k" "map_of ks k' = Some (v', f', p')" for k' v' f' p'
      using ok' [OF that(2)] that(1) by auto
    moreover have "f \<le> f'" if "map_of ks k' = Some (v', f', p')" for k' v' f' p' using least ok' [OF that] by blast
    moreover have "lfu_evict ((f, (pos, k) # items) # bs) ks = (bs', AList.delete k ks, Some (fst d))"
      using Some by (simp add: bs'_def)
    ultimately show ?thesis
      using d s unfolding n
      by (intro exI [of _ bs'] exI [of _ k] exI [of _ "fst d"] exI [of _ f] exI [of _ pos] conjI subset_insertI) blast+
  qed
qed

lemma bucket_move_nodes:
  "sorted_wrt (<) (map fst bs) \<Longrightarrow> fq \<in> fst ` set bs \<Longrightarrow>
   bucket_nodes (bucket_move fq pos x bs) = insert (fq + 1, x) {(f, y) \<in> bucket_nodes bs. \<not> (f = fq \<and> fst y = pos)}"
proof (induction fq pos x bs rule: bucket_move.induct)
  case (2 fq pos x f items bs)
  show ?case
  proof (cases "f = fq")
    case True
    have rest: "g > fq" if "(g, y) \<in> bucket_nodes bs" for g y using bucket_nodes_freq [OF that] 2(2) True by auto
    have "bucket_nodes (bucket_move fq pos x ((f, items) # bs)) =
        Pair fq ` set (filter (\<lambda>e. fst e \<noteq> pos) items) \<union> insert (fq + 1, x) (bucket_nodes bs)"
      using True by (auto simp: Let_def bucket_append_nodes filter_empty_conv)
    then show ?thesis using rest True by auto
  next
    case False
    then show ?thesis using 2 by auto
  qed
qed simp

lemma bucket_move_sorted:
  "sorted_wrt (<) (map fst bs) \<Longrightarrow> \<forall>b\<in>set bs. snd b \<noteq> [] \<and> 0 < fst b \<and> m \<le> fst b \<Longrightarrow>
   sorted_wrt (<) (map fst (bucket_move fq pos x bs)) \<and> (\<forall>b\<in>set (bucket_move fq pos x bs). snd b \<noteq> [] \<and> 0 < fst b \<and> m \<le> fst b)"
proof (induction fq pos x bs arbitrary: m rule: bucket_move.induct)
  case (2 fq pos x f items bs)
  have rest: "sorted_wrt (<) (map fst bs)" "\<forall>b\<in>set bs. snd b \<noteq> [] \<and> 0 < fst b" "\<forall>b\<in>set bs. f + 1 \<le> fst b"
    using 2(2,3) by auto
  show ?case
  proof (cases "f = fq")
    case True
    have "sorted_wrt (<) (map fst (bucket_append (fq + 1) x bs)) \<and>
        (\<forall>b\<in>set (bucket_append (fq + 1) x bs). snd b \<noteq> [] \<and> 0 < fst b \<and> fq + 1 \<le> fst b)"
      by (rule bucket_append_front) (use rest True in auto)
    then show ?thesis using True 2(3) by (auto simp: Let_def Suc_le_eq intro: less_imp_le order.trans)
  next
    case False
    then show ?thesis using 2(1) [OF False rest(1), of "f + 1"] rest 2(3) by fastforce
  qed
qed simp

lemma length_update_existing: "k \<in> fst ` set xs \<Longrightarrow> length (AList.update k v xs) = length xs"
  by (induction xs) auto

lemma length_delete_existing: "distinct (map fst xs) \<Longrightarrow> k \<in> fst ` set xs \<Longrightarrow> length (AList.delete k xs) + 1 = length xs"
proof -
  assume "distinct (map fst xs)" "k \<in> fst ` set xs"
  moreover have "AList.delete k xs = filter (\<lambda>e. fst e \<noteq> k) xs" by (induction xs) auto
  ultimately show ?thesis using length_filter_key [of xs k] by simp
qed

lemma lfu_increment_inv:
  assumes "lfu_inv cap c" and "map_of (lfu_keys c) k = Some d"
  shows "lfu_inv cap (lfu_increment k d c)"
proof -
  obtain v fq pos where d: "d = (v, fq, pos)" by (rule prod_cases3)
  let ?bs = "lfu_buckets c" and ?ks = "lfu_keys c" and ?n = "lfu_next c"
  have I: "sorted_wrt (<) (map fst ?bs)" "\<forall>b\<in>set ?bs. snd b \<noteq> [] \<and> 0 < fst b \<and> 0 \<le> fst b" "\<And>f p k. (f, p, k) \<in> bucket_nodes ?bs \<Longrightarrow> p < ?n"
    "\<And>f p k f' k'. (f, p, k) \<in> bucket_nodes ?bs \<Longrightarrow> (f', p, k') \<in> bucket_nodes ?bs \<Longrightarrow> f = f' \<and> k = k'"
    "distinct (map fst ?ks)" "lfu_capacity c + length ?ks = cap"
    "\<And>f p k d. (f, p, k) \<in> bucket_nodes ?bs \<Longrightarrow> map_of ?ks k = Some d \<Longrightarrow> snd d = (f, p)"
    "\<And>k v f p. map_of ?ks k = Some (v, f, p) \<Longrightarrow> (f, p, k) \<in> bucket_nodes ?bs"
    using assms(1) unfolding lfu_inv_def nodes_ok_def by blast+
  have node: "(fq, pos, k) \<in> bucket_nodes ?bs" using I(8) assms(2) by (simp add: d)
  let ?bs' = "bucket_move fq pos (?n, k) ?bs" and ?ks' = "AList.update k (v, fq + 1, ?n) ?ks"
  have nodes: "bucket_nodes ?bs' = insert (fq + 1, ?n, k) {(f, y) \<in> bucket_nodes ?bs. \<not> (f = fq \<and> fst y = pos)}"
    by (rule bucket_move_nodes [OF I(1) bucket_nodes_freq [OF node]])
  have up: "map_of ?ks' = (map_of ?ks)(k \<mapsto> (v, fq + 1, ?n))" by (simp add: update_conv')
  have other: "(f, p, k') \<in> bucket_nodes ?bs' \<Longrightarrow> k' \<noteq> k \<or> f = fq + 1 \<and> p = ?n" for f p k'
    using I(7) [of f p k' d] assms(2) nodes by (auto simp: d)
  have "nodes_ok ?bs' ?ks'"
    unfolding nodes_ok_def up
  proof (intro conjI allI impI)
    fix f p k' d' assume "(f, p, k') \<in> bucket_nodes ?bs' \<and> ((map_of ?ks)(k \<mapsto> (v, fq + 1, ?n))) k' = Some d'"
    then show "snd d' = (f, p)" using other [of f p k'] I(7) [of f p k' d'] nodes by (auto split: if_splits)
  next
    fix k' v' f p assume a: "((map_of ?ks)(k \<mapsto> (v, fq + 1, ?n))) k' = Some (v', f, p)"
    show "(f, p, k') \<in> bucket_nodes ?bs'"
    proof (cases "k' = k")
      case False
      then show ?thesis using a I(8) [of k' v' f p] I(4) [OF node, of f k'] nodes by auto
    qed (use a nodes in auto)
  qed
  moreover have "length ?ks' = length ?ks" using assms(2) by (intro length_update_existing) (force dest: map_of_SomeD)
  moreover have "distinct (map fst ?ks')" using I(5) by (simp add: distinct_update)
  moreover have "p < ?n + 1" if "(f, p, k') \<in> bucket_nodes ?bs'" for f p k' using that I(3) nodes by fastforce
  moreover have "f = f' \<and> k1 = k2" if "(f, p, k1) \<in> bucket_nodes ?bs'" "(f', p, k2) \<in> bucket_nodes ?bs'" for f f' p k1 k2
    using that I(3) [of f p k1] I(3) [of f' p k2] I(4) [of f p k1 f' k2] nodes by auto
  ultimately show ?thesis
    using bucket_move_sorted [OF I(1,2)] I(6) unfolding lfu_inv_def lfu_increment_def d by simp blast
qed

lemma lfu_erase_inv:
  assumes "lfu_inv cap c" and "cap < M64"
  shows "lfu_inv cap (fst (lfu_erase k c))"
proof (cases "map_of (lfu_keys c) k")
  case (Some d)
  then have k: "k \<in> fst ` set (lfu_keys c)" by (force dest: map_of_SomeD)
  have "lfu_capacity c + length (lfu_keys c) = cap" and dist: "distinct (map fst (lfu_keys c))" using assms(1) by (auto simp: lfu_inv_def)
  then have "add64 (lfu_capacity c) 1 + length (AList.delete k (lfu_keys c)) = cap"
    using length_delete_existing [OF dist k] assms(2) by (simp add: add64_eq)
  moreover have "distinct (map fst (AList.delete k (lfu_keys c)))" using dist by (rule distinct_delete)
  ultimately show ?thesis using assms(1) Some by (auto simp: lfu_inv_def lfu_erase_def nodes_ok_def delete_conv' split: if_splits)
qed (use assms in \<open>simp add: lfu_erase_def\<close>)

lemma nodes_ok_delete:
  assumes "nodes_ok bs ks" and "bucket_nodes bs' \<subseteq> bucket_nodes bs"
    and "\<forall>k' v f p. k' \<noteq> k \<and> map_of ks k' = Some (v, f, p) \<longrightarrow> (f, p, k') \<in> bucket_nodes bs'"
  shows "nodes_ok bs' (AList.delete k ks)"
  using assms unfolding nodes_ok_def delete_conv' by (simp add: fun_upd_apply) blast

text \<open>Inserting a key that is neither in the table nor left behind in a bucket.\<close>

lemma lfu_put_non_existing_inv:
  assumes inv: "lfu_inv cap c" and new: "k \<notin> lfu_known c"
  defines "freq \<equiv> (lfu_freq c)(k \<mapsto> 1)"
  shows "\<exists>c' r. lfu_put_non_existing k v c = (c', r) \<and> lfu_inv cap c' \<and>
    (if 0 < lfu_capacity c then r = None \<and> lfu_freq c' = freq
     else \<exists>k' n. r \<noteq> None \<and> freq k' = Some n \<and> (\<forall>k'' n'. freq k'' = Some n' \<longrightarrow> n \<le> n') \<and> lfu_freq c' = freq(k' := None))"
proof -
  let ?bs = "lfu_buckets c" and ?ks = "lfu_keys c" and ?n = "lfu_next c"
  have I: "sorted_wrt (<) (map fst ?bs)" "\<forall>b\<in>set ?bs. snd b \<noteq> [] \<and> 0 < fst b" "\<And>f p k. (f, p, k) \<in> bucket_nodes ?bs \<Longrightarrow> p < ?n"
    "\<And>f p k f' k'. (f, p, k) \<in> bucket_nodes ?bs \<Longrightarrow> (f', p, k') \<in> bucket_nodes ?bs \<Longrightarrow> f = f' \<and> k = k'"
    "distinct (map fst ?ks)" "lfu_capacity c + length ?ks = cap" "nodes_ok ?bs ?ks"
    using inv unfolding lfu_inv_def by blast+
  have nk: "(f, p, k) \<notin> bucket_nodes ?bs" for f p using new by (force simp: lfu_known_def)
  have none: "map_of ?ks k = None"
  proof (rule ccontr)
    assume "map_of ?ks k \<noteq> None"
    then obtain w f p where "map_of ?ks k = Some (w, f, p)" by auto
    then show False using I(7) nk [of f p] unfolding nodes_ok_def by blast
  qed
  let ?bs1 = "bucket_append 1 (?n, k) ?bs"
  define ks1 where "ks1 = ?ks @ [(k, v, 1, ?n)]"
  have nodes: "bucket_nodes ?bs1 = insert (1, ?n, k) (bucket_nodes ?bs)" by (rule bucket_append_nodes)
  have ks1: "map_of ks1 = (map_of ?ks)(k \<mapsto> (v, 1, ?n))" using none by (auto simp: ks1_def map_add_def split: option.splits)
  have b1: "sorted_wrt (<) (map fst ?bs1)" "\<forall>b\<in>set ?bs1. snd b \<noteq> [] \<and> 0 < fst b"
    using bucket_append_front [OF I(1,2), of 1 "(?n, k)"] I(2) by (auto simp: Suc_le_eq)
  have ok1: "nodes_ok ?bs1 ks1" using I(7) nk unfolding nodes_ok_def nodes ks1 by (auto split: if_splits)
  have d1: "distinct (map fst ks1)" using I(5) none by (simp add: ks1_def map_of_eq_None_iff)
  have pos1: "p < ?n + 1" if "(f, p, k') \<in> bucket_nodes ?bs1" for f p k' using that I(3) nodes by fastforce
  have uniq1: "f = f' \<and> k1 = k2" if "(f, p, k1) \<in> bucket_nodes ?bs1" "(f', p, k2) \<in> bucket_nodes ?bs1" for f f' p k1 k2
    using that I(3) [of f p k1] I(3) [of f' p k2] I(4) [of f p k1 f' k2] nodes by auto
  have fr: "freq k' = map_option (fst \<circ> snd) (map_of ks1 k')" for k' unfolding freq_def lfu_freq_def ks1 by simp
  have l1: "length ks1 = length ?ks + 1" by (simp add: ks1_def)
  have ne: "ks1 \<noteq> []" by (simp add: ks1_def)
  show ?thesis
  proof (cases "lfu_capacity c = 0")
    case False
    then have "lfu_put_non_existing k v c =
        (c\<lparr>lfu_capacity := lfu_capacity c - 1, lfu_keys := ks1, lfu_buckets := ?bs1, lfu_next := ?n + 1\<rparr>, None)"
      using none by (simp add: lfu_put_non_existing_def Let_def ks1_def)
    then show ?thesis
      using False b1 ok1 d1 pos1 uniq1 I(6) fr l1 by (auto simp: lfu_inv_def lfu_freq_def)
  next
    case True
    obtain bs' k' v' f p where e: "lfu_evict ?bs1 ks1 = (bs', AList.delete k' ks1, Some v')" "map_of ks1 k' = Some (v', f, p)"
      "\<forall>k'' v'' f' p'. map_of ks1 k'' = Some (v'', f', p') \<longrightarrow> f \<le> f'" "sorted_wrt (<) (map fst bs')" "\<forall>b\<in>set bs'. snd b \<noteq> []"
      "bucket_nodes bs' \<subseteq> bucket_nodes ?bs1"
      "\<forall>k'' v'' f' p'. k'' \<noteq> k' \<and> map_of ks1 k'' = Some (v'', f', p') \<longrightarrow> (f', p', k'') \<in> bucket_nodes bs'"
      using lfu_evict_least [OF b1(1) _ ok1 ne] b1(2) by blast
    let ?ks' = "AList.delete k' ks1"
    have "k' \<in> fst ` set ks1" using e(2) by (force dest: map_of_SomeD)
    then have len: "length ?ks' = length ?ks" using length_delete_existing [OF d1] l1 by simp
    have "nodes_ok bs' ?ks'" by (rule nodes_ok_delete [OF ok1 e(6,7)])
    moreover have "0 < fst b" if b: "b \<in> set bs'" for b
    proof -
      obtain x where "x \<in> set (snd b)" using e(5) b by (metis hd_in_set)
      then have "(fst b, x) \<in> bucket_nodes bs'" using b unfolding bucket_nodes_def by (metis (mono_tags, lifting) case_prodI mem_Collect_eq prod.collapse)
      then have "(fst b, x) \<in> bucket_nodes ?bs1" using e(6) by blast
      then show ?thesis using b1(2) bucket_nodes_freq by fastforce
    qed
    moreover have "distinct (map fst ?ks')" using d1 by (rule distinct_delete)
    moreover have "\<forall>f p k. (f, p, k) \<in> bucket_nodes bs' \<longrightarrow> p < ?n + 1" using pos1 e(6) by blast
    moreover have "\<forall>f p k f' k'. (f, p, k) \<in> bucket_nodes bs' \<and> (f', p, k') \<in> bucket_nodes bs' \<longrightarrow> f = f' \<and> k = k'"
      using uniq1 e(6) by blast
    ultimately have inv': "lfu_inv cap (c\<lparr>lfu_keys := ?ks', lfu_buckets := bs', lfu_next := ?n + 1\<rparr>)"
      using True e(4,5) len I(6) by (simp add: lfu_inv_def)
    have put: "lfu_put_non_existing k v c = (c\<lparr>lfu_keys := ?ks', lfu_buckets := bs', lfu_next := ?n + 1\<rparr>, Some v')"
      using True none e(1) by (simp add: lfu_put_non_existing_def Let_def ks1_def)
    have "freq k' = Some f" using e(2) fr by simp
    moreover have "f \<le> n'" if "freq k'' = Some n'" for k'' n' using that e(3) fr [of k''] by (cases "map_of ks1 k''") (auto, blast)
    moreover have "lfu_freq (c\<lparr>lfu_keys := ?ks', lfu_buckets := bs', lfu_next := ?n + 1\<rparr>) = freq(k' := None)"
      by (rule ext) (simp add: lfu_freq_def fr delete_conv')
    ultimately show ?thesis
      unfolding put using inv' True
      by (intro exI [of _ "c\<lparr>lfu_keys := ?ks', lfu_buckets := bs', lfu_next := ?n + 1\<rparr>"] exI [of _ "Some v'"] conjI refl) (simp_all, blast)
  qed
qed

text \<open>
  \<open>put_non_existing\<close> keeps the invariant of the LFU cache. While there is free capacity it only
  adds the key with frequency 1. When the cache is full it evicts, after adding the key, exactly
  one key whose frequency is minimal among all keys, the new one included.
\<close>

theorem lfu_put_evicts_least:
  assumes "lfu_inv cap c" and "k \<notin> lfu_known c" and "freq = (lfu_freq c)(k \<mapsto> 1)"
  shows "\<exists>c' r. lfu_put_non_existing k v c = (c', r) \<and> lfu_inv cap c' \<and>
    (if 0 < lfu_capacity c then r = None \<and> lfu_freq c' = freq
     else \<exists>k' n. r \<noteq> None \<and> freq k' = Some n \<and> (\<forall>k'' n'. freq k'' = Some n' \<longrightarrow> n \<le> n') \<and> lfu_freq c' = freq(k' := None))"
  unfolding assms(3) by (rule lfu_put_non_existing_inv [OF assms(1,2)])

lemma lfu_inv_new: "lfu_inv cap (lfu_new cap)"
  by (simp add: lfu_inv_def lfu_new_def nodes_ok_def)

definition sample_lfu :: "(nat, string) lfu" where
  "sample_lfu = lfu_use 1 (fst (lfu_put_non_existing 1 ''a'' (lfu_new 1)))"

theorem lfu_put_evicts_least_witness:
  "\<exists>c'. lfu_put_non_existing 2 ''b'' sample_lfu = (c', Some ''b'') \<and> lfu_inv 1 c' \<and> lfu_freq c' = [1 \<mapsto> 2]"
proof -
  define F :: "nat \<rightharpoonup> nat" where "F = [1 \<mapsto> 2, 2 \<mapsto> 1]"
  have s: "sample_lfu = \<lparr>lfu_capacity = 0, lfu_keys = [(1, ''a'', 2, 1)], lfu_buckets = [(2, [(1, 1)])], lfu_next = 2\<rparr>" by code_simp
  have i: "lfu_inv 1 sample_lfu" by (auto simp: s lfu_inv_def nodes_ok_def)
  have k: "2 \<notin> lfu_known sample_lfu" by (simp add: s lfu_known_def)
  have f: "(lfu_freq sample_lfu)(2 \<mapsto> 1) = F" by (auto simp: F_def s lfu_freq_def fun_eq_iff)
  have c0: "lfu_capacity sample_lfu = 0" by (simp add: s)
  obtain c' r k' n where c: "lfu_put_non_existing 2 ''b'' sample_lfu = (c', r)" "lfu_inv 1 c'"
    "F k' = Some n" "\<forall>k'' n'. F k'' = Some n' \<longrightarrow> n \<le> n'"
    "lfu_freq c' = F(k' := None)"
    using lfu_put_evicts_least [OF i k f [symmetric], of "''b''"] c0 by auto
  have "n \<le> 1" using c(4) [rule_format, of 2 1] by (simp add: F_def)
  then have "k' = 2" using c(3) by (auto simp: F_def split: if_splits)
  then have "lfu_freq c' = [1 \<mapsto> 2]" using c(5) by (auto simp: F_def fun_eq_iff)
  moreover have "snd (lfu_put_non_existing 2 ''b'' sample_lfu) = Some ''b''" by code_simp
  ultimately show ?thesis using c by auto
qed

text \<open>
  A full cache whose keys have all been used evicts the new key itself, in the call that inserts it.
\<close>

lemma lfu_full_rejects_new: "lfu_keys (fst (lfu_put_non_existing 2 ''b'' sample_lfu)) = lfu_keys sample_lfu"
  by code_simp

end
