(* ===== verification/Vrm_FragmentSet.thy ===== *)
theory Vrm_FragmentSet
  imports Vrm_View Vrm_Caches
begin

text \<open>
  The read cache in front of a storage group (\<open>storage/global/cache.cpp\<close>) and the set of
  fragments the deduplicator searches for known data (\<open>deduplicator/dedupe_set\<close>). The elements
  of the ordered set keep a pointer, a size and a prefix; comparing two elements with the same
  prefix reads their content through the cache. An iterator of the set is the number of its node.
  A search visits the elements in order up to the first one that is not less; which elements the
  library's search tree visits is not specified.
\<close>

subsection \<open>Procedures that may throw or not return\<close>

type_synonym ('s, 'a) proc = "'s \<Rightarrow> ('s \<times> 'a res) option"

definition bindP :: "('s, 'a) proc \<Rightarrow> ('a \<Rightarrow> ('s, 'b) proc) \<Rightarrow> ('s, 'b) proc" where
  "bindP m f = (\<lambda>s. case m s of
     None \<Rightarrow> None | Some (s', Inl e) \<Rightarrow> Some (s', Inl e) | Some (s', Inr x) \<Rightarrow> f x s')"

definition retP :: "'a \<Rightarrow> ('s, 'a) proc" where
  "retP x = (\<lambda>s. Some (s, Inr x))"

lemma proc_simps [simp]:
  "retP x s = Some (s, Inr x)"
  "m s = Some (s', Inr x) \<Longrightarrow> bindP m f s = f x s'"
  "m s = Some (s', Inl e) \<Longrightarrow> bindP m f s = Some (s', Inl e)"
  by (simp_all add: retP_def bindP_def)

subsection \<open>The read cache\<close>

type_synonym gcache = "(nat \<times> bytes) list"

definition gc_read :: "'v view_ops \<Rightarrow> 'v \<Rightarrow> size_t \<Rightarrow> nat \<Rightarrow> size_t \<Rightarrow> (gcache, bytes) proc" where
  "gc_read V v capacity ptr n c =
     (if n = 0 then Some (c, Inl Runtime_error)
      else case lru_get ptr c of
             (c', r) \<Rightarrow>
               (case (case r of Some b \<Rightarrow> if length b \<ge> n then Some b else None | None \<Rightarrow> None) of
                  Some b \<Rightarrow> Some (c', Inr b)
                | None \<Rightarrow>
                    (case vo_read V v ptr n of
                       None \<Rightarrow> None
                     | Some (Inl e) \<Rightarrow> Some (c', Inl e)
                     | Some (Inr b) \<Rightarrow> Some (lru_put capacity ptr b c', Inr b))))"

subsection \<open>Elements\<close>

definition PREFIX_SIZE :: size_t where "PREFIX_SIZE = 16"

record fs_element =
  fe_node :: nat
  fe_pointer :: nat
  fe_size :: nat
  fe_prefix :: bytes
  fe_data :: "bytes option"
  fe_hint_count :: int

definition fe_make :: "nat \<Rightarrow> bytes \<Rightarrow> nat \<Rightarrow> bytes option \<Rightarrow> fs_element" where
  "fe_make node data ptr d = \<lparr>fe_node = node, fe_pointer = ptr, fe_size = min (2 ^ 16 - 1) (length data),
     fe_prefix = take (min PREFIX_SIZE (length data)) data, fe_data = d, fe_hint_count = 0\<rparr>"

text \<open>Strings compare as unsigned bytes.\<close>

fun bytes_less :: "bytes \<Rightarrow> bytes \<Rightarrow> bool" where
  "bytes_less xs [] \<longleftrightarrow> False"
| "bytes_less [] (y # ys) \<longleftrightarrow> True"
| "bytes_less (x # xs) (y # ys) \<longleftrightarrow> (of_char x :: nat) < of_char y \<or> x = y \<and> bytes_less xs ys"

definition catch_frag :: "'v view_ops \<Rightarrow> 'v \<Rightarrow> size_t \<Rightarrow> fs_element \<Rightarrow> size_t \<Rightarrow> (gcache, bytes) proc" where
  "catch_frag V v capacity f n =
     (case fe_data f of Some d \<Rightarrow> retP (take n d) | None \<Rightarrow> gc_read V v capacity (fe_pointer f) n)"

definition fe_less :: "'v view_ops \<Rightarrow> 'v \<Rightarrow> size_t \<Rightarrow> fs_element \<Rightarrow> fs_element \<Rightarrow> (gcache, bool) proc" where
  "fe_less V v capacity e f =
     (if fe_prefix e \<noteq> fe_prefix f then retP (bytes_less (fe_prefix e) (fe_prefix f))
      else let n = min (fe_size e) (fe_size f)
           in bindP (catch_frag V v capacity e n) (\<lambda>s1.
              bindP (catch_frag V v capacity f n) (\<lambda>s2. retP (bytes_less s1 s2))))"

subsection \<open>The set\<close>

record frag_set =
  fs_elements :: "fs_element list"
  fs_lfu :: "(nat, nat) lfu"
  fs_lfu_headers :: "(nat, nat) lfu"
  fs_next :: nat

fun fs_lower_bound :: "'v view_ops \<Rightarrow> 'v \<Rightarrow> size_t \<Rightarrow> fs_element \<Rightarrow> fs_element list \<Rightarrow> (gcache, nat) proc" where
  "fs_lower_bound V v capacity f [] = retP 0"
| "fs_lower_bound V v capacity f (e # es) =
     bindP (fe_less V v capacity e f) (\<lambda>less.
       if less then bindP (fs_lower_bound V v capacity f es) (\<lambda>i. retP (Suc i)) else retP 0)"

record find_response =
  resp_low :: "(fragment \<times> bytes) option"
  resp_high :: "(fragment \<times> bytes) option"
  resp_hint :: "nat option"

definition hint_add :: "int \<Rightarrow> nat option \<Rightarrow> fs_element list \<Rightarrow> fs_element list" where
  "hint_add k hint es =
     (case hint of
        None \<Rightarrow> es
      | Some node \<Rightarrow> map (\<lambda>e. if fe_node e = node then e\<lparr>fe_hint_count := fe_hint_count e + k\<rparr> else e) es)"

text \<open>
  \<open>find\<close> returns the neighbours of the data and an iterator as a hint, which counts as a use of
  its element as long as it exists; counting a use of the end iterator is undefined in the source
  and has no effect here.
\<close>

definition fs_find :: "'v view_ops \<Rightarrow> 'v \<Rightarrow> size_t \<Rightarrow> bytes \<Rightarrow> (gcache \<times> frag_set, find_response) proc" where
  "fs_find V v capacity data = (\<lambda>(c, F).
     case fs_lower_bound V v capacity (fe_make 0 data 0 (Some data)) (fs_elements F) c of
       None \<Rightarrow> None
     | Some (c', Inl e) \<Rightarrow> Some ((c', F), Inl e)
     | Some (c', Inr i) \<Rightarrow>
         let es = fs_elements F;
             entry = (\<lambda>e. (mk_fragment (fe_pointer e) (fe_size e), fe_prefix e));
             hint = (if i < length es then Some (fe_node (es ! i)) else None)
         in Some ((c', F\<lparr>fs_elements := hint_add 1 hint es\<rparr>),
              Inr \<lparr>resp_low = (if 0 < i then Some (entry (es ! (i - 1))) else None),
                   resp_high = (if i < length es then Some (entry (es ! i)) else None),
                   resp_hint = hint\<rparr>))"

definition fs_remove :: "nat option \<Rightarrow> frag_set \<Rightarrow> frag_set" where
  "fs_remove itr F =
     (case itr of
        None \<Rightarrow> F
      | Some node \<Rightarrow> F\<lparr>fs_elements := filter (\<lambda>e. \<not> (fe_node e = node \<and> fe_hint_count e = 0)) (fs_elements F)\<rparr>)"

definition fs_lfu_put :: "bool \<Rightarrow> nat \<Rightarrow> nat \<Rightarrow> frag_set \<Rightarrow> frag_set" where
  "fs_lfu_put header ptr node F =
     (if header
      then (case lfu_put_non_existing ptr node (fs_lfu_headers F) of (l, r) \<Rightarrow> fs_remove r (F\<lparr>fs_lfu_headers := l\<rparr>))
      else (case lfu_put_non_existing ptr node (fs_lfu F) of (l, r) \<Rightarrow> fs_remove r (F\<lparr>fs_lfu := l\<rparr>)))"

definition fs_insert :: "'v view_ops \<Rightarrow> 'v \<Rightarrow> size_t \<Rightarrow> nat \<Rightarrow> bytes \<Rightarrow> bool \<Rightarrow> bool \<Rightarrow> (gcache \<times> frag_set, unit) proc" where
  "fs_insert V v capacity ptr data header hint = (\<lambda>(c, F).
     let f = fe_make (fs_next F) data ptr None; es = fs_elements F
     in case fs_lower_bound V v capacity f es c of
          None \<Rightarrow> None
        | Some (c1, Inl e) \<Rightarrow> Some ((c1, F), Inl e)
        | Some (c1, Inr i) \<Rightarrow>
            (case (if i < length es then fe_less V v capacity f (es ! i) c1 else Some (c1, Inr True)) of
               None \<Rightarrow> None
             | Some (c2, Inl e) \<Rightarrow> Some ((c2, F), Inl e)
             | Some (c2, Inr new) \<Rightarrow>
                 let F1 = (if new then F\<lparr>fs_elements := take i es @ f # drop i es, fs_next := fs_next F + 1\<rparr> else F);
                     res = (if new then f else es ! i)
                 in Some ((c2, if (if hint then fe_pointer res = ptr else new)
                               then fs_lfu_put header ptr (fe_node res) F1 else F1), Inr ())))"

definition fs_mark_deduplication :: "nat \<Rightarrow> frag_set \<Rightarrow> frag_set" where
  "fs_mark_deduplication ptr F = F\<lparr>fs_lfu := lfu_use ptr (fs_lfu F)\<rparr>"

definition fs_erase :: "nat \<Rightarrow> bool \<Rightarrow> frag_set \<Rightarrow> frag_set" where
  "fs_erase ptr header F =
     (if header then (case lfu_erase ptr (fs_lfu_headers F) of (l, r) \<Rightarrow> fs_remove r (F\<lparr>fs_lfu_headers := l\<rparr>))
      else (case lfu_erase ptr (fs_lfu F) of (l, r) \<Rightarrow> fs_remove r (F\<lparr>fs_lfu := l\<rparr>)))"

definition fs_size :: "frag_set \<Rightarrow> size_t" where
  "fs_size F = length (fs_elements F)"

definition fs_new :: "size_t \<Rightarrow> frag_set" where
  "fs_new capacity = \<lparr>fs_elements = [], fs_lfu = lfu_new capacity, fs_lfu_headers = lfu_new capacity, fs_next = 0\<rparr>"

subsection \<open>What the cache and the set know is true of the view\<close>

text \<open>
  \<open>snapshot\<close>: the range was allocated, and wherever a beginning of it is still referenced it
  holds these bytes. Deleted ranges may hold anything.
\<close>

definition snapshot :: "('v \<Rightarrow> nat \<Rightarrow> nat \<Rightarrow> bytes option) \<Rightarrow> ('v \<Rightarrow> nat \<Rightarrow> nat \<Rightarrow> bool) \<Rightarrow> 'v \<Rightarrow> nat \<Rightarrow> bytes \<Rightarrow> bool" where
  "snapshot vbytes live v p b \<longleftrightarrow> 0 < length b \<and> vbytes v p (length b) \<noteq> None
     \<and> (\<forall>k. 0 < k \<and> k \<le> length b \<and> live v p k \<longrightarrow> vbytes v p k = Some (take k b))"

definition cache_ok :: "('v \<Rightarrow> nat \<Rightarrow> nat \<Rightarrow> bytes option) \<Rightarrow> ('v \<Rightarrow> nat \<Rightarrow> nat \<Rightarrow> bool) \<Rightarrow> 'v \<Rightarrow> gcache \<Rightarrow> bool" where
  "cache_ok vbytes live v c \<longleftrightarrow> (\<forall>(p, b)\<in>set c. snapshot vbytes live v p b)"

definition element_ok :: "('v \<Rightarrow> nat \<Rightarrow> nat \<Rightarrow> bytes option) \<Rightarrow> ('v \<Rightarrow> nat \<Rightarrow> nat \<Rightarrow> bool) \<Rightarrow> 'v \<Rightarrow> fs_element \<Rightarrow> bool" where
  "element_ok vbytes live v e \<longleftrightarrow> (\<exists>b. snapshot vbytes live v (fe_pointer e) b \<and> fe_data e = None
     \<and> 0 < fe_size e \<and> fe_size e \<le> length b \<and> fe_prefix e = take PREFIX_SIZE b
     \<and> length (fe_prefix e) \<le> fe_size e)"

definition set_ok :: "('v \<Rightarrow> nat \<Rightarrow> nat \<Rightarrow> bytes option) \<Rightarrow> ('v \<Rightarrow> nat \<Rightarrow> nat \<Rightarrow> bool) \<Rightarrow> 'v \<Rightarrow> frag_set \<Rightarrow> bool" where
  "set_ok vbytes live v F \<longleftrightarrow> (\<forall>e\<in>set (fs_elements F). element_ok vbytes live v e)"

text \<open>A key of a search carries its data; an element of the set is backed by a snapshot.\<close>

definition comparable :: "('v \<Rightarrow> nat \<Rightarrow> nat \<Rightarrow> bytes option) \<Rightarrow> ('v \<Rightarrow> nat \<Rightarrow> nat \<Rightarrow> bool) \<Rightarrow> 'v \<Rightarrow> fs_element \<Rightarrow> bool" where
  "comparable vbytes live v e \<longleftrightarrow> 0 < fe_size e \<and> (fe_data e \<noteq> None \<or> element_ok vbytes live v e)"

lemma lru_put_entries: "set (lru_put cap k v xs) \<subseteq> insert (k, v) (set xs)"
  by (auto simp: lru_put_def touch_def split: option.splits dest: list.set_sel(2) [rotated])
    (metis list.sel(2) list.set_sel(2))+

lemma lru_get_entries: "lru_get k xs = (ys, r) \<Longrightarrow> set ys \<subseteq> set xs \<and> (\<forall>v. r = Some v \<longrightarrow> (k, v) \<in> set xs)"
  by (auto simp: lru_get_def touch_def split: option.splits dest: map_of_SomeD dest!: sym [of "Some _"])

text \<open>What a response of a search says about a fragment.\<close>

definition entry_ok :: "('v \<Rightarrow> nat \<Rightarrow> nat \<Rightarrow> bytes option) \<Rightarrow> ('v \<Rightarrow> nat \<Rightarrow> nat \<Rightarrow> bool) \<Rightarrow> 'v \<Rightarrow> (fragment \<times> bytes) option \<Rightarrow> bool" where
  "entry_ok vbytes live v x \<longleftrightarrow> (\<forall>f prefix. x = Some (f, prefix) \<longrightarrow>
     (\<exists>b. snapshot vbytes live v (pointer f) b \<and> 0 < fsize f \<and> fsize f \<le> length b \<and> prefix = take PREFIX_SIZE b
       \<and> length prefix \<le> fsize f))"

text \<open>Dropping elements and counting hints keep what is known.\<close>

lemma set_ok_elements:
  "set_ok vbytes live v F \<Longrightarrow> set (fs_elements F') \<subseteq> set (fs_elements F) \<Longrightarrow> set_ok vbytes live v F'"
  by (auto simp: set_ok_def)

lemma fs_remove_elements: "e \<in> set (fs_elements (fs_remove itr F)) \<Longrightarrow> e \<in> set (fs_elements F)"
  by (auto simp: fs_remove_def split: option.splits)

lemma fs_lfu_put_elements: "set (fs_elements (fs_lfu_put header ptr node F)) \<subseteq> set (fs_elements F)"
  by (auto simp: fs_lfu_put_def split: prod.splits dest!: fs_remove_elements)

lemma set_ok_erase: "set_ok vbytes live v F \<Longrightarrow> set_ok vbytes live v (fs_erase ptr header F)"
  by (rule set_ok_elements, assumption) (auto simp: fs_erase_def split: prod.splits dest!: fs_remove_elements)

lemma set_ok_mark: "set_ok vbytes live v F \<Longrightarrow> set_ok vbytes live v (fs_mark_deduplication ptr F)"
  by (simp add: set_ok_def fs_mark_deduplication_def)

lemma set_ok_hint:
  "set_ok vbytes live v F \<Longrightarrow> set_ok vbytes live v (F\<lparr>fs_elements := hint_add k h (fs_elements F)\<rparr>)"
  by (auto simp: set_ok_def hint_add_def element_ok_def split: option.splits)

context data_view
begin

lemma snapshot_extends:
  assumes "view_extends vbytes live v v'" and "snapshot vbytes live v p b"
  shows "snapshot vbytes live v' p b"
proof -
  obtain x where x: "vbytes v p (length b) = Some x" using assms(2) by (auto simp: snapshot_def)
  have e: "vbytes v' p k = vbytes v p k \<and> live v' p k = live v p k" if "0 < k" "k \<le> length b" for k
    using bytes_prefix [OF x that] assms(1) unfolding view_extends_def by metis
  show ?thesis using assms(2) e [of "length b"] e by (auto simp: snapshot_def)
qed

lemma snapshot_bytes: "vbytes v p (length b) = Some b \<Longrightarrow> 0 < length b \<Longrightarrow> snapshot vbytes live v p b"
  using bytes_prefix [of v p "length b" b] by (auto simp: snapshot_def)

lemma gc_read_ok:
  assumes "vinv v" and "cache_ok vbytes live v c" and "snapshot vbytes live v p b0" and "0 < n" and "n \<le> length b0"
  shows "\<exists>c' b. gc_read V v cap p n c = Some (c', Inr b) \<and> cache_ok vbytes live v c' \<and> snapshot vbytes live v p b \<and> n \<le> length b"
proof -
  obtain c1 r where g: "lru_get p c = (c1, r)" by force
  have c1: "cache_ok vbytes live v c1" using lru_get_entries [OF g] assms(2) by (auto simp: cache_ok_def)
  show ?thesis
  proof (cases "\<exists>b. r = Some b \<and> n \<le> length b")
    case True
    then obtain b where "r = Some b" "n \<le> length b" by blast
    then show ?thesis using g c1 assms(2,4) lru_get_entries [OF g] by (auto simp: gc_read_def cache_ok_def)
  next
    case False
    obtain x where "vbytes v p (length b0) = Some x" using assms(3) by (auto simp: snapshot_def)
    then obtain b where b: "vbytes v p n = Some b" using bytes_prefix assms(4,5) by blast
    then have l: "length b = n" by (rule bytes_length)
    then have s: "snapshot vbytes live v p b" using b assms(4) by (intro snapshot_bytes) simp_all
    then have "cache_ok vbytes live v (lru_put cap p b c1)"
      using c1 lru_put_entries [of cap p b c1] by (auto simp: cache_ok_def)
    moreover have "gc_read V v cap p n c = Some (lru_put cap p b c1, Inr b)"
      using g False assms(4) read_law [OF assms(1) b] by (auto simp: gc_read_def split: option.splits)
    ultimately show ?thesis using s l by auto
  qed
qed

lemma catch_frag_ok:
  assumes "vinv v" and "cache_ok vbytes live v c" and "comparable vbytes live v e" and "0 < n" and "n \<le> fe_size e"
  shows "\<exists>c' s. catch_frag V v cap e n c = Some (c', Inr s) \<and> cache_ok vbytes live v c'"
proof (cases "fe_data e")
  case None
  then obtain b where "snapshot vbytes live v (fe_pointer e) b" "fe_size e \<le> length b"
    using assms(3) by (auto simp: comparable_def element_ok_def)
  then show ?thesis using gc_read_ok [OF assms(1,2) _ assms(4), of "fe_pointer e" b cap] None assms(5) by (auto simp: catch_frag_def)
qed (use assms(2) in \<open>auto simp: catch_frag_def\<close>)

lemma fe_less_ok:
  assumes "vinv v" and "cache_ok vbytes live v c" and "comparable vbytes live v e" and "comparable vbytes live v f"
  shows "\<exists>c' x. fe_less V v cap e f c = Some (c', Inr x) \<and> cache_ok vbytes live v c'"
proof (cases "fe_prefix e = fe_prefix f")
  case True
  let ?n = "min (fe_size e) (fe_size f)"
  have n: "0 < ?n" using assms(3,4) by (simp add: comparable_def)
  obtain c1 s1 where 1: "catch_frag V v cap e ?n c = Some (c1, Inr s1)" "cache_ok vbytes live v c1"
    using catch_frag_ok [OF assms(1-3) n, of cap] by auto
  obtain c2 s2 where 2: "catch_frag V v cap f ?n c1 = Some (c2, Inr s2)" "cache_ok vbytes live v c2"
    using catch_frag_ok [OF assms(1) 1(2) assms(4) n, of cap] by auto
  then show ?thesis using 1 True by (simp add: fe_less_def Let_def)
qed (use assms(2) in \<open>simp add: fe_less_def\<close>)

lemma fs_lower_bound_ok:
  "vinv v \<Longrightarrow> cache_ok vbytes live v c \<Longrightarrow> \<forall>e\<in>set es. comparable vbytes live v e \<Longrightarrow> comparable vbytes live v f \<Longrightarrow>
   \<exists>c' i. fs_lower_bound V v cap f es c = Some (c', Inr i) \<and> cache_ok vbytes live v c' \<and> i \<le> length es"
proof (induction es arbitrary: c)
  case (Cons e es)
  obtain c1 x where 1: "fe_less V v cap e f c = Some (c1, Inr x)" "cache_ok vbytes live v c1"
    using fe_less_ok [OF Cons.prems(1,2) _ Cons.prems(4), of e cap] Cons.prems(3) by auto
  show ?case
  proof (cases x)
    case True
    obtain c2 i where "fs_lower_bound V v cap f es c1 = Some (c2, Inr i)" "cache_ok vbytes live v c2" "i \<le> length es"
      using Cons.IH [OF Cons.prems(1) 1(2) _ Cons.prems(4)] Cons.prems(3) by auto
    then show ?thesis using 1 True by simp
  qed (use 1 in simp)
qed simp

lemma set_ok_comparable: "set_ok vbytes live v F \<Longrightarrow> \<forall>e\<in>set (fs_elements F). comparable vbytes live v e"
  by (auto simp: set_ok_def comparable_def element_ok_def)

lemma fs_find_ok:
  assumes "vinv v" and "cache_ok vbytes live v c" and "set_ok vbytes live v F" and "data \<noteq> []"
  shows "\<exists>c' F' r. fs_find V v cap data (c, F) = Some ((c', F'), Inr r) \<and> cache_ok vbytes live v c' \<and> set_ok vbytes live v F'
    \<and> entry_ok vbytes live v (resp_low r) \<and> entry_ok vbytes live v (resp_high r)"
proof -
  have k: "comparable vbytes live v (fe_make 0 data 0 (Some data))" using assms(4) by (simp add: comparable_def fe_make_def)
  obtain c' i where "fs_lower_bound V v cap (fe_make 0 data 0 (Some data)) (fs_elements F) c = Some (c', Inr i)"
    "cache_ok vbytes live v c'" "i \<le> length (fs_elements F)"
    using fs_lower_bound_ok [OF assms(1,2) set_ok_comparable [OF assms(3)] k, of cap] by auto
  moreover have "entry_ok vbytes live v (Some (mk_fragment (fe_pointer e) (fe_size e), fe_prefix e))" if "e \<in> set (fs_elements F)" for e
    using that assms(3) by (auto simp: set_ok_def element_ok_def entry_ok_def)
  moreover have "entry_ok vbytes live v None" by (simp add: entry_ok_def)
  ultimately show ?thesis using set_ok_hint [OF assms(3)] by (auto simp: fs_find_def Let_def)
qed

lemma fs_insert_ok:
  assumes "vinv v" and "cache_ok vbytes live v c" and "set_ok vbytes live v F"
    and "vbytes v ptr (length data) = Some data" and "data \<noteq> []"
  shows "\<exists>c' F'. fs_insert V v cap ptr data header hint (c, F) = Some ((c', F'), Inr ())
    \<and> cache_ok vbytes live v c' \<and> set_ok vbytes live v F'"
proof -
  define f where "f = fe_make (fs_next F) data ptr None"
  have f: "element_ok vbytes live v f"
    using snapshot_bytes [OF assms(4)] assms(5) by (auto simp: f_def element_ok_def fe_make_def min_def PREFIX_SIZE_def intro!: exI [of _ data])
  then have cf: "comparable vbytes live v f" by (auto simp: comparable_def element_ok_def)
  obtain c1 i where 1: "fs_lower_bound V v cap f (fs_elements F) c = Some (c1, Inr i)" "cache_ok vbytes live v c1" "i \<le> length (fs_elements F)"
    using fs_lower_bound_ok [OF assms(1,2) set_ok_comparable [OF assms(3)] cf, of cap] by auto
  have "\<exists>c2 new. (if i < length (fs_elements F) then fe_less V v cap f (fs_elements F ! i) c1 else Some (c1, Inr True)) = Some (c2, Inr new)
      \<and> cache_ok vbytes live v c2"
    using fe_less_ok [OF assms(1) 1(2) cf, of "fs_elements F ! i" cap] set_ok_comparable [OF assms(3)] 1(2) by auto
  then obtain c2 new where 2: "(if i < length (fs_elements F) then fe_less V v cap f (fs_elements F ! i) c1 else Some (c1, Inr True)) = Some (c2, Inr new)"
    "cache_ok vbytes live v c2" by blast
  define F1 where "F1 = (if new then F\<lparr>fs_elements := take i (fs_elements F) @ f # drop i (fs_elements F), fs_next := fs_next F + 1\<rparr> else F)"
  have F1: "set_ok vbytes live v F1"
    using assms(3) f by (auto simp: F1_def set_ok_def dest: in_set_takeD in_set_dropD)
  have "set_ok vbytes live v (fs_lfu_put header ptr node F1)" for node
    by (rule set_ok_elements [OF F1 fs_lfu_put_elements])
  with F1 1 2 show ?thesis
    unfolding fs_insert_def f_def [symmetric] Let_def prod.case by (cases new; cases hint) (simp_all add: F1_def)
qed

end

end
