(* ===== verification/Vrm_Dedup.thy ===== *)
theory Vrm_Dedup
  imports Vrm_FragmentSet
begin

text \<open>
  The deduplicator: the list of fragments an upload is cut into (\<open>deduplicator/fragmentation.cpp\<close>),
  the search that cuts it (\<open>deduplicator/interfaces/local_deduplicator.cpp\<close>), and the variant that
  writes everything (\<open>noop_deduplicator.cpp\<close>). The worker pool runs one job after the other here.
  The main result is the round trip: the address a deduplication returns holds the uploaded data.
\<close>

subsection \<open>Fragments of an upload\<close>

datatype frag_type = STORED | UNSTORED

text \<open>The hint of a fragment is absent (\<open>None\<close>), the end of the set (\<open>Some None\<close>) or a node of it.\<close>

record dd_fragment =
  dd_type :: frag_type
  dd_data :: bytes
  dd_header :: bool
  dd_pointer :: nat
  dd_size :: size_t
  dd_hint :: "nat option option"
  dd_addr :: address

record fragmentation =
  fr_frags :: "dd_fragment list"
  fr_offsets :: "size_t list"
  fr_effective :: size_t
  fr_unstored :: size_t
  fr_buffer_address :: address

definition fragmentation_new :: fragmentation where
  "fragmentation_new = \<lparr>fr_frags = [], fr_offsets = [], fr_effective = 0, fr_unstored = 0, fr_buffer_address = []\<rparr>"

definition push_stored :: "nat \<Rightarrow> size_t \<Rightarrow> bytes \<Rightarrow> bool \<Rightarrow> fragmentation \<Rightarrow> fragmentation" where
  "push_stored ptr n data header fr =
     (if data = [] then fr
      else fr\<lparr>fr_frags := fr_frags fr @ [\<lparr>dd_type = STORED, dd_data = data, dd_header = header,
                dd_pointer = ptr, dd_size = n, dd_hint = None, dd_addr = []\<rparr>]\<rparr>)"

definition push_unstored :: "bytes \<Rightarrow> bool \<Rightarrow> nat option option \<Rightarrow> fragmentation \<Rightarrow> fragmentation" where
  "push_unstored data header hint fr =
     fr\<lparr>fr_frags := fr_frags fr @ [\<lparr>dd_type = UNSTORED, dd_data = data, dd_header = header,
          dd_pointer = 0, dd_size = length data, dd_hint = hint, dd_addr = []\<rparr>],
        fr_effective := add64 (fr_effective fr) (length data),
        fr_unstored := add64 (fr_unstored fr) (length data)\<rparr>"

definition make_address :: "fragmentation \<Rightarrow> address" where
  "make_address fr = fold (\<lambda>f rv. case dd_type f of
     UNSTORED \<Rightarrow> append_address rv (dd_addr f) | STORED \<Rightarrow> push rv (mk_fragment (dd_pointer f) (dd_size f))) (fr_frags fr) []"

definition get_stored_fragments :: "fragmentation \<Rightarrow> address" where
  "get_stored_fragments fr = fold (\<lambda>f rv. case dd_type f of
     STORED \<Rightarrow> push rv (mk_fragment (dd_pointer f) (dd_size f)) | UNSTORED \<Rightarrow> rv) (fr_frags fr) []"

text \<open>The rejected fragments after the first one equal to a stored fragment.\<close>

fun after_match :: "dd_fragment \<Rightarrow> address \<Rightarrow> address option" where
  "after_match f [] = None"
| "after_match f (r # rs) =
     (if pointer r = dd_pointer f \<and> fsize r = dd_size f then Some rs else after_match f rs)"

fun reject_loop :: "dd_fragment list \<Rightarrow> address \<Rightarrow> size_t \<Rightarrow> size_t \<Rightarrow> frag_set
    \<Rightarrow> dd_fragment list \<times> size_t \<times> size_t \<times> frag_set" where
  "reject_loop [] rej eff uns F = ([], eff, uns, F)"
| "reject_loop (f # fs) rej eff uns F =
     (case (if dd_type f = STORED then after_match f rej else None) of
        None \<Rightarrow> (case reject_loop fs rej eff uns F of (fs', r) \<Rightarrow> (f # fs', r))
      | Some rej' \<Rightarrow>
          (case reject_loop fs rej' (add64 eff (length (dd_data f))) (add64 uns (length (dd_data f)))
                  (fs_erase (dd_pointer f) (dd_header f) F) of
             (fs', r) \<Rightarrow> (f\<lparr>dd_type := UNSTORED, dd_pointer := 0, dd_hint := None\<rparr> # fs', r)))"

definition handle_rejected_fragments :: "address \<Rightarrow> fragmentation \<Rightarrow> frag_set \<Rightarrow> fragmentation \<times> frag_set" where
  "handle_rejected_fragments addr fr F =
     (case reject_loop (fr_frags fr) addr (fr_effective fr) (fr_unstored fr) F of
        (fs, eff, uns, F') \<Rightarrow> (fr\<lparr>fr_frags := fs, fr_effective := eff, fr_unstored := uns\<rparr>, F'))"

subsection \<open>Writing what is not stored yet\<close>

fun buffer_loop :: "dd_fragment list \<Rightarrow> size_t \<Rightarrow> bytes \<Rightarrow> size_t list \<Rightarrow> bytes \<times> size_t list" where
  "buffer_loop [] offs buf offsets = (buf, offsets)"
| "buffer_loop (f # fs) offs buf offsets =
     (if dd_type f \<noteq> UNSTORED then buffer_loop fs offs buf offsets
      else buffer_loop fs (add64 offs (length (dd_data f))) (overwrite offs (dd_data f) buf) (offsets @ [offs]))"

definition unstored_to_buffer :: "fragmentation \<Rightarrow> bytes \<times> size_t list" where
  "unstored_to_buffer fr =
     buffer_loop (fr_frags fr) 0 (replicate (fr_unstored fr) (CHR 0x00)) (fr_offsets fr)"

text \<open>
  The address of one fragment, cut from the fragments the storage returned: \<open>n\<close> bytes are left,
  \<open>cur\<close> is the storage fragment in use and \<open>soff\<close> the number of its bytes that are taken, at most
  its size.
\<close>

function assign_loop :: "nat \<Rightarrow> fragment option \<Rightarrow> nat \<Rightarrow> address \<Rightarrow> address
    \<Rightarrow> (address \<times> fragment option \<times> nat \<times> address) res" where
  "assign_loop n cur soff rest acc =
     (if n = 0 then Inr (acc, cur, soff, rest)
      else case (case cur of
                   None \<Rightarrow> (case rest of [] \<Rightarrow> None | f # fs \<Rightarrow> Some (f, 0, fs))
                 | Some g \<Rightarrow> if soff = fsize g then (case rest of [] \<Rightarrow> None | f # fs \<Rightarrow> Some (f, 0, fs)) else Some (g, soff, rest)) of
             None \<Rightarrow> Inl Runtime_error
           | Some (f, s, fs) \<Rightarrow>
               let k = min (fsize f - s) n
               in if s + k > fsize f then Inl Out_of_range
                  else assign_loop (n - k) (Some f) (s + k) fs (push acc (mk_fragment (add128 (pointer f) s) k)))"
  by pat_completeness auto
termination
  by (relation "measure (\<lambda>(n, cur, soff, rest, acc). n + length rest)")
    (auto split: option.splits list.splits if_splits)

fun address_loop :: "dd_fragment list \<Rightarrow> fragment option \<Rightarrow> nat \<Rightarrow> address \<Rightarrow> dd_fragment list res" where
  "address_loop [] cur soff rest = Inr []"
| "address_loop (f # fs) cur soff rest =
     (if dd_type f \<noteq> UNSTORED then bindE (address_loop fs cur soff rest) (\<lambda>fs'. Inr (f # fs'))
      else bindE (assign_loop (length (dd_data f)) cur soff rest (dd_addr f)) (\<lambda>(a, cur', soff', rest').
           bindE (address_loop fs cur' soff' rest') (\<lambda>fs'. Inr (f\<lparr>dd_addr := a\<rparr> # fs'))))"

definition compute_unstored_addresses :: "fragmentation \<Rightarrow> fragmentation res" where
  "compute_unstored_addresses fr =
     bindE (address_loop (fr_frags fr) None 0 (fr_buffer_address fr)) (\<lambda>fs. Inr (fr\<lparr>fr_frags := fs\<rparr>))"

definition mark_as_uploaded :: "fragmentation \<Rightarrow> fragmentation" where
  "mark_as_uploaded fr = fr\<lparr>fr_unstored := 0\<rparr>"

subsection \<open>The deduplicator\<close>

record deduplicator_config =
  min_fragment_size :: size_t
  max_fragment_size :: size_t

record 'v local_deduplicator =
  ld_storage :: 'v
  ld_cache :: gcache
  ld_set :: frag_set

type_synonym 'v upload = "'v local_deduplicator \<times> fragmentation"

definition flush_storage :: "'v view_ops \<Rightarrow> ('v upload, unit) proc" where
  "flush_storage V = (\<lambda>(d, fr).
     if fr_unstored fr = 0 then Some ((d, fr), Inr ())
     else case unstored_to_buffer fr of
            (buf, offsets) \<Rightarrow>
              (case vo_write V (ld_storage d) buf offsets of
                 None \<Rightarrow> None
               | Some (v, Inl e) \<Rightarrow> Some ((d\<lparr>ld_storage := v\<rparr>, fr\<lparr>fr_offsets := offsets\<rparr>), Inl e)
               | Some (v, Inr a) \<Rightarrow>
                   let fr1 = fr\<lparr>fr_offsets := offsets, fr_buffer_address := a\<rparr>
                   in (case compute_unstored_addresses fr1 of
                         Inl e \<Rightarrow> Some ((d\<lparr>ld_storage := v\<rparr>, fr1), Inl e)
                       | Inr fr2 \<Rightarrow> Some ((d\<lparr>ld_storage := v\<rparr>, fr2), Inr ()))))"

text \<open>
  An unstored fragment without an address would be read out of bounds in the source; here it is an
  error (it does not occur: fragments are not empty).
\<close>

fun flush_loop :: "'v view_ops \<Rightarrow> 'v \<Rightarrow> size_t \<Rightarrow> dd_fragment list \<Rightarrow> (gcache \<times> frag_set, unit) proc" where
  "flush_loop V v capacity [] = retP ()"
| "flush_loop V v capacity (f # fs) =
     bindP (case dd_type f of
              STORED \<Rightarrow> (\<lambda>(c, F). Some ((c, fs_mark_deduplication (dd_pointer f) F), Inr ()))
            | UNSTORED \<Rightarrow>
                (case dd_addr f of
                   [] \<Rightarrow> (\<lambda>s. Some (s, Inl Out_of_range))
                 | a # _ \<Rightarrow> fs_insert V v capacity (pointer a) (take (fsize a) (dd_data f)) (dd_header f) (dd_hint f \<noteq> None)))
       (\<lambda>_. flush_loop V v capacity fs)"

definition on_set :: "(gcache \<times> frag_set, 'a) proc \<Rightarrow> ('v local_deduplicator, 'a) proc" where
  "on_set m d = (case m (ld_cache d, ld_set d) of
     None \<Rightarrow> None | Some ((c, F), r) \<Rightarrow> Some (d\<lparr>ld_cache := c, ld_set := F\<rparr>, r))"

definition flush_fragment_set :: "'v view_ops \<Rightarrow> size_t \<Rightarrow> ('v upload, unit) proc" where
  "flush_fragment_set V capacity = (\<lambda>(d, fr).
     if fr_unstored fr = 0 then Some ((d, fr), Inr ())
     else case on_set (flush_loop V (ld_storage d) capacity (fr_frags fr)) d of
            None \<Rightarrow> None
          | Some (d', Inl e) \<Rightarrow> Some ((d', fr), Inl e)
          | Some (d', Inr _) \<Rightarrow> Some ((d', mark_as_uploaded fr), Inr ()))"

fun largest_common_prefix :: "bytes \<Rightarrow> bytes \<Rightarrow> size_t" where
  "largest_common_prefix (x # xs) (y # ys) = (if x = y then Suc (largest_common_prefix xs ys) else 0)"
| "largest_common_prefix _ _ = 0"

definition match_size :: "'v view_ops \<Rightarrow> 'v \<Rightarrow> size_t \<Rightarrow> bytes \<Rightarrow> (fragment \<times> bytes) option \<Rightarrow> (gcache, size_t) proc" where
  "match_size V v capacity data frag =
     (case frag of
        None \<Rightarrow> retP 0
      | Some (f, prefix) \<Rightarrow>
          let common = largest_common_prefix prefix data
          in if common < length prefix then retP common
             else bindP (gc_read V v capacity (pointer f) (fsize f)) (\<lambda>complete c.
                    if common > length complete then Some (c, Inl Out_of_range)
                    else Some (c, Inr (common + largest_common_prefix (drop common data) (drop common complete)))))"

text \<open>
  One turn of the loop of \<open>deduplicate\<close>; the result is the number of bytes it consumes. A hint that
  is not handed to a fragment is released at the end of the turn.
\<close>

definition release_hint :: "nat option \<Rightarrow> 'v local_deduplicator \<Rightarrow> 'v local_deduplicator" where
  "release_hint h d = d\<lparr>ld_set := (ld_set d)\<lparr>fs_elements := hint_add (-1) h (fs_elements (ld_set d))\<rparr>\<rparr>"

definition dedupe_matches :: "'v view_ops \<Rightarrow> size_t \<Rightarrow> bytes \<Rightarrow> find_response \<Rightarrow> ('v local_deduplicator, size_t \<times> size_t) proc" where
  "dedupe_matches V capacity data f d =
     (case bindP (match_size V (ld_storage d) capacity data (resp_low f)) (\<lambda>low.
           bindP (match_size V (ld_storage d) capacity data (resp_high f)) (\<lambda>high. retP (low, high))) (ld_cache d) of
        None \<Rightarrow> None
      | Some (c, r) \<Rightarrow> Some (d\<lparr>ld_cache := c\<rparr>, r))"

definition dedupe_step :: "'v view_ops \<Rightarrow> deduplicator_config \<Rightarrow> size_t \<Rightarrow> bytes \<Rightarrow> size_t \<Rightarrow> ('v upload, size_t) proc" where
  "dedupe_step V conf capacity data offset = (\<lambda>(d, fr).
     case on_set (fs_find V (ld_storage d) capacity data) d of
       None \<Rightarrow> None
     | Some (d1, Inl e) \<Rightarrow> Some ((d1, fr), Inl e)
     | Some (d1, Inr f) \<Rightarrow>
         (case dedupe_matches V capacity data f d1 of
            None \<Rightarrow> None
          | Some (d2, Inl e) \<Rightarrow> Some ((release_hint (resp_hint f) d2, fr), Inl e)
          | Some (d2, Inr (low, high)) \<Rightarrow>
              let n = max low high
              in if n > min_fragment_size conf then
                   Some ((release_hint (resp_hint f) d2,
                     push_stored (pointer (fst (the (if low > high then resp_low f else resp_high f)))) n (take n data) (offset = 0) fr), Inr n)
                 else let k = min (length data) (max_fragment_size conf)
                      in Some ((d2, push_unstored (take k data) (offset = 0) (Some (resp_hint f)) fr), Inr k)))"

partial_function (option) dedupe_loop ::
  "'v view_ops \<Rightarrow> deduplicator_config \<Rightarrow> size_t \<Rightarrow> bytes \<Rightarrow> size_t \<Rightarrow> 'v upload \<Rightarrow> ('v upload \<times> unit res) option" where
  "dedupe_loop V conf capacity data offset s =
     (if data = [] then Some (s, Inr ())
      else case dedupe_step V conf capacity data offset s of
             None \<Rightarrow> None
           | Some (s', Inl e) \<Rightarrow> Some (s', Inl e)
           | Some (s', Inr n) \<Rightarrow> dedupe_loop V conf capacity (drop n data) (add64 offset n) s')"

definition link_stored :: "'v view_ops \<Rightarrow> ('v upload, unit) proc" where
  "link_stored V = (\<lambda>(d, fr).
     let stored = get_stored_fragments fr
     in if stored = [] then Some ((d, fr), Inr ())
        else case vo_link V (ld_storage d) stored of
               None \<Rightarrow> None
             | Some (v, Inl e) \<Rightarrow> Some ((d\<lparr>ld_storage := v\<rparr>, fr), Inl e)
             | Some (v, Inr rejected) \<Rightarrow>
                 if rejected = [] then Some ((d\<lparr>ld_storage := v\<rparr>, fr), Inr ())
                 else (case handle_rejected_fragments rejected fr (ld_set d) of
                         (fr', F) \<Rightarrow> Some ((d\<lparr>ld_storage := v, ld_set := F\<rparr>, fr'), Inr ())))"

text \<open>The fragments of the upload release their hints when they are destroyed, also when an error is thrown.\<close>

definition release_fragments :: "'v upload \<Rightarrow> 'v local_deduplicator" where
  "release_fragments = (\<lambda>(d, fr). fold (\<lambda>f d. case dd_hint f of Some h \<Rightarrow> release_hint h d | None \<Rightarrow> d) (fr_frags fr) d)"

definition deduplicate :: "'v view_ops \<Rightarrow> deduplicator_config \<Rightarrow> size_t \<Rightarrow> bytes \<Rightarrow> ('v local_deduplicator, dedupe_response) proc" where
  "deduplicate V conf capacity data d =
     (case bindP (dedupe_loop V conf capacity data 0) (\<lambda>_.
           bindP (link_stored V) (\<lambda>_.
           bindP (flush_storage V) (\<lambda>_.
           bindP (flush_fragment_set V capacity) (\<lambda>_ (d', fr).
             Some ((d', fr), Inr \<lparr>effective_size = fr_effective fr, daddr = make_address fr\<rparr>))))) (d, fragmentation_new) of
        None \<Rightarrow> None
      | Some (s, r) \<Rightarrow> Some (release_fragments s, r))"

definition noop_deduplicate :: "'v view_ops \<Rightarrow> bytes \<Rightarrow> ('v, dedupe_response) proc" where
  "noop_deduplicate V data v =
     (case vo_write V v data [0] of
        None \<Rightarrow> None
      | Some (v', Inl e) \<Rightarrow> Some (v', Inl e)
      | Some (v', Inr a) \<Rightarrow> Some (v', Inr \<lparr>effective_size = length data, daddr = a\<rparr>))"

subsection \<open>Searching\<close>

lemma largest_common_prefix_take:
  "take (largest_common_prefix a b) a = take (largest_common_prefix a b) b
   \<and> largest_common_prefix a b \<le> length a \<and> largest_common_prefix a b \<le> length b"
  by (induction a b rule: largest_common_prefix.induct) auto

definition ld_ok :: "('v \<Rightarrow> bool) \<Rightarrow> ('v \<Rightarrow> nat \<Rightarrow> nat \<Rightarrow> bytes option) \<Rightarrow> ('v \<Rightarrow> nat \<Rightarrow> nat \<Rightarrow> bool) \<Rightarrow> 'v local_deduplicator \<Rightarrow> bool" where
  "ld_ok vinv vbytes live d \<longleftrightarrow> vinv (ld_storage d) \<and> cache_ok vbytes live (ld_storage d) (ld_cache d)
     \<and> set_ok vbytes live (ld_storage d) (ld_set d)"

text \<open>A range that was found to match: it holds the data if it is still referenced.\<close>

definition matched :: "('v \<Rightarrow> nat \<Rightarrow> nat \<Rightarrow> bytes option) \<Rightarrow> ('v \<Rightarrow> nat \<Rightarrow> nat \<Rightarrow> bool) \<Rightarrow> 'v \<Rightarrow> nat \<Rightarrow> bytes \<Rightarrow> bool" where
  "matched vbytes live v p b \<longleftrightarrow> vbytes v p (length b) \<noteq> None \<and> (live v p (length b) \<longrightarrow> vbytes v p (length b) = Some b)"

definition unstored_bytes :: "dd_fragment list \<Rightarrow> bytes" where
  "unstored_bytes fs = concat (map dd_data (filter (\<lambda>f. dd_type f = UNSTORED) fs))"

definition stored_bytes :: "dd_fragment list \<Rightarrow> bytes" where
  "stored_bytes fs = concat (map dd_data (filter (\<lambda>f. dd_type f = STORED) fs))"

definition fr_ok :: "('v \<Rightarrow> nat \<Rightarrow> nat \<Rightarrow> bytes option) \<Rightarrow> ('v \<Rightarrow> nat \<Rightarrow> nat \<Rightarrow> bool) \<Rightarrow> 'v \<Rightarrow> fragmentation \<Rightarrow> bytes \<Rightarrow> bool" where
  "fr_ok vbytes live v fr data \<longleftrightarrow> concat (map dd_data (fr_frags fr)) = data
     \<and> (\<forall>f\<in>set (fr_frags fr). dd_data f \<noteq> [] \<and> dd_addr f = [] \<and> dd_size f = length (dd_data f)
          \<and> (dd_type f = STORED \<longrightarrow> matched vbytes live v (dd_pointer f) (dd_data f)))
     \<and> fr_unstored fr = length (unstored_bytes (fr_frags fr)) \<and> fr_effective fr = length (unstored_bytes (fr_frags fr))
     \<and> fr_offsets fr = []"

lemma unstored_bytes_simps [simp]:
  "unstored_bytes [] = []"
  "unstored_bytes (f # fs) = (if dd_type f = UNSTORED then dd_data f @ unstored_bytes fs else unstored_bytes fs)"
  "unstored_bytes (fs @ gs) = unstored_bytes fs @ unstored_bytes gs"
  by (simp_all add: unstored_bytes_def)

lemma stored_bytes_simps [simp]:
  "stored_bytes [] = []"
  "stored_bytes (f # fs) = (if dd_type f = STORED then dd_data f @ stored_bytes fs else stored_bytes fs)"
  by (simp_all add: stored_bytes_def)

lemma stored_unstored_length: "length (concat (map dd_data fs)) = length (stored_bytes fs) + length (unstored_bytes fs)"
  by (induction fs) (use frag_type.exhaust in auto)

lemma unstored_bytes_length: "length (unstored_bytes fs) \<le> length (concat (map dd_data fs))"
  by (simp add: stored_unstored_length)

lemma fr_ok_push_stored:
  assumes "fr_ok vbytes live v fr pre" and "0 < n" and "n \<le> length data" and "matched vbytes live v p (take n data)"
  shows "fr_ok vbytes live v (push_stored p n (take n data) h fr) (pre @ take n data)"
  using assms by (auto simp: fr_ok_def push_stored_def)

lemma fr_ok_push_unstored:
  assumes "fr_ok vbytes live v fr pre" and "0 < n" and "n \<le> length data" and "length pre + n < M64"
  shows "fr_ok vbytes live v (push_unstored (take n data) h hint fr) (pre @ take n data)"
  using assms unstored_bytes_length [of "fr_frags fr"] by (auto simp: fr_ok_def push_unstored_def add64_eq)

lemma ld_ok_release: "ld_ok vinv vbytes live d \<Longrightarrow> ld_ok vinv vbytes live (release_hint h d)"
  using set_ok_hint [of vbytes live "ld_storage d" "ld_set d"] by (simp add: ld_ok_def release_hint_def)

context data_view
begin

text \<open>A matched beginning and a snapshot that agrees with the data after it.\<close>

lemma matched_extend:
  assumes s: "snapshot vbytes live v p b" and m: "matched vbytes live v p (take k data)" and k: "0 < k"
    and l: "take l (drop k data) = take l (drop k b)" and d: "k + l \<le> length data" and b: "k + l \<le> length b"
  shows "matched vbytes live v p (take (k + l) data)"
proof -
  obtain x where "vbytes v p (length b) = Some x" using s by (auto simp: snapshot_def)
  then have n: "vbytes v p (k + l) \<noteq> None" using bytes_prefix [of v p "length b" x "k + l"] k b by simp
  have "vbytes v p (k + l) = Some (take (k + l) data)" if lv: "live v p (k + l)"
  proof -
    have "live v p k" using live_prefix [OF lv k] by simp
    then have "take k data = take k b" using s m k d b by (simp add: snapshot_def matched_def)
    then have "take (k + l) data = take (k + l) b" using l by (simp add: take_add)
    then show ?thesis using s lv k b by (simp add: snapshot_def)
  qed
  then show ?thesis using n d by (simp add: matched_def)
qed

lemma match_size_ok:
  assumes "vinv v" and "cache_ok vbytes live v c" and x: "entry_ok vbytes live v x" and d: "data \<noteq> []"
  shows "\<exists>c' m. match_size V v cap data x c = Some (c', Inr m) \<and> cache_ok vbytes live v c' \<and> m \<le> length data
    \<and> (0 < m \<longrightarrow> x \<noteq> None \<and> matched vbytes live v (pointer (fst (the x))) (take m data))"
proof (cases x)
  case (Some y)
  then obtain f prefix where y: "x = Some (f, prefix)" by (cases y) simp
  then obtain e where e: "snapshot vbytes live v (pointer f) e" "0 < fsize f" "fsize f \<le> length e" "prefix = take PREFIX_SIZE e"
    "length prefix \<le> fsize f" using x by (auto simp: entry_ok_def)
  define common where "common = largest_common_prefix prefix data"
  have cm: "common \<le> length data" "common \<le> length prefix" "common \<le> PREFIX_SIZE" "common \<le> length e"
    "take common data = take common prefix"
    using largest_common_prefix_take [of prefix data] e(4) by (auto simp: common_def)
  then have te: "take common data = take common e" using e(4) by (simp add: min_absorb1)
  have ce: "matched vbytes live v (pointer f) (take common data)" if "0 < common"
  proof -
    obtain b where "vbytes v (pointer f) (length e) = Some b" using e(1) by (auto simp: snapshot_def)
    then have "vbytes v (pointer f) common \<noteq> None" using bytes_prefix [of v "pointer f" "length e" b common] that cm e(4) by simp
    then show ?thesis using e(1,4) that cm te by (auto simp: matched_def snapshot_def)
  qed
  show ?thesis
  proof (cases "common < length prefix")
    case True
    then show ?thesis using y ce cm assms(2) by (simp add: match_size_def Let_def common_def [symmetric])
  next
    case False
    obtain c' b where r: "gc_read V v cap (pointer f) (fsize f) c = Some (c', Inr b)" "cache_ok vbytes live v c'"
      "snapshot vbytes live v (pointer f) b" "fsize f \<le> length b"
      using gc_read_ok [OF assms(1,2) e(1-3), of cap] by auto
    define l where "l = largest_common_prefix (drop common data) (drop common b)"
    have cb: "common \<le> length b" using False r(4) e(5) cm(2) by linarith
    have l: "take l (drop common data) = take l (drop common b)" "common + l \<le> length data" "common + l \<le> length b"
      using largest_common_prefix_take [of "drop common data" "drop common b"] cm(1) cb by (auto simp: l_def)
    have "0 < length prefix" using e(1,4) by (auto simp: PREFIX_SIZE_def snapshot_def)
    then have pos: "0 < common" using False by linarith
    have "matched vbytes live v (pointer f) (take (common + l) data)"
    proof (rule matched_extend [OF r(3) ce [OF pos] _ l(1,2,3)])
    qed (use pos cm in simp_all)
    then show ?thesis using y r False cb l(2) by (simp add: match_size_def Let_def common_def [symmetric] l_def [symmetric])
  qed
qed (use assms(2) in \<open>simp add: match_size_def\<close>)

lemma dedupe_matches_ok:
  assumes "ld_ok vinv vbytes live d" and "entry_ok vbytes live (ld_storage d) (resp_low f)"
    and "entry_ok vbytes live (ld_storage d) (resp_high f)" and "data \<noteq> []"
  shows "\<exists>c' low high. dedupe_matches V cap data f d = Some (d\<lparr>ld_cache := c'\<rparr>, Inr (low, high))
    \<and> ld_ok vinv vbytes live (d\<lparr>ld_cache := c'\<rparr>) \<and> max low high \<le> length data
    \<and> (0 < max low high \<longrightarrow>
         matched vbytes live (ld_storage d) (pointer (fst (the (if low > high then resp_low f else resp_high f)))) (take (max low high) data))"
proof -
  have inv: "vinv (ld_storage d)" "cache_ok vbytes live (ld_storage d) (ld_cache d)" using assms(1) by (auto simp: ld_ok_def)
  obtain c1 low where 1: "match_size V (ld_storage d) cap data (resp_low f) (ld_cache d) = Some (c1, Inr low)"
    "cache_ok vbytes live (ld_storage d) c1" "low \<le> length data"
    "0 < low \<longrightarrow> matched vbytes live (ld_storage d) (pointer (fst (the (resp_low f)))) (take low data)"
    using match_size_ok [OF inv assms(2,4), of cap] by auto
  obtain c2 high where 2: "match_size V (ld_storage d) cap data (resp_high f) c1 = Some (c2, Inr high)"
    "cache_ok vbytes live (ld_storage d) c2" "high \<le> length data"
    "0 < high \<longrightarrow> matched vbytes live (ld_storage d) (pointer (fst (the (resp_high f)))) (take high data)"
    using match_size_ok [OF inv(1) 1(2) assms(3,4), of cap] by auto
  have "dedupe_matches V cap data f d = Some (d\<lparr>ld_cache := c2\<rparr>, Inr (low, high))" using 1(1) 2(1) by (simp add: dedupe_matches_def)
  then show ?thesis using assms(1) 1(3,4) 2(2-4) by (auto simp: ld_ok_def max_def)
qed

lemma dedupe_step_ok:
  assumes "ld_ok vinv vbytes live d" and "data \<noteq> []" and "fr_ok vbytes live (ld_storage d) fr pre"
    and "length pre + length data < M64" and "0 < max_fragment_size conf"
  shows "\<exists>d' fr' n. dedupe_step V conf cap data offset (d, fr) = Some ((d', fr'), Inr n) \<and> 0 < n \<and> n \<le> length data
    \<and> ld_ok vinv vbytes live d' \<and> ld_storage d' = ld_storage d \<and> fr_ok vbytes live (ld_storage d) fr' (pre @ take n data)"
proof -
  let ?v = "ld_storage d"
  obtain c F f where f: "fs_find V ?v cap data (ld_cache d, ld_set d) = Some ((c, F), Inr f)"
    "cache_ok vbytes live ?v c" "set_ok vbytes live ?v F" "entry_ok vbytes live ?v (resp_low f)" "entry_ok vbytes live ?v (resp_high f)"
    using fs_find_ok [of ?v "ld_cache d" "ld_set d" data cap] assms(1,2) by (auto simp: ld_ok_def)
  define d1 where "d1 = d\<lparr>ld_cache := c, ld_set := F\<rparr>"
  have d1: "ld_ok vinv vbytes live d1" "ld_storage d1 = ?v" using assms(1) f(2,3) by (simp_all add: d1_def ld_ok_def)
  obtain c2 low high where m: "dedupe_matches V cap data f d1 = Some (d1\<lparr>ld_cache := c2\<rparr>, Inr (low, high))"
    "ld_ok vinv vbytes live (d1\<lparr>ld_cache := c2\<rparr>)" "max low high \<le> length data"
    "0 < max low high \<longrightarrow> matched vbytes live ?v (pointer (fst (the (if low > high then resp_low f else resp_high f)))) (take (max low high) data)"
    using dedupe_matches_ok [OF d1(1), of f data cap] d1(2) f(4,5) assms(2) by auto
  have step: "on_set (fs_find V ?v cap data) d = Some (d1, Inr f)" using f(1) by (simp add: on_set_def d1_def)
  show ?thesis
  proof (cases "max low high > min_fragment_size conf")
    case True
    then have "fr_ok vbytes live ?v (push_stored (pointer (fst (the (if low > high then resp_low f else resp_high f)))) (max low high)
        (take (max low high) data) (offset = 0) fr) (pre @ take (max low high) data)"
      using m(3,4) by (intro fr_ok_push_stored assms(3)) auto
    then show ?thesis using True step m(1,3) d1(2) ld_ok_release [OF m(2), of "resp_hint f"]
      by (simp add: dedupe_step_def Let_def release_hint_def)
  next
    case False
    let ?k = "min (length data) (max_fragment_size conf)"
    have k: "0 < ?k" "?k \<le> length data" using assms(2,5) by simp_all
    have "fr_ok vbytes live ?v (push_unstored (take ?k data) (offset = 0) (Some (resp_hint f)) fr) (pre @ take ?k data)"
      using k assms(4) by (intro fr_ok_push_unstored assms(3)) auto
    then show ?thesis using False step m(1,2) d1(2) k by (simp add: dedupe_step_def Let_def)
  qed
qed

text \<open>The search ends, and the fragments it finds are a cut of the data.\<close>

lemma dedupe_loop_ok:
  assumes "ld_ok vinv vbytes live d" and "fr_ok vbytes live (ld_storage d) fr pre"
    and "length pre + length data < M64" and "0 < max_fragment_size conf"
  shows "\<exists>d' fr'. dedupe_loop V conf cap data offset (d, fr) = Some ((d', fr'), Inr ()) \<and> ld_ok vinv vbytes live d'
    \<and> ld_storage d' = ld_storage d \<and> fr_ok vbytes live (ld_storage d) fr' (pre @ data)"
  using assms(1-3)
proof (induction "length data" arbitrary: data pre d fr offset rule: less_induct)
  case less
  show ?case
  proof (cases "data = []")
    case True
    then show ?thesis using less.prems by (subst dedupe_loop.simps) simp
  next
    case False
    obtain d1 fr1 n where s: "dedupe_step V conf cap data offset (d, fr) = Some ((d1, fr1), Inr n)" "0 < n" "n \<le> length data"
      "ld_ok vinv vbytes live d1" "ld_storage d1 = ld_storage d" "fr_ok vbytes live (ld_storage d1) fr1 (pre @ take n data)"
      using dedupe_step_ok [OF less.prems(1) False less.prems(2,3) assms(4), of cap offset] by auto
    have lt: "length (drop n data) < length data" using s(2,3) by simp
    obtain d2 fr2 where "dedupe_loop V conf cap (drop n data) (add64 offset n) (d1, fr1) = Some ((d2, fr2), Inr ())"
      "ld_ok vinv vbytes live d2" "ld_storage d2 = ld_storage d" "fr_ok vbytes live (ld_storage d) fr2 (pre @ data)"
      using less.hyps [OF lt, of d1 fr1 "pre @ take n data" "add64 offset n"] s less.prems(3) by auto
    then show ?thesis using False s(1) by (subst dedupe_loop.simps) simp
  qed
qed

end

subsection \<open>Linking what is stored\<close>

definition frag_of :: "dd_fragment \<Rightarrow> fragment" where
  "frag_of f = mk_fragment (dd_pointer f) (dd_size f)"

definition reject :: "(fragment \<Rightarrow> bool) \<Rightarrow> dd_fragment \<Rightarrow> dd_fragment" where
  "reject P f = (if dd_type f = STORED \<and> P (frag_of f) then f\<lparr>dd_type := UNSTORED, dd_pointer := 0, dd_hint := None\<rparr> else f)"

lemma get_stored_fragments_filter: "get_stored_fragments fr = map frag_of (filter (\<lambda>f. dd_type f = STORED) (fr_frags fr))"
proof -
  have "fold (\<lambda>f rv. case dd_type f of STORED \<Rightarrow> push rv (mk_fragment (dd_pointer f) (dd_size f)) | UNSTORED \<Rightarrow> rv) fs acc =
      acc @ map frag_of (filter (\<lambda>f. dd_type f = STORED) fs)" for fs acc
    by (induction fs arbitrary: acc) (auto simp: push_def frag_of_def split: frag_type.split)
  then show ?thesis by (simp add: get_stored_fragments_def)
qed

lemma after_match_none: "frag_of f \<notin> set rej \<Longrightarrow> after_match f rej = None"
  by (induction rej) (auto simp: frag_of_def mk_fragment_def)

text \<open>The loop over the rejected fragments turns exactly these into unstored ones.\<close>

lemma reject_loop_filter:
  assumes "set_ok vbytes live v F" and "eff + length (stored_bytes fs) < M64" and "uns + length (stored_bytes fs) < M64"
  shows "\<exists>F'. reject_loop fs (filter P (map frag_of (filter (\<lambda>f. dd_type f = STORED) fs))) eff uns F =
      (map (reject P) fs, eff + (length (unstored_bytes (map (reject P) fs)) - length (unstored_bytes fs)),
       uns + (length (unstored_bytes (map (reject P) fs)) - length (unstored_bytes fs)), F')
    \<and> set_ok vbytes live v F' \<and> length (unstored_bytes fs) \<le> length (unstored_bytes (map (reject P) fs))"
  using assms
proof (induction fs arbitrary: eff uns F)
  case (Cons f fs)
  let ?rej = "filter P (map frag_of (filter (\<lambda>f. dd_type f = STORED) fs))"
  show ?case
  proof (cases "dd_type f = STORED \<and> P (frag_of f)")
    case True
    then have m: "after_match f (filter P (map frag_of (filter (\<lambda>f. dd_type f = STORED) (f # fs)))) = Some ?rej" by (simp add: frag_of_def)
    have a: "add64 eff (length (dd_data f)) = eff + length (dd_data f)" "add64 uns (length (dd_data f)) = uns + length (dd_data f)"
      using Cons.prems True by (simp_all add: add64_eq)
    show ?thesis using Cons.IH [OF set_ok_erase [OF Cons.prems(1)], of "eff + length (dd_data f)" "uns + length (dd_data f)" "dd_pointer f" "dd_header f"]
        Cons.prems(2,3) True m a by (auto simp: reject_def)
  next
    case False
    have "after_match f ?rej = None" if "dd_type f = STORED"
      using that False by (intro after_match_none) auto
    then have "reject_loop (f # fs) ?rej eff uns F = (case reject_loop fs ?rej eff uns F of (fs', r) \<Rightarrow> (f # fs', r))" by simp
    moreover have "reject P f = f" "filter P (map frag_of (filter (\<lambda>f. dd_type f = STORED) (f # fs))) = ?rej"
      using False by (auto simp: reject_def)
    moreover have "eff + length (stored_bytes fs) < M64" "uns + length (stored_bytes fs) < M64"
      using Cons.prems(2,3) by (auto split: if_splits)
    ultimately show ?thesis using Cons.IH [OF Cons.prems(1), of eff uns] by auto
  qed
qed simp

lemma reject_data [simp]: "dd_data (reject P f) = dd_data f" "dd_addr (reject P f) = dd_addr f" "dd_size (reject P f) = dd_size f"
  by (simp_all add: reject_def)

text \<open>After linking, every fragment that counts as stored holds its data.\<close>

definition linked :: "('v \<Rightarrow> nat \<Rightarrow> nat \<Rightarrow> bytes option) \<Rightarrow> 'v \<Rightarrow> dd_fragment \<Rightarrow> bool" where
  "linked vbytes v f \<longleftrightarrow> dd_data f \<noteq> [] \<and> dd_size f = length (dd_data f)
     \<and> (dd_type f = STORED \<longrightarrow> vbytes v (dd_pointer f) (dd_size f) = Some (dd_data f))"

context data_view
begin

lemma link_stored_ok:
  assumes "ld_ok vinv vbytes live d" and fr: "fr_ok vbytes live (ld_storage d) fr data" and len: "length data < M64"
  shows "\<exists>d' fr'. link_stored V (d, fr) = Some ((d', fr'), Inr ()) \<and> ld_ok vinv vbytes live d'
    \<and> vbytes (ld_storage d') = vbytes (ld_storage d) \<and> live (ld_storage d') = live (ld_storage d)
    \<and> (\<forall>k m. room (ld_storage d) k m \<longrightarrow> room (ld_storage d') k m)
    \<and> fr_ok vbytes live (ld_storage d') fr' data \<and> (\<forall>f\<in>set (fr_frags fr'). linked vbytes (ld_storage d') f)"
proof -
  let ?v = "ld_storage d" and ?fs = "fr_frags fr"
  let ?st = "map frag_of (filter (\<lambda>f. dd_type f = STORED) ?fs)"
  have st: "get_stored_fragments fr = ?st" by (rule get_stored_fragments_filter)
  show ?thesis
  proof (cases "?st = []")
    case True
    then have "\<forall>f\<in>set ?fs. dd_type f \<noteq> STORED" by (auto simp: filter_empty_conv)
    then show ?thesis using True st assms by (auto simp: link_stored_def linked_def fr_ok_def)
  next
    case False
    obtain v' P where l: "vo_link V ?v ?st = Some (v', Inr (filter P ?st))" "vinv v'" "vbytes v' = vbytes ?v" "live v' = live ?v"
      "\<forall>k m. room ?v k m \<longrightarrow> room v' k m" "\<forall>f\<in>set ?st. vbytes ?v (pointer f) (fsize f) \<noteq> None \<longrightarrow> P f \<or> live v' (pointer f) (fsize f)"
      using link_law [of ?v ?st] assms(1) by (auto simp: ld_ok_def)
    have so: "set_ok vbytes live v' F" "cache_ok vbytes live v' c" if "set_ok vbytes live ?v F" "cache_ok vbytes live ?v c" for F c
      using that by (auto simp: set_ok_def element_ok_def cache_ok_def snapshot_def l(3,4))
    have m: "matched vbytes live v' p b = matched vbytes live ?v p b" for p b by (simp add: matched_def l(3,4))
    define fs' where "fs' = map (reject P) ?fs"
    have lk: "linked vbytes v' f" if "f \<in> set fs'" for f
    proof -
      obtain g where g: "f = reject P g" "g \<in> set ?fs" using \<open>f \<in> set fs'\<close> by (auto simp: fs'_def)
      then have "vbytes v' (dd_pointer f) (length (dd_data f)) = Some (dd_data f)" if s: "dd_type f = STORED"
        using fr l(6) s by (auto simp: fr_ok_def reject_def frag_of_def matched_def l(3,4) split: if_splits)
      then show ?thesis using fr g by (auto simp: linked_def fr_ok_def)
    qed
    show ?thesis
    proof (cases "filter P ?st = []")
      case True
      then have "fs' = ?fs" unfolding fs'_def by (intro map_idI) (auto simp: reject_def filter_empty_conv)
      then have "\<forall>f\<in>set ?fs. linked vbytes v' f" using lk by simp
      moreover have "link_stored V (d, fr) = Some ((d\<lparr>ld_storage := v'\<rparr>, fr), Inr ())"
        using l(1) False True by (simp add: link_stored_def st)
      moreover have "fr_ok vbytes live v' fr data" using fr by (simp add: fr_ok_def m)
      ultimately show ?thesis using l(2-5) so [of "ld_set d" "ld_cache d"] assms(1) by (auto simp: ld_ok_def)
    next
      case rej: False
      have u: "fr_unstored fr = length (unstored_bytes ?fs)" "fr_effective fr = length (unstored_bytes ?fs)" using fr by (simp_all add: fr_ok_def)
      have b: "length (unstored_bytes ?fs) + length (stored_bytes ?fs) < M64"
        using len fr stored_unstored_length [of ?fs] by (simp add: fr_ok_def)
      have "set_ok vbytes live ?v (ld_set d)" using assms(1) by (simp add: ld_ok_def)
      then obtain F' where r: "reject_loop ?fs (filter P ?st) (fr_effective fr) (fr_unstored fr) (ld_set d) =
          (fs', length (unstored_bytes fs'), length (unstored_bytes fs'), F')" "set_ok vbytes live ?v F'"
        using reject_loop_filter [of vbytes live ?v "ld_set d" "fr_effective fr" ?fs "fr_unstored fr" P] b unfolding u fs'_def by auto
      define fr' where "fr' = fr\<lparr>fr_frags := fs', fr_effective := length (unstored_bytes fs'), fr_unstored := length (unstored_bytes fs')\<rparr>"
      have "link_stored V (d, fr) = Some ((d\<lparr>ld_storage := v', ld_set := F'\<rparr>, fr'), Inr ())"
        using l(1) False rej r(1) by (simp add: link_stored_def st handle_rejected_fragments_def fr'_def)
      moreover have "fr_ok vbytes live v' fr' data"
      proof -
        have "matched vbytes live v' (dd_pointer f) (dd_data f)" if "f \<in> set fs'" "dd_type f = STORED" for f
          using lk [OF that(1)] that(2) by (auto simp: linked_def matched_def)
        then show ?thesis using fr by (auto simp: fr_ok_def fr'_def fs'_def o_def)
      qed
      ultimately show ?thesis using l(2-5) so [of F' "ld_cache d"] r(2) assms(1) lk by (auto simp: ld_ok_def fr'_def)
    qed
  qed
qed

end

subsection \<open>Writing and reading back\<close>

lemma buffer_loop_concat:
  assumes "\<forall>f\<in>set fs. dd_data f \<noteq> []" and "length pre + length (unstored_bytes fs) < M64"
    and "length buf = length (unstored_bytes fs)" and "sorted_wrt (<) offs" and "\<forall>x\<in>set offs. x < length pre"
  shows "\<exists>offs'. buffer_loop fs (length pre) (pre @ buf) offs = (pre @ unstored_bytes fs, offs @ offs') \<and> sorted_wrt (<) (offs @ offs')
    \<and> (\<forall>x\<in>set (offs @ offs'). x < length pre + length (unstored_bytes fs))
    \<and> (unstored_bytes fs \<noteq> [] \<longrightarrow> offs' \<noteq> [] \<and> hd offs' = length pre)"
  using assms
proof (induction fs arbitrary: pre buf offs)
  case (Cons f fs)
  show ?case
  proof (cases "dd_type f = UNSTORED")
    case True
    let ?d = "dd_data f"
    have o: "overwrite (length pre) ?d (pre @ buf) = (pre @ ?d) @ drop (length ?d) buf" by (simp add: overwrite_def)
    have a: "add64 (length pre) (length ?d) = length (pre @ ?d)" using Cons.prems(2) True by (simp add: add64_eq)
    have b: "\<forall>x\<in>set (offs @ [length pre]). x < length (pre @ ?d)" using Cons.prems(1,5) by (auto intro: trans_less_add1)
    have s: "sorted_wrt (<) (offs @ [length pre])" using Cons.prems(4,5) by (simp add: sorted_wrt_append)
    obtain offs' where "buffer_loop fs (length (pre @ ?d)) ((pre @ ?d) @ drop (length ?d) buf) (offs @ [length pre]) =
        ((pre @ ?d) @ unstored_bytes fs, (offs @ [length pre]) @ offs')"
      "sorted_wrt (<) ((offs @ [length pre]) @ offs')" "\<forall>x\<in>set ((offs @ [length pre]) @ offs'). x < length (pre @ ?d) + length (unstored_bytes fs)"
      using Cons.IH [of "pre @ ?d" "drop (length ?d) buf" "offs @ [length pre]"] Cons.prems(1-3) True s b by auto
    then show ?thesis using True by (intro exI [of _ "length pre # offs'"]) (simp add: o a add.assoc)
  next
    case False
    then show ?thesis using Cons.IH [of pre buf offs] Cons.prems by simp
  qed
qed auto

lemma unstored_to_buffer_ok:
  assumes "fr_ok vbytes live v fr data" and "length data < M64" and "fr_unstored fr \<noteq> 0"
  shows "\<exists>offsets. unstored_to_buffer fr = (unstored_bytes (fr_frags fr), offsets)
    \<and> write_offsets_ok offsets (length (unstored_bytes (fr_frags fr)))"
proof -
  have "length (unstored_bytes (fr_frags fr)) < M64" "\<forall>f\<in>set (fr_frags fr). dd_data f \<noteq> []"
    using assms(1,2) unstored_bytes_length [of "fr_frags fr"] by (auto simp: fr_ok_def)
  then show ?thesis
    using buffer_loop_concat [of "fr_frags fr" "[]" "replicate (fr_unstored fr) (CHR 0x00)" "[]"] assms(1,3)
    by (auto simp: unstored_to_buffer_def fr_ok_def write_offsets_ok_def list_all_iff)
qed

text \<open>The bytes of the storage fragments that are not assigned yet.\<close>

definition left_bytes :: "(nat \<Rightarrow> nat \<Rightarrow> bytes option) \<Rightarrow> fragment option \<Rightarrow> nat \<Rightarrow> address \<Rightarrow> bytes" where
  "left_bytes B cur soff rest = (case cur of None \<Rightarrow> [] | Some g \<Rightarrow> drop soff (the (B (pointer g) (fsize g))))
     @ concat (map (\<lambda>f. the (B (pointer f) (fsize f))) rest)"

definition cursor_ok :: "(nat \<Rightarrow> nat \<Rightarrow> bytes option) \<Rightarrow> fragment option \<Rightarrow> nat \<Rightarrow> address \<Rightarrow> bool" where
  "cursor_ok B cur soff rest \<longleftrightarrow> list_all (\<lambda>f. 0 < fsize f \<and> B (pointer f) (fsize f) \<noteq> None) rest
     \<and> (\<forall>g. cur = Some g \<longrightarrow> soff \<le> fsize g \<and> B (pointer g) (fsize g) \<noteq> None)"

declare assign_loop.simps [simp del]

lemma address_holds_simps [simp]:
  "address_holds B [] data \<longleftrightarrow> data = []"
  "address_holds B a x \<Longrightarrow> address_holds B b y \<Longrightarrow> address_holds B (a @ b) (x @ y)"
  by (auto simp: address_holds_def)

lemma address_holds_single: "0 < k \<Longrightarrow> B p k = Some x \<Longrightarrow> address_holds B [mk_fragment p k] x"
  by (simp add: address_holds_def)

lemma address_holds_extends:
  assumes "address_holds (B v) a x" and "\<forall>p n b. B v p n = Some b \<longrightarrow> B v' p n = Some b \<and> Q p n"
  shows "address_holds (B v') a x"
proof -
  have "B v' (pointer f) (fsize f) = B v (pointer f) (fsize f)" if "f \<in> set a" for f
    using assms that by (fastforce simp: address_holds_def list_all_iff)
  then show ?thesis using assms(1) by (auto simp: address_holds_def list_all_iff cong: map_cong)
qed

context data_view
begin

text \<open>The storage fragment the loop goes on with.\<close>

lemma cursor_next:
  assumes "cursor_ok (vbytes v) cur soff rest" and "0 < n" and "n \<le> length (left_bytes (vbytes v) cur soff rest)"
  shows "\<exists>f s fs b. (case cur of
        None \<Rightarrow> (case rest of [] \<Rightarrow> None | f # fs \<Rightarrow> Some (f, 0, fs))
      | Some g \<Rightarrow> if soff = fsize g then (case rest of [] \<Rightarrow> None | f # fs \<Rightarrow> Some (f, 0, fs)) else Some (g, soff, rest)) = Some (f, s, fs)
    \<and> s < fsize f \<and> vbytes v (pointer f) (fsize f) = Some b \<and> cursor_ok (vbytes v) (Some f) s fs
    \<and> left_bytes (vbytes v) cur soff rest = drop s b @ concat (map (\<lambda>f. the (vbytes v (pointer f) (fsize f))) fs)"
proof (cases "\<exists>g. cur = Some g \<and> soff \<noteq> fsize g")
  case True
  then obtain g b where "cur = Some g" "soff \<noteq> fsize g" "vbytes v (pointer g) (fsize g) = Some b" "soff \<le> fsize g"
    using assms(1) by (auto simp: cursor_ok_def)
  then show ?thesis using assms(1) by (auto simp: left_bytes_def)
next
  case False
  have l: "left_bytes (vbytes v) cur soff rest = concat (map (\<lambda>f. the (vbytes v (pointer f) (fsize f))) rest)"
    using False assms(1) bytes_length by (auto simp: left_bytes_def cursor_ok_def split: option.splits)
  then obtain f fs where r: "rest = f # fs" using assms(2,3) by (cases rest) auto
  then obtain b where "vbytes v (pointer f) (fsize f) = Some b" "0 < fsize f" using assms(1) by (auto simp: cursor_ok_def)
  then show ?thesis using False l r assms(1) by (auto simp: cursor_ok_def split: option.splits)
qed

lemma assign_loop_ok:
  "cursor_ok (vbytes v) cur soff rest \<Longrightarrow> n \<le> length (left_bytes (vbytes v) cur soff rest) \<Longrightarrow>
   \<exists>a cur' soff' rest'. assign_loop n cur soff rest acc = Inr (acc @ a, cur', soff', rest') \<and> cursor_ok (vbytes v) cur' soff' rest'
     \<and> address_holds (vbytes v) a (take n (left_bytes (vbytes v) cur soff rest))
     \<and> left_bytes (vbytes v) cur' soff' rest' = drop n (left_bytes (vbytes v) cur soff rest)"
proof (induction n cur soff rest acc rule: assign_loop.induct)
  case (1 n cur soff rest acc)
  show ?case
  proof (cases "n = 0")
    case True
    then show ?thesis using 1(2) by (simp add: assign_loop.simps)
  next
    case False
    obtain f s fs b where nx: "(case cur of
        None \<Rightarrow> (case rest of [] \<Rightarrow> None | f # fs \<Rightarrow> Some (f, 0, fs))
      | Some g \<Rightarrow> if soff = fsize g then (case rest of [] \<Rightarrow> None | f # fs \<Rightarrow> Some (f, 0, fs)) else Some (g, soff, rest)) = Some (f, s, fs)"
      and f: "s < fsize f" "vbytes v (pointer f) (fsize f) = Some b" "cursor_ok (vbytes v) (Some f) s fs"
      and l: "left_bytes (vbytes v) cur soff rest = drop s b @ concat (map (\<lambda>f. the (vbytes v (pointer f) (fsize f))) fs)"
      using cursor_next [OF 1(2) _ 1(3)] False by auto
    define k where "k = min (fsize f - s) n"
    define g where "g = mk_fragment (add128 (pointer f) s) k"
    have k: "0 < k" "k \<le> n" "s + k \<le> fsize f" "length b = fsize f" using False f(1) bytes_length [OF f(2)] by (auto simp: k_def)
    have l': "left_bytes (vbytes v) (Some f) (s + k) fs = drop k (left_bytes (vbytes v) cur soff rest)"
      using k f(2) unfolding l by (simp add: left_bytes_def add.commute)
    have tk: "take n (left_bytes (vbytes v) cur soff rest) = slice s k b @ take (n - k) (left_bytes (vbytes v) (Some f) (s + k) fs)"
    proof -
      have "take k (left_bytes (vbytes v) cur soff rest) = slice s k b" using k unfolding l by (simp add: slice_def)
      then show ?thesis using k take_add [of k "n - k" "left_bytes (vbytes v) cur soff rest"] unfolding l' by simp
    qed
    have c: "cursor_ok (vbytes v) (Some f) (s + k) fs" using f(3) k(3) by (auto simp: cursor_ok_def)
    have n': "n - k \<le> length (left_bytes (vbytes v) (Some f) (s + k) fs)" using 1(3) by (simp add: l')
    obtain a cur' soff' rest' where ih: "assign_loop (n - k) (Some f) (s + k) fs (push acc g) = Inr (push acc g @ a, cur', soff', rest')"
      "cursor_ok (vbytes v) cur' soff' rest'" "address_holds (vbytes v) a (take (n - k) (left_bytes (vbytes v) (Some f) (s + k) fs))"
      "left_bytes (vbytes v) cur' soff' rest' = drop (n - k) (left_bytes (vbytes v) (Some f) (s + k) fs)"
      using 1(1) [OF False nx refl refl k_def _ c n'] k(3) unfolding g_def by auto
    have "address_holds (vbytes v) [g] (slice s k b)" unfolding g_def by (intro address_holds_single bytes_sub [OF f(2)] k)
    then have "address_holds (vbytes v) ([g] @ a) (take n (left_bytes (vbytes v) cur soff rest))"
      unfolding tk by (intro address_holds_simps ih(3))
    moreover have "assign_loop n cur soff rest acc = Inr (acc @ ([g] @ a), cur', soff', rest')"
      using False k ih(1) by (subst assign_loop.simps) (simp add: nx k_def [symmetric] g_def [symmetric] push_def Let_def)
    ultimately show ?thesis using ih(2,4) l' k by (intro exI conjI) auto
  qed
qed

lemma address_loop_ok:
  "cursor_ok (vbytes v) cur soff rest \<Longrightarrow> length (unstored_bytes fs) \<le> length (left_bytes (vbytes v) cur soff rest) \<Longrightarrow>
   take (length (unstored_bytes fs)) (left_bytes (vbytes v) cur soff rest) = unstored_bytes fs \<Longrightarrow> \<forall>f\<in>set fs. dd_addr f = [] \<Longrightarrow>
   \<exists>as. address_loop fs cur soff rest = Inr (map2 (\<lambda>f a. f\<lparr>dd_addr := a\<rparr>) fs as) \<and> length as = length fs
     \<and> list_all2 (\<lambda>f a. if dd_type f = UNSTORED then address_holds (vbytes v) a (dd_data f) else a = []) fs as"
proof (induction fs arbitrary: cur soff rest)
  case (Cons f fs)
  show ?case
  proof (cases "dd_type f = UNSTORED")
    case True
    let ?n = "length (dd_data f)" and ?L = "left_bytes (vbytes v) cur soff rest"
    have n: "?n \<le> length ?L" "take ?n ?L = dd_data f" "take (length (unstored_bytes fs)) (drop ?n ?L) = unstored_bytes fs"
      "length (unstored_bytes fs) \<le> length (drop ?n ?L)" using Cons.prems(2,3) True by (auto simp: take_add)
    obtain a cur' soff' rest' where a: "assign_loop ?n cur soff rest [] = Inr (a, cur', soff', rest')" "cursor_ok (vbytes v) cur' soff' rest'"
      "address_holds (vbytes v) a (dd_data f)" "left_bytes (vbytes v) cur' soff' rest' = drop ?n ?L"
      using assign_loop_ok [OF Cons.prems(1) n(1), of "[]"] n(2) by auto
    obtain as where "address_loop fs cur' soff' rest' = Inr (map2 (\<lambda>f a. f\<lparr>dd_addr := a\<rparr>) fs as)" "length as = length fs"
      "list_all2 (\<lambda>f a. if dd_type f = UNSTORED then address_holds (vbytes v) a (dd_data f) else a = []) fs as"
      using Cons.IH [OF a(2)] Cons.prems(2,4) n True by (auto simp: a(4))
    then show ?thesis using a True Cons.prems(4) by (intro exI [of _ "a # as"]) simp
  next
    case False
    then obtain as where "address_loop fs cur soff rest = Inr (map2 (\<lambda>f a. f\<lparr>dd_addr := a\<rparr>) fs as)" "length as = length fs"
      "list_all2 (\<lambda>f a. if dd_type f = UNSTORED then address_holds (vbytes v) a (dd_data f) else a = []) fs as"
      using Cons.IH [OF Cons.prems(1)] Cons.prems(2,3,4) by auto
    then show ?thesis using False Cons.prems(4) by (intro exI [of _ "[] # as"]) simp
  qed
qed simp

end

text \<open>After writing, every fragment has an address that holds its data.\<close>

definition placed :: "('v \<Rightarrow> nat \<Rightarrow> nat \<Rightarrow> bytes option) \<Rightarrow> 'v \<Rightarrow> dd_fragment \<Rightarrow> bool" where
  "placed vbytes v f \<longleftrightarrow> dd_data f \<noteq> [] \<and>
     (case dd_type f of STORED \<Rightarrow> address_holds (vbytes v) [frag_of f] (dd_data f) | UNSTORED \<Rightarrow> address_holds (vbytes v) (dd_addr f) (dd_data f))"

lemma make_address_concat:
  "make_address fr = concat (map (\<lambda>f. case dd_type f of STORED \<Rightarrow> [frag_of f] | UNSTORED \<Rightarrow> dd_addr f) (fr_frags fr))"
proof -
  have "fold (\<lambda>f rv. case dd_type f of UNSTORED \<Rightarrow> append_address rv (dd_addr f) | STORED \<Rightarrow> push rv (mk_fragment (dd_pointer f) (dd_size f))) fs acc
      = acc @ concat (map (\<lambda>f. case dd_type f of STORED \<Rightarrow> [frag_of f] | UNSTORED \<Rightarrow> dd_addr f) fs)" for fs acc
    by (induction fs arbitrary: acc) (auto simp: push_def append_address_def frag_of_def split: frag_type.split)
  then show ?thesis by (simp add: make_address_def)
qed

lemma make_address_holds:
  assumes "\<forall>f\<in>set (fr_frags fr). placed vbytes v f"
  shows "address_holds (vbytes v) (make_address fr) (concat (map dd_data (fr_frags fr)))"
proof -
  have "address_holds (vbytes v) (concat (map (\<lambda>f. case dd_type f of STORED \<Rightarrow> [frag_of f] | UNSTORED \<Rightarrow> dd_addr f) fs)) (concat (map dd_data fs))"
    if "\<forall>f\<in>set fs. placed vbytes v f" for fs
    using that
  proof (induction fs)
    case (Cons f fs)
    then have "address_holds (vbytes v) (case dd_type f of STORED \<Rightarrow> [frag_of f] | UNSTORED \<Rightarrow> dd_addr f) (dd_data f)"
      by (simp add: placed_def split: frag_type.splits)
    then show ?case using Cons by simp
  qed simp
  then show ?thesis using assms by (simp add: make_address_concat)
qed

context data_view
begin

lemma ld_ok_extends:
  assumes "ld_ok vinv vbytes live d" and "view_extends vbytes live (ld_storage d) v'" and "vinv v'"
  shows "ld_ok vinv vbytes live (d\<lparr>ld_storage := v'\<rparr>)"
  using assms(1,3) snapshot_extends [OF assms(2)] unfolding ld_ok_def cache_ok_def set_ok_def element_ok_def by fastforce

lemma flush_storage_ok:
  assumes ok: "ld_ok vinv vbytes live d" and fr: "fr_ok vbytes live (ld_storage d) fr data" and len: "length data < M64"
    and lk: "\<forall>f\<in>set (fr_frags fr). linked vbytes (ld_storage d) f" and room: "room (ld_storage d) (Suc k) m" "length data \<le> m"
  shows "\<exists>d' fr'. flush_storage V (d, fr) = Some ((d', fr'), Inr ()) \<and> ld_ok vinv vbytes live d'
    \<and> view_extends vbytes live (ld_storage d) (ld_storage d') \<and> (\<forall>f\<in>set (fr_frags fr'). placed vbytes (ld_storage d') f)
    \<and> concat (map dd_data (fr_frags fr')) = data \<and> fr_effective fr' = fr_effective fr \<and> room (ld_storage d') k (m - length data)"
proof (cases "fr_unstored fr = 0")
  case True
  then have "dd_type f = STORED" if "f \<in> set (fr_frags fr)" for f
    using fr that by (cases "dd_type f") (auto simp: fr_ok_def unstored_bytes_def)
  then have "\<forall>f\<in>set (fr_frags fr). placed vbytes (ld_storage d) f"
    using lk by (auto simp: placed_def linked_def frag_of_def intro!: address_holds_single)
  then show ?thesis
    using True ok fr room_mono [OF room(1), of k "m - length data"] by (auto simp: flush_storage_def fr_ok_def view_extends_def)
next
  case False
  let ?fs = "fr_frags fr" and ?B = "unstored_bytes (fr_frags fr)"
  obtain offs where u: "unstored_to_buffer fr = (?B, offs)" "write_offsets_ok offs (length ?B)"
    using unstored_to_buffer_ok [OF fr len False] by auto
  have "0 < length ?B" "length ?B \<le> length data" using False fr unstored_bytes_length [of ?fs] by (simp_all add: fr_ok_def)
  then have B: "length ?B \<le> m" "m - length data \<le> m - length ?B" using room(2) by simp_all
  obtain v' addr where w: "vo_write V (ld_storage d) ?B offs = Some (v', Inr addr)" "vinv v'" "view_extends vbytes live (ld_storage d) v'"
    "address_holds (vbytes v') addr ?B" "room v' k (m - length ?B)"
    using write_law [OF _ room(1) B(1) u(2)] ok by (auto simp: ld_ok_def)
  have c: "cursor_ok (vbytes v') None 0 addr" "left_bytes (vbytes v') None 0 addr = ?B"
    using w(4) by (simp_all add: cursor_ok_def left_bytes_def address_holds_def)
  obtain as where a: "address_loop ?fs None 0 addr = Inr (map2 (\<lambda>f a. f\<lparr>dd_addr := a\<rparr>) ?fs as)" "length as = length ?fs"
    "list_all2 (\<lambda>f a. if dd_type f = UNSTORED then address_holds (vbytes v') a (dd_data f) else a = []) ?fs as"
    using address_loop_ok [OF c(1), of ?fs] fr by (auto simp: c(2) fr_ok_def)
  define fr' where "fr' = fr\<lparr>fr_offsets := offs, fr_buffer_address := addr, fr_frags := map2 (\<lambda>f a. f\<lparr>dd_addr := a\<rparr>) ?fs as\<rparr>"
  have "flush_storage V (d, fr) = Some ((d\<lparr>ld_storage := v'\<rparr>, fr'), Inr ())"
    using False u(1) w(1) a(1) by (simp add: flush_storage_def compute_unstored_addresses_def fr'_def)
  moreover have "placed vbytes v' f" if f: "f \<in> set (fr_frags fr')" for f
  proof -
    obtain g a where g: "(g, a) \<in> set (zip ?fs as)" "f = g\<lparr>dd_addr := a\<rparr>" "g \<in> set ?fs"
      using f by (auto simp: fr'_def dest: set_zip_leftD)
    then have "if dd_type g = UNSTORED then address_holds (vbytes v') a (dd_data g) else a = []"
      using a(3) by (auto simp: list_all2_iff)
    then show ?thesis using g lk w(3)
      by (auto simp: placed_def linked_def frag_of_def view_extends_def split: frag_type.split intro!: address_holds_single)
  qed
  moreover have "map dd_data (fr_frags fr') = map dd_data ?fs"
    using a(2) by (intro nth_equalityI) (auto simp: fr'_def)
  ultimately show ?thesis using ld_ok_extends [OF ok w(3,2)] w(3) room_mono [OF w(5) order_refl B(2)] fr by (auto simp: fr_ok_def fr'_def)
qed

lemma placed_first:
  assumes "placed vbytes v f" and "dd_type f = UNSTORED"
  shows "\<exists>a as. dd_addr f = a # as \<and> 0 < fsize a \<and> vbytes v (pointer a) (fsize a) = Some (take (fsize a) (dd_data f))
    \<and> fsize a \<le> length (dd_data f)"
proof -
  have h: "address_holds (vbytes v) (dd_addr f) (dd_data f)" "dd_data f \<noteq> []" using assms by (auto simp: placed_def)
  then obtain a as where a: "dd_addr f = a # as" by (cases "dd_addr f") auto
  then obtain b where b: "vbytes v (pointer a) (fsize a) = Some b" "0 < fsize a" using h by (auto simp: address_holds_def)
  then have "length b = fsize a" "dd_data f = b @ concat (map (\<lambda>f. the (vbytes v (pointer f) (fsize f))) as)"
    using h a bytes_length by (auto simp: address_holds_def)
  then show ?thesis using a b by auto
qed

lemma flush_loop_ok:
  assumes "vinv v"
  shows "cache_ok vbytes live v c \<Longrightarrow> set_ok vbytes live v F \<Longrightarrow> \<forall>f\<in>set fs. placed vbytes v f \<Longrightarrow>
    \<exists>c' F'. flush_loop V v cap fs (c, F) = Some ((c', F'), Inr ()) \<and> cache_ok vbytes live v c' \<and> set_ok vbytes live v F'"
proof (induction fs arbitrary: c F)
  case (Cons f fs)
  show ?case
  proof (cases "dd_type f")
    case STORED
    then show ?thesis using Cons.IH [OF Cons.prems(1) set_ok_mark [OF Cons.prems(2)], of "dd_pointer f"] Cons.prems(3) by simp
  next
    case UNSTORED
    obtain a as where a: "dd_addr f = a # as" "0 < fsize a" "vbytes v (pointer a) (fsize a) = Some (take (fsize a) (dd_data f))"
      "fsize a \<le> length (dd_data f)" using placed_first [of v f] UNSTORED Cons.prems(3) by auto
    have ne: "take (fsize a) (dd_data f) \<noteq> []" using a(2,4) by auto
    obtain c1 F1 where "fs_insert V v cap (pointer a) (take (fsize a) (dd_data f)) (dd_header f) (dd_hint f \<noteq> None) (c, F) = Some ((c1, F1), Inr ())"
      "cache_ok vbytes live v c1" "set_ok vbytes live v F1"
      using fs_insert_ok [OF assms Cons.prems(1,2), of "pointer a" "take (fsize a) (dd_data f)" cap "dd_header f" "dd_hint f \<noteq> None"] a(2-4) ne by auto
    then show ?thesis using Cons.IH [of c1 F1] Cons.prems(3) UNSTORED a(1) by simp
  qed
qed simp

lemma flush_fragment_set_ok:
  assumes "ld_ok vinv vbytes live d" and "\<forall>f\<in>set (fr_frags fr). placed vbytes (ld_storage d) f"
  shows "\<exists>d' fr'. flush_fragment_set V cap (d, fr) = Some ((d', fr'), Inr ()) \<and> ld_ok vinv vbytes live d' \<and> ld_storage d' = ld_storage d
    \<and> fr_frags fr' = fr_frags fr \<and> fr_effective fr' = fr_effective fr"
proof -
  have "\<exists>c' F'. flush_loop V (ld_storage d) cap (fr_frags fr) (ld_cache d, ld_set d) = Some ((c', F'), Inr ())
      \<and> cache_ok vbytes live (ld_storage d) c' \<and> set_ok vbytes live (ld_storage d) F'"
    using assms by (intro flush_loop_ok) (auto simp: ld_ok_def)
  then show ?thesis using assms(1) by (auto simp: flush_fragment_set_def on_set_def ld_ok_def mark_as_uploaded_def)
qed

lemma release_fragments_ok:
  assumes "ld_ok vinv vbytes live d"
  shows "ld_ok vinv vbytes live (release_fragments (d, fr)) \<and> ld_storage (release_fragments (d, fr)) = ld_storage d"
proof -
  let ?r = "\<lambda>f d. case dd_hint f of Some h \<Rightarrow> release_hint h d | None \<Rightarrow> d"
  have "ld_ok vinv vbytes live (fold ?r fs d) \<and> ld_storage (fold ?r fs d) = ld_storage d" if "ld_ok vinv vbytes live d" for fs d
    using that
  proof (induction fs arbitrary: d)
    case (Cons f fs)
    have "ld_ok vinv vbytes live (?r f d)" "ld_storage (?r f d) = ld_storage d"
      using Cons.prems by (simp add: ld_ok_release split: option.split) (simp add: release_hint_def split: option.split)
    then show ?case using Cons.IH [of "?r f d"] by simp
  qed simp
  then show ?thesis using assms by (simp add: release_fragments_def)
qed

text \<open>A deduplication that has the room for the data succeeds, and its address holds the data.\<close>

lemma deduplicate_ok:
  assumes "ld_ok vinv vbytes live d" and "length data < M64" and "0 < max_fragment_size conf"
    and "room (ld_storage d) (Suc k) m" and "length data \<le> m"
  shows "\<exists>d' resp. deduplicate V conf cap data d = Some (d', Inr resp) \<and> ld_ok vinv vbytes live d'
    \<and> view_extends vbytes live (ld_storage d) (ld_storage d')
    \<and> address_holds (vbytes (ld_storage d')) (daddr resp) data \<and> effective_size resp \<le> length data
    \<and> room (ld_storage d') k (m - length data)"
proof -
  let ?v = "ld_storage d"
  have "fr_ok vbytes live ?v fragmentation_new []" by (simp add: fr_ok_def fragmentation_new_def)
  then obtain d1 fr1 where 1: "dedupe_loop V conf cap data 0 (d, fragmentation_new) = Some ((d1, fr1), Inr ())"
    "ld_ok vinv vbytes live d1" "ld_storage d1 = ?v" "fr_ok vbytes live ?v fr1 data"
    using dedupe_loop_ok [OF assms(1), of fragmentation_new "[]" data conf cap 0] assms(2,3) by auto
  obtain d2 fr2 where 2: "link_stored V (d1, fr1) = Some ((d2, fr2), Inr ())" "ld_ok vinv vbytes live d2"
    "vbytes (ld_storage d2) = vbytes ?v" "live (ld_storage d2) = live ?v" "\<forall>k m. room ?v k m \<longrightarrow> room (ld_storage d2) k m"
    "fr_ok vbytes live (ld_storage d2) fr2 data" "\<forall>f\<in>set (fr_frags fr2). linked vbytes (ld_storage d2) f"
    using link_stored_ok [of d1 fr1 data] 1 assms(2) by auto
  obtain d3 fr3 where 3: "flush_storage V (d2, fr2) = Some ((d3, fr3), Inr ())" "ld_ok vinv vbytes live d3"
    "view_extends vbytes live (ld_storage d2) (ld_storage d3)" "\<forall>f\<in>set (fr_frags fr3). placed vbytes (ld_storage d3) f"
    "concat (map dd_data (fr_frags fr3)) = data" "fr_effective fr3 = fr_effective fr2" "room (ld_storage d3) k (m - length data)"
    using flush_storage_ok [OF 2(2,6) assms(2) 2(7) _ assms(5), of k] 2(5) assms(4) by auto
  obtain d4 fr4 where 4: "flush_fragment_set V cap (d3, fr3) = Some ((d4, fr4), Inr ())" "ld_ok vinv vbytes live d4"
    "ld_storage d4 = ld_storage d3" "fr_frags fr4 = fr_frags fr3" "fr_effective fr4 = fr_effective fr3"
    using flush_fragment_set_ok [OF 3(2,4), of cap] by auto
  have "deduplicate V conf cap data d =
      Some (release_fragments (d4, fr4), Inr \<lparr>effective_size = fr_effective fr4, daddr = make_address fr4\<rparr>)"
    using 1(1) 2(1) 3(1) 4(1) by (simp add: deduplicate_def)
  moreover have "address_holds (vbytes (ld_storage d4)) (make_address fr4) data"
    using make_address_holds [of fr4 vbytes "ld_storage d4"] 3(4,5) 4(3,4) by simp
  moreover have "fr_effective fr4 \<le> length data"
    using 2(6) 3(6) 4(5) unstored_bytes_length [of "fr_frags fr2"] by (auto simp: fr_ok_def)
  moreover have "view_extends vbytes live ?v (ld_storage d4)" using 3(3) 4(3) 2(3,4) by (simp add: view_extends_def)
  ultimately show ?thesis using release_fragments_ok [OF 4(2), of fr4] 3(7) 4(3) by simp
qed

end

text \<open>
  C4: A deduplication on a round-robin group of local storages that has the room for the data
  returns; what the cache and the fragment set know stays true of the storages; reading the address
  it returns gives the data back, whatever part of it was found, rejected by the storages or newly
  written; every address that held some data before still holds it.
\<close>

theorem deduplicate_roundtrip:
  assumes "os_ok s" and "kv_laws K"
    and "ld_ok (rr_vinv (local_inv K)) (rr_bytes ds_bytes m_write_offset) (rr_live ds_bytes m_write_offset (ds_tracked K)) d"
    and "length data < M64" and "0 < max_fragment_size conf"
    and "rr_room m_write_offset ds_fits ds_grants (ld_storage d) 1 (length data)"
  shows "\<exists>d' resp. deduplicate (rr_ops (local_ops s K)) conf cap data d = Some (d', Inr resp)
    \<and> ld_ok (rr_vinv (local_inv K)) (rr_bytes ds_bytes m_write_offset) (rr_live ds_bytes m_write_offset (ds_tracked K)) d'
    \<and> (\<forall>buffer. length buffer = length data \<longrightarrow>
         rr_read_address (local_ops s K) (ld_storage d') (daddr resp) buffer = Some (data, Inr (length data)))
    \<and> (\<forall>a x. address_holds (rr_bytes ds_bytes m_write_offset (ld_storage d)) a x \<longrightarrow>
         address_holds (rr_bytes ds_bytes m_write_offset (ld_storage d')) a x)
    \<and> effective_size resp \<le> length data"
proof -
  let ?B = "rr_bytes ds_bytes m_write_offset" and ?L = "rr_live ds_bytes m_write_offset (ds_tracked K)"
  note C = local_rr_contract [OF assms(1,2)]
  obtain d' resp where r: "deduplicate (rr_ops (local_ops s K)) conf cap data d = Some (d', Inr resp)"
    "ld_ok (rr_vinv (local_inv K)) ?B ?L d'" "view_extends ?B ?L (ld_storage d) (ld_storage d')"
    "address_holds (?B (ld_storage d')) (daddr resp) data" "effective_size resp \<le> length data"
    using data_view.deduplicate_ok [OF C assms(3-5), of 0 "length data" cap] assms(6) by auto
  have "rr_vinv (local_inv K) (ld_storage d')" using r(2) by (simp add: ld_ok_def)
  then have "rr_read_address (local_ops s K) (ld_storage d') (daddr resp) buffer = Some (data, Inr (length data))"
    if "length buffer = length data" for buffer
    using data_view.read_address_law [OF C _ r(4) assms(4) that] by (simp add: rr_ops_def)
  moreover have "address_holds (?B (ld_storage d')) a x" if "address_holds (?B (ld_storage d)) a x" for a x
    using that r(3) unfolding view_extends_def by (rule address_holds_extends)
  ultimately show ?thesis using r by blast
qed

definition sample_dedup :: "(size_t \<Rightarrow> size_t option) data_store rr_view local_deduplicator" where
  "sample_dedup = \<lparr>ld_storage = sample_rr, ld_cache = [], ld_set = fs_new 2\<rparr>"

theorem deduplicate_roundtrip_witness:
  "\<exists>d' resp. deduplicate (rr_ops (local_ops slow_os map_kv)) \<lparr>min_fragment_size = 1, max_fragment_size = 3\<rparr> 4 ''hello'' sample_dedup = Some (d', Inr resp)
    \<and> rr_read_address (local_ops slow_os map_kv) (ld_storage d') (daddr resp) (zero_bytes 5) = Some (''hello'', Inr 5)"
proof -
  let ?st = "sample_store\<lparr>m_conf := \<lparr>max_file_size = 8, max_data_store_size = 65536, page_size = 4\<rparr>\<rparr>"
  have st: "rr_storages sample_rr = [?st]" "rr_lb sample_rr = \<lparr>lb_services = [0], lb_robin = None\<rparr>" by (simp_all add: sample_rr_def)
  have "ds_inv ?st" using sample_store_inv by (simp add: ds_inv_def sample_store_def)
  then have i: "rr_vinv (local_inv map_kv) sample_rr"
    by (simp add: rr_vinv_def rr_inv_def sample_rr_def local_inv_def lb_ok_def get_stripe_size_def DEFAULT_PAGE_SIZE_def KIBI_BYTE_def
        bounded_counts_def map_kv_def sample_store_def mul64_def M64_def)
  then have ok: "ld_ok (rr_vinv (local_inv map_kv)) B L sample_dedup" for B L
    by (simp add: ld_ok_def sample_dedup_def cache_ok_def set_ok_def fs_new_def)
  have rm: "rr_room m_write_offset ds_fits ds_grants (ld_storage sample_dedup) 1 (length ''hello'')"
    by (simp add: rr_room_def sample_dedup_def st ds_fits_def ds_grants_def sample_store_def DEFAULT_PAGE_SIZE_def KIBI_BYTE_def M64_def)
  have len: "length ''hello'' < M64" by (simp add: M64_def)
  show ?thesis
    using deduplicate_roundtrip [OF slow_os_ok map_kv_laws ok len _ rm, of "\<lparr>min_fragment_size = 1, max_fragment_size = 3\<rparr>" 4] by auto
qed

end
