(* ===== verification/Vrm_Hints.thy ===== *)
theory Vrm_Hints
  imports Vrm_Dedup "HOL-Library.Multiset"
begin

text \<open>
  The hints of the deduplicator: a search hands out an iterator of the fragment set and counts it
  in the element, and an element with a positive count is not removed from the set. The counts are
  balanced on every way out of a deduplication, whatever the storages answer.
\<close>

definition hint_inv :: "nat option multiset \<Rightarrow> frag_set \<Rightarrow> bool" where
  "hint_inv M F \<longleftrightarrow>
     (\<forall>e\<in>set (fs_elements F). fe_node e < fs_next F \<and> fe_hint_count e = int (count M (Some (fe_node e))))
     \<and> (\<forall>n. Some n \<in># M \<longrightarrow> n < fs_next F)"

definition frag_hints :: "dd_fragment list \<Rightarrow> nat option multiset" where
  "frag_hints fs = mset (map (\<lambda>f. the (dd_hint f)) (filter (\<lambda>f. dd_hint f \<noteq> None) fs))"

lemma frag_hints_simps [simp]:
  "frag_hints [] = {#}"
  "frag_hints (f # fs) = (case dd_hint f of Some h \<Rightarrow> add_mset h (frag_hints fs) | None \<Rightarrow> frag_hints fs)"
  "frag_hints (fs @ gs) = frag_hints fs + frag_hints gs"
  by (auto simp: frag_hints_def split: option.split)

text \<open>No hint is outstanding.\<close>

definition hints_free :: "frag_set \<Rightarrow> bool" where
  "hints_free F \<longleftrightarrow> (\<forall>e\<in>set (fs_elements F). fe_node e < fs_next F \<and> fe_hint_count e = 0)"

lemma hints_free_inv: "hints_free F \<longleftrightarrow> hint_inv {#} F"
  by (simp add: hints_free_def hint_inv_def)

lemma hint_inv_elements:
  "hint_inv M F \<Longrightarrow> set (fs_elements F') \<subseteq> set (fs_elements F) \<Longrightarrow> fs_next F' = fs_next F \<Longrightarrow> hint_inv M F'"
  by (auto simp: hint_inv_def)

lemma fs_next_keeps [simp]:
  "fs_next (fs_remove itr F) = fs_next F"
  "fs_next (fs_lfu_put header ptr node F) = fs_next F"
  "fs_next (fs_erase ptr header F) = fs_next F"
  by (auto simp: fs_remove_def fs_lfu_put_def fs_erase_def split: option.split prod.split)

lemma hint_inv_erase: "hint_inv M F \<Longrightarrow> hint_inv M (fs_erase ptr header F)"
  by (rule hint_inv_elements, assumption) (auto simp: fs_erase_def split: prod.splits dest!: fs_remove_elements)

lemma hint_inv_add:
  assumes "hint_inv M F" and "\<forall>n. h = Some n \<longrightarrow> n < fs_next F"
  shows "hint_inv (add_mset h M) (F\<lparr>fs_elements := hint_add 1 h (fs_elements F)\<rparr>)"
  using assms by (auto simp: hint_inv_def hint_add_def split: option.split)

lemma hint_inv_release:
  assumes "hint_inv (add_mset h M) F"
  shows "hint_inv M (F\<lparr>fs_elements := hint_add (-1) h (fs_elements F)\<rparr>)"
  using assms by (auto simp: hint_inv_def hint_add_def split: option.split)

lemma hint_inv_find:
  assumes "hint_inv M F" and "fs_find V v cap data (c, F) = Some ((c', F'), r)"
  shows "case r of Inl e \<Rightarrow> hint_inv M F' | Inr f \<Rightarrow> hint_inv (add_mset (resp_hint f) M) F'"
proof -
  have "fe_node (fs_elements F ! i) < fs_next F" if "i < length (fs_elements F)" for i
    using assms(1) that by (simp add: hint_inv_def)
  then show ?thesis
    using assms hint_inv_add [OF assms(1)] by (auto simp: fs_find_def Let_def split: option.splits sum.splits prod.splits)
qed

lemma hint_inv_insert:
  assumes "hint_inv M F" and "fs_insert V v cap ptr data header hint (c, F) = Some ((c', F'), r)"
  shows "hint_inv M F'"
proof -
  let ?f = "fe_make (fs_next F) data ptr None"
  have n: "hint_inv M (F\<lparr>fs_elements := take i (fs_elements F) @ ?f # drop i (fs_elements F), fs_next := fs_next F + 1\<rparr>)" for i
  proof -
    have "Some (fs_next F) \<notin># M" using assms(1) by (auto simp: hint_inv_def)
    then show ?thesis
      using assms(1) by (auto simp: hint_inv_def fe_make_def not_in_iff less_SucI dest!: in_set_takeD in_set_dropD)
  qed
  have p: "hint_inv M G \<Longrightarrow> hint_inv M (fs_lfu_put header ptr node G)" for G node
    by (rule hint_inv_elements [OF _ fs_lfu_put_elements]) simp_all
  show ?thesis
    using assms n n [of "length (fs_elements F)"] p unfolding fs_insert_def Let_def by (auto split: option.splits sum.splits prod.splits if_splits)
qed

lemma hint_inv_flush:
  "hint_inv M F \<Longrightarrow> flush_loop V v cap fs (c, F) = Some ((c', F'), r) \<Longrightarrow> hint_inv M F'"
proof (induction fs arbitrary: c F)
  case (Cons f fs)
  have m: "hint_inv M (fs_mark_deduplication p F)" for p using Cons.prems(1) by (simp add: hint_inv_def fs_mark_deduplication_def)
  show ?case
  proof (cases "dd_type f")
    case STORED
    then show ?thesis using Cons.IH [OF m] Cons.prems(2) by (simp add: bindP_def)
  next
    case UNSTORED
    then show ?thesis
      using Cons.prems
      by (cases "dd_addr f")
        (auto simp: bindP_def split: option.splits sum.splits prod.splits dest!: hint_inv_insert [OF Cons.prems(1)] intro: Cons.IH)
  qed
qed auto

text \<open>The hints of an upload are those of its fragments; stored fragments have none.\<close>

definition upload_inv :: "'v upload \<Rightarrow> bool" where
  "upload_inv = (\<lambda>(d, fr). hint_inv (frag_hints (fr_frags fr)) (ld_set d) \<and> (\<forall>f\<in>set (fr_frags fr). dd_type f = STORED \<longrightarrow> dd_hint f = None))"

lemma upload_inv_step:
  assumes "upload_inv (d, fr)" and "dedupe_step V conf cap data offset (d, fr) = Some (s', r)"
  shows "upload_inv s'"
proof -
  have i: "hint_inv (frag_hints (fr_frags fr)) (ld_set d)" and t: "\<forall>f\<in>set (fr_frags fr). dd_type f = STORED \<longrightarrow> dd_hint f = None"
    using assms(1) by (auto simp: upload_inv_def)
  obtain c F q where f: "fs_find V (ld_storage d) cap data (ld_cache d, ld_set d) = Some ((c, F), q)"
    using assms(2) by (auto simp: dedupe_step_def on_set_def split: option.splits)
  show ?thesis
  proof (cases q)
    case (Inl e)
    then show ?thesis using f assms(2) hint_inv_find [OF i f] t by (auto simp: dedupe_step_def on_set_def upload_inv_def)
  next
    case (Inr x)
    then have h: "hint_inv (add_mset (resp_hint x) (frag_hints (fr_frags fr))) F" using hint_inv_find [OF i f] by simp
    note hr = hint_inv_release [OF h]
    obtain d2 y where m: "dedupe_matches V cap data x (d\<lparr>ld_cache := c, ld_set := F\<rparr>) = Some (d2, y)" "ld_set d2 = F"
      using assms(2) f Inr by (auto simp: dedupe_step_def on_set_def dedupe_matches_def split: option.splits prod.splits)
    show ?thesis
    proof (cases y)
      case (Inl e)
      then show ?thesis using assms(2) f Inr m hr t by (auto simp: dedupe_step_def on_set_def upload_inv_def release_hint_def)
    next
      case s: (Inr z)
      obtain low high where z: "z = (low, high)" by (cases z)
      show ?thesis
      proof (cases "max low high > min_fragment_size conf")
        case True
        then show ?thesis using assms(2) f Inr m hr t s z
          by (auto simp: dedupe_step_def on_set_def upload_inv_def release_hint_def push_stored_def Let_def split: if_splits)
      next
        case False
        then show ?thesis using assms(2) f Inr m h t s z
          by (auto simp: dedupe_step_def on_set_def upload_inv_def push_unstored_def Let_def)
      qed
    qed
  qed
qed

lemma upload_inv_loop:
  assumes "dedupe_loop V conf cap data offset s = Some y"
  shows "upload_inv s \<longrightarrow> upload_inv (fst y)"
  using assms
proof (rule dedupe_loop.raw_induct [rotated, where P = "\<lambda>V conf cap data offset s y. upload_inv s \<longrightarrow> upload_inv (fst y)"])
  fix loop V conf cap data offset s y
  assume ih: "\<And>V conf cap data offset s y. loop V conf cap data offset s = Some y \<Longrightarrow> upload_inv s \<longrightarrow> upload_inv (fst y)"
    and e: "(if data = [] then Some (s, Inr ())
      else case dedupe_step V conf cap data offset s of
             None \<Rightarrow> None
           | Some (s', Inl e) \<Rightarrow> Some (s', Inl e)
           | Some (s', Inr n) \<Rightarrow> loop V conf cap (drop n data) (add64 offset n) s') = Some y"
  obtain d fr where s: "s = (d, fr)" by (cases s)
  show "upload_inv s \<longrightarrow> upload_inv (fst y)"
  proof (cases "data = []")
    case True
    then show ?thesis using e by auto
  next
    case False
    then obtain s' r where st: "dedupe_step V conf cap data offset (d, fr) = Some (s', r)" using e s by (auto split: option.splits)
    show ?thesis using e False st s upload_inv_step [OF _ st] ih by (cases r) auto
  qed
qed

lemma reject_loop_hints:
  "hint_inv M F \<Longrightarrow> \<forall>f\<in>set fs. dd_type f = STORED \<longrightarrow> dd_hint f = None \<Longrightarrow> reject_loop fs rej eff uns F = (fs', e, u, F') \<Longrightarrow>
   hint_inv M F' \<and> frag_hints fs' = frag_hints fs \<and> (\<forall>f\<in>set fs'. dd_type f = STORED \<longrightarrow> dd_hint f = None)"
proof (induction fs rej eff uns F arbitrary: fs' rule: reject_loop.induct)
  case (2 f fs rej eff uns F)
  show ?case
  proof (cases "if dd_type f = STORED then after_match f rej else None")
    case None
    then show ?thesis using 2(1) [OF None 2(3)] 2(4,5) by (auto split: prod.splits if_splits option.splits)
  next
    case (Some rej')
    then show ?thesis using 2(2) [OF Some hint_inv_erase [OF 2(3)]] 2(4,5) by (auto split: prod.splits if_splits option.splits)
  qed
qed simp

lemma upload_inv_link:
  assumes u: "upload_inv (d, fr)" and l: "link_stored V (d, fr) = Some (s', r)"
  shows "upload_inv s'"
proof (cases "get_stored_fragments fr = []")
  case True
  then show ?thesis using u l by (auto simp: link_stored_def)
next
  case False
  then obtain v q where v: "vo_link V (ld_storage d) (get_stored_fragments fr) = Some (v, q)"
    using l by (auto simp: link_stored_def Let_def split: option.splits)
  show ?thesis
  proof (cases "\<exists>rej. q = Inr rej \<and> rej \<noteq> []")
    case True
    then obtain rej where q: "q = Inr rej" "rej \<noteq> []" by blast
    obtain fs e x F where R: "reject_loop (fr_frags fr) rej (fr_effective fr) (fr_unstored fr) (ld_set d) = (fs, e, x, F)"
      by (metis prod_cases4)
    have "hint_inv (frag_hints fs) F \<and> (\<forall>f\<in>set fs. dd_type f = STORED \<longrightarrow> dd_hint f = None)"
      using reject_loop_hints [OF _ _ R, of "frag_hints (fr_frags fr)"] u by (auto simp: upload_inv_def)
    moreover have "s' = (d\<lparr>ld_storage := v, ld_set := F\<rparr>, fr\<lparr>fr_frags := fs, fr_effective := e, fr_unstored := x\<rparr>)"
      using l False v q R by (simp add: link_stored_def Let_def handle_rejected_fragments_def)
    ultimately show ?thesis by (simp add: upload_inv_def)
  next
    case rej: False
    then show ?thesis using u l False v by (cases q) (auto simp: link_stored_def Let_def upload_inv_def)
  qed
qed

lemma address_loop_hints:
  "address_loop fs cur soff rest = Inr fs' \<Longrightarrow> map dd_hint fs' = map dd_hint fs \<and> map dd_type fs' = map dd_type fs"
proof (induction fs arbitrary: cur soff rest fs')
  case (Cons f fs)
  then show ?case by (cases "dd_type f = UNSTORED") (auto simp: bindE_def split: sum.splits prod.splits)
qed simp

lemma frag_hints_map: "map dd_hint fs' = map dd_hint fs \<Longrightarrow> frag_hints fs' = frag_hints fs"
proof (induction fs' arbitrary: fs)
  case (Cons f fs')
  then show ?case by (cases fs) (auto split: option.split dest: Cons.IH)
qed simp

lemma upload_inv_map:
  assumes "upload_inv (d, fr)" and "map dd_hint (fr_frags fr') = map dd_hint (fr_frags fr)"
    and "map dd_type (fr_frags fr') = map dd_type (fr_frags fr)" and "ld_set d' = ld_set d"
  shows "upload_inv (d', fr')"
proof -
  have "dd_hint f = None" if f: "f \<in> set (fr_frags fr')" "dd_type f = STORED" for f
  proof -
    obtain i where i: "f = fr_frags fr' ! i" "i < length (fr_frags fr')" using f(1) by (auto simp: in_set_conv_nth)
    have "length (fr_frags fr') = length (fr_frags fr)" using assms(2) by (rule map_eq_imp_length_eq)
    then have "dd_type (fr_frags fr ! i) = STORED" "dd_hint f = dd_hint (fr_frags fr ! i)" "fr_frags fr ! i \<in> set (fr_frags fr)"
      using i f(2) arg_cong [OF assms(2), of "\<lambda>xs. xs ! i"] arg_cong [OF assms(3), of "\<lambda>xs. xs ! i"] by auto
    then show ?thesis using assms(1) by (auto simp: upload_inv_def)
  qed
  then show ?thesis using assms(1,4) frag_hints_map [OF assms(2)] by (simp add: upload_inv_def)
qed

lemma upload_inv_storage:
  assumes u: "upload_inv (d, fr)" and l: "flush_storage V (d, fr) = Some (s', r)"
  shows "upload_inv s'"
proof (cases "fr_unstored fr = 0")
  case False
  obtain buf offs where b: "unstored_to_buffer fr = (buf, offs)" by (cases "unstored_to_buffer fr")
  obtain v q where v: "vo_write V (ld_storage d) buf offs = Some (v, q)"
    using l False b by (auto simp: flush_storage_def split: option.splits)
  show ?thesis
  proof (cases q)
    case (Inl e)
    then show ?thesis using l False b v by (auto simp: flush_storage_def intro!: upload_inv_map [OF u])
  next
    case (Inr a)
    then show ?thesis
      using l False b v address_loop_hints
      by (cases "address_loop (fr_frags fr) None 0 a")
        (auto simp: flush_storage_def compute_unstored_addresses_def Let_def intro!: upload_inv_map [OF u])
  qed
qed (use assms in \<open>auto simp: flush_storage_def\<close>)

lemma upload_inv_set:
  assumes u: "upload_inv (d, fr)" and l: "flush_fragment_set V cap (d, fr) = Some (s', r)"
  shows "upload_inv s'"
proof (cases "fr_unstored fr = 0")
  case False
  then obtain c F q where f: "flush_loop V (ld_storage d) cap (fr_frags fr) (ld_cache d, ld_set d) = Some ((c, F), q)"
    using l by (auto simp: flush_fragment_set_def on_set_def split: option.splits)
  have "hint_inv (frag_hints (fr_frags fr)) F" using hint_inv_flush [OF _ f] u by (simp add: upload_inv_def)
  then show ?thesis using u l False f
    by (cases q) (auto simp: flush_fragment_set_def on_set_def upload_inv_def mark_as_uploaded_def)
qed (use assms in \<open>auto simp: flush_fragment_set_def\<close>)

definition keeps :: "('s \<Rightarrow> bool) \<Rightarrow> ('s, 'a) proc \<Rightarrow> bool" where
  "keeps P m \<longleftrightarrow> (\<forall>s s' r. P s \<longrightarrow> m s = Some (s', r) \<longrightarrow> P s')"

lemma keepsI: "(\<And>s s' r. P s \<Longrightarrow> m s = Some (s', r) \<Longrightarrow> P s') \<Longrightarrow> keeps P m"
  by (auto simp: keeps_def)

lemma keeps_bindP:
  assumes "keeps P m" and "\<forall>x. keeps P (f x)"
  shows "keeps P (bindP m f)"
proof (rule keepsI)
  fix s s' r assume s: "P s" and b: "bindP m f s = Some (s', r)"
  obtain s1 q where m: "m s = Some (s1, q)" using b by (auto simp: bindP_def split: option.splits)
  have "P s1" using assms(1) s m unfolding keeps_def by blast
  then show "P s'" using b m assms(2) by (cases q) (auto simp: bindP_def keeps_def)
qed

lemma keeps_stages:
  "keeps upload_inv (dedupe_loop V conf cap data offset)" "keeps upload_inv (link_stored V)" "keeps upload_inv (flush_storage V)"
  "keeps upload_inv (flush_fragment_set V cap)" "keeps upload_inv (\<lambda>(d, fr). Some ((d, fr), g d fr))"
proof -
  show "keeps upload_inv (dedupe_loop V conf cap data offset)" by (rule keepsI) (drule upload_inv_loop, simp)
  show "keeps upload_inv (link_stored V)" by (rule keepsI) (metis surj_pair upload_inv_link)
  show "keeps upload_inv (flush_storage V)" by (rule keepsI) (metis surj_pair upload_inv_storage)
  show "keeps upload_inv (flush_fragment_set V cap)" by (rule keepsI) (metis surj_pair upload_inv_set)
  show "keeps upload_inv (\<lambda>(d, fr). Some ((d, fr), g d fr))" by (rule keepsI) auto
qed

lemma release_all:
  "hint_inv (frag_hints fs) (ld_set d) \<Longrightarrow>
   hints_free (ld_set (fold (\<lambda>f d. case dd_hint f of Some h \<Rightarrow> release_hint h d | None \<Rightarrow> d) fs d))"
proof (induction fs arbitrary: d)
  case (Cons f fs)
  then show ?case using hint_inv_release by (cases "dd_hint f") (auto simp: release_hint_def intro!: Cons.IH)
qed (simp add: hints_free_inv)

text \<open>
  C14: However a deduplication ends - with an address, or with an error of any read, link or write
  of the storages - no hint stays behind in the fragment set: the count of every element is zero
  again, so that the element can be removed when it is evicted.
\<close>

theorem deduplicate_releases_hints:
  assumes "hints_free (ld_set d)" and "deduplicate V conf cap data d = Some (d', r)"
  shows "hints_free (ld_set d')"
proof -
  obtain s where s: "bindP (dedupe_loop V conf cap data 0) (\<lambda>_. bindP (link_stored V) (\<lambda>_. bindP (flush_storage V) (\<lambda>_.
      bindP (flush_fragment_set V cap) (\<lambda>_ (d', fr). Some ((d', fr), Inr \<lparr>effective_size = fr_effective fr, daddr = make_address fr\<rparr>)))))
      (d, fragmentation_new) = Some (s, r)" "d' = release_fragments s"
    using assms(2) by (auto simp: deduplicate_def split: option.splits)
  have i: "upload_inv (d, fragmentation_new)" using assms(1) by (simp add: upload_inv_def fragmentation_new_def hints_free_inv)
  have "keeps upload_inv (bindP (dedupe_loop V conf cap data 0) (\<lambda>_. bindP (link_stored V) (\<lambda>_. bindP (flush_storage V) (\<lambda>_.
      bindP (flush_fragment_set V cap) (\<lambda>_ (d', fr). Some ((d', fr), Inr \<lparr>effective_size = fr_effective fr, daddr = make_address fr\<rparr>))))))"
    by (intro keeps_bindP allI keeps_stages)
  then have "upload_inv s" using s(1) i unfolding keeps_def by blast
  then show ?thesis using release_all unfolding s(2) by (cases s) (auto simp: upload_inv_def release_fragments_def)
qed

text \<open>A storage without space: the search hands out a hint, and writing the data fails.\<close>

definition full_view :: "unit view_ops" where
  "full_view = \<lparr>vo_write = \<lambda>v b offsets. Some (v, Inl Runtime_error), vo_read = \<lambda>v p n. None,
     vo_read_address = \<lambda>v a b. None, vo_link = \<lambda>v a. None, vo_unlink = \<lambda>v a. None, vo_get_used_space = \<lambda>v. 0\<rparr>"

definition full_dedup :: "unit local_deduplicator" where
  "full_dedup = \<lparr>ld_storage = (), ld_cache = [], ld_set = (fs_new 2)\<lparr>fs_next := 1, fs_elements := [fe_make 0 ''zz'' 8 None]\<rparr>\<rparr>"

theorem deduplicate_releases_hints_witness:
  "\<exists>d'. deduplicate full_view \<lparr>min_fragment_size = 1, max_fragment_size = 3\<rparr> 4 ''hello'' full_dedup = Some (d', Inl Runtime_error)
    \<and> hints_free (ld_set d')"
proof -
  have d: "deduplicate full_view \<lparr>min_fragment_size = 1, max_fragment_size = 3\<rparr> 4 ''hello'' full_dedup = Some (full_dedup, Inl Runtime_error)"
    by (simp add: deduplicate_def bindP_def dedupe_loop.simps [of _ _ _ "_ # _"] dedupe_loop.simps [of _ _ _ "[]"] link_stored_def
        flush_storage_def fragmentation_new_def get_stored_fragments_def release_fragments_def full_view_def full_dedup_def
        dedupe_step_def on_set_def fs_find_def Let_def dedupe_matches_def match_size_def fe_make_def fe_less_def PREFIX_SIZE_def
        hint_add_def push_unstored_def unstored_to_buffer_def release_hint_def fs_new_def retP_def add64_def M64_def)
  have "hints_free (ld_set full_dedup)" by (simp add: hints_free_def full_dedup_def fs_new_def fe_make_def)
  from deduplicate_releases_hints [OF this d] d show ?thesis by blast
qed

end
