(* ===== verification/Vrm_Strings.thy ===== *)
theory Vrm_Strings
  imports Vrm_Prelude "HOL-Library.Sublist"
begin

unbundle bit_operations_syntax

text \<open>
  String helpers (\<open>common/utils/strings.h\<close>, \<open>strings.cpp\<close>): splitting and joining, trimming, case,
  hexadecimal and percent encoding, numbers. \<open>std::from_chars\<close> reads a maximal run of digits and
  fails without one or when the value does not fit.
\<close>

subsection \<open>Splitting and joining\<close>

text \<open>Splitting an empty range gives no element, and every other range one more than it has delimiters.\<close>

fun split_rest :: "char \<Rightarrow> bytes \<Rightarrow> bytes \<Rightarrow> bytes list" where
  "split_rest d acc [] = [acc]"
| "split_rest d acc (c # cs) = (if c = d then acc # split_rest d [] cs else split_rest d (acc @ [c]) cs)"

definition split_str :: "bytes \<Rightarrow> char \<Rightarrow> bytes list" where
  "split_str s d = (if s = [] then [] else split_rest d [] s)"

definition join :: "bytes list \<Rightarrow> bytes \<Rightarrow> bytes" where
  "join xs delimiter = snd (fold (\<lambda>e (first, rv). (False, (if first then rv else rv @ delimiter) @ e)) xs (True, []))"

subsection \<open>Characters\<close>

definition tolower :: "char \<Rightarrow> char" where
  "tolower c = (if CHR ''A'' \<le> c \<and> c \<le> CHR ''Z'' then char_of ((of_char c :: nat) + 32) else c)"

definition lowercase :: "bytes \<Rightarrow> bytes" where
  "lowercase s = map tolower s"

fun eq_from :: "bytes \<Rightarrow> bytes \<Rightarrow> bool" where
  "eq_from (a # as) (b # bs) \<longleftrightarrow> tolower a = tolower b \<and> eq_from as bs"
| "eq_from _ _ \<longleftrightarrow> True"

definition equals_nocase :: "bytes \<Rightarrow> bytes \<Rightarrow> bool" where
  "equals_nocase a b \<longleftrightarrow> (if length a \<noteq> length b then False else eq_from a b)"

text \<open>\<open>tolower\<close> returns an \<open>int\<close>: bytes from 128 on are negative where \<open>char\<close> is signed.\<close>

definition schar :: "char \<Rightarrow> int" where
  "schar c = (let n = of_char c in if n < 128 then n else n - 256)"

fun less_from :: "bytes \<Rightarrow> bytes \<Rightarrow> bool" where
  "less_from (a # as) (b # bs) \<longleftrightarrow> (if tolower a \<noteq> tolower b then schar (tolower a) < schar (tolower b) else less_from as bs)"
| "less_from _ _ \<longleftrightarrow> False"

definition nocase_less :: "bytes \<Rightarrow> bytes \<Rightarrow> bool" where
  "nocase_less a b \<longleftrightarrow> (if length a \<noteq> length b then length a < length b else less_from a b)"

subsection \<open>Trimming\<close>

definition WHITESPACE :: bytes where
  "WHITESPACE = [CHR '' '', CHR 0x0A, CHR 0x0D, CHR 0x09, CHR 0x0C, CHR 0x0B]"

definition ltrim :: "bytes \<Rightarrow> bytes \<Rightarrow> bytes" where
  "ltrim chars s = dropWhile (\<lambda>c. c \<in> set chars) s"

definition rtrim :: "bytes \<Rightarrow> bytes \<Rightarrow> bytes" where
  "rtrim chars s = rev (dropWhile (\<lambda>c. c \<in> set chars) (rev s))"

definition trim :: "bytes \<Rightarrow> bytes \<Rightarrow> bytes" where
  "trim chars s = ltrim chars (rtrim chars s)"

definition erase_all :: "bytes \<Rightarrow> bytes \<Rightarrow> bytes" where
  "erase_all haystack characters = filter (\<lambda>c. c \<notin> set characters) haystack"

subsection \<open>Hexadecimal and percent encoding\<close>

definition nibble :: "string \<Rightarrow> nat \<Rightarrow> char" where
  "nibble digits k = digits ! k"

definition to_hex1 :: "string \<Rightarrow> char \<Rightarrow> bytes" where
  "to_hex1 digits c = [nibble digits (of_char c div 16 mod 16), nibble digits (of_char c mod 16)]"

definition to_hex :: "bytes \<Rightarrow> bytes" where
  "to_hex buffer = concat (map (to_hex1 ''0123456789abcdef'') buffer)"

definition to_hexu :: "char \<Rightarrow> bytes" where
  "to_hexu c = to_hex1 ''0123456789ABCDEF'' c"

definition isxdigit :: "char \<Rightarrow> bool" where
  "isxdigit c \<longleftrightarrow> (CHR ''0'' \<le> c \<and> c \<le> CHR ''9'') \<or> (CHR ''a'' \<le> c \<and> c \<le> CHR ''f'') \<or> (CHR ''A'' \<le> c \<and> c \<le> CHR ''F'')"

definition xvalue :: "char \<Rightarrow> nat" where
  "xvalue c = (if CHR ''a'' \<le> c \<and> c \<le> CHR ''f'' then of_char c - 97 + 10 else of_char c - 48)"

fun unhex_loop :: "bytes \<Rightarrow> bytes res" where
  "unhex_loop (h # l # rest) =
     (if \<not> isxdigit h \<or> \<not> isxdigit l then Inl Invalid_argument
      else bindE (unhex_loop rest) (\<lambda>r. Inr (char_of ((push_bit 8 (xvalue h) OR xvalue l) mod 256) # r)))"
| "unhex_loop _ = Inr []"

definition unhex :: "bytes \<Rightarrow> bytes res" where
  "unhex s = (if length s mod 2 \<noteq> 0 then Inl Invalid_argument else unhex_loop (map tolower s))"

definition unreserved :: "char \<Rightarrow> bool" where
  "unreserved c \<longleftrightarrow> (CHR ''A'' \<le> c \<and> c \<le> CHR ''Z'') \<or> (CHR ''a'' \<le> c \<and> c \<le> CHR ''z'') \<or> (CHR ''0'' \<le> c \<and> c \<le> CHR ''9'')
     \<or> c \<in> set ''-._~''"

definition uri_encode :: "bytes \<Rightarrow> bytes \<Rightarrow> bytes" where
  "uri_encode str also_encode =
     concat (map (\<lambda>c. if unreserved c \<or> c \<in> set also_encode then [c] else CHR ''%'' # to_hexu c) str)"

subsection \<open>Numbers\<close>

definition digit_value :: "nat \<Rightarrow> char \<Rightarrow> nat option" where
  "digit_value base c =
     (let v = (if CHR ''0'' \<le> c \<and> c \<le> CHR ''9'' then Some (of_char c - 48)
               else if CHR ''a'' \<le> c \<and> c \<le> CHR ''z'' then Some (of_char c - 97 + 10)
               else if CHR ''A'' \<le> c \<and> c \<le> CHR ''Z'' then Some (of_char c - 65 + 10) else None)
      in case v of Some n \<Rightarrow> if n < base then Some n else None | None \<Rightarrow> None)"

definition digits_of :: "nat \<Rightarrow> bytes \<Rightarrow> nat list" where
  "digits_of base s = map (\<lambda>c. the (digit_value base c)) (takeWhile (\<lambda>c. digit_value base c \<noteq> None) s)"

definition digits_value :: "nat \<Rightarrow> nat list \<Rightarrow> nat" where
  "digits_value base ds = fold (\<lambda>d v. v * base + d) ds 0"

text \<open>The value and the number of characters read.\<close>

definition stoul :: "nat \<Rightarrow> bytes \<Rightarrow> (size_t \<times> nat) res" where
  "stoul base s =
     (let ds = digits_of base s
      in if ds = [] \<or> digits_value base ds \<ge> M64 then Inl Runtime_error else Inr (digits_value base ds, length ds))"

definition to_int :: "bytes \<Rightarrow> int res" where
  "to_int s =
     (let neg = (s \<noteq> [] \<and> hd s = CHR ''-''); t = (if neg then tl s else s); ds = digits_of 10 t;
          v = (if neg then - int (digits_value 10 ds) else int (digits_value 10 ds))
      in if ds = [] \<or> v < - (2 ^ 63) \<or> v \<ge> 2 ^ 63 \<or> length ds \<noteq> length t then Inl Runtime_error else Inr v)"

definition isspace :: "char \<Rightarrow> bool" where
  "isspace c \<longleftrightarrow> c \<in> set WHITESPACE"

text \<open>\<open>std::stoull\<close>: leading white space and a sign are accepted, what follows the digits is ignored.\<close>

definition stoull :: "bytes \<Rightarrow> size_t res" where
  "stoull s =
     (let t = dropWhile isspace s;
          neg = (t \<noteq> [] \<and> hd t = CHR ''-'');
          u = (if t \<noteq> [] \<and> (hd t = CHR ''-'' \<or> hd t = CHR ''+'') then tl t else t);
          ds = digits_of 10 u
      in if ds = [] then Inl Invalid_argument
         else if digits_value 10 ds \<ge> M64 then Inl Out_of_range
         else Inr (if neg then sub64 0 (digits_value 10 ds) else digits_value 10 ds))"

subsection \<open>Properties\<close>

lemma join_Nil [simp]: "join [] d = []"
  by (simp add: join_def)

lemma join_Cons [simp]: "join (x # xs) d = x @ concat (map (\<lambda>e. d @ e) xs)"
proof -
  have "snd (fold (\<lambda>e (first, rv). (False, (if first then rv else rv @ d) @ e)) xs (False, acc)) = acc @ concat (map (\<lambda>e. d @ e) xs)" for acc
    by (induction xs arbitrary: acc) simp_all
  then show ?thesis by (simp add: join_def)
qed

lemma split_rest_not_Nil [simp]: "split_rest d acc s \<noteq> []"
  by (induction s arbitrary: acc) auto

lemma join_split_rest: "join (split_rest d acc s) [d] = acc @ s"
proof (induction s arbitrary: acc)
  case (Cons c s)
  have "concat (map (\<lambda>e. d # e) (split_rest d [] s)) = d # s"
    using Cons.IH [of "[]"] by (cases "split_rest d [] s") simp_all
  then show ?case using Cons.IH [of "acc @ [c]"] by simp
qed simp

lemma split_rest_join:
  "d \<notin> set x \<Longrightarrow> \<forall>y\<in>set xs. d \<notin> set y \<Longrightarrow> split_rest d acc (x @ concat (map (\<lambda>e. [d] @ e) xs)) = (acc @ x) # xs"
proof (induction xs arbitrary: x acc)
  case Nil
  then show ?case by (induction x arbitrary: acc) auto
next
  case (Cons y ys)
  have "split_rest d acc (x @ d # r) = (acc @ x) # split_rest d [] r" for r
    using Cons.prems(1) by (induction x arbitrary: acc) auto
  then show ?case using Cons.IH [of y "[]"] Cons.prems(2) by simp
qed

lemma split_join_inverse:
  "join (split_str s d) [d] = s"
  "(\<forall>x\<in>set xs. d \<notin> set x) \<Longrightarrow> join xs [d] \<noteq> [] \<Longrightarrow> split_str (join xs [d]) d = xs"
proof -
  show "join (split_str s d) [d] = s" by (simp add: split_str_def join_split_rest)
  assume "\<forall>x\<in>set xs. d \<notin> set x" "join xs [d] \<noteq> []"
  then show "split_str (join xs [d]) d = xs"
    using split_rest_join [of d "hd xs" "tl xs" "[]"] by (cases xs) (simp_all add: split_str_def)
qed

lemma schar_inj [simp]: "schar a = schar b \<longleftrightarrow> a = b"
proof
  have r: "(of_char c :: int) < 256" "0 \<le> (of_char c :: int)" for c by (auto simp: of_char_def)
  assume "schar a = schar b"
  then have "(of_char a :: int) = of_char b" using r [of a] r [of b] by (auto simp: schar_def Let_def split: if_splits)
  then show "a = b" by (simp add: of_char_eq_iff)
qed simp

lemma equals_nocase_iff: "equals_nocase a b \<longleftrightarrow> map (schar \<circ> tolower) a = map (schar \<circ> tolower) b"
proof (cases "length a = length b")
  case True
  then show ?thesis by (induction a b rule: list_induct2) (auto simp: equals_nocase_def)
qed (auto simp: equals_nocase_def dest: map_eq_imp_length_eq)

lemma nocase_less_iff:
  "nocase_less a b \<longleftrightarrow> length a < length b \<or> length a = length b \<and> map (schar \<circ> tolower) a < map (schar \<circ> tolower) b"
proof (cases "length a = length b")
  case True
  then have "less_from a b \<longleftrightarrow> map (schar \<circ> tolower) a < map (schar \<circ> tolower) b" by (induction a b rule: list_induct2) auto
  then show ?thesis using True by (simp add: nocase_less_def)
qed (simp add: nocase_less_def)

text \<open>
  \<open>nocase_less\<close> is a comparison an ordered container may use: irreflexive and transitive, and
  two strings that are not ordered either way are those \<open>equals_nocase\<close> holds of.
\<close>

theorem nocase_less_strict_weak:
  "\<not> nocase_less a a \<and> (nocase_less a b \<and> nocase_less b c \<longrightarrow> nocase_less a c)
   \<and> (\<not> nocase_less a b \<and> \<not> nocase_less b a \<longleftrightarrow> equals_nocase a b)"
  unfolding nocase_less_iff equals_nocase_iff by (auto dest: map_eq_imp_length_eq)

theorem nocase_less_strict_weak_witness:
  "nocase_less ''Host'' ''Range'' \<and> nocase_less ''Range'' ''user-agent'' \<and> nocase_less ''Host'' ''user-agent'' \<and> equals_nocase ''HOST'' ''host''"
proof -
  have "nocase_less ''Host'' ''Range'' \<and> nocase_less ''Range'' ''user-agent''" "\<not> nocase_less ''HOST'' ''host'' \<and> \<not> nocase_less ''host'' ''HOST''"
    by code_simp+
  then show ?thesis
    using nocase_less_strict_weak [of "''Host''" "''Range''" "''user-agent''"] nocase_less_strict_weak [of "''HOST''" "''host''"] by blast
qed

subsection \<open>Hexadecimal and percent encoding\<close>

lemma hex_char:
  assumes "k < 16"
  shows "isxdigit (nibble ''0123456789abcdef'' k)" "xvalue (nibble ''0123456789abcdef'' k) = k"
    "tolower (nibble ''0123456789abcdef'' k) = nibble ''0123456789abcdef'' k"
proof -
  have "\<forall>k\<in>set [0..<16]. isxdigit (nibble ''0123456789abcdef'' k) \<and> xvalue (nibble ''0123456789abcdef'' k) = k
      \<and> tolower (nibble ''0123456789abcdef'' k) = nibble ''0123456789abcdef'' k"
    by code_simp
  then show "isxdigit (nibble ''0123456789abcdef'' k)" "xvalue (nibble ''0123456789abcdef'' k) = k"
    "tolower (nibble ''0123456789abcdef'' k) = nibble ''0123456789abcdef'' k" using assms by auto
qed

text \<open>
  \<open>unhex\<close> of a hexadecimal string is not the string it encodes: the high digit of every pair
  is shifted by eight bits and lost in the conversion to a character, so only the lower half of
  each byte is left.
\<close>

lemma unhex_loses_high_digit: "unhex (to_hex s) = Inr (map (\<lambda>c. char_of (of_char c mod 16 :: nat)) s)"
proof -
  have "unhex_loop (map tolower (to_hex s)) = Inr (map (\<lambda>c. char_of (of_char c mod 16 :: nat)) s)"
  proof (induction s)
    case (Cons c s)
    let ?n = "of_char c :: nat"
    have "(push_bit 8 (?n div 16 mod 16) OR ?n mod 16) mod 256 = ?n mod 16"
    proof -
      have "take_bit 8 (push_bit 8 (?n div 16 mod 16) OR ?n mod 16) = take_bit 8 (?n mod 16)"
        by (simp add: take_bit_or take_bit_push_bit)
      then show ?thesis by (simp add: take_bit_eq_mod)
    qed
    then show ?case using Cons by (simp add: to_hex_def to_hex1_def hex_char)
  qed (simp add: to_hex_def)
  moreover have "length (to_hex s) mod 2 = 0" by (induction s) (simp_all add: to_hex_def to_hex1_def)
  ultimately show ?thesis by (simp add: unhex_def)
qed

lemma to_hex1_inj:
  assumes e: "to_hex1 ds a = to_hex1 ds b" and d: "distinct ds" "length ds = 16"
  shows "a = b"
proof -
  let ?n = "of_char a :: nat" and ?m = "of_char b :: nat"
  have i: "nibble ds j = nibble ds k \<longleftrightarrow> j = k" if "j < 16" "k < 16" for j k
    using that d by (simp add: nibble_def nth_eq_iff_index_eq)
  have "?n < 16 * 16" "?m < 16 * 16" by (auto simp: of_char_def)
  then have "?n div 16 < 16" "?m div 16 < 16" by (simp_all only: less_mult_imp_div_less)
  then have d: "?n div 16 mod 16 = ?n div 16" "?m div 16 mod 16 = ?m div 16" by simp_all
  have "?n div 16 mod 16 = ?m div 16 mod 16" "?n mod 16 = ?m mod 16" using e by (simp_all add: to_hex1_def i)
  then have "?n div 16 = ?m div 16" "?n mod 16 = ?m mod 16" unfolding d by simp_all
  then have "?n = ?m" by (metis div_mult_mod_eq)
  then show "a = b" by (simp add: of_char_eq_iff)
qed

lemma hexu_inj: "to_hexu a = to_hexu b \<Longrightarrow> a = b"
proof -
  have "distinct ''0123456789ABCDEF''" "length ''0123456789ABCDEF'' = 16" by code_simp+
  then show "to_hexu a = to_hexu b \<Longrightarrow> a = b" unfolding to_hexu_def using to_hex1_inj by blast
qed

lemma to_hex_inj: "to_hex x = to_hex y \<Longrightarrow> x = y"
proof (induction x arbitrary: y)
  case Nil
  then show ?case by (cases y) (simp_all add: to_hex_def to_hex1_def)
next
  case (Cons a x)
  then obtain b z where y: "y = b # z" by (cases y) (simp_all add: to_hex_def to_hex1_def)
  have "to_hex1 ''0123456789abcdef'' a = to_hex1 ''0123456789abcdef'' b \<and> to_hex x = to_hex z"
    using Cons.prems unfolding y by (simp add: to_hex_def to_hex1_def)
  moreover have "distinct ''0123456789abcdef''" "length ''0123456789abcdef'' = 16" by code_simp+
  ultimately show ?case using Cons.IH [of z] to_hex1_inj by (auto simp: y)
qed

definition uri_char :: "char \<Rightarrow> bytes" where
  "uri_char c = (if unreserved c then [c] else CHR ''%'' # to_hexu c)"

lemma uri_encode_chars: "uri_encode s [] = concat (map uri_char s)"
  by (simp add: uri_encode_def uri_char_def [abs_def])

lemma uri_char_prefix_free:
  assumes "uri_char a @ x = uri_char b @ y"
  shows "a = b \<and> x = y"
proof -
  have p: "\<not> unreserved (CHR ''%'')" by code_simp
  have l: "length (to_hexu a) = length (to_hexu b)" by (simp add: to_hexu_def to_hex1_def)
  show ?thesis
  proof (cases "unreserved a \<or> unreserved b")
    case True
    then show ?thesis using assms p by (auto simp: uri_char_def split: if_splits)
  next
    case False
    then show ?thesis using assms l hexu_inj [of a b] by (simp add: uri_char_def)
  qed
qed

lemma hexu_unreserved: "c' \<in> set (to_hexu c) \<Longrightarrow> unreserved c'"
proof -
  have "\<forall>k\<in>set [0..<16]. unreserved (nibble ''0123456789ABCDEF'' k)" by code_simp
  then show "c' \<in> set (to_hexu c) \<Longrightarrow> unreserved c'" by (auto simp: to_hexu_def to_hex1_def)
qed

text \<open>
  \<open>uri_encode\<close> is injective, so that two different query strings never have the same canonical
  form in a signature, and its result has only unreserved characters and percent signs.
\<close>

theorem uri_encode_canonical:
  "(uri_encode s [] = uri_encode t [] \<longleftrightarrow> s = t) \<and> list_all (\<lambda>c. unreserved c \<or> c = CHR ''%'') (uri_encode s [])"
proof
  show "uri_encode s [] = uri_encode t [] \<longleftrightarrow> s = t"
    unfolding uri_encode_chars
  proof (induction s arbitrary: t)
    case Nil
    then show ?case by (cases t) (auto simp: uri_char_def)
  next
    case (Cons a s)
    show ?case
    proof (cases t)
      case Nil
      then show ?thesis by (simp add: uri_char_def)
    next
      case c: (Cons b t')
      then show ?thesis using Cons.IH [of t'] uri_char_prefix_free [of a _ b] by auto
    qed
  qed
  show "list_all (\<lambda>c. unreserved c \<or> c = CHR ''%'') (uri_encode s [])"
    unfolding uri_encode_chars list_all_iff by (auto simp: uri_char_def split: if_splits dest: hexu_unreserved)
qed

subsection \<open>Numbers\<close>

lemma digit_value_digit_char: "k < 10 \<Longrightarrow> digit_value 10 (digit_char k) = Some k"
proof -
  have "\<forall>k\<in>set [0..<10]. digit_value 10 (digit_char k) = Some k" by code_simp
  then show "k < 10 \<Longrightarrow> digit_value 10 (digit_char k) = Some k" by auto
qed

lemma digits_of_append:
  "\<forall>c\<in>set a. digit_value base c \<noteq> None \<Longrightarrow> digits_of base (a @ b) = map (\<lambda>c. the (digit_value base c)) a @ digits_of base b"
  by (induction a) (auto simp: digits_of_def)

lemma nat_str_digits: "\<forall>c\<in>set (nat_str n). digit_value 10 c \<noteq> None"
proof (induction n rule: nat_str.induct)
  case (1 n)
  then show ?case by (subst nat_str.simps) (auto simp: digit_value_digit_char)
qed

lemma nat_str_value: "digits_value 10 (map (\<lambda>c. the (digit_value 10 c)) (nat_str n)) = n"
proof (induction n rule: nat_str.induct)
  case (1 n)
  then show ?case by (subst nat_str.simps) (auto simp: digit_value_digit_char digits_value_def)
qed

lemma nat_str_not_Nil [simp]: "nat_str n \<noteq> []"
  by (subst nat_str.simps) simp

text \<open>A printed number is read back up to the first character that is not a digit.\<close>

lemma stoul_nat_str:
  assumes "n < M64" and "r = [] \<or> digit_value 10 (hd r) = None"
  shows "stoul 10 (nat_str n @ r) = Inr (n, length (nat_str n))"
proof -
  have "digits_of 10 r = []" using assms(2) by (cases r) (auto simp: digits_of_def)
  then have "digits_of 10 (nat_str n @ r) = map (\<lambda>c. the (digit_value 10 c)) (nat_str n)" by (simp add: digits_of_append nat_str_digits)
  then show ?thesis using assms(1) by (simp add: stoul_def nat_str_value)
qed

lemma stoull_nat_str: "n < M64 \<Longrightarrow> stoull (nat_str n) = Inr n"
proof -
  assume n: "n < M64"
  obtain c s where c: "nat_str n = c # s" using nat_str_not_Nil [of n] by (cases "nat_str n") auto
  then have d: "digit_value 10 c \<noteq> None" using nat_str_digits [of n] by simp
  have ws: "\<forall>c\<in>set WHITESPACE. digit_value 10 c = None" by code_simp
  have "\<not> isspace c" "c \<noteq> CHR ''-''" "c \<noteq> CHR ''+''" using ws d by (auto simp: isspace_def digit_value_def)
  then show ?thesis
    using n c digits_of_append [of "nat_str n" 10 "[]"] nat_str_digits [of n] nat_str_value [of n]
    by (auto simp: stoull_def Let_def digits_of_def)
qed

end
