(* ===== verification/Vrm_Directory.thy ===== *)
theory Vrm_Directory
  imports Vrm_Address Vrm_Strings "HOL-Library.Sublist"
begin

text \<open>
  The directory of buckets and objects: the tables and stored procedures of the database
  (\<open>data/sql/vrm_directory\<close>, in their last version) and the class that calls them
  (\<open>entrypoint/directory.cpp\<close>). A table is the list of its rows in the order in which a scan returns
  them, a procedure that raises leaves the tables as they were. The clock, the generated UUIDs and the
  UUID parser of the database are arguments. An address in a row is the encoded address, or the
  empty byte string of a delete marker, which does not decode.
\<close>

subsection \<open>Tables\<close>

datatype versioning = Disabled | Enabled | Suspended

datatype object_state = Normal | Deleted | Collected

datatype bytea = Encoded address | Empty_bytea

record bucket_row =
  b_id :: nat
  b_name :: bytes
  b_deleted :: bool
  b_versioning :: versioning
  b_policy :: "bytes option"
  b_cors :: "bytes option"

record object_row =
  o_id :: nat
  o_bucket :: nat
  o_name :: bytes
  o_address :: bytea
  o_size :: nat
  o_last_modified :: nat
  o_etag :: "bytes option"
  o_mime :: "bytes option"
  o_version :: bytes
  o_status :: object_state
  o_deleted_at :: "nat option"
  o_sticky :: bool

record directory =
  d_buckets :: "bucket_row list"
  d_objects :: "object_row list"
  d_refs :: "nat \<Rightarrow> nat option"
  d_next_bucket :: nat
  d_next_object :: nat

text \<open>The time of a transaction in microseconds, and the UUID that an inserted row gets.\<close>

record env =
  e_now :: nat
  e_uuid :: bytes

definition ceiled_now :: "env \<Rightarrow> nat" where
  "ceiled_now e = (e_now e + 500000) div 1000000 * 1000000 + 1000000"

text \<open>The row with the greatest id among those that satisfy a condition.\<close>

fun max_row :: "(object_row \<Rightarrow> bool) \<Rightarrow> object_row list \<Rightarrow> object_row option" where
  "max_row P [] = None"
| "max_row P (r # rs) =
     (case max_row P rs of
        None \<Rightarrow> if P r then Some r else None
      | Some m \<Rightarrow> if P r \<and> o_id m \<le> o_id r then Some r else Some m)"

definition update_objects :: "(object_row \<Rightarrow> bool) \<Rightarrow> (object_row \<Rightarrow> object_row) \<Rightarrow> directory \<Rightarrow> directory" where
  "update_objects P f d = d\<lparr>d_objects := map (\<lambda>r. if P r then f r else r) (d_objects d)\<rparr>"

definition update_buckets :: "(bucket_row \<Rightarrow> bool) \<Rightarrow> (bucket_row \<Rightarrow> bucket_row) \<Rightarrow> directory \<Rightarrow> directory" where
  "update_buckets P f d = d\<lparr>d_buckets := map (\<lambda>r. if P r then f r else r) (d_buckets d)\<rparr>"

subsection \<open>Buckets\<close>

definition vrm_get_bucket_id :: "bytes \<Rightarrow> directory \<Rightarrow> nat res" where
  "vrm_get_bucket_id bucket d =
     (case filter (\<lambda>b. \<not> b_deleted b \<and> b_name b = bucket) (d_buckets d) of
        [] \<Rightarrow> Inl Runtime_error
      | b # bs \<Rightarrow> Inr (fold (\<lambda>b i. max (b_id b) i) bs (b_id b)))"

definition vrm_get_bucket_info :: "bytes \<Rightarrow> directory \<Rightarrow> (nat \<times> versioning) option" where
  "vrm_get_bucket_info bucket d =
     map_option (\<lambda>b. (b_id b, b_versioning b)) (find (\<lambda>b. b_name b = bucket \<and> \<not> b_deleted b) (d_buckets d))"

definition vrm_check_bucket :: "bytes \<Rightarrow> directory \<Rightarrow> unit res" where
  "vrm_check_bucket bucket d = (if \<exists>b\<in>set (d_buckets d). b_name b = bucket \<and> \<not> b_deleted b then Inr () else Inl Runtime_error)"

definition vrm_create_bucket :: "bytes \<Rightarrow> directory \<Rightarrow> directory \<times> unit res" where
  "vrm_create_bucket bucket d =
     (if vrm_check_bucket bucket d = Inr () then (d, Inl Runtime_error)
      else (d\<lparr>d_buckets := d_buckets d @ [\<lparr>b_id = d_next_bucket d, b_name = bucket, b_deleted = False, b_versioning = Disabled, b_policy = None, b_cors = None\<rparr>],
              d_next_bucket := d_next_bucket d + 1\<rparr>, Inr ()))"

definition vrm_delete_bucket :: "bytes \<Rightarrow> directory \<Rightarrow> directory \<times> unit res" where
  "vrm_delete_bucket bucket d =
     (case vrm_get_bucket_id bucket d of
        Inl e \<Rightarrow> (d, Inl e)
      | Inr i \<Rightarrow> (update_buckets (\<lambda>b. b_id b = i) (\<lambda>b. b\<lparr>b_deleted := True\<rparr>) d, Inr ()))"

definition vrm_clear_deleted_buckets :: "directory \<Rightarrow> directory" where
  "vrm_clear_deleted_buckets d =
     d\<lparr>d_buckets := filter (\<lambda>b. \<not> (b_deleted b \<and> \<not> (\<exists>r\<in>set (d_objects d). o_bucket r = b_id b))) (d_buckets d)\<rparr>"

definition vrm_list_buckets :: "directory \<Rightarrow> bytes list" where
  "vrm_list_buckets d = map b_name (filter (\<lambda>b. \<not> b_deleted b) (d_buckets d))"

text \<open>These look at the name only, so a deleted bucket of the same name counts.\<close>

definition vrm_bucket_versioning :: "bytes \<Rightarrow> directory \<Rightarrow> versioning res" where
  "vrm_bucket_versioning bucket d =
     (case find (\<lambda>b. b_name b = bucket) (d_buckets d) of None \<Rightarrow> Inl Runtime_error | Some b \<Rightarrow> Inr (b_versioning b))"

definition vrm_bucket_policy :: "bytes \<Rightarrow> directory \<Rightarrow> bytes option res" where
  "vrm_bucket_policy bucket d =
     (case find (\<lambda>b. b_name b = bucket) (d_buckets d) of None \<Rightarrow> Inl Runtime_error | Some b \<Rightarrow> Inr (b_policy b))"

definition vrm_bucket_cors :: "bytes \<Rightarrow> directory \<Rightarrow> bytes option res" where
  "vrm_bucket_cors bucket d =
     (case find (\<lambda>b. b_name b = bucket) (d_buckets d) of None \<Rightarrow> Inl Runtime_error | Some b \<Rightarrow> Inr (b_cors b))"

definition set_bucket :: "bytes \<Rightarrow> (bucket_row \<Rightarrow> bucket_row) \<Rightarrow> directory \<Rightarrow> directory \<times> unit res" where
  "set_bucket bucket f d =
     (if \<exists>b\<in>set (d_buckets d). b_name b = bucket then (update_buckets (\<lambda>b. b_name b = bucket) f d, Inr ()) else (d, Inl Runtime_error))"

definition vrm_bucket_set_versioning :: "bytes \<Rightarrow> versioning \<Rightarrow> directory \<Rightarrow> directory \<times> unit res" where
  "vrm_bucket_set_versioning bucket vt = set_bucket bucket (\<lambda>b. b\<lparr>b_versioning := vt\<rparr>)"

text \<open>The columns are of type JSON and XML; \<open>valid\<close> is the test of the database.\<close>

definition vrm_bucket_set_policy :: "(bytes \<Rightarrow> bool) \<Rightarrow> bytes \<Rightarrow> bytes option \<Rightarrow> directory \<Rightarrow> directory \<times> unit res" where
  "vrm_bucket_set_policy valid bucket p d =
     (if (case p of Some t \<Rightarrow> \<not> valid t | None \<Rightarrow> False) then (d, Inl Runtime_error) else set_bucket bucket (\<lambda>b. b\<lparr>b_policy := p\<rparr>) d)"

definition vrm_bucket_set_cors :: "(bytes \<Rightarrow> bool) \<Rightarrow> bytes \<Rightarrow> bytes option \<Rightarrow> directory \<Rightarrow> directory \<times> unit res" where
  "vrm_bucket_set_cors valid bucket c d =
     (if (case c of Some t \<Rightarrow> \<not> valid t | None \<Rightarrow> False) then (d, Inl Runtime_error) else set_bucket bucket (\<lambda>b. b\<lparr>b_cors := c\<rparr>) d)"

subsection \<open>Objects\<close>

text \<open>
  The query compares the bucket of every row that satisfies the other conditions with the id of
  the bucket, so an unknown bucket raises only when there is such a row.
\<close>

definition newest_row :: "bytes \<Rightarrow> (object_row \<Rightarrow> bool) \<Rightarrow> directory \<Rightarrow> object_row option res" where
  "newest_row bucket P d =
     (if \<exists>r\<in>set (d_objects d). P r
      then bindE (vrm_get_bucket_id bucket d) (\<lambda>i. Inr (max_row (\<lambda>r. P r \<and> o_bucket r = i) (d_objects d)))
      else Inr None)"

text \<open>The version is hidden in a bucket without versions.\<close>

definition vrm_get_object :: "bytes \<Rightarrow> bytes \<Rightarrow> directory \<Rightarrow> (object_row \<times> bytes option) option res" where
  "vrm_get_object bucket key d =
     (if map_option snd (vrm_get_bucket_info bucket d) = Some Disabled
      then bindE (newest_row bucket (\<lambda>r. o_status r = Normal \<and> o_name r = key) d) (\<lambda>q. Inr (map_option (\<lambda>r. (r, None)) q))
      else bindE (newest_row bucket (\<lambda>r. \<not> (o_status r = Deleted \<and> \<not> o_sticky r) \<and> o_name r = key) d)
             (\<lambda>q. Inr (map_option (\<lambda>r. (r, Some (o_version r))) q)))"

definition vrm_get_object_by_version :: "bytes \<Rightarrow> bytes \<Rightarrow> bytes \<Rightarrow> directory \<Rightarrow> object_row option res" where
  "vrm_get_object_by_version bucket key ver d = newest_row bucket (\<lambda>r. o_name r = key \<and> o_version r = ver) d"

definition insert_object :: "env \<Rightarrow> nat \<Rightarrow> bytes \<Rightarrow> bytea \<Rightarrow> nat \<Rightarrow> bytes option \<Rightarrow> bytes option \<Rightarrow> bool \<Rightarrow> directory \<Rightarrow> directory" where
  "insert_object e i key addr n etag mime sticky d =
     d\<lparr>d_objects := d_objects d @ [\<lparr>o_id = d_next_object d, o_bucket = i, o_name = key, o_address = addr, o_size = n,
          o_last_modified = ceiled_now e, o_etag = etag, o_mime = mime, o_version = e_uuid e, o_status = Normal, o_deleted_at = None, o_sticky = sticky\<rparr>],
       d_next_object := d_next_object d + 1\<rparr>"

definition delete_row :: "env \<Rightarrow> nat \<Rightarrow> (object_row \<Rightarrow> object_row) \<Rightarrow> directory \<Rightarrow> directory" where
  "delete_row e i f = update_objects (\<lambda>r. o_id r = i) (\<lambda>r. f (r\<lparr>o_status := Deleted, o_deleted_at := Some (e_now e)\<rparr>))"

text \<open>
  The id and the version of the new row; no row when the bucket has no versioning, that is when it
  does not exist. Bucket, name and version of the rows are unique.
\<close>

definition vrm_put_object :: "env \<Rightarrow> bytes \<Rightarrow> bytes \<Rightarrow> bytea \<Rightarrow> nat \<Rightarrow> bytes option \<Rightarrow> bytes option \<Rightarrow> directory
    \<Rightarrow> directory \<times> (nat \<times> bytes option) option res" where
  "vrm_put_object e bucket key addr n etag mime d =
     (case vrm_get_bucket_info bucket d of
        None \<Rightarrow> (d, Inr None)
      | Some (b, ver) \<Rightarrow>
          (case (if ver = Enabled then Inr None else vrm_get_object bucket key d) of
             Inl x \<Rightarrow> (d, Inl x)
           | Inr old \<Rightarrow>
               let d1 = (case old of
                           None \<Rightarrow> d
                         | Some (r, _) \<Rightarrow> if ver = Disabled \<or> \<not> o_sticky r then delete_row e (o_id r) (\<lambda>r. r) d else d)
               in if \<exists>r\<in>set (d_objects d1). o_bucket r = b \<and> o_name r = key \<and> o_version r = e_uuid e then (d, Inl Runtime_error)
                  else (insert_object e b key addr n etag mime (ver = Enabled) d1,
                        Inr (Some (d_next_object d, if ver = Enabled then Some (e_uuid e) else None)))))"

text \<open>The first component of the result says that a delete marker was created or found.\<close>

definition vrm_delete_object :: "env \<Rightarrow> bytes \<Rightarrow> bytes \<Rightarrow> directory \<Rightarrow> directory \<times> (bool \<times> bytes option) res" where
  "vrm_delete_object e bucket key d =
     (case vrm_get_object bucket key d of
        Inl x \<Rightarrow> (d, Inl x)
      | Inr None \<Rightarrow> (d, Inl Runtime_error)
      | Inr (Some (r, _)) \<Rightarrow>
          let ver = map_option snd (vrm_get_bucket_info bucket d)
          in if o_status r = Deleted then (d, Inl Runtime_error)
             else if ver = Some Enabled \<or> ver = Some Suspended
             then (case (if ver = Some Enabled \<or> o_sticky r then vrm_put_object e bucket key Empty_bytea 0 None None d
                         else (d, Inr (Some (o_id r, None)))) of
                     (d1, Inr (Some (i, _))) \<Rightarrow>
                       let d2 = delete_row e i (\<lambda>r. r\<lparr>o_sticky := True\<rparr>) d1
                       in (d2, Inr (True, map_option o_version (find (\<lambda>r. o_id r = i) (d_objects d2))))
                   | (d1, Inr None) \<Rightarrow> (d1, Inl Runtime_error)
                   | (d1, Inl x) \<Rightarrow> (d, Inl x))
             else (delete_row e (o_id r) (\<lambda>r. r) d, Inr (True, None)))"

definition vrm_delete_object_version :: "env \<Rightarrow> bytes \<Rightarrow> bytes \<Rightarrow> bytes \<Rightarrow> directory \<Rightarrow> directory \<times> (bool \<times> bytes option) res" where
  "vrm_delete_object_version e bucket key ver d =
     (case vrm_get_object_by_version bucket key ver d of
        Inl x \<Rightarrow> (d, Inl x)
      | Inr None \<Rightarrow> (d, Inl Runtime_error)
      | Inr (Some r) \<Rightarrow> (delete_row e (o_id r) (\<lambda>r. r\<lparr>o_sticky := False\<rparr>) d, Inr (o_status r = Deleted, None)))"

definition vrm_delete_object_null_version :: "env \<Rightarrow> bytes \<Rightarrow> bytes \<Rightarrow> directory \<Rightarrow> directory \<times> (bool \<times> bytes option) res" where
  "vrm_delete_object_null_version e bucket key d =
     (case filter (\<lambda>r. \<not> o_sticky r \<and> o_status r = Normal \<and> o_name r = key) (d_objects d) of
        [] \<Rightarrow> (d, Inl Runtime_error)
      | rs \<Rightarrow>
          (case vrm_get_bucket_id bucket d of
             Inl x \<Rightarrow> (d, Inl x)
           | Inr b \<Rightarrow>
               (case find (\<lambda>r. o_bucket r = b) rs of
                  None \<Rightarrow> (d, Inl Runtime_error)
                | Some r \<Rightarrow> (delete_row e (o_id r) (\<lambda>r. r) d, Inr (False, None)))))"

subsection \<open>References and collection\<close>

definition vrm_inc_reference :: "nat \<Rightarrow> directory \<Rightarrow> directory \<times> unit res" where
  "vrm_inc_reference i d =
     (if \<exists>r\<in>set (d_objects d). o_id r = i
      then (d\<lparr>d_refs := (d_refs d)(i \<mapsto> (case d_refs d i of None \<Rightarrow> 1 | Some n \<Rightarrow> n + 1))\<rparr>, Inr ()) else (d, Inl Runtime_error))"

definition vrm_dec_reference :: "nat \<Rightarrow> directory \<Rightarrow> directory \<times> unit res" where
  "vrm_dec_reference i d =
     (if \<exists>r\<in>set (d_objects d). o_id r = i
      then (d\<lparr>d_refs := (d_refs d)(i := (case d_refs d i of None \<Rightarrow> None | Some n \<Rightarrow> if n \<le> 1 then None else Some (n - 1)))\<rparr>, Inr ())
      else (d, Inl Runtime_error))"

definition collectable :: "directory \<Rightarrow> object_row \<Rightarrow> bool" where
  "collectable d r \<longleftrightarrow> o_status r = Deleted \<and> \<not> o_sticky r \<and> d_refs d (o_id r) = None"

definition vrm_next_deleted :: "directory \<Rightarrow> directory \<times> (nat \<times> bytea) option" where
  "vrm_next_deleted d =
     (case find (collectable d) (d_objects d) of
        None \<Rightarrow> (d, None)
      | Some r \<Rightarrow> (update_objects (\<lambda>q. o_id q = o_id r) (\<lambda>q. q\<lparr>o_status := Collected\<rparr>) d, Some (o_id r, o_address r)))"

text \<open>The table of references has a foreign key that forbids to remove a referenced row.\<close>

definition vrm_delete_object_by_id :: "nat \<Rightarrow> directory \<Rightarrow> directory \<times> unit res" where
  "vrm_delete_object_by_id i d =
     (if d_refs d i \<noteq> None then (d, Inl Runtime_error) else (d\<lparr>d_objects := filter (\<lambda>r. o_id r \<noteq> i) (d_objects d)\<rparr>, Inr ()))"

definition vrm_data_size :: "directory \<Rightarrow> nat" where
  "vrm_data_size d = sum_list (map o_size (filter (\<lambda>r. o_status r = Normal) (d_objects d)))"

subsection \<open>Listings\<close>

text \<open>The pattern match of the database and its order of strings are arguments.\<close>

fun insert_by :: "('a \<Rightarrow> 'a \<Rightarrow> bool) \<Rightarrow> 'a \<Rightarrow> 'a list \<Rightarrow> 'a list" where
  "insert_by le x [] = [x]"
| "insert_by le x (y # ys) = (if le x y then x # y # ys else y # insert_by le x ys)"

definition order_by :: "('a \<Rightarrow> 'a \<Rightarrow> bool) \<Rightarrow> 'a list \<Rightarrow> 'a list" where
  "order_by le xs = foldr (insert_by le) xs []"

text \<open>The newest row of its name, whatever its state.\<close>

definition newest :: "directory \<Rightarrow> object_row \<Rightarrow> bool" where
  "newest d r \<longleftrightarrow> (\<forall>q\<in>set (d_objects d). o_name q = o_name r \<and> o_bucket q = o_bucket r \<longrightarrow> o_id q \<le> o_id r)"

definition vrm_list_objects :: "(bytes \<Rightarrow> bytes \<Rightarrow> bool) \<Rightarrow> (object_row \<Rightarrow> bool) \<Rightarrow> bytes \<Rightarrow> directory \<Rightarrow> object_row list res" where
  "vrm_list_objects le cond bucket d =
     bindE (vrm_check_bucket bucket d) (\<lambda>_.
     bindE (vrm_get_bucket_id bucket d) (\<lambda>i.
       Inr (order_by (\<lambda>r q. le (o_name r) (o_name q))
              (filter (\<lambda>r. newest d r \<and> o_bucket r = i \<and> cond r \<and> o_status r = Normal) (d_objects d)))))"

definition listing_condition :: "(bytes \<Rightarrow> bytes \<Rightarrow> bool) \<Rightarrow> (bytes \<Rightarrow> bytes \<Rightarrow> bool) \<Rightarrow> bytes \<Rightarrow> bytes \<Rightarrow> object_row \<Rightarrow> bool" where
  "listing_condition like le pre lower r \<longleftrightarrow> like (o_name r) (pre @ ''%'')
     \<and> (lower = [] \<or> (\<not> le (o_name r) lower \<and> \<not> prefix lower (o_name r)))"

definition vrm_list_object_versions :: "(bytes \<Rightarrow> bytes \<Rightarrow> bool) \<Rightarrow> (bytes \<Rightarrow> bytes \<Rightarrow> bool) \<Rightarrow> bytes \<Rightarrow> bytes option \<Rightarrow> bytes option \<Rightarrow> bytes option \<Rightarrow> nat
    \<Rightarrow> directory \<Rightarrow> object_row list" where
  "vrm_list_object_versions like le bucket pre key_marker version_marker max_keys d =
     (let in_bucket = (\<lambda>r. \<exists>b\<in>set (d_buckets d). b_id b = o_bucket r \<and> b_name b = bucket);
          min_id = (case (key_marker, version_marker) of
                      (Some k, Some v) \<Rightarrow> map_option o_id (find (\<lambda>r. in_bucket r \<and> o_name r = k \<and> o_version r = v) (d_objects d))
                    | _ \<Rightarrow> None)
      in take max_keys (order_by (\<lambda>r q. o_name r = o_name q \<and> o_id q \<le> o_id r \<or> o_name r \<noteq> o_name q \<and> le (o_name r) (o_name q))
           (filter (\<lambda>r. in_bucket r \<and> (o_status r = Normal \<or> o_sticky r) \<and> (case min_id of None \<Rightarrow> True | Some i \<Rightarrow> i \<le> o_id r)
              \<and> (case pre of None \<Rightarrow> True | Some p \<Rightarrow> like (o_name r) (p @ ''%''))) (d_objects d))))"

end
