(* ===== verification/Vrm_DirectoryApi.thy ===== *)
theory Vrm_DirectoryApi
  imports Vrm_Directory
begin

text \<open>
  The class \<open>directory\<close> of the entrypoint (\<open>entrypoint/directory.cpp\<close>, \<open>entrypoint/object.cpp\<close>):
  every member is a call of the stored procedures and the translation of their rows and errors.
  The values pass through the database as text; its parsers and comparisons are the record
  \<open>database\<close>. A member that runs several statements runs them one after another here.
\<close>

record database =
  pg_like :: "bytes \<Rightarrow> bytes \<Rightarrow> bool"
  pg_le :: "bytes \<Rightarrow> bytes \<Rightarrow> bool"
  pg_uuid :: "bytes \<Rightarrow> bytes option"
  pg_json :: "bytes \<Rightarrow> bool"
  pg_xml :: "bytes \<Rightarrow> bool"

record object =
  ob_id :: nat
  ob_name :: bytes
  ob_size :: size_t
  ob_last_modified :: nat
  ob_addr :: "address option"
  ob_etag :: "bytes option"
  ob_mime :: "bytes option"
  ob_version :: "bytes option"
  ob_state :: object_state

definition to_object_state :: "bytes \<Rightarrow> object_state res" where
  "to_object_state s =
     (if s = ''Normal'' then Inr Normal else if s = ''Deleted'' then Inr Deleted
      else if s = ''Collected'' then Inr Collected else Inl Runtime_error)"

definition object_state_to_string :: "object_state \<Rightarrow> bytes" where
  "object_state_to_string os = (case os of Normal \<Rightarrow> ''Normal'' | Deleted \<Rightarrow> ''Deleted'' | Collected \<Rightarrow> ''Collected'')"

definition versioning_to_string :: "versioning \<Rightarrow> bytes" where
  "versioning_to_string v = (case v of Disabled \<Rightarrow> ''Disabled'' | Enabled \<Rightarrow> ''Enabled'' | Suspended \<Rightarrow> ''Suspended'')"

definition to_versioning :: "bytes \<Rightarrow> versioning res" where
  "to_versioning s =
     (if equals_nocase s ''Disabled'' then Inr Disabled
      else if equals_nocase s ''Enabled'' then Inr Enabled
      else if equals_nocase s ''Suspended'' then Inr Suspended
      else Inl Runtime_error)"

definition row_to_object :: "object_row \<Rightarrow> bytes option \<Rightarrow> object res" where
  "row_to_object r ver =
     bindE (to_object_state (object_state_to_string (o_status r))) (\<lambda>st.
       Inr \<lparr>ob_id = o_id r, ob_name = o_name r, ob_size = o_size r, ob_last_modified = o_last_modified r, ob_addr = None,
            ob_etag = o_etag r, ob_mime = o_mime r, ob_version = ver, ob_state = st\<rparr>)"

definition NoSuchKey :: exn where
  "NoSuchKey = Command_exception 404 ''NoSuchKey''"

definition NoSuchBucket :: exn where
  "NoSuchBucket = Command_exception 404 ''NoSuchBucket''"

text \<open>The result \<^const>\<open>None\<close> is the access to a row that was not returned. The size must fit into a BIGINT.\<close>

definition dir_put_object :: "env \<Rightarrow> bytes \<Rightarrow> object \<Rightarrow> directory \<Rightarrow> (directory \<times> bytes option res) option" where
  "dir_put_object e bucket obj d =
     (case ob_addr obj of
        None \<Rightarrow> Some (d, Inl Runtime_error)
      | Some a \<Rightarrow>
          if 2 ^ 63 \<le> data_size a then Some (d, Inl NoSuchBucket)
          else (case vrm_put_object e bucket (ob_name obj) (Encoded a) (data_size a) (ob_etag obj) (ob_mime obj) d of
                  (d', Inl x) \<Rightarrow> Some (d', Inl NoSuchBucket)
                | (d', Inr None) \<Rightarrow> None
                | (d', Inr (Some (i, ver))) \<Rightarrow> Some (d', Inr ver)))"

definition lookup_object :: "database \<Rightarrow> bytes \<Rightarrow> bytes \<Rightarrow> bytes option \<Rightarrow> directory \<Rightarrow> (object_row \<times> bytes option) option res" where
  "lookup_object D bucket key version d =
     (case version of
        None \<Rightarrow> vrm_get_object bucket key d
      | Some v \<Rightarrow>
          (case pg_uuid D v of
             None \<Rightarrow> Inl Runtime_error
           | Some u \<Rightarrow> bindE (vrm_get_object_by_version bucket key u d) (\<lambda>q. Inr (map_option (\<lambda>r. (r, Some (o_version r))) q))))"

text \<open>No object stands for the empty lock.\<close>

definition dir_get_object :: "database \<Rightarrow> bytes \<Rightarrow> bytes \<Rightarrow> bytes option \<Rightarrow> directory \<Rightarrow> directory \<times> object option res" where
  "dir_get_object D bucket key version d =
     (case lookup_object D bucket key version d of
        Inl x \<Rightarrow> (d, Inl x)
      | Inr None \<Rightarrow> (d, if version = None then Inl NoSuchKey else Inr None)
      | Inr (Some (r, ver)) \<Rightarrow>
          (case o_address r of
             Empty_bytea \<Rightarrow> (d, Inl Runtime_error)
           | Encoded a \<Rightarrow>
               (case row_to_object r ver of
                  Inl x \<Rightarrow> (d, Inl x)
                | Inr obj \<Rightarrow>
                    (case vrm_inc_reference (ob_id obj) d of
                       (d', Inl x) \<Rightarrow> (d', Inl x)
                     | (d', Inr _) \<Rightarrow> (d', Inr (Some (obj\<lparr>ob_addr := Some a\<rparr>)))))))"

text \<open>The end of the lock; the statement runs detached, its errors are lost.\<close>

definition dir_unref :: "nat \<Rightarrow> directory \<Rightarrow> directory" where
  "dir_unref i d = fst (vrm_dec_reference i d)"

definition dir_head_object :: "database \<Rightarrow> bytes \<Rightarrow> bytes \<Rightarrow> bytes option \<Rightarrow> directory \<Rightarrow> object res" where
  "dir_head_object D bucket key version d =
     bindE (lookup_object D bucket key version d) (\<lambda>q.
       case q of None \<Rightarrow> Inl NoSuchKey | Some (r, ver) \<Rightarrow> row_to_object r ver)"

subsection \<open>Buckets\<close>

definition name_char :: "char \<Rightarrow> bool" where
  "name_char c \<longleftrightarrow> CHR ''a'' \<le> c \<and> c \<le> CHR ''z'' \<or> CHR ''0'' \<le> c \<and> c \<le> CHR ''9''"

definition ip_part :: "bytes \<Rightarrow> bool" where
  "ip_part s \<longleftrightarrow> s \<noteq> [] \<and> length s \<le> 3 \<and> list_all (\<lambda>c. CHR ''0'' \<le> c \<and> c \<le> CHR ''9'') s"

definition ip_shaped :: "bytes \<Rightarrow> bool" where
  "ip_shaped s \<longleftrightarrow> length (split_str s (CHR ''.'')) = 4 \<and> list_all ip_part (split_str s (CHR ''.''))"

fun adjacent_separators :: "bytes \<Rightarrow> bool" where
  "adjacent_separators (a # b # s) \<longleftrightarrow> a \<in> set ''.-'' \<and> b \<in> set ''.-'' \<or> adjacent_separators (b # s)"
| "adjacent_separators _ \<longleftrightarrow> False"

text \<open>
  The regular expression of the source is a conjunction: its groups look ahead without consuming,
  what they exclude besides the characters of a name (white space) the last group excludes as well.
\<close>

definition bucket_pattern :: "bytes \<Rightarrow> bool" where
  "bucket_pattern s \<longleftrightarrow>
     \<not> prefix ''xn--'' s \<and> \<not> prefix ''sthree-'' s \<and> \<not> prefix ''sthree-configurator-'' s
     \<and> \<not> suffix ''-s3alias'' s \<and> \<not> suffix ''--ol-s3'' s \<and> \<not> ip_shaped s \<and> \<not> adjacent_separators s
     \<and> 2 \<le> length s \<and> name_char (hd s) \<and> name_char (last s) \<and> list_all (\<lambda>c. name_char c \<or> c \<in> set ''.-'') s"

definition validate_bucket_name :: "bytes \<Rightarrow> unit res" where
  "validate_bucket_name s =
     (if length s < 3 \<or> 63 < length s \<or> \<not> bucket_pattern s then Inl (Command_exception 400 ''InvalidBucketName'') else Inr ())"

definition dir_put_bucket :: "bytes \<Rightarrow> directory \<Rightarrow> directory \<times> unit res" where
  "dir_put_bucket bucket d =
     (case validate_bucket_name bucket of
        Inl x \<Rightarrow> (d, Inl x)
      | Inr _ \<Rightarrow>
          (case vrm_create_bucket bucket d of
             (d', Inl x) \<Rightarrow> (d', Inl (Command_exception 409 ''BucketAlreadyExists''))
           | (d', Inr _) \<Rightarrow> (d', Inr ())))"

definition dir_bucket_exists :: "bytes \<Rightarrow> directory \<Rightarrow> unit res" where
  "dir_bucket_exists bucket d = (case vrm_check_bucket bucket d of Inl x \<Rightarrow> Inl NoSuchBucket | Inr _ \<Rightarrow> Inr ())"

definition dir_delete_bucket :: "database \<Rightarrow> bytes \<Rightarrow> directory \<Rightarrow> directory \<times> unit res" where
  "dir_delete_bucket D bucket d =
     (case dir_bucket_exists bucket d of
        Inl x \<Rightarrow> (d, Inl x)
      | Inr _ \<Rightarrow>
          (case vrm_list_objects (pg_le D) (\<lambda>_. True) bucket d of
             Inl x \<Rightarrow> (d, Inl x)
           | Inr rows \<Rightarrow>
               if 0 < length rows then (d, Inl (Command_exception 409 ''BucketNotEmpty''))
               else vrm_delete_bucket bucket d))"

text \<open>Errors are logged only.\<close>

definition dir_delete_object :: "database \<Rightarrow> env \<Rightarrow> bytes \<Rightarrow> bytes \<Rightarrow> bytes option \<Rightarrow> directory \<Rightarrow> directory \<times> bool \<times> bytes option" where
  "dir_delete_object D e bucket key version d =
     (case (case version of
              None \<Rightarrow> vrm_delete_object e bucket key d
            | Some v \<Rightarrow>
                if v = ''null'' then vrm_delete_object_null_version e bucket key d
                else (case pg_uuid D v of
                        None \<Rightarrow> (d, Inl Runtime_error)
                      | Some u \<Rightarrow> vrm_delete_object_version e bucket key u d)) of
        (d', Inl x) \<Rightarrow> (d', False, None)
      | (d', Inr r) \<Rightarrow> (d', r))"

definition dir_list_buckets :: "directory \<Rightarrow> bytes list" where
  "dir_list_buckets d = vrm_list_buckets d"

definition dir_get_bucket_policy :: "bytes \<Rightarrow> directory \<Rightarrow> bytes option res" where
  "dir_get_bucket_policy bucket d = (case vrm_bucket_policy bucket d of Inl x \<Rightarrow> Inl NoSuchBucket | Inr p \<Rightarrow> Inr p)"

definition dir_set_bucket_policy :: "database \<Rightarrow> bytes \<Rightarrow> bytes option \<Rightarrow> directory \<Rightarrow> directory \<times> unit res" where
  "dir_set_bucket_policy D bucket p d =
     (case dir_bucket_exists bucket d of Inl x \<Rightarrow> (d, Inl x) | Inr _ \<Rightarrow> vrm_bucket_set_policy (pg_json D) bucket p d)"

definition dir_get_bucket_cors :: "bytes \<Rightarrow> directory \<Rightarrow> bytes option res" where
  "dir_get_bucket_cors bucket d = (case vrm_bucket_cors bucket d of Inl x \<Rightarrow> Inl NoSuchBucket | Inr c \<Rightarrow> Inr c)"

definition dir_set_bucket_cors :: "database \<Rightarrow> bytes \<Rightarrow> bytes option \<Rightarrow> directory \<Rightarrow> directory \<times> unit res" where
  "dir_set_bucket_cors D bucket c d =
     (case dir_bucket_exists bucket d of Inl x \<Rightarrow> (d, Inl x) | Inr _ \<Rightarrow> vrm_bucket_set_cors (pg_xml D) bucket c d)"

definition dir_get_bucket_versioning :: "bytes \<Rightarrow> directory \<Rightarrow> versioning res" where
  "dir_get_bucket_versioning bucket d =
     (case bindE (vrm_bucket_versioning bucket d) (\<lambda>v. to_versioning (versioning_to_string v)) of
        Inl x \<Rightarrow> Inl NoSuchBucket | Inr v \<Rightarrow> Inr v)"

definition dir_set_bucket_versioning :: "bytes \<Rightarrow> versioning \<Rightarrow> directory \<Rightarrow> directory \<times> unit res" where
  "dir_set_bucket_versioning bucket v d =
     (case dir_bucket_exists bucket d of Inl x \<Rightarrow> (d, Inl x) | Inr _ \<Rightarrow> vrm_bucket_set_versioning bucket v d)"

subsection \<open>Listings and collection\<close>

fun rows_to_objects :: "object_row list \<Rightarrow> object list res" where
  "rows_to_objects [] = Inr []"
| "rows_to_objects (r # rs) =
     bindE (row_to_object r (Some (o_version r))) (\<lambda>x. bindE (rows_to_objects rs) (\<lambda>xs. Inr (x # xs)))"

definition dir_list_objects :: "database \<Rightarrow> bytes \<Rightarrow> bytes option \<Rightarrow> bytes option \<Rightarrow> directory \<Rightarrow> object list res" where
  "dir_list_objects D bucket pre lower d =
     bindE (dir_bucket_exists bucket d) (\<lambda>_.
     bindE (vrm_list_objects (pg_le D)
       (listing_condition (pg_like D) (pg_le D) (case pre of None \<Rightarrow> [] | Some p \<Rightarrow> p) (case lower of None \<Rightarrow> [] | Some l \<Rightarrow> l)) bucket d)
       rows_to_objects)"

definition dir_list_object_versions :: "database \<Rightarrow> bytes \<Rightarrow> bytes option \<Rightarrow> bytes option \<Rightarrow> bytes option \<Rightarrow> size_t \<Rightarrow> directory \<Rightarrow> object list res" where
  "dir_list_object_versions D bucket pre key_marker version_marker limit d =
     bindE (dir_bucket_exists bucket d) (\<lambda>_.
     bindE (case version_marker of
              None \<Rightarrow> Inr None
            | Some v \<Rightarrow> (case pg_uuid D v of None \<Rightarrow> Inl Runtime_error | Some u \<Rightarrow> Inr (Some u))) (\<lambda>ver.
     if 2 ^ 31 \<le> limit then Inl Runtime_error
     else rows_to_objects (vrm_list_object_versions (pg_like D) (pg_le D) bucket pre key_marker ver limit d)))"

text \<open>An address that does not decode is an error after the row has been marked as collected.\<close>

definition dir_next_deleted :: "directory \<Rightarrow> directory \<times> (nat \<times> address) option res" where
  "dir_next_deleted d =
     (case vrm_next_deleted d of
        (d', None) \<Rightarrow> (d', Inr None)
      | (d', Some (i, Encoded a)) \<Rightarrow> (d', Inr (Some (i, a)))
      | (d', Some (i, Empty_bytea)) \<Rightarrow> (d', Inl Runtime_error))"

definition dir_clear_buckets :: "directory \<Rightarrow> directory" where
  "dir_clear_buckets d = vrm_clear_deleted_buckets d"

definition dir_remove_object :: "nat \<Rightarrow> directory \<Rightarrow> directory \<times> unit res" where
  "dir_remove_object i d = vrm_delete_object_by_id i d"

definition dir_data_size :: "directory \<Rightarrow> size_t" where
  "dir_data_size d = vrm_data_size d"

end
