(* ===== verification/Vrm_DirectorySpec.thy ===== *)
theory Vrm_DirectorySpec
  imports Vrm_DirectoryApi
begin

text \<open>
  What the directory promises: a well-formedness invariant of the tables that every operation keeps,
  and a refinement: as long as a bucket has no versions, it behaves like a map from keys to
  objects, whatever the collector of deleted objects does in between.
\<close>

subsection \<open>The invariant of the tables\<close>

text \<open>A bucket without versions has one row per object, the newest of its name, with an address.\<close>

definition plain :: "directory \<Rightarrow> nat \<Rightarrow> bool" where
  "plain d i \<longleftrightarrow> (\<forall>r\<in>set (d_objects d). o_bucket r = i \<and> o_status r = Normal \<longrightarrow> newest d r \<and> o_address r \<noteq> Empty_bytea)"

text \<open>The size of a row is the size of its data.\<close>

definition row_size :: "bytea \<Rightarrow> nat" where
  "row_size addr = (case addr of Encoded a \<Rightarrow> data_size a | Empty_bytea \<Rightarrow> 0)"

definition buckets_ok :: "directory \<Rightarrow> bool" where
  "buckets_ok d \<longleftrightarrow> distinct (map b_id (d_buckets d)) \<and> (\<forall>b\<in>set (d_buckets d). b_id b < d_next_bucket d)
     \<and> (\<forall>b\<in>set (d_buckets d). \<forall>c\<in>set (d_buckets d). \<not> b_deleted b \<and> \<not> b_deleted c \<and> b_name b = b_name c \<longrightarrow> b = c)"

definition objects_ok :: "directory \<Rightarrow> bool" where
  "objects_ok d \<longleftrightarrow> distinct (map o_id (d_objects d)) \<and> (\<forall>r\<in>set (d_objects d). o_id r < d_next_object d)
     \<and> (\<forall>r\<in>set (d_objects d). o_bucket r \<in> b_id ` set (d_buckets d) \<and> o_size r = row_size (o_address r))
     \<and> (\<forall>i n. d_refs d i = Some n \<longrightarrow> 0 < n \<and> i \<in> o_id ` set (d_objects d))"

definition dir_inv :: "directory \<Rightarrow> bool" where
  "dir_inv d \<longleftrightarrow> buckets_ok d \<and> objects_ok d \<and> (\<forall>b\<in>set (d_buckets d). b_versioning b = Disabled \<longrightarrow> plain d (b_id b))"

definition dir_new :: directory where
  "dir_new = \<lparr>d_buckets = [], d_objects = [], d_refs = \<lambda>_. None, d_next_bucket = 1, d_next_object = 1\<rparr>"

lemma dir_new_inv: "dir_inv dir_new"
  by (simp add: dir_inv_def buckets_ok_def objects_ok_def dir_new_def)

definition live_bucket :: "directory \<Rightarrow> bytes \<Rightarrow> bucket_row option" where
  "live_bucket d name = find (\<lambda>b. b_name b = name \<and> \<not> b_deleted b) (d_buckets d)"

lemma live_bucket_None: "live_bucket d name = None \<longleftrightarrow> (\<forall>b\<in>set (d_buckets d). b_name b = name \<longrightarrow> b_deleted b)"
  by (auto simp: live_bucket_def find_None_iff)

lemma live_bucket_SomeD:
  assumes "live_bucket d name = Some b"
  shows "b \<in> set (d_buckets d)" "b_name b = name" "\<not> b_deleted b"
  using assms by (auto simp: live_bucket_def dest: find_SomeD)

lemma live_bucket_iff:
  assumes "buckets_ok d"
  shows "live_bucket d name = Some b \<longleftrightarrow> b \<in> set (d_buckets d) \<and> b_name b = name \<and> \<not> b_deleted b"
proof
  assume r: "b \<in> set (d_buckets d) \<and> b_name b = name \<and> \<not> b_deleted b"
  then obtain c where c: "live_bucket d name = Some c" using live_bucket_None [of d name] by (cases "live_bucket d name") auto
  then have "c \<in> set (d_buckets d)" "b_name c = name" "\<not> b_deleted c" by (simp_all add: live_bucket_SomeD)
  then show "live_bucket d name = Some b" using r c assms unfolding buckets_ok_def by blast
qed (simp add: live_bucket_SomeD)

lemma bucket_info_live: "vrm_get_bucket_info name d = map_option (\<lambda>b. (b_id b, b_versioning b)) (live_bucket d name)"
  by (simp add: vrm_get_bucket_info_def live_bucket_def)

lemma check_bucket_live: "vrm_check_bucket name d = (if live_bucket d name = None then Inl Runtime_error else Inr ())"
  by (auto simp: vrm_check_bucket_def live_bucket_None)

lemma bucket_id_live:
  assumes "buckets_ok d"
  shows "vrm_get_bucket_id name d = (case live_bucket d name of None \<Rightarrow> Inl Runtime_error | Some b \<Rightarrow> Inr (b_id b))"
proof (cases "live_bucket d name")
  case None
  then have "filter (\<lambda>b. \<not> b_deleted b \<and> b_name b = name) (d_buckets d) = []" by (auto simp: live_bucket_None filter_empty_conv)
  then show ?thesis using None by (simp add: vrm_get_bucket_id_def)
next
  case (Some b)
  have *: "c = b" if "c \<in> set (filter (\<lambda>b. \<not> b_deleted b \<and> b_name b = name) (d_buckets d))" for c
    using that live_bucket_iff [OF assms, of name c] Some by simp
  obtain c cs where c: "filter (\<lambda>b. \<not> b_deleted b \<and> b_name b = name) (d_buckets d) = c # cs"
    using live_bucket_SomeD [OF Some] by (cases "filter (\<lambda>b. \<not> b_deleted b \<and> b_name b = name) (d_buckets d)") (auto simp: filter_empty_conv)
  have "fold (\<lambda>b i. max (b_id b) i) xs (b_id b) = b_id b" if "\<forall>x\<in>set xs. x = b" for xs
    using that by (induction xs) auto
  then have "fold (\<lambda>b i. max (b_id b) i) cs (b_id b) = b_id b" using * c by simp
  then show ?thesis using Some c * [of c] by (simp add: vrm_get_bucket_id_def)
qed

subsection \<open>Rows\<close>

lemma max_row_None: "max_row P rs = None \<longleftrightarrow> (\<forall>r\<in>set rs. \<not> P r)"
  by (induction rs) (auto split: option.splits)

lemma max_row_SomeD: "max_row P rs = Some r \<Longrightarrow> r \<in> set rs \<and> P r \<and> (\<forall>q\<in>set rs. P q \<longrightarrow> o_id q \<le> o_id r)"
proof (induction rs arbitrary: r)
  case (Cons a rs)
  show ?case
  proof (cases "max_row P rs")
    case None
    then show ?thesis using Cons.prems max_row_None [of P rs] by (auto split: if_splits)
  next
    case (Some m)
    then show ?thesis using Cons.prems Cons.IH [OF Some] by (force split: if_splits)
  qed
qed simp

lemma same_row: "objects_ok d \<Longrightarrow> r \<in> set (d_objects d) \<Longrightarrow> q \<in> set (d_objects d) \<Longrightarrow> o_id r = o_id q \<Longrightarrow> r = q"
  unfolding objects_ok_def by (auto simp: distinct_map dest: inj_onD)

text \<open>The row of an object without versions.\<close>

definition current :: "directory \<Rightarrow> nat \<Rightarrow> bytes \<Rightarrow> object_row option" where
  "current d i key = find (\<lambda>r. o_bucket r = i \<and> o_name r = key \<and> o_status r = Normal) (d_objects d)"

lemma current_None: "current d i key = None \<longleftrightarrow> (\<forall>r\<in>set (d_objects d). \<not> (o_bucket r = i \<and> o_name r = key \<and> o_status r = Normal))"
  by (auto simp: current_def find_None_iff)

lemma current_iff:
  assumes "objects_ok d" and "plain d i"
  shows "current d i key = Some r \<longleftrightarrow> r \<in> set (d_objects d) \<and> o_bucket r = i \<and> o_name r = key \<and> o_status r = Normal" (is "_ \<longleftrightarrow> ?P r")
proof
  assume r: "?P r"
  then obtain q where q: "current d i key = Some q" using current_None [of d i key] by (cases "current d i key") auto
  then have q': "?P q" unfolding current_def by (auto dest: find_SomeD)
  then have "newest d q" "newest d r" using assms(2) r by (simp_all add: plain_def)
  then have "o_id q = o_id r" using r q' by (simp add: newest_def order_antisym)
  then show "current d i key = Some r" using q q' r same_row [OF assms(1), of q r] by simp
qed (auto simp: current_def dest: find_SomeD)

lemma max_row_current:
  assumes "objects_ok d" and "plain d i"
  shows "max_row (\<lambda>r. (o_status r = Normal \<and> o_name r = key) \<and> o_bucket r = i) (d_objects d) = current d i key"
proof (cases "max_row (\<lambda>r. (o_status r = Normal \<and> o_name r = key) \<and> o_bucket r = i) (d_objects d)")
  case None
  then have "current d i key = None" unfolding max_row_None current_None by blast
  then show ?thesis using None by simp
next
  case (Some r)
  then have "current d i key = Some r" using max_row_SomeD [OF Some] current_iff [OF assms] by blast
  then show ?thesis using Some by simp
qed

lemma get_object_plain:
  assumes "dir_inv d" and "live_bucket d bucket = Some b" and "b_versioning b = Disabled"
  shows "vrm_get_object bucket key d = Inr (map_option (\<lambda>r. (r, None)) (current d (b_id b) key))"
proof -
  have ok: "buckets_ok d" "objects_ok d" "plain d (b_id b)" using assms live_bucket_SomeD [OF assms(2)] by (auto simp: dir_inv_def)
  have "newest_row bucket (\<lambda>r. o_status r = Normal \<and> o_name r = key) d = Inr (current d (b_id b) key)"
  proof (cases "\<exists>r\<in>set (d_objects d). o_status r = Normal \<and> o_name r = key")
    case True
    then show ?thesis using max_row_current [OF ok(2,3)] by (simp add: newest_row_def bucket_id_live [OF ok(1)] assms(2))
  next
    case False
    then have "current d (b_id b) key = None" unfolding current_None by blast
    then show ?thesis unfolding newest_row_def if_not_P [OF False] by simp
  qed
  then show ?thesis by (simp add: vrm_get_object_def bucket_info_live assms(2,3))
qed

subsection \<open>Changes of the rows\<close>

definition keeps_row :: "(object_row \<Rightarrow> object_row) \<Rightarrow> object_row \<Rightarrow> bool" where
  "keeps_row f r \<longleftrightarrow> o_id (f r) = o_id r \<and> o_bucket (f r) = o_bucket r \<and> o_name (f r) = o_name r
     \<and> o_size (f r) = o_size r \<and> o_address (f r) = o_address r \<and> (o_status (f r) = Normal \<longrightarrow> f r = r)"

lemma newest_map:
  assumes "\<forall>r\<in>set (d_objects d). keeps_row f r" and "r \<in> set (d_objects d)"
  shows "newest (d\<lparr>d_objects := map f (d_objects d)\<rparr>) (f r) \<longleftrightarrow> newest d r"
  using assms by (auto simp: newest_def keeps_row_def)

lemma dir_inv_map:
  assumes "dir_inv d" and k: "\<forall>r\<in>set (d_objects d). keeps_row f r"
  shows "dir_inv (d\<lparr>d_objects := map f (d_objects d)\<rparr>)"
proof -
  let ?d = "d\<lparr>d_objects := map f (d_objects d)\<rparr>"
  have ids: "map o_id (d_objects ?d) = map o_id (d_objects d)" using k by (simp add: keeps_row_def)
  have "o_id ` set (d_objects ?d) = o_id ` set (d_objects d)" using arg_cong [OF ids, of set] unfolding set_map .
  note ids = ids this
  have o: "objects_ok d" using assms(1) by (simp add: dir_inv_def)
  have "distinct (map o_id (d_objects ?d))" using o unfolding ids objects_ok_def by simp
  moreover have "\<forall>i n. d_refs ?d i = Some n \<longrightarrow> 0 < n \<and> i \<in> o_id ` set (d_objects ?d)" using o unfolding ids objects_ok_def by simp
  ultimately have "objects_ok ?d" using o k by (auto simp: objects_ok_def keeps_row_def)
  moreover have "plain ?d i" if p: "plain d i" for i
    unfolding plain_def
  proof (intro ballI impI)
    fix q
    assume q: "q \<in> set (d_objects ?d)" "o_bucket q = i \<and> o_status q = Normal"
    then obtain r where r: "r \<in> set (d_objects d)" "q = f r" by auto
    then have "keeps_row f r" using k by simp
    then have "f r = r" using q(2) r(2) by (simp add: keeps_row_def)
    then show "newest ?d q \<and> o_address q \<noteq> Empty_bytea" using newest_map [OF k r(1)] p q(2) r by (simp add: plain_def)
  qed
  ultimately show ?thesis using assms(1) by (simp add: dir_inv_def buckets_ok_def)
qed

lemma current_map:
  assumes "dir_inv d" and k: "\<forall>r\<in>set (d_objects d). keeps_row f r" and "b \<in> set (d_buckets d)" and "b_versioning b = Disabled"
  shows "current (d\<lparr>d_objects := map f (d_objects d)\<rparr>) (b_id b) key =
    (case current d (b_id b) key of None \<Rightarrow> None | Some r \<Rightarrow> if o_status (f r) = Normal then Some r else None)"
    (is "current ?d _ _ = ?R")
proof -
  have ok: "objects_ok d" "plain d (b_id b)" using assms by (auto simp: dir_inv_def)
  have ok': "objects_ok ?d" "plain ?d (b_id b)" using dir_inv_map [OF assms(1) k] assms(3,4) by (auto simp: dir_inv_def)
  show ?thesis
  proof (rule option_eqI)
    fix q
    have "current ?d (b_id b) key = Some q \<longleftrightarrow> (\<exists>r\<in>set (d_objects d). q = f r \<and> o_bucket q = b_id b \<and> o_name q = key \<and> o_status q = Normal)"
      unfolding current_iff [OF ok'] by auto
    also have "\<dots> \<longleftrightarrow> current d (b_id b) key = Some q \<and> o_status (f q) = Normal"
      unfolding current_iff [OF ok] using k by (auto simp: keeps_row_def intro!: bexI [of _ q])
    also have "\<dots> \<longleftrightarrow> ?R = Some q" by (auto split: option.split)
    finally show "current ?d (b_id b) key = Some q \<longleftrightarrow> ?R = Some q" .
  qed
qed

lemma delete_row_map: "delete_row e i g d = d\<lparr>d_objects := map (\<lambda>r. if o_id r = i then g (r\<lparr>o_status := Deleted, o_deleted_at := Some (e_now e)\<rparr>) else r) (d_objects d)\<rparr>"
  by (simp add: delete_row_def update_objects_def)

definition marks :: "(object_row \<Rightarrow> object_row) \<Rightarrow> bool" where
  "marks g \<longleftrightarrow> (\<forall>r. o_id (g r) = o_id r \<and> o_bucket (g r) = o_bucket r \<and> o_name (g r) = o_name r
     \<and> o_size (g r) = o_size r \<and> o_address (g r) = o_address r \<and> o_status (g r) = o_status r)"

lemma marks_simps [simp]: "marks (\<lambda>r. r)" "marks (\<lambda>r. r\<lparr>o_sticky := s\<rparr>)"
  by (simp_all add: marks_def)

lemma delete_row_keeps:
  "marks g \<Longrightarrow> keeps_row (\<lambda>r. if o_id r = i then g (r\<lparr>o_status := Deleted, o_deleted_at := t\<rparr>) else r) r"
  by (simp add: keeps_row_def marks_def)

lemma delete_row_inv: "dir_inv d \<Longrightarrow> marks g \<Longrightarrow> dir_inv (delete_row e i g d)"
  unfolding delete_row_map by (rule dir_inv_map) (simp_all add: delete_row_keeps)

lemma delete_row_current:
  assumes "dir_inv d" and "marks g" and "b \<in> set (d_buckets d)" and "b_versioning b = Disabled"
  shows "current (delete_row e i g d) (b_id b) key =
    (case current d (b_id b) key of None \<Rightarrow> None | Some r \<Rightarrow> if o_id r = i then None else Some r)"
proof -
  have "o_status r = Normal" if "current d (b_id b) key = Some r" for r
    using that by (auto simp: current_def dest: find_SomeD)
  then show ?thesis using assms(2) unfolding delete_row_map
    by (subst current_map [OF assms(1) _ assms(3,4)]) (auto simp: delete_row_keeps marks_def split: option.split)
qed

lemma delete_row_simps [simp]: "d_buckets (delete_row e i g d) = d_buckets d" "d_next_object (delete_row e i g d) = d_next_object d"
  "live_bucket (delete_row e i g d) = live_bucket d"
  by (simp_all add: delete_row_map live_bucket_def fun_eq_iff)

text \<open>A new row.\<close>

lemma insert_object_inv:
  assumes "dir_inv d" and "b \<in> set (d_buckets d)" and "n = row_size addr"
    and "b_versioning b = Disabled \<Longrightarrow> addr \<noteq> Empty_bytea \<and> current d (b_id b) key = None"
  shows "dir_inv (insert_object e (b_id b) key addr n etag mime st d)"
proof -
  let ?d = "insert_object e (b_id b) key addr n etag mime st d"
  have o: "objects_ok d" "buckets_ok d" using assms(1) by (simp_all add: dir_inv_def)
  have "i \<noteq> d_next_object d" if "i \<in> o_id ` set (d_objects d)" for i using that o(1) by (auto simp: objects_ok_def)
  then have "objects_ok ?d" using o(1) assms(2,3) by (auto simp: objects_ok_def insert_object_def less_Suc_eq)
  moreover have "plain ?d (b_id c)" if c: "c \<in> set (d_buckets d)" "b_versioning c = Disabled" for c
  proof -
    have p: "plain d (b_id c)" using assms(1) c by (simp add: dir_inv_def)
    have e: "b = c" if "b_id b = b_id c" using o(2) c(1) assms(2) that by (auto simp: buckets_ok_def distinct_map dest: inj_onD)
    then have "current d (b_id c) key = None" "addr \<noteq> Empty_bytea" if "b_id b = b_id c" using assms(4) c that by simp_all
    then show ?thesis using p o(1)
      by (auto simp: plain_def newest_def insert_object_def objects_ok_def current_None dest: less_imp_le)
  qed
  ultimately show ?thesis using o(2) by (simp add: dir_inv_def buckets_ok_def insert_object_def)
qed

lemma insert_object_current:
  "current (insert_object e i key addr n etag mime st d) j k =
    (case current d j k of Some r \<Rightarrow> Some r
     | None \<Rightarrow> if i = j \<and> k = key then Some (last (d_objects (insert_object e i key addr n etag mime st d))) else None)"
  by (auto simp: current_def insert_object_def find_append split: option.split)

lemma insert_object_simps [simp]: "d_buckets (insert_object e i key addr n etag mime st d) = d_buckets d"
  "live_bucket (insert_object e i key addr n etag mime st d) = live_bucket d"
  by (simp_all add: insert_object_def live_bucket_def fun_eq_iff)

subsection \<open>The operations and what they promise\<close>

type_synonym content = "address \<times> bytes option \<times> bytes option"

datatype bucket_spec = Plain "bytes \<Rightarrow> content option" | Versioned

type_synonym dir_spec = "bytes \<Rightarrow> bucket_spec option"

fun encoded_address :: "bytea \<Rightarrow> address" where
  "encoded_address (Encoded a) = a"
| "encoded_address Empty_bytea = []"

definition content :: "object_row \<Rightarrow> content" where
  "content r = (encoded_address (o_address r), o_etag r, o_mime r)"

definition contents :: "directory \<Rightarrow> nat \<Rightarrow> bytes \<Rightarrow> content option" where
  "contents d i key = map_option content (current d i key)"

definition bucket_view :: "directory \<Rightarrow> bucket_row \<Rightarrow> bucket_spec" where
  "bucket_view d b = (if b_versioning b = Disabled then Plain (contents d (b_id b)) else Versioned)"

definition dir_abs :: "directory \<Rightarrow> dir_spec" where
  "dir_abs d name = map_option (bucket_view d) (live_bucket d name)"

datatype dir_op =
    Put_bucket bytes
  | Delete_bucket bytes
  | Put_object bytes object
  | Get_object bytes bytes "bytes option"
  | Head_object bytes bytes "bytes option"
  | Unref nat
  | Delete_object bytes bytes "bytes option"
  | Version_bucket bytes bool
  | Set_policy bytes "bytes option"
  | Set_cors bytes "bytes option"

datatype dir_answer =
    Failed exn
  | Done
  | Found "object option"
  | Stored "bytes option"
  | Removed bool "bytes option"

definition answer :: "('a \<Rightarrow> dir_answer) \<Rightarrow> 'a res \<Rightarrow> dir_answer" where
  "answer f r = (case r of Inl x \<Rightarrow> Failed x | Inr v \<Rightarrow> f v)"

text \<open>The command that sets the versioning of a bucket accepts no other values than these two.\<close>

fun dir_apply :: "database \<Rightarrow> env \<Rightarrow> dir_op \<Rightarrow> directory \<Rightarrow> (directory \<times> dir_answer) option" where
  "dir_apply D e (Put_bucket b) d = Some (apsnd (answer (\<lambda>_. Done)) (dir_put_bucket b d))"
| "dir_apply D e (Delete_bucket b) d = Some (apsnd (answer (\<lambda>_. Done)) (dir_delete_bucket D b d))"
| "dir_apply D e (Put_object b obj) d = map_option (apsnd (answer Stored)) (dir_put_object e b obj d)"
| "dir_apply D e (Get_object b k ver) d = Some (apsnd (answer Found) (dir_get_object D b k ver d))"
| "dir_apply D e (Head_object b k ver) d = Some (d, answer (\<lambda>x. Found (Some x)) (dir_head_object D b k ver d))"
| "dir_apply D e (Unref i) d = Some (dir_unref i d, Done)"
| "dir_apply D e (Delete_object b k ver) d = Some (apsnd (\<lambda>(m, v). Removed m v) (dir_delete_object D e b k ver d))"
| "dir_apply D e (Version_bucket b enable) d =
     Some (apsnd (answer (\<lambda>_. Done)) (dir_set_bucket_versioning b (if enable then Enabled else Suspended) d))"
| "dir_apply D e (Set_policy b p) d = Some (apsnd (answer (\<lambda>_. Done)) (dir_set_bucket_policy D b p d))"
| "dir_apply D e (Set_cors b c) d = Some (apsnd (answer (\<lambda>_. Done)) (dir_set_bucket_cors D b c d))"

text \<open>
  The promise for buckets without versions. A bucket with versions is not described, but it stays one
  and no other bucket is touched.
\<close>

definition shows_content :: "bytes \<Rightarrow> content option \<Rightarrow> bool \<Rightarrow> dir_answer \<Rightarrow> bool" where
  "shows_content key c with_address a =
     (case c of
        None \<Rightarrow> a = Failed NoSuchKey
      | Some (addr, etag, mime) \<Rightarrow>
          (case a of
             Found (Some ob) \<Rightarrow> ob_name ob = key \<and> ob_size ob = data_size addr \<and> ob_etag ob = etag \<and> ob_mime ob = mime
               \<and> ob_state ob = Normal \<and> ob_version ob = None \<and> ob_addr ob = (if with_address then Some addr else None)
           | _ \<Rightarrow> False))"

fun spec_step :: "dir_op \<Rightarrow> dir_spec \<Rightarrow> dir_spec \<Rightarrow> dir_answer \<Rightarrow> bool" where
  "spec_step (Put_bucket b) s s' a =
     (if s b = None \<and> validate_bucket_name b = Inr () then s' = s(b \<mapsto> Plain (\<lambda>_. None)) \<and> a = Done
      else s' = s \<and> (\<exists>x. a = Failed x))"
| "spec_step (Delete_bucket b) s s' a =
     (case s b of
        None \<Rightarrow> s' = s \<and> a = Failed NoSuchBucket
      | Some (Plain m) \<Rightarrow> if m = (\<lambda>_. None) then s' = s(b := None) \<and> a = Done else s' = s \<and> a = Failed (Command_exception 409 ''BucketNotEmpty'')
      | Some Versioned \<Rightarrow> s' = s(b := None) \<and> a = Done \<or> s' = s \<and> (\<exists>x. a = Failed x))"
| "spec_step (Put_object b obj) s s' a =
     (case (s b, ob_addr obj) of
        (Some (Plain m), Some addr) \<Rightarrow>
          if data_size addr < 2 ^ 63 then s' = s(b \<mapsto> Plain (m(ob_name obj \<mapsto> (addr, ob_etag obj, ob_mime obj)))) \<and> a = Stored None
          else s' = s \<and> a = Failed NoSuchBucket
      | (Some (Plain m), None) \<Rightarrow> s' = s \<and> (\<exists>x. a = Failed x)
      | _ \<Rightarrow> s' = s)"
| "spec_step (Get_object b k ver) s s' a =
     (s' = s \<and> (case s b of Some (Plain m) \<Rightarrow> ver = None \<longrightarrow> shows_content k (m k) True a | _ \<Rightarrow> True))"
| "spec_step (Head_object b k ver) s s' a =
     (s' = s \<and> (case s b of Some (Plain m) \<Rightarrow> ver = None \<longrightarrow> shows_content k (m k) False a | _ \<Rightarrow> True))"
| "spec_step (Delete_object b k ver) s s' a =
     (case s b of
        Some (Plain m) \<Rightarrow>
          if ver = None then s' = s(b \<mapsto> Plain (m(k := None))) \<and> a = Removed (m k \<noteq> None) None
          else s' = s \<or> s' = s(b \<mapsto> Plain (m(k := None)))
      | _ \<Rightarrow> s' = s)"
| "spec_step (Version_bucket b enable) s s' a = (if s b = None then s' = s \<and> a = Failed NoSuchBucket else s' = s(b \<mapsto> Versioned) \<and> a = Done)"
| "spec_step _ s s' a = (s' = s)"

lemma dir_abs_eqI:
  assumes "d_buckets d' = d_buckets d" and "\<And>b key. b \<in> set (d_buckets d) \<Longrightarrow> b_versioning b = Disabled \<Longrightarrow> contents d' (b_id b) key = contents d (b_id b) key"
  shows "dir_abs d' = dir_abs d"
proof
  fix name
  have "live_bucket d' name = live_bucket d name" using assms(1) by (simp add: live_bucket_def)
  moreover have "bucket_view d' b = bucket_view d b" if "live_bucket d name = Some b" for b
    using live_bucket_SomeD [OF that] assms(2) by (auto simp: bucket_view_def fun_eq_iff)
  ultimately show "dir_abs d' name = dir_abs d name" by (cases "live_bucket d name") (simp_all add: dir_abs_def)
qed

text \<open>One bucket changes.\<close>

lemma dir_abs_updateI:
  assumes "buckets_ok d" and "d_buckets d' = d_buckets d" and "live_bucket d name = Some b" and "b_versioning b = Disabled"
    and "\<And>c key. c \<in> set (d_buckets d) \<Longrightarrow> b_versioning c = Disabled \<Longrightarrow>
      contents d' (b_id c) key = (if b_id c = b_id b then m key else contents d (b_id c) key)"
  shows "dir_abs d' = (dir_abs d)(name \<mapsto> Plain m)"
proof
  fix n
  have l: "live_bucket d' = live_bucket d" using assms(2) by (simp add: live_bucket_def fun_eq_iff)
  show "dir_abs d' n = ((dir_abs d)(name \<mapsto> Plain m)) n"
  proof (cases "live_bucket d n")
    case None
    then show ?thesis using assms(3) l by (auto simp: dir_abs_def)
  next
    case (Some c)
    have "c = b" if "b_id c = b_id b"
      using assms(1) live_bucket_SomeD(1) [OF Some] live_bucket_SomeD(1) [OF assms(3)] that by (auto simp: buckets_ok_def distinct_map dest: inj_onD)
    moreover have "n = name" if "c = b" using live_bucket_SomeD(2) [OF Some] live_bucket_SomeD(2) [OF assms(3)] that by simp
    ultimately show ?thesis
      using assms(3-5) l Some live_bucket_SomeD(1) [OF Some] by (cases "n = name") (auto simp: dir_abs_def bucket_view_def fun_eq_iff)
  qed
qed

text \<open>Rows are not changed back to normal, and ids are not used again.\<close>

definition evolves :: "directory \<Rightarrow> directory \<Rightarrow> bool" where
  "evolves d d' \<longleftrightarrow> d_next_object d \<le> d_next_object d'
     \<and> (\<forall>r\<in>set (d_objects d'). o_id r < d_next_object d \<and> o_status r = Normal \<longrightarrow> r \<in> set (d_objects d))"

lemma evolves_refl [simp]: "evolves d d"
  by (simp add: evolves_def)

lemma evolves_trans: "evolves d d' \<Longrightarrow> evolves d' d'' \<Longrightarrow> evolves d d''"
  unfolding evolves_def by (meson le_trans less_le_trans)

lemma evolves_map: "\<forall>r\<in>set (d_objects d). keeps_row f r \<Longrightarrow> evolves d (d\<lparr>d_objects := map f (d_objects d)\<rparr>)"
  by (auto simp: evolves_def keeps_row_def)

lemma evolves_delete_row: "marks g \<Longrightarrow> evolves d (delete_row e i g d)"
  unfolding delete_row_map by (rule evolves_map) (simp add: delete_row_keeps)

lemma evolves_insert: "evolves d (insert_object e i key addr n etag mime st d)"
  by (auto simp: evolves_def insert_object_def)

lemma evolves_same: "d_objects d' = d_objects d \<Longrightarrow> d_next_object d' = d_next_object d \<Longrightarrow> evolves d d'"
  by (simp add: evolves_def)

subsection \<open>Deleting rows\<close>

lemma delete_row_abs:
  assumes "dir_inv d" and "marks g" and r: "r \<in> set (d_objects d)" and "live_bucket d name = Some b" and "o_bucket r = b_id b"
  shows "dir_abs (delete_row e (o_id r) g d) =
    (if b_versioning b = Disabled \<and> o_status r = Normal then (dir_abs d)(name \<mapsto> Plain ((contents d (b_id b))(o_name r := None))) else dir_abs d)"
proof -
  let ?d = "delete_row e (o_id r) g d"
  have ok: "buckets_ok d" "objects_ok d" using assms(1) by (simp_all add: dir_inv_def)
  have c: "contents ?d (b_id c) key = (if o_status r = Normal \<and> o_bucket r = b_id c \<and> o_name r = key then None else contents d (b_id c) key)"
    if c: "c \<in> set (d_buckets d)" "b_versioning c = Disabled" for c key
  proof -
    have p: "plain d (b_id c)" using assms(1) c by (simp add: dir_inv_def)
    have "current d (b_id c) key = Some r \<longleftrightarrow> o_status r = Normal \<and> o_bucket r = b_id c \<and> o_name r = key"
      using current_iff [OF ok(2) p] r by auto
    moreover have "q = r" if "current d (b_id c) key = Some q" "o_id q = o_id r" for q
      using that current_iff [OF ok(2) p] r same_row [OF ok(2)] by blast
    ultimately show ?thesis
      by (auto simp: contents_def delete_row_current [OF assms(1,2) c] split: option.split)
  qed
  show ?thesis
  proof (cases "b_versioning b = Disabled \<and> o_status r = Normal")
    case True
    then have "dir_abs ?d = (dir_abs d)(name \<mapsto> Plain ((contents d (b_id b))(o_name r := None)))"
      by (intro dir_abs_updateI [OF ok(1) _ assms(4)]) (auto simp: c assms(5))
    then show ?thesis using True by simp
  next
    case False
    have "c = b" if "c \<in> set (d_buckets d)" "b_id c = b_id b" for c
      using ok(1) that live_bucket_SomeD(1) [OF assms(4)] by (auto simp: buckets_ok_def distinct_map dest: inj_onD)
    then have "dir_abs ?d = dir_abs d" using False by (intro dir_abs_eqI) (auto simp: c assms(5))
    then show ?thesis unfolding if_not_P [OF False] .
  qed
qed

lemma newest_row_SomeD:
  assumes "buckets_ok d" and "newest_row bucket P d = Inr (Some r)"
  shows "\<exists>b. live_bucket d bucket = Some b \<and> r \<in> set (d_objects d) \<and> P r \<and> o_bucket r = b_id b"
  using assms by (auto simp: newest_row_def bucket_id_live bindE_def split: if_splits option.splits dest!: max_row_SomeD)

lemma get_object_SomeD:
  assumes "buckets_ok d" and "vrm_get_object bucket key d = Inr (Some (r, ver))"
  shows "\<exists>b. live_bucket d bucket = Some b \<and> r \<in> set (d_objects d) \<and> o_bucket r = b_id b \<and> o_name r = key"
  using assms(2) newest_row_SomeD [OF assms(1)]
  by (fastforce simp: vrm_get_object_def bindE_def split: if_splits sum.splits)

text \<open>The promise of an operation on the tables.\<close>

definition safe_change :: "directory \<Rightarrow> directory \<Rightarrow> bool" where
  "safe_change d d' \<longleftrightarrow> dir_inv d' \<and> evolves d d'"

lemma safe_change_refl: "dir_inv d \<Longrightarrow> safe_change d d"
  by (simp add: safe_change_def)

lemma safe_change_trans: "safe_change d d' \<Longrightarrow> safe_change d' d'' \<Longrightarrow> safe_change d d''"
  unfolding safe_change_def using evolves_trans by blast

lemma delete_row_safe: "dir_inv d \<Longrightarrow> marks g \<Longrightarrow> safe_change d (delete_row e i g d)"
  by (simp add: safe_change_def delete_row_inv evolves_delete_row)

subsection \<open>Storing an object\<close>

definition uuid_fresh :: "env \<Rightarrow> directory \<Rightarrow> bool" where
  "uuid_fresh e d \<longleftrightarrow> (\<forall>r\<in>set (d_objects d). o_version r \<noteq> e_uuid e)"

definition replace_row :: "env \<Rightarrow> object_row option \<Rightarrow> directory \<Rightarrow> directory" where
  "replace_row e old d = (case old of None \<Rightarrow> d | Some r \<Rightarrow> delete_row e (o_id r) (\<lambda>r. r) d)"

lemma replace_row_safe: "dir_inv d \<Longrightarrow> safe_change d (replace_row e old d)"
  by (simp add: replace_row_def delete_row_safe safe_change_refl split: option.split)

lemma replace_row_simps [simp]: "d_buckets (replace_row e old d) = d_buckets d" "live_bucket (replace_row e old d) = live_bucket d"
  "d_next_object (replace_row e old d) = d_next_object d"
  by (simp_all add: replace_row_def split: option.split)

lemma uuid_fresh_delete_row: "uuid_fresh e d \<Longrightarrow> (\<forall>r. o_version (g r) = o_version r) \<Longrightarrow> uuid_fresh e (delete_row e' i g d)"
  by (auto simp: uuid_fresh_def delete_row_map)

lemma put_object_plain:
  fixes key :: bytes
  assumes inv: "dir_inv d" and b: "live_bucket d bucket = Some b" "b_versioning b = Disabled" and "uuid_fresh e d"
  defines "d1 \<equiv> replace_row e (current d (b_id b) key) d"
  shows "vrm_put_object e bucket key addr n etag mime d = (insert_object e (b_id b) key addr n etag mime False d1, Inr (Some (d_next_object d, None)))"
    and "current d1 (b_id b) key = None"
proof -
  have "uuid_fresh e d1" unfolding d1_def replace_row_def
    using assms(4) by (cases "current d (b_id b) key") (simp_all add: uuid_fresh_delete_row)
  then show "vrm_put_object e bucket key addr n etag mime d = (insert_object e (b_id b) key addr n etag mime False d1, Inr (Some (d_next_object d, None)))"
    using get_object_plain [OF inv b, of key] b
    by (cases "current d (b_id b) key") (auto simp: vrm_put_object_def bucket_info_live d1_def replace_row_def uuid_fresh_def Let_def)
  show "current d1 (b_id b) key = None"
  proof (cases "current d (b_id b) key")
    case (Some r)
    then show ?thesis
      using delete_row_current [OF inv marks_simps(1) live_bucket_SomeD(1) [OF b(1)] b(2)] by (simp add: d1_def replace_row_def)
  qed (simp add: d1_def replace_row_def)
qed

text \<open>Whatever the bucket, a row of the bucket may be marked as deleted and a new row is appended.\<close>

lemma put_object_cases:
  assumes inv: "dir_inv d" and b: "live_bucket d bucket = Some b" and p: "vrm_put_object e bucket key addr n etag mime d = (d', res)"
  obtains "d' = d" "\<exists>x. res = Inl x"
  | old ver where "d' = insert_object e (b_id b) key addr n etag mime (b_versioning b = Enabled) (replace_row e old d)"
    "res = Inr (Some (d_next_object d, ver))" "\<forall>r. old = Some r \<longrightarrow> r \<in> set (d_objects d) \<and> o_bucket r = b_id b"
    "b_versioning b = Disabled \<Longrightarrow> old = current d (b_id b) key"
proof -
  have ok: "buckets_ok d" using inv by (simp add: dir_inv_def)
  show ?thesis
  proof (cases "b_versioning b = Disabled")
    case True
    have "r \<in> set (d_objects d) \<and> o_bucket r = b_id b" if "current d (b_id b) key = Some r" for r
      using that by (auto simp: current_def dest: find_SomeD)
    then show ?thesis using p that(1) that(2) [of "current d (b_id b) key"] get_object_plain [OF inv b True, of key] True
      by (cases "current d (b_id b) key") (auto simp: vrm_put_object_def bucket_info_live b replace_row_def Let_def split: if_splits)
  next
    case False
    then have "r \<in> set (d_objects d) \<and> o_bucket r = b_id b" if "vrm_get_object bucket key d = Inr (Some (r, v))" for r v
      using get_object_SomeD [OF ok that] b by auto
    then show ?thesis using p that(1) that(2) [of None] that(2) [of "Some _"] False
      by (auto simp: vrm_put_object_def bucket_info_live b replace_row_def Let_def split: if_splits sum.splits option.splits)
  qed
qed

lemma put_object_missing: "live_bucket d bucket = None \<Longrightarrow> vrm_put_object e bucket key addr n etag mime d = (d, Inr None)"
  by (simp add: vrm_put_object_def bucket_info_live)

lemma put_object_safe:
  assumes inv: "dir_inv d" and addr: "n = row_size addr" "addr = Empty_bytea \<Longrightarrow> \<exists>b. live_bucket d bucket = Some b \<and> b_versioning b \<noteq> Disabled"
    and p: "vrm_put_object e bucket key addr n etag mime d = (d', res)"
  shows "safe_change d d' \<and> d_buckets d' = d_buckets d"
proof (cases "live_bucket d bucket")
  case None
  then show ?thesis using p inv by (simp add: put_object_missing safe_change_refl)
next
  case (Some b)
  have b: "b \<in> set (d_buckets d)" using live_bucket_SomeD(1) [OF Some] .
  from inv Some p show ?thesis
  proof (cases rule: put_object_cases)
    case (2 old)
    have s: "safe_change d (replace_row e old d)" using replace_row_safe [OF inv] .
    have "current (replace_row e old d) (b_id b) key = None" if v: "b_versioning b = Disabled"
    proof (cases old)
      case (Some r)
      then show ?thesis using 2(4) v delete_row_current [OF inv marks_simps(1) b v] by (simp add: replace_row_def)
    qed (use 2(4) v in \<open>simp add: replace_row_def\<close>)
    then have "dir_inv d'" unfolding 2(1) using s b addr Some by (intro insert_object_inv) (auto simp: safe_change_def)
    then show ?thesis using s 2(1) evolves_trans [OF _ evolves_insert] by (auto simp: safe_change_def)
  qed (use inv in \<open>simp add: safe_change_refl\<close>)
qed

lemma insert_object_abs_versioned:
  assumes "buckets_ok d" and "b \<in> set (d_buckets d)" and "b_versioning b \<noteq> Disabled"
  shows "dir_abs (insert_object e (b_id b) key addr n etag mime st d) = dir_abs d"
proof (rule dir_abs_eqI)
  fix c k
  assume c: "c \<in> set (d_buckets d)" "b_versioning c = Disabled"
  then have "b_id b \<noteq> b_id c" using assms by (auto simp: buckets_ok_def distinct_map dest: inj_onD)
  then show "contents (insert_object e (b_id b) key addr n etag mime st d) (b_id c) k = contents d (b_id c) k"
    by (simp add: contents_def insert_object_current split: option.split)
qed simp

lemma put_object_versioned_abs:
  assumes inv: "dir_inv d" and b: "live_bucket d bucket = Some b" "b_versioning b \<noteq> Disabled"
    and p: "vrm_put_object e bucket key addr n etag mime d = (d', res)"
  shows "dir_abs d' = dir_abs d"
  using inv b(1) p
proof (cases rule: put_object_cases)
  case (2 old)
  let ?d = "replace_row e old d"
  have "dir_abs ?d = dir_abs d"
    using 2(3) b delete_row_abs [OF inv marks_simps(1) _ b(1)] by (cases old) (simp_all add: replace_row_def)
  moreover have "buckets_ok ?d" using replace_row_safe [OF inv] by (simp add: safe_change_def dir_inv_def)
  ultimately show ?thesis unfolding 2(1) using insert_object_abs_versioned [of ?d b] b live_bucket_SomeD(1) [OF b(1)] by simp
qed simp

lemma insert_object_abs_plain:
  assumes "dir_inv d" and b: "live_bucket d bucket = Some b" "b_versioning b = Disabled" and "current d (b_id b) key = None"
  shows "dir_abs (insert_object e (b_id b) key (Encoded a) n etag mime st d) =
    (dir_abs d)(bucket \<mapsto> Plain ((contents d (b_id b))(key \<mapsto> (a, etag, mime))))"
proof (rule dir_abs_updateI [OF _ _ b])
  fix c k
  assume c: "c \<in> set (d_buckets d)" "b_versioning c = Disabled"
  have "content (last (d_objects (insert_object e (b_id b) key (Encoded a) n etag mime st d))) = (a, etag, mime)"
    by (simp add: content_def insert_object_def)
  then show "contents (insert_object e (b_id b) key (Encoded a) n etag mime st d) (b_id c) k =
      (if b_id c = b_id b then ((contents d (b_id b))(key \<mapsto> (a, etag, mime))) k else contents d (b_id c) k)"
    using assms(4) by (auto simp: contents_def insert_object_current split: option.split)
qed (use assms(1) in \<open>simp_all add: dir_inv_def\<close>)

lemma put_object_abs:
  assumes inv: "dir_inv d" and b: "live_bucket d bucket = Some b" "b_versioning b = Disabled" and "uuid_fresh e d"
  shows "dir_abs (fst (vrm_put_object e bucket key (Encoded a) n etag mime d)) =
    (dir_abs d)(bucket \<mapsto> Plain ((contents d (b_id b))(key \<mapsto> (a, etag, mime))))"
proof -
  define d1 where "d1 = replace_row e (current d (b_id b) key) d"
  have p: "fst (vrm_put_object e bucket key (Encoded a) n etag mime d) = insert_object e (b_id b) key (Encoded a) n etag mime False d1"
    and "current d1 (b_id b) key = None" using put_object_plain [OF assms] by (simp_all add: d1_def)
  moreover have "dir_inv d1" "live_bucket d1 bucket = Some b" using replace_row_safe [OF inv] b by (simp_all add: d1_def safe_change_def)
  ultimately have *: "dir_abs (fst (vrm_put_object e bucket key (Encoded a) n etag mime d)) =
      (dir_abs d1)(bucket \<mapsto> Plain ((contents d1 (b_id b))(key \<mapsto> (a, etag, mime))))"
    using insert_object_abs_plain b(2) by simp
  show ?thesis
  proof (cases "current d (b_id b) key")
    case (Some r)
    then have r: "r \<in> set (d_objects d)" "o_bucket r = b_id b" "o_name r = key" "o_status r = Normal" by (auto simp: current_def dest: find_SomeD)
    then have 1: "dir_abs d1 = (dir_abs d)(bucket \<mapsto> Plain ((contents d (b_id b))(key := None)))"
      using delete_row_abs [OF inv marks_simps(1) r(1) b(1) r(2)] Some b(2) by (simp add: d1_def replace_row_def)
    then have "dir_abs d1 bucket = Some (Plain ((contents d (b_id b))(key := None)))" by simp
    then have "contents d1 (b_id b) = (contents d (b_id b))(key := None)"
      using \<open>live_bucket d1 bucket = Some b\<close> b(2) by (simp add: dir_abs_def bucket_view_def)
    then show ?thesis unfolding * 1 by simp
  qed (use * in \<open>simp add: d1_def replace_row_def\<close>)
qed

subsection \<open>Deleting an object\<close>

lemma get_object_missing: "buckets_ok d \<Longrightarrow> live_bucket d bucket = None \<Longrightarrow> vrm_get_object bucket key d \<noteq> Inr (Some q)"
  using get_object_SomeD [of d bucket key "fst q" "snd q"] by auto

text \<open>A delete marker: a new row that is marked as deleted at once.\<close>

lemma delete_marker_safe:
  assumes inv: "dir_inv d" and b: "live_bucket d bucket = Some b" "b_versioning b \<noteq> Disabled"
    and p: "vrm_put_object e bucket key Empty_bytea 0 None None d = (d1, Inr (Some (i, v)))"
  shows "safe_change d (delete_row e i (\<lambda>r. r\<lparr>o_sticky := True\<rparr>) d1)
    \<and> dir_abs (delete_row e i (\<lambda>r. r\<lparr>o_sticky := True\<rparr>) d1) = dir_abs d
    \<and> d_buckets (delete_row e i (\<lambda>r. r\<lparr>o_sticky := True\<rparr>) d1) = d_buckets d"
proof -
  have s: "safe_change d d1" "d_buckets d1 = d_buckets d" using put_object_safe [OF inv _ _ p] b by (auto simp: row_size_def)
  have l: "live_bucket d1 bucket = Some b" using b(1) s(2) by (simp add: live_bucket_def)
  from inv b(1) p have "\<exists>r. r \<in> set (d_objects d1) \<and> o_bucket r = b_id b \<and> o_id r = i"
  proof (cases rule: put_object_cases)
    case (2 old ver)
    then show ?thesis by (intro exI [of _ "last (d_objects d1)"]) (simp add: insert_object_def)
  qed simp
  then obtain r where r: "r \<in> set (d_objects d1)" "o_bucket r = b_id b" "o_id r = i" by blast
  have "dir_abs (delete_row e (o_id r) (\<lambda>r. r\<lparr>o_sticky := True\<rparr>) d1) = dir_abs d1"
    using delete_row_abs [OF _ marks_simps(2) r(1) l r(2)] s(1) b(2) by (simp add: safe_change_def)
  then show ?thesis
    using s r(3) put_object_versioned_abs [OF inv b p] safe_change_trans [OF s(1) delete_row_safe] by (simp add: safe_change_def)
qed

lemma delete_object_versioned:
  assumes inv: "dir_inv d" and d': "vrm_delete_object e bucket key d = (d', res)"
    and b: "live_bucket d bucket = Some b" "b_versioning b \<noteq> Disabled"
  shows "safe_change d d' \<and> d_buckets d' = d_buckets d \<and> dir_abs d' = dir_abs d"
proof -
  let ?m = "\<lambda>r. r\<lparr>o_sticky := True\<rparr>"
  have ok: "buckets_ok d" using inv by (simp add: dir_inv_def)
  have v: "b_versioning b = Enabled \<or> b_versioning b = Suspended" using b(2) by (cases "b_versioning b") auto
  consider "d' = d" | r q where "vrm_get_object bucket key d = Inr (Some (r, q))" "d' = delete_row e (o_id r) ?m d"
    | i d1 w where "vrm_put_object e bucket key Empty_bytea 0 None None d = (d1, Inr (Some (i, w)))" "d' = delete_row e i ?m d1"
    | d1 where "vrm_put_object e bucket key Empty_bytea 0 None None d = (d1, Inr None)" "d' = d1"
    using d' v that by (auto simp: vrm_delete_object_def bucket_info_live b Let_def split: sum.splits option.splits if_splits prod.splits)
  then show ?thesis
  proof cases
    case (2 r q)
    obtain r': "r \<in> set (d_objects d)" "o_bucket r = b_id b" using get_object_SomeD [OF ok 2(1)] b by auto
    show ?thesis using 2(2) delete_row_safe [OF inv] b delete_row_abs [OF inv marks_simps(2) r'(1) b(1) r'(2)] by simp
  next
    case (3 i d1 w)
    then show ?thesis using delete_marker_safe [OF inv b 3(1)] by simp
  next
    case (4 d1)
    from inv b(1) 4(1) show ?thesis by (cases rule: put_object_cases) simp_all
  qed (use inv in \<open>simp add: safe_change_refl\<close>)
qed

lemma delete_object_plain:
  assumes inv: "dir_inv d" and d': "vrm_delete_object e bucket key d = (d', res)"
    and b: "live_bucket d bucket = Some b" "b_versioning b = Disabled"
  shows "safe_change d d' \<and> d_buckets d' = d_buckets d \<and> dir_abs d' = (dir_abs d)(bucket \<mapsto> Plain ((contents d (b_id b))(key := None)))
    \<and> (case res of Inl _ \<Rightarrow> contents d (b_id b) key = None | Inr x \<Rightarrow> contents d (b_id b) key \<noteq> None \<and> x = (True, None))"
proof (cases "current d (b_id b) key")
  case None
  then have "d' = d" "\<exists>x. res = Inl x" "contents d (b_id b) key = None"
    using d' get_object_plain [OF inv b, of key] by (auto simp: vrm_delete_object_def contents_def)
  moreover have "dir_abs d bucket = Some (Plain (contents d (b_id b)))" using b by (simp add: dir_abs_def bucket_view_def)
  ultimately show ?thesis using inv by (auto simp: safe_change_refl fun_upd_idem)
next
  case (Some r)
  then have r: "r \<in> set (d_objects d)" "o_bucket r = b_id b" "o_name r = key" "o_status r = Normal" by (auto simp: current_def dest: find_SomeD)
  have "d' = delete_row e (o_id r) (\<lambda>r. r) d" "res = Inr (True, None)" "contents d (b_id b) key \<noteq> None"
    using d' get_object_plain [OF inv b, of key] Some r(4) b by (auto simp: vrm_delete_object_def contents_def bucket_info_live)
  then show ?thesis using delete_row_abs [OF inv marks_simps(1) r(1) b(1) r(2)] r(3,4) b delete_row_safe [OF inv] by simp
qed

lemma delete_object_missing:
  assumes "buckets_ok d" and "live_bucket d bucket = None"
  shows "fst (vrm_delete_object e bucket key d) = d"
  using get_object_missing [OF assms] by (auto simp: vrm_delete_object_def split: sum.splits option.splits)

text \<open>Deleting one version marks at most one row of the bucket.\<close>

lemma delete_version_cases:
  assumes "buckets_ok d" and "vrm_delete_object_version e bucket key u d = (d', res)"
  obtains "d' = d" | r b where "d' = delete_row e (o_id r) (\<lambda>r. r\<lparr>o_sticky := False\<rparr>) d" "live_bucket d bucket = Some b"
    "r \<in> set (d_objects d)" "o_bucket r = b_id b" "o_name r = key"
  using assms newest_row_SomeD [OF assms(1)]
  by (fastforce simp: vrm_delete_object_version_def vrm_get_object_by_version_def split: sum.splits option.splits)

lemma delete_null_version_cases:
  assumes "buckets_ok d" and "vrm_delete_object_null_version e bucket key d = (d', res)"
  obtains "d' = d" | r b where "d' = delete_row e (o_id r) (\<lambda>r. r) d" "live_bucket d bucket = Some b"
    "r \<in> set (d_objects d)" "o_bucket r = b_id b" "o_name r = key"
proof -
  let ?rs = "filter (\<lambda>r. \<not> o_sticky r \<and> o_status r = Normal \<and> o_name r = key) (d_objects d)"
  have e: "vrm_delete_object_null_version e bucket key d = (if ?rs = [] then (d, Inl Runtime_error)
      else case vrm_get_bucket_id bucket d of Inl x \<Rightarrow> (d, Inl x)
        | Inr b \<Rightarrow> (case find (\<lambda>r. o_bucket r = b) ?rs of None \<Rightarrow> (d, Inl Runtime_error) | Some r \<Rightarrow> (delete_row e (o_id r) (\<lambda>r. r) d, Inr (False, None))))"
    unfolding vrm_delete_object_null_version_def by (cases ?rs) (simp_all split: sum.split)
  show ?thesis using that assms(2) by (auto simp: e bucket_id_live [OF assms(1)] split: if_splits sum.splits option.splits dest!: find_SomeD)
qed

lemma mark_row_step:
  assumes inv: "dir_inv d" and "marks g" and d': "d' = delete_row e (o_id r) g d" and b: "live_bucket d bucket = Some b"
    and r: "r \<in> set (d_objects d)" "o_bucket r = b_id b" "o_name r = key"
  shows "safe_change d d' \<and> d_buckets d' = d_buckets d \<and>
    (case dir_abs d bucket of Some (Plain m) \<Rightarrow> dir_abs d' = dir_abs d \<or> dir_abs d' = (dir_abs d)(bucket \<mapsto> Plain (m(key := None))) | _ \<Rightarrow> dir_abs d' = dir_abs d)"
proof -
  have "dir_abs d bucket = Some (bucket_view d b)" using b by (simp add: dir_abs_def)
  then show ?thesis unfolding d' using delete_row_abs [OF inv assms(2) r(1) b r(2)] r(3) delete_row_safe [OF inv assms(2)]
    by (simp add: bucket_view_def)
qed

subsection \<open>Changes of the buckets\<close>

lemma contents_cong: "d_objects d' = d_objects d \<Longrightarrow> contents d' = contents d" "d_objects d' = d_objects d \<Longrightarrow> plain d' = plain d"
  by (simp_all add: contents_def current_def plain_def newest_def fun_eq_iff)

definition keeps_bucket :: "(bucket_row \<Rightarrow> bucket_row) \<Rightarrow> bool" where
  "keeps_bucket f \<longleftrightarrow> (\<forall>b. b_id (f b) = b_id b \<and> b_name (f b) = b_name b \<and> (b_deleted b \<longrightarrow> b_deleted (f b))
     \<and> (b_versioning (f b) = Disabled \<longrightarrow> b_versioning b = Disabled))"

lemma bucket_map_ok:
  assumes inv: "dir_inv d" and k: "keeps_bucket f"
  defines "d' \<equiv> d\<lparr>d_buckets := map f (d_buckets d)\<rparr>"
  shows "safe_change d d'"
    and "live_bucket d' n = (case live_bucket d n of None \<Rightarrow> None | Some b \<Rightarrow> if b_deleted (f b) then None else Some (f b))"
proof -
  have o: "buckets_ok d" "objects_ok d" using inv by (simp_all add: dir_inv_def)
  have ids: "map b_id (d_buckets d') = map b_id (d_buckets d)" "b_id ` set (d_buckets d') = b_id ` set (d_buckets d)"
    using k by (auto simp: d'_def keeps_bucket_def image_image)
  have "f b = f c" if "b \<in> set (d_buckets d)" "c \<in> set (d_buckets d)" "\<not> b_deleted (f b)" "\<not> b_deleted (f c)" "b_name (f b) = b_name (f c)" for b c
    using that o(1) k unfolding buckets_ok_def keeps_bucket_def by metis
  moreover have "distinct (map b_id (d_buckets d'))" using o(1) unfolding ids(1) by (simp add: buckets_ok_def)
  ultimately have b': "buckets_ok d'" using o(1) k unfolding buckets_ok_def by (auto simp: d'_def keeps_bucket_def)
  have "objects_ok d'" using o(2) ids(2) by (simp add: objects_ok_def d'_def)
  moreover have "plain d' (b_id b)" if "b \<in> set (d_buckets d')" "b_versioning b = Disabled" for b
    using that inv k contents_cong(2) [of d' d] by (auto simp: d'_def dir_inv_def keeps_bucket_def)
  ultimately show "safe_change d d'" using b' by (simp add: safe_change_def dir_inv_def evolves_same d'_def)
  show "live_bucket d' n = (case live_bucket d n of None \<Rightarrow> None | Some b \<Rightarrow> if b_deleted (f b) then None else Some (f b))"
  proof (rule option_eqI)
    fix x
    have "live_bucket d' n = Some x \<longleftrightarrow> (\<exists>b\<in>set (d_buckets d). x = f b \<and> b_name b = n \<and> \<not> b_deleted (f b) \<and> \<not> b_deleted b)"
      unfolding live_bucket_iff [OF b'] using k by (auto simp: d'_def keeps_bucket_def)
    also have "\<dots> \<longleftrightarrow> (\<exists>b. live_bucket d n = Some b \<and> x = f b \<and> \<not> b_deleted (f b))" unfolding live_bucket_iff [OF o(1)] by auto
    also have "\<dots> \<longleftrightarrow> (case live_bucket d n of None \<Rightarrow> None | Some b \<Rightarrow> if b_deleted (f b) then None else Some (f b)) = Some x"
      by (cases "live_bucket d n") auto
    finally show "live_bucket d' n = Some x \<longleftrightarrow> (case live_bucket d n of None \<Rightarrow> None | Some b \<Rightarrow> if b_deleted (f b) then None else Some (f b)) = Some x" .
  qed
qed

lemma set_bucket_ok:
  assumes inv: "dir_inv d" and k: "keeps_bucket f" "\<And>b. b_deleted (f b) = b_deleted b" and "live_bucket d bucket \<noteq> None"
    and s: "set_bucket bucket f d = (d', res)"
  shows "safe_change d d'" and "res = Inr ()"
    and "dir_abs d' = (if \<forall>b. b_versioning (f b) = b_versioning b then dir_abs d
        else (dir_abs d)(bucket := map_option (\<lambda>b. bucket_view d (f b)) (live_bucket d bucket)))"
proof -
  let ?f = "\<lambda>b. if b_name b = bucket then f b else b"
  have e: "d' = d\<lparr>d_buckets := map ?f (d_buckets d)\<rparr>" "res = Inr ()"
    using s assms(4) live_bucket_SomeD [of d bucket] by (auto simp: set_bucket_def update_buckets_def split: if_splits)
  have k': "keeps_bucket ?f" using k by (simp add: keeps_bucket_def)
  show "safe_change d d'" "res = Inr ()" using bucket_map_ok(1) [OF inv k'] e by simp_all
  have l: "live_bucket d' n = (if n = bucket then map_option f (live_bucket d n) else live_bucket d n)" for n
    using bucket_map_ok(2) [OF inv k', of n] k(2) live_bucket_SomeD [of d n] by (auto simp: e split: option.split)
  have "contents d' = contents d" by (rule contents_cong) (simp add: e)
  then have "bucket_view d' = bucket_view d" by (simp add: bucket_view_def fun_eq_iff)
  moreover have "bucket_view d (f b) = bucket_view d b" if "\<forall>b. b_versioning (f b) = b_versioning b" for b
    using that k(1) by (simp add: bucket_view_def keeps_bucket_def)
  ultimately show "dir_abs d' = (if \<forall>b. b_versioning (f b) = b_versioning b then dir_abs d
        else (dir_abs d)(bucket := map_option (\<lambda>b. bucket_view d (f b)) (live_bucket d bucket)))"
    by (intro ext) (auto simp: dir_abs_def l option.map_comp comp_def)
qed

lemma delete_bucket_ok:
  assumes inv: "dir_inv d" and b: "live_bucket d bucket = Some b" and s: "vrm_delete_bucket bucket d = (d', res)"
  shows "safe_change d d'" and "res = Inr ()" and "dir_abs d' = (dir_abs d)(bucket := None)"
proof -
  let ?f = "\<lambda>c. if b_id c = b_id b then c\<lparr>b_deleted := True\<rparr> else c"
  have o: "buckets_ok d" using inv by (simp add: dir_inv_def)
  have e: "d' = d\<lparr>d_buckets := map ?f (d_buckets d)\<rparr>" "res = Inr ()"
    using s b by (auto simp: vrm_delete_bucket_def bucket_id_live [OF o] update_buckets_def)
  have k: "keeps_bucket ?f" by (simp add: keeps_bucket_def)
  show "safe_change d d'" "res = Inr ()" using bucket_map_ok(1) [OF inv k] e by simp_all
  have "b_id c \<noteq> b_id b" if "live_bucket d n = Some c" "n \<noteq> bucket" for n c
  proof
    assume "b_id c = b_id b"
    then have "c = b" using o live_bucket_SomeD(1) [OF that(1)] live_bucket_SomeD(1) [OF b] by (auto simp: buckets_ok_def distinct_map dest: inj_onD)
    then show False using live_bucket_SomeD(2) [OF that(1)] live_bucket_SomeD(2) [OF b] that(2) by simp
  qed
  then have "live_bucket d' n = (if n = bucket then None else live_bucket d n)" for n
    using bucket_map_ok(2) [OF inv k, of n] b live_bucket_SomeD(3) [of d n] by (auto simp: e split: option.split)
  moreover have "bucket_view d' = bucket_view d" using contents_cong(1) [of d' d] by (simp add: bucket_view_def e fun_eq_iff)
  ultimately show "dir_abs d' = (dir_abs d)(bucket := None)" by (intro ext) (simp add: dir_abs_def)
qed

end
