(* ===== verification/Vrm_DirectoryRefine.thy ===== *)
theory Vrm_DirectoryRefine
  imports Vrm_DirectorySpec
begin

text \<open>
  The refinement of the directory: every member of the class keeps the invariant of the tables and
  does to the buckets what \<^const>\<open>spec_step\<close> allows, and the collector changes nothing that a
  client can see. Together they are the steps of a transition system whose reachable states satisfy
  the invariant.
\<close>

lemma dir_abs_cong: "d_buckets d' = d_buckets d \<Longrightarrow> d_objects d' = d_objects d \<Longrightarrow> dir_abs d' = dir_abs d"
  by (rule dir_abs_eqI) (simp_all add: contents_cong(1) [of d' d])

lemma create_bucket_ok:
  assumes inv: "dir_inv d" and "live_bucket d bucket = None" and c: "vrm_create_bucket bucket d = (d', res)"
  shows "safe_change d d'" and "res = Inr ()" and "dir_abs d' = (dir_abs d)(bucket \<mapsto> Plain (\<lambda>_. None))"
proof -
  define b where "b = \<lparr>b_id = d_next_bucket d, b_name = bucket, b_deleted = False, b_versioning = Disabled, b_policy = None, b_cors = None\<rparr>"
  have e: "d' = d\<lparr>d_buckets := d_buckets d @ [b], d_next_bucket := d_next_bucket d + 1\<rparr>" "res = Inr ()"
    using c assms(2) by (simp_all add: vrm_create_bucket_def check_bucket_live b_def)
  have o: "buckets_ok d" "objects_ok d" using inv by (simp_all add: dir_inv_def)
  have n: "d_next_bucket d \<notin> b_id ` set (d_buckets d)" using o(1) by (auto simp: buckets_ok_def)
  then have no: "o_bucket r \<noteq> d_next_bucket d" if "r \<in> set (d_objects d)" for r using o(2) that unfolding objects_ok_def by metis
  have "\<forall>c\<in>set (d_buckets d). b_name c = bucket \<longrightarrow> b_deleted c" using assms(2) by (simp add: live_bucket_None)
  then have "buckets_ok d'" using o(1) n unfolding buckets_ok_def e by (auto simp: b_def less_Suc_eq)
  moreover have "objects_ok d'" using o(2) unfolding objects_ok_def e by auto
  moreover have "plain d' (b_id c)" if "c \<in> set (d_buckets d')" "b_versioning c = Disabled" for c
  proof (cases "c = b")
    case True
    then show ?thesis using no by (auto simp: plain_def e b_def)
  next
    case False
    then show ?thesis using that inv contents_cong(2) [of d' d] by (simp add: e dir_inv_def)
  qed
  ultimately show "safe_change d d'" by (simp add: safe_change_def dir_inv_def evolves_same e)
  show "res = Inr ()" by (rule e)
  have "live_bucket d' n = (if n = bucket then Some b else live_bucket d n)" for n
    using assms(2) by (auto simp: live_bucket_def e find_append b_def split: option.split)
  moreover have "current d (d_next_bucket d) k = None" for k using no by (simp add: current_None)
  moreover have "contents d' = contents d" by (rule contents_cong) (simp add: e)
  ultimately show "dir_abs d' = (dir_abs d)(bucket \<mapsto> Plain (\<lambda>_. None))"
    by (intro ext) (auto simp: dir_abs_def bucket_view_def [abs_def] b_def contents_def [of d "d_next_bucket d"] cong: if_cong)
qed

lemma inc_reference_ok:
  assumes inv: "dir_inv d" and "vrm_inc_reference i d = (d', res)"
  shows "safe_change d d' \<and> dir_abs d' = dir_abs d \<and> (i \<in> o_id ` set (d_objects d) \<longrightarrow> res = Inr ())"
proof -
  have p: "plain d' = plain d" "dir_abs d' = dir_abs d"
    using assms(2) by (auto simp: vrm_inc_reference_def split: if_splits intro!: contents_cong dir_abs_cong)
  then show ?thesis using assms
    by (auto simp: vrm_inc_reference_def safe_change_def dir_inv_def buckets_ok_def objects_ok_def evolves_same split: if_splits option.splits)
qed

lemma dec_reference_ok:
  assumes inv: "dir_inv d" and "vrm_dec_reference i d = (d', res)"
  shows "safe_change d d' \<and> dir_abs d' = dir_abs d"
proof -
  have p: "plain d' = plain d" "dir_abs d' = dir_abs d"
    using assms(2) by (auto simp: vrm_dec_reference_def split: if_splits intro!: contents_cong dir_abs_cong)
  then show ?thesis using assms
    by (auto simp: vrm_dec_reference_def safe_change_def dir_inv_def buckets_ok_def objects_ok_def evolves_same split: if_splits option.splits)
qed

subsection \<open>Listing a bucket\<close>

lemma length_order_by [simp]: "length (order_by le xs) = length xs"
proof -
  have "length (insert_by le x ys) = Suc (length ys)" for x ys by (induction ys) auto
  then show ?thesis by (induction xs) (simp_all add: order_by_def)
qed

lemma list_objects_empty:
  assumes inv: "dir_inv d" and b: "live_bucket d bucket = Some b" "b_versioning b = Disabled"
  shows "\<exists>rows. vrm_list_objects le (\<lambda>_. True) bucket d = Inr rows \<and> (length rows = 0 \<longleftrightarrow> contents d (b_id b) = (\<lambda>_. None))"
proof -
  have o: "buckets_ok d" "plain d (b_id b)" using inv live_bucket_SomeD(1) [OF b(1)] b(2) by (auto simp: dir_inv_def)
  let ?rows = "filter (\<lambda>r. newest d r \<and> o_bucket r = b_id b \<and> True \<and> o_status r = Normal) (d_objects d)"
  have "vrm_list_objects le (\<lambda>_. True) bucket d = Inr (order_by (\<lambda>r q. le (o_name r) (o_name q)) ?rows)"
    by (simp add: vrm_list_objects_def check_bucket_live bucket_id_live [OF o(1)] b bindE_def)
  moreover have "?rows = [] \<longleftrightarrow> (\<forall>r\<in>set (d_objects d). \<not> (o_bucket r = b_id b \<and> o_status r = Normal))"
    using o(2) by (auto simp: filter_empty_conv plain_def)
  moreover have "contents d (b_id b) = (\<lambda>_. None) \<longleftrightarrow> (\<forall>r\<in>set (d_objects d). \<not> (o_bucket r = b_id b \<and> o_status r = Normal))"
    by (auto simp: contents_def fun_eq_iff current_None)
  ultimately show ?thesis by (intro exI conjI) (assumption, simp only: length_order_by length_0_conv)
qed

subsection \<open>The collector\<close>

lemma next_deleted_ok:
  assumes inv: "dir_inv d" and n: "vrm_next_deleted d = (d', res)"
  shows "safe_change d d' \<and> dir_abs d' = dir_abs d"
proof (cases "find (collectable d) (d_objects d)")
  case None
  then show ?thesis using n inv by (simp add: vrm_next_deleted_def safe_change_refl)
next
  case (Some t)
  let ?f = "\<lambda>q. if o_id q = o_id t then q\<lparr>o_status := Collected\<rparr> else q"
  have t: "t \<in> set (d_objects d)" "o_status t = Deleted" using find_SomeD [OF Some] by (simp_all add: collectable_def)
  have e: "d' = d\<lparr>d_objects := map ?f (d_objects d)\<rparr>" using n Some by (simp add: vrm_next_deleted_def update_objects_def)
  have k: "\<forall>r\<in>set (d_objects d). keeps_row ?f r" by (simp add: keeps_row_def)
  have o: "objects_ok d" using inv by (simp add: dir_inv_def)
  have "dir_abs d' = dir_abs d"
  proof (rule dir_abs_eqI)
    fix b key
    assume b: "b \<in> set (d_buckets d)" "b_versioning b = Disabled"
    have "o_status (?f r) = Normal" if "current d (b_id b) key = Some r" for r
    proof -
      have r: "r \<in> set (d_objects d)" "o_status r = Normal" using that by (auto simp: current_def dest: find_SomeD)
      then have "o_id r \<noteq> o_id t" using same_row [OF o r(1) t(1)] t(2) by auto
      then show ?thesis using r(2) by simp
    qed
    then show "contents d' (b_id b) key = contents d (b_id b) key"
      by (simp add: contents_def e current_map [OF inv k b] split: option.split)
  qed (simp add: e)
  then show ?thesis using dir_inv_map [OF inv k] evolves_map [OF k] by (simp add: safe_change_def e)
qed

lemma remove_object_ok:
  assumes inv: "dir_inv d" and i: "\<forall>r\<in>set (d_objects d). o_id r = i \<longrightarrow> o_status r \<noteq> Normal" and r: "vrm_delete_object_by_id i d = (d', res)"
  shows "safe_change d d' \<and> dir_abs d' = dir_abs d"
proof (cases "d_refs d i = None")
  case False
  then show ?thesis using r inv by (simp add: vrm_delete_object_by_id_def safe_change_refl)
next
  case True
  have e: "d' = d\<lparr>d_objects := filter (\<lambda>r. o_id r \<noteq> i) (d_objects d)\<rparr>" using r True by (simp add: vrm_delete_object_by_id_def)
  have "current d' j key = current d j key" for j key
  proof -
    have "find (\<lambda>r. o_bucket r = j \<and> o_name r = key \<and> o_status r = Normal) (filter (\<lambda>r. o_id r \<noteq> i) rs) =
        find (\<lambda>r. o_bucket r = j \<and> o_name r = key \<and> o_status r = Normal) rs" if "\<forall>r\<in>set rs. o_id r = i \<longrightarrow> o_status r \<noteq> Normal" for rs
      using that by (induction rs) auto
    then show ?thesis using i by (simp add: current_def e)
  qed
  then have "dir_abs d' = dir_abs d" by (intro dir_abs_eqI) (simp_all add: e contents_def)
  moreover have "objects_ok d'" using inv True unfolding dir_inv_def objects_ok_def e
    by (auto simp: distinct_map_filter image_iff split: if_splits) (metis option.distinct(1))
  moreover have "plain d' j" if "plain d j" for j using that by (auto simp: plain_def newest_def e)
  ultimately show ?thesis using inv by (simp add: safe_change_def dir_inv_def evolves_def e buckets_ok_def)
qed

lemma clear_buckets_ok:
  assumes inv: "dir_inv d"
  shows "safe_change d (vrm_clear_deleted_buckets d) \<and> dir_abs (vrm_clear_deleted_buckets d) = dir_abs d"
proof -
  let ?P = "\<lambda>b. \<not> (b_deleted b \<and> \<not> (\<exists>r\<in>set (d_objects d). o_bucket r = b_id b))" and ?d = "vrm_clear_deleted_buckets d"
  have e: "?d = d\<lparr>d_buckets := filter ?P (d_buckets d)\<rparr>" by (simp add: vrm_clear_deleted_buckets_def)
  have o: "buckets_ok d" "objects_ok d" using inv by (simp_all add: dir_inv_def)
  have b: "buckets_ok ?d" using o(1) unfolding buckets_ok_def e by (auto simp: distinct_map_filter)
  have "o_bucket r \<in> b_id ` set (d_buckets ?d)" if r: "r \<in> set (d_objects d)" for r
  proof -
    obtain b where "b \<in> set (d_buckets d)" "o_bucket r = b_id b" using o(2) r unfolding objects_ok_def by auto
    then show ?thesis using r unfolding e by auto
  qed
  then have "objects_ok ?d" using o(2) unfolding objects_ok_def e by auto
  note b = b this
  have "live_bucket ?d n = live_bucket d n" for n
    by (rule option_eqI) (auto simp: live_bucket_iff [OF b(1)] live_bucket_iff [OF o(1)], auto simp: e)
  moreover have "bucket_view ?d = bucket_view d" using contents_cong(1) [of ?d d] by (simp add: bucket_view_def e fun_eq_iff)
  ultimately have "dir_abs ?d = dir_abs d" by (intro ext) (simp add: dir_abs_def)
  then show ?thesis using b inv contents_cong(2) [of ?d d] by (auto simp: safe_change_def dir_inv_def evolves_same e)
qed

subsection \<open>The members of the class\<close>

definition refines :: "database \<Rightarrow> env \<Rightarrow> dir_op \<Rightarrow> directory \<Rightarrow> bool" where
  "refines D e opn d \<longleftrightarrow>
     (case dir_apply D e opn d of
        None \<Rightarrow> (\<exists>b obj. opn = Put_object b obj \<and> dir_abs d b = None)
      | Some (d', a) \<Rightarrow> safe_change d d' \<and> spec_step opn (dir_abs d) (dir_abs d') a)"

lemma dir_abs_simps: "live_bucket d name = None \<Longrightarrow> dir_abs d name = None"
  "live_bucket d name = Some b \<Longrightarrow> b_versioning b = Disabled \<Longrightarrow> dir_abs d name = Some (Plain (contents d (b_id b)))"
  "live_bucket d name = Some b \<Longrightarrow> b_versioning b \<noteq> Disabled \<Longrightarrow> dir_abs d name = Some Versioned"
  by (simp_all add: dir_abs_def bucket_view_def)

lemma bucket_exists_live: "dir_bucket_exists name d = (if live_bucket d name = None then Inl NoSuchBucket else Inr ())"
  by (simp add: dir_bucket_exists_def check_bucket_live)

lemma put_bucket_refines:
  assumes inv: "dir_inv d"
  shows "refines D e (Put_bucket n) d"
proof (cases "live_bucket d n = None \<and> validate_bucket_name n = Inr ()")
  case True
  obtain d' res where c: "vrm_create_bucket n d = (d', res)" by fastforce
  show ?thesis using True create_bucket_ok [OF inv _ c] c
    by (simp add: refines_def dir_put_bucket_def answer_def dir_abs_simps(1))
next
  case False
  then have "\<exists>x. dir_put_bucket n d = (d, Inl x)"
    by (auto simp: dir_put_bucket_def vrm_create_bucket_def check_bucket_live split: sum.split)
  moreover have "\<not> (dir_abs d n = None \<and> validate_bucket_name n = Inr ())" using False by (simp add: dir_abs_def)
  ultimately show ?thesis using inv by (auto simp: refines_def answer_def safe_change_refl)
qed

lemma delete_bucket_refines:
  assumes inv: "dir_inv d"
  shows "refines D e (Delete_bucket n) d"
proof (cases "live_bucket d n")
  case None
  then show ?thesis using inv by (simp add: refines_def dir_delete_bucket_def bucket_exists_live answer_def dir_abs_simps safe_change_refl)
next
  case (Some b)
  obtain d' res where dl: "vrm_delete_bucket n d = (d', res)" by fastforce
  note del = delete_bucket_ok [OF inv Some dl]
  show ?thesis
  proof (cases "b_versioning b = Disabled")
    case True
    obtain rows where "vrm_list_objects (pg_le D) (\<lambda>_. True) n d = Inr rows" "length rows = 0 \<longleftrightarrow> contents d (b_id b) = (\<lambda>_. None)"
      using list_objects_empty [OF inv Some True] by blast
    then show ?thesis using del dl inv dir_abs_simps(2) [OF Some True]
      by (cases "length rows = 0") (simp_all add: refines_def dir_delete_bucket_def bucket_exists_live Some answer_def safe_change_refl)
  next
    case False
    then show ?thesis using del dl inv dir_abs_simps(3) [OF Some False]
      by (auto simp: refines_def dir_delete_bucket_def bucket_exists_live Some answer_def safe_change_refl split: sum.splits)
  qed
qed

lemma put_object_refines:
  assumes inv: "dir_inv d" and "uuid_fresh e d"
  shows "refines D e (Put_object n obj) d"
proof (cases "\<exists>a b. ob_addr obj = Some a \<and> data_size a < 2 ^ 63 \<and> live_bucket d n = Some b")
  case False
  then show ?thesis using inv
    by (cases "live_bucket d n"; cases "ob_addr obj")
      (auto simp: refines_def dir_put_object_def answer_def safe_change_refl put_object_missing dir_abs_simps not_less
        split: bucket_spec.splits option.splits)
next
  case True
  then obtain a b where a: "ob_addr obj = Some a" "data_size a < 2 ^ 63" and b: "live_bucket d n = Some b" by blast
  obtain d' res where p: "vrm_put_object e n (ob_name obj) (Encoded a) (data_size a) (ob_etag obj) (ob_mime obj) d = (d', res)" by fastforce
  have s: "safe_change d d'" using put_object_safe [OF inv _ _ p] by (simp add: row_size_def)
  show ?thesis
  proof (cases "b_versioning b = Disabled")
    case True
    then show ?thesis using s p a put_object_plain(1) [OF inv b True assms(2)] put_object_abs [OF inv b True assms(2)] dir_abs_simps(2) [OF b True]
      by (auto simp: refines_def dir_put_object_def answer_def)
  next
    case False
    from inv b p have "\<exists>r. res = Inl r \<or> (\<exists>i v. res = Inr (Some (i, v)))" by (cases rule: put_object_cases) auto
    then show ?thesis using s p a put_object_versioned_abs [OF inv b False p] dir_abs_simps(3) [OF b False]
      by (auto simp: refines_def dir_put_object_def answer_def)
  qed
qed

lemma row_to_object_simp [simp]:
  "row_to_object r ver = Inr \<lparr>ob_id = o_id r, ob_name = o_name r, ob_size = o_size r, ob_last_modified = o_last_modified r, ob_addr = None,
     ob_etag = o_etag r, ob_mime = o_mime r, ob_version = ver, ob_state = o_status r\<rparr>"
  by (cases "o_status r") (simp_all add: row_to_object_def to_object_state_def object_state_to_string_def bindE_def)

lemma shows_current:
  assumes inv: "dir_inv d" and b: "b \<in> set (d_buckets d)" "b_versioning b = Disabled" and r: "current d (b_id b) key = Some r"
  shows "\<exists>a. o_address r = Encoded a \<and> o_size r = data_size a \<and> contents d (b_id b) key = Some (a, o_etag r, o_mime r)"
    and "o_name r = key" and "o_status r = Normal" and "o_id r \<in> o_id ` set (d_objects d)"
proof -
  have p: "plain d (b_id b)" "objects_ok d" using inv b by (auto simp: dir_inv_def)
  have c: "r \<in> set (d_objects d)" "o_bucket r = b_id b" "o_name r = key" "o_status r = Normal" using r by (auto simp: current_def dest: find_SomeD)
  then have "o_address r \<noteq> Empty_bytea" "o_size r = row_size (o_address r)" using p unfolding plain_def objects_ok_def by blast+
  then show "\<exists>a. o_address r = Encoded a \<and> o_size r = data_size a \<and> contents d (b_id b) key = Some (a, o_etag r, o_mime r)"
    using r by (cases "o_address r") (simp_all add: contents_def content_def row_size_def)
  show "o_name r = key" "o_status r = Normal" "o_id r \<in> o_id ` set (d_objects d)" using c by auto
qed

lemma head_object_refines:
  assumes inv: "dir_inv d"
  shows "refines D e (Head_object n key ver) d"
proof (cases "\<exists>b. live_bucket d n = Some b \<and> b_versioning b = Disabled \<and> ver = None")
  case False
  then show ?thesis using inv by (cases "live_bucket d n") (auto simp: refines_def safe_change_refl dir_abs_def bucket_view_def)
next
  case True
  then obtain b where b: "live_bucket d n = Some b" "b_versioning b = Disabled" "ver = None" by blast
  note sc = shows_current [OF inv live_bucket_SomeD(1) [OF b(1)] b(2)]
  show ?thesis using inv get_object_plain [OF inv b(1,2), of key] sc(1-3) dir_abs_simps(2) [OF b(1,2)] b(3)
    by (cases "current d (b_id b) key")
      (fastforce simp: refines_def safe_change_refl dir_head_object_def lookup_object_def answer_def shows_content_def bindE_def contents_def)+
qed

lemma get_object_refines:
  assumes inv: "dir_inv d"
  shows "refines D e (Get_object n key ver) d"
proof -
  obtain d' res where g: "dir_get_object D n key ver d = (d', res)" by fastforce
  have s: "safe_change d d' \<and> dir_abs d' = dir_abs d"
    using g inv inc_reference_ok [OF inv]
    by (auto simp: dir_get_object_def safe_change_refl split: sum.splits option.splits bytea.splits prod.splits if_splits)
  show ?thesis
  proof (cases "\<exists>b. live_bucket d n = Some b \<and> b_versioning b = Disabled \<and> ver = None")
    case False
    then show ?thesis using g s by (cases "live_bucket d n") (auto simp: refines_def dir_abs_def bucket_view_def)
  next
    case True
    then obtain b where b: "live_bucket d n = Some b" "b_versioning b = Disabled" "ver = None" by blast
    have "shows_content key (contents d (b_id b) key) True (answer Found res)"
    proof (cases "current d (b_id b) key")
      case None
      then show ?thesis using g get_object_plain [OF inv b(1,2), of key] b(3)
        by (auto simp: dir_get_object_def lookup_object_def answer_def shows_content_def contents_def)
    next
      case (Some r)
      note sc = shows_current [OF inv live_bucket_SomeD(1) [OF b(1)] b(2) Some]
      obtain a where a: "o_address r = Encoded a" "o_size r = data_size a" "contents d (b_id b) key = Some (a, o_etag r, o_mime r)" using sc(1) by blast
      obtain d2 x where i: "vrm_inc_reference (o_id r) d = (d2, x)" by fastforce
      then have "x = Inr ()" using inc_reference_ok [OF inv i] sc(4) by blast
      then show ?thesis using g get_object_plain [OF inv b(1,2), of key] b(3) Some a sc(2,3) i
        by (auto simp: dir_get_object_def lookup_object_def answer_def shows_content_def)
    qed
    then show ?thesis using g s dir_abs_simps(2) [OF b(1,2)] by (simp add: refines_def)
  qed
qed

lemma delete_object_refines:
  assumes inv: "dir_inv d"
  shows "refines D e (Delete_object n key ver) d"
proof -
  have ok: "buckets_ok d" using inv by (simp add: dir_inv_def)
  let ?ok = "\<lambda>d'. safe_change d d' \<and> (case dir_abs d n of
      Some (Plain m) \<Rightarrow> dir_abs d' = dir_abs d \<or> dir_abs d' = (dir_abs d)(n \<mapsto> Plain (m(key := None))) | _ \<Rightarrow> dir_abs d' = dir_abs d)"
  have refl: "?ok d" using inv by (simp add: safe_change_refl split: option.split bucket_spec.split)
  show ?thesis
  proof (cases ver)
    case None
    obtain d' res where v: "vrm_delete_object e n key d = (d', res)" by fastforce
    show ?thesis
    proof (cases "live_bucket d n")
      case None
      then have "d' = d" using delete_object_missing [OF ok None, of e key] v by simp
      then show ?thesis using v None \<open>ver = None\<close> inv
        by (auto simp: refines_def dir_delete_object_def dir_abs_simps(1) safe_change_refl split: sum.splits prod.splits)
    next
      case (Some b)
      show ?thesis
      proof (cases "b_versioning b = Disabled")
        case True
        show ?thesis using delete_object_plain [OF inv v Some True] v dir_abs_simps(2) [OF Some True] \<open>ver = None\<close>
          by (auto simp: refines_def dir_delete_object_def split: sum.splits)
      next
        case False
        show ?thesis using delete_object_versioned [OF inv v Some False] v dir_abs_simps(3) [OF Some False] \<open>ver = None\<close>
          by (auto simp: refines_def dir_delete_object_def split: sum.splits prod.splits)
      qed
    qed
  next
    case (Some v)
    obtain d' x where a: "dir_delete_object D e n key ver d = (d', x)" by (cases "dir_delete_object D e n key ver d")
    consider "d' = d" | res where "vrm_delete_object_null_version e n key d = (d', res)"
      | u res where "vrm_delete_object_version e n key u d = (d', res)"
      using a Some that by (auto simp: dir_delete_object_def split: if_splits option.splits prod.splits sum.splits)
    then have "?ok d'"
    proof cases
      case (2 res)
      from ok 2 show ?thesis by (cases rule: delete_null_version_cases) (use refl in blast, use mark_row_step [OF inv marks_simps(1)] in blast)
    next
      case (3 u res)
      from ok 3 show ?thesis by (cases rule: delete_version_cases) (use refl in blast, use mark_row_step [OF inv marks_simps(2)] in blast)
    qed (use refl in blast)
    then show ?thesis using a Some by (auto simp: refines_def split: option.splits bucket_spec.splits prod.splits)
  qed
qed

lemma set_bucket_refines:
  assumes inv: "dir_inv d"
  shows "refines D e (Version_bucket n en) d" and "refines D e (Set_policy n p) d" and "refines D e (Set_cors n c) d"
proof -
  let ?v = "if en then Enabled else Suspended"
  show "refines D e (Version_bucket n en) d"
  proof (cases "live_bucket d n")
    case None
    then show ?thesis using inv by (simp add: refines_def dir_set_bucket_versioning_def bucket_exists_live answer_def safe_change_refl dir_abs_simps(1))
  next
    case (Some b)
    obtain d' res where s: "set_bucket n (\<lambda>b. b\<lparr>b_versioning := ?v\<rparr>) d = (d', res)" by fastforce
    have "b_versioning (b\<lparr>b_versioning := Disabled\<rparr>\<lparr>b_versioning := ?v\<rparr>) \<noteq> b_versioning (b\<lparr>b_versioning := Disabled\<rparr>)" by simp
    then have nv: "\<not> (\<forall>b :: bucket_row. b_versioning (b\<lparr>b_versioning := ?v\<rparr>) = b_versioning b)" by blast
    have k: "keeps_bucket (\<lambda>b. b\<lparr>b_versioning := ?v\<rparr>)" by (simp add: keeps_bucket_def)
    have r: "safe_change d d'" "res = Inr ()" using set_bucket_ok(1,2) [OF inv k _ _ s] Some by simp_all
    have "dir_abs d' = (dir_abs d)(n := map_option (\<lambda>b. bucket_view d (b\<lparr>b_versioning := ?v\<rparr>)) (live_bucket d n))"
      using set_bucket_ok(3) [OF inv k _ _ s] Some unfolding if_not_P [OF nv] by simp
    then have "dir_abs d' = (dir_abs d)(n \<mapsto> Versioned)" by (simp add: Some bucket_view_def)
    moreover have "dir_abs d n \<noteq> None" using Some by (simp add: dir_abs_def)
    ultimately show ?thesis using r s Some
      by (simp add: refines_def dir_set_bucket_versioning_def vrm_bucket_set_versioning_def bucket_exists_live answer_def)
  qed
  have set_ok: "safe_change d d' \<and> dir_abs d' = dir_abs d"
    if "set_bucket n f d = (d', res)" "live_bucket d n \<noteq> None" "keeps_bucket f" "\<And>b. b_deleted (f b) = b_deleted b" "\<And>b. b_versioning (f b) = b_versioning b" for f d' res
    using set_bucket_ok [OF inv that(3,4,2,1)] that(5) by simp
  show "refines D e (Set_policy n p) d"
    using inv set_ok [of "\<lambda>b. b\<lparr>b_policy := p\<rparr>"]
    by (cases "set_bucket n (\<lambda>b. b\<lparr>b_policy := p\<rparr>) d") (auto simp: refines_def dir_set_bucket_policy_def vrm_bucket_set_policy_def bucket_exists_live safe_change_refl keeps_bucket_def
        split: prod.splits)
  show "refines D e (Set_cors n c) d"
    using inv set_ok [of "\<lambda>b. b\<lparr>b_cors := c\<rparr>"]
    by (cases "set_bucket n (\<lambda>b. b\<lparr>b_cors := c\<rparr>) d") (auto simp: refines_def dir_set_bucket_cors_def vrm_bucket_set_cors_def bucket_exists_live safe_change_refl keeps_bucket_def
        split: prod.splits)
qed

lemma unref_refines: "dir_inv d \<Longrightarrow> refines D e (Unref i) d"
  using dec_reference_ok [of d i] by (cases "vrm_dec_reference i d") (auto simp: refines_def dir_unref_def)

lemma dir_apply_refines: "dir_inv d \<Longrightarrow> uuid_fresh e d \<Longrightarrow> refines D e opn d"
  by (cases opn) (simp_all add: put_bucket_refines delete_bucket_refines put_object_refines head_object_refines get_object_refines
      delete_object_refines set_bucket_refines unref_refines)

subsection \<open>Rows under the operations of clients\<close>

definition row_entry :: "object_row \<Rightarrow> nat \<times> bytea" where
  "row_entry r = (o_id r, o_address r)"

definition collected :: "directory \<Rightarrow> nat set" where
  "collected d = o_id ` {r \<in> set (d_objects d). o_status r = Collected}"

text \<open>The rows stay, at most one with the given addresses is added, and none becomes collected.\<close>

definition grows_by :: "directory \<Rightarrow> bytea list \<Rightarrow> directory \<Rightarrow> bool" where
  "grows_by d new d' \<longleftrightarrow> map row_entry (d_objects d') = map row_entry (d_objects d) @ map (\<lambda>a. (d_next_object d, a)) new
     \<and> length new \<le> 1 \<and> d_next_object d' = d_next_object d + length new \<and> collected d' \<subseteq> collected d"

lemma grows_by_same: "d_objects d' = d_objects d \<Longrightarrow> d_next_object d' = d_next_object d \<Longrightarrow> grows_by d [] d'"
  by (simp add: grows_by_def collected_def)

lemma grows_by_delete_row: "marks g \<Longrightarrow> grows_by d [] (delete_row e i g d)"
  by (auto simp: grows_by_def delete_row_map row_entry_def marks_def collected_def split: if_splits)

lemma grows_by_insert: "grows_by d [addr] (insert_object e i key addr n etag mime st d)"
  by (auto simp: grows_by_def insert_object_def row_entry_def collected_def)

lemma grows_by_trans: "grows_by d [] d' \<Longrightarrow> grows_by d' new d'' \<Longrightarrow> grows_by d new d''"
  "grows_by d new d' \<Longrightarrow> grows_by d' [] d'' \<Longrightarrow> grows_by d new d''"
  by (auto simp: grows_by_def)

lemma grows_by_put:
  assumes "vrm_put_object e bucket key addr n etag mime d = (d', res)"
  shows "case res of Inr (Some (i, v)) \<Rightarrow> i = d_next_object d \<and> grows_by d [addr] d' | _ \<Rightarrow> d' = d"
proof -
  have "grows_by d [addr] (insert_object e i key addr n etag mime st (delete_row e j (\<lambda>r. r) d))" for i st j
    by (rule grows_by_trans(1) [OF grows_by_delete_row grows_by_insert]) simp
  then show ?thesis using assms
    by (auto simp: vrm_put_object_def Let_def grows_by_insert split: option.splits sum.splits prod.splits if_splits)
qed

lemma grows_by_delete:
  assumes "vrm_delete_object e bucket key d = (d', res)"
  shows "grows_by d [] d' \<or> grows_by d [Empty_bytea] d'"
proof (cases "vrm_put_object e bucket key Empty_bytea 0 None None d")
  case (Pair d1 r1)
  note p = grows_by_put [OF Pair]
  have m: "grows_by x [] (delete_row e i (\<lambda>r. r\<lparr>o_sticky := True\<rparr>) x)" "grows_by x [] (delete_row e i (\<lambda>r. r) x)" for i x
    by (simp_all add: grows_by_delete_row)
  show ?thesis using assms p m grows_by_trans(2) [OF _ m(1)] grows_by_same [of d d]
    by (auto simp: vrm_delete_object_def Let_def Pair split: option.splits sum.splits prod.splits if_splits)
qed

lemma grows_by_delete_versions:
  "vrm_delete_object_version e bucket key u d = (d', res) \<Longrightarrow> grows_by d [] d'"
  "vrm_delete_object_null_version e bucket key d = (d', res) \<Longrightarrow> grows_by d [] d'"
  by (auto simp: vrm_delete_object_version_def vrm_delete_object_null_version_def grows_by_delete_row grows_by_same split: sum.splits option.splits list.splits)

lemma grows_by_dir_delete:
  assumes "dir_delete_object D e b k ver d = (d', x)"
  shows "grows_by d [] d' \<or> grows_by d [Empty_bytea] d'"
  using assms grows_by_same [of d d]
  by (auto simp: dir_delete_object_def split: option.splits prod.splits sum.splits if_splits dest: grows_by_delete grows_by_delete_versions)

text \<open>The rows that an operation of a client adds.\<close>

definition new_rows :: "dir_op \<Rightarrow> dir_answer \<Rightarrow> bytea list \<Rightarrow> bool" where
  "new_rows opn a new =
     (case (opn, a) of
        (Put_object b obj, Stored v) \<Rightarrow> (\<exists>addr. ob_addr obj = Some addr \<and> new = [Encoded addr])
      | (Delete_object b k ver, _) \<Rightarrow> new = [] \<or> new = [Empty_bytea]
      | _ \<Rightarrow> new = [])"

lemma dir_apply_rows:
  assumes "dir_apply D e opn d = Some (d', a)"
  shows "\<exists>new. grows_by d new d' \<and> new_rows opn a new"
proof (cases opn)
  case (Put_object b obj)
  then show ?thesis using assms grows_by_put [of e b "ob_name obj"] grows_by_same [of d d]
    by (fastforce simp: dir_put_object_def new_rows_def answer_def split: option.splits prod.splits sum.splits if_splits)
next
  case (Delete_object b k ver)
  then show ?thesis using assms grows_by_dir_delete [of D e b k ver d]
    by (cases "dir_delete_object D e b k ver d") (auto simp: new_rows_def)
qed (use assms in \<open>auto simp: new_rows_def dir_put_bucket_def vrm_create_bucket_def dir_delete_bucket_def vrm_delete_bucket_def update_buckets_def
    dir_get_object_def vrm_inc_reference_def dir_unref_def vrm_dec_reference_def dir_set_bucket_versioning_def vrm_bucket_set_versioning_def set_bucket_def
    dir_set_bucket_policy_def vrm_bucket_set_policy_def dir_set_bucket_cors_def vrm_bucket_set_cors_def
    intro!: grows_by_same split: sum.splits option.splits prod.splits bytea.splits if_splits\<close>)

subsection \<open>Clients and collectors\<close>

text \<open>
  The members run as transactions of any number of clients and collectors in any order. The second
  component of the state are the ids that collectors have got and not yet removed.
\<close>

datatype dir_label = Client dir_op dir_answer | Collect | Remove nat | Clear

inductive dir_step :: "database \<Rightarrow> directory \<times> nat set \<Rightarrow> dir_label \<Rightarrow> directory \<times> nat set \<Rightarrow> bool" for D where
  client: "uuid_fresh e d \<Longrightarrow> dir_apply D e opn d = Some (d', a) \<Longrightarrow> dir_step D (d, P) (Client opn a) (d', P)"
| collect: "dir_next_deleted d = (d', Inr (Some (i, a))) \<Longrightarrow> dir_step D (d, P) Collect (d', insert i P)"
| nothing: "dir_next_deleted d = (d', Inr None) \<Longrightarrow> dir_step D (d, P) Collect (d', P)"
| broken: "dir_next_deleted d = (d', Inl x) \<Longrightarrow> dir_step D (d, P) Collect (d', P)"
| remove: "i \<in> P \<Longrightarrow> dir_remove_object i d = (d', r) \<Longrightarrow> dir_step D (d, P) (Remove i) (d', P - {i})"
| clear: "dir_step D (d, P) Clear (dir_clear_buckets d, P)"

inductive dir_reachable :: "database \<Rightarrow> directory \<times> nat set \<Rightarrow> bool" for D where
  start: "dir_reachable D (dir_new, {})"
| step: "dir_reachable D s \<Longrightarrow> dir_step D s l s' \<Longrightarrow> dir_reachable D s'"

inductive_cases dir_stepE: "dir_step D s l s'"

definition pending_ok :: "directory \<Rightarrow> nat set \<Rightarrow> bool" where
  "pending_ok d P \<longleftrightarrow> (\<forall>i\<in>P. i < d_next_object d \<and> (\<forall>r\<in>set (d_objects d). o_id r = i \<longrightarrow> o_status r \<noteq> Normal))"

lemma pending_ok_evolves: "pending_ok d P \<Longrightarrow> evolves d d' \<Longrightarrow> pending_ok d' P"
  unfolding pending_ok_def evolves_def using less_le_trans by blast

lemma next_deleted_pending:
  assumes inv: "dir_inv d" and n: "vrm_next_deleted d = (d', Some (i, a))"
  shows "i < d_next_object d' \<and> (\<forall>r\<in>set (d_objects d'). o_id r = i \<longrightarrow> o_status r \<noteq> Normal)"
proof -
  obtain t where t: "find (collectable d) (d_objects d) = Some t" "o_id t = i"
    using n by (auto simp: vrm_next_deleted_def split: option.splits)
  then have "i < d_next_object d" using inv find_SomeD [OF t(1)] unfolding dir_inv_def objects_ok_def by auto
  then show ?thesis using n t by (auto simp: vrm_next_deleted_def update_objects_def)
qed

lemma dir_step_ok:
  assumes "dir_step D s l s'" and "dir_inv (fst s)" and "pending_ok (fst s) (snd s)"
  shows "dir_inv (fst s') \<and> pending_ok (fst s') (snd s')
    \<and> (case l of Client opn a \<Rightarrow> spec_step opn (dir_abs (fst s)) (dir_abs (fst s')) a | _ \<Rightarrow> dir_abs (fst s') = dir_abs (fst s))"
  using assms(1)
proof cases
  case (client e d opn d' a P)
  then show ?thesis using dir_apply_refines [of d e D opn] assms(2,3) pending_ok_evolves by (auto simp: refines_def safe_change_def)
next
  case (collect d d' i a P)
  then obtain x where n: "vrm_next_deleted d = (d', Some (i, x))" by (auto simp: dir_next_deleted_def split: prod.splits option.splits bytea.splits)
  then show ?thesis using collect assms(2,3) next_deleted_ok [OF _ n] next_deleted_pending [OF _ n] pending_ok_evolves [of d P d']
    by (auto simp: safe_change_def pending_ok_def)
next
  case (nothing d d' P)
  then show ?thesis using assms(2,3) next_deleted_ok [of d d'] pending_ok_evolves
    by (auto simp: safe_change_def dir_next_deleted_def split: prod.splits option.splits bytea.splits)
next
  case (broken d d' x P)
  then show ?thesis using assms(2,3) next_deleted_ok [of d d'] pending_ok_evolves
    by (auto simp: safe_change_def dir_next_deleted_def split: prod.splits option.splits bytea.splits)
next
  case (remove i P d d' r)
  then have "safe_change d d' \<and> dir_abs d' = dir_abs d"
    using assms(2,3) remove_object_ok [of d i d' r] by (auto simp: pending_ok_def dir_remove_object_def)
  then show ?thesis using remove assms(3) pending_ok_evolves [of d P d'] by (auto simp: safe_change_def pending_ok_def)
next
  case (clear d P)
  then show ?thesis using assms(2,3) clear_buckets_ok [of d] pending_ok_evolves by (auto simp: safe_change_def dir_clear_buckets_def)
qed

lemma reachable_ok: "dir_reachable D s \<Longrightarrow> dir_inv (fst s) \<and> pending_ok (fst s) (snd s)"
proof (induction rule: dir_reachable.induct)
  case start
  then show ?case by (simp add: dir_new_inv pending_ok_def)
next
  case (step s l s')
  then show ?case using dir_step_ok [OF step(2)] by blast
qed

text \<open>A bucket and an object in it, as an example.\<close>

definition sample_db :: database where
  "sample_db = \<lparr>pg_like = \<lambda>_ _. True, pg_le = \<lambda>_ _. True, pg_uuid = \<lambda>s. Some s, pg_json = \<lambda>_. True, pg_xml = \<lambda>_. True\<rparr>"

definition sample_object :: object where
  "sample_object = \<lparr>ob_id = 0, ob_name = ''key'', ob_size = 3, ob_last_modified = 0, ob_addr = Some [mk_fragment 0 3], ob_etag = None, ob_mime = None,
     ob_version = None, ob_state = Normal\<rparr>"

definition sample_directory :: directory where
  "sample_directory = dir_new\<lparr>d_buckets := [\<lparr>b_id = 1, b_name = ''bucket'', b_deleted = False, b_versioning = Disabled, b_policy = None, b_cors = None\<rparr>],
     d_next_bucket := 2\<rparr>"

definition sample_stored :: directory where
  "sample_stored = insert_object \<lparr>e_now = 0, e_uuid = ''u''\<rparr> 1 ''key'' (Encoded [mk_fragment 0 3]) 3 None None False sample_directory"

lemma sample_steps:
  "dir_reachable sample_db (sample_directory, {})"
  "dir_step sample_db (sample_directory, {}) (Client (Put_object ''bucket'' sample_object) (Stored None)) (sample_stored, {})"
proof -
  have "validate_bucket_name ''bucket'' = Inr ()" by code_simp
  then have "dir_apply sample_db \<lparr>e_now = 0, e_uuid = ''u''\<rparr> (Put_bucket ''bucket'') dir_new = Some (sample_directory, Done)"
    by (simp add: dir_put_bucket_def vrm_create_bucket_def vrm_check_bucket_def dir_new_def sample_directory_def answer_def)
  then have "dir_step sample_db (dir_new, {}) (Client (Put_bucket ''bucket'') Done) (sample_directory, {})"
    by (rule dir_step.client [rotated]) (simp add: uuid_fresh_def dir_new_def)
  then show "dir_reachable sample_db (sample_directory, {})" by (rule dir_reachable.step [OF dir_reachable.start])
  have "dir_apply sample_db \<lparr>e_now = 0, e_uuid = ''u''\<rparr> (Put_object ''bucket'' sample_object) sample_directory = Some (sample_stored, Stored None)"
    by (simp add: dir_put_object_def sample_object_def data_size_def vrm_put_object_def vrm_get_bucket_info_def vrm_get_object_def newest_row_def
        sample_directory_def dir_new_def bindE_def sample_stored_def answer_def add64_def M64_def)
  then show "dir_step sample_db (sample_directory, {}) (Client (Put_object ''bucket'' sample_object) (Stored None)) (sample_stored, {})"
    by (rule dir_step.client [rotated]) (simp add: uuid_fresh_def dir_new_def sample_directory_def)
qed

text \<open>
  C25: In every state that clients and collectors reach, the tables are well formed: ids are
  unique and below the next one, live buckets have different names, every object belongs to a bucket
  and has the size of its address, references point to objects, and a bucket without versions has
  at most one row per key, the newest.
\<close>

theorem tables_well_formed: "dir_reachable D (d, P) \<Longrightarrow> dir_inv d"
  using reachable_ok by fastforce

theorem tables_well_formed_witness: "dir_inv sample_stored \<and> d_objects sample_stored \<noteq> []"
  using tables_well_formed [OF dir_reachable.step [OF sample_steps]] by (simp add: sample_stored_def insert_object_def)

text \<open>
  C6: The directory refines a map of buckets to maps of keys to contents: in every reachable state,
  storing, reading, deleting and listing in buckets without versions are the operations on
  these maps, buckets with versions are untouched by the operations of others, and the steps of
  the collectors change nothing.
\<close>

theorem directory_refines_map:
  assumes "dir_reachable D (d, P)" and "dir_step D (d, P) l (d', P')"
  shows "case l of Client opn a \<Rightarrow> spec_step opn (dir_abs d) (dir_abs d') a | _ \<Rightarrow> dir_abs d' = dir_abs d"
  using dir_step_ok [OF assms(2)] reachable_ok [OF assms(1)] unfolding fst_conv snd_conv by blast

theorem directory_refines_map_witness:
  "spec_step (Put_object ''bucket'' sample_object) (dir_abs sample_directory) (dir_abs sample_stored) (Stored None)"
  using directory_refines_map [OF sample_steps] by simp

subsection \<open>Downloads\<close>

lemma grows_by_row:
  assumes "grows_by d new d'" and "objects_ok d" and r: "r \<in> set (d_objects d)" "o_status r \<noteq> Collected"
  shows "\<exists>q\<in>set (d_objects d'). o_id q = o_id r \<and> o_address q = o_address r \<and> o_status q \<noteq> Collected"
proof -
  have "row_entry r \<in> set (map row_entry (d_objects d'))" using assms(1) r(1) by (simp add: grows_by_def)
  then obtain q where q: "q \<in> set (d_objects d')" "o_id q = o_id r" "o_address q = o_address r" by (auto simp: row_entry_def)
  have "o_id r \<notin> collected d" using r same_row [OF assms(2) r(1)] by (auto simp: collected_def)
  then have "o_id q \<notin> collected d'" using assms(1) q(2) by (auto simp: grows_by_def)
  then have "o_status q \<noteq> Collected" using q(1) by (auto simp: collected_def)
  then show ?thesis using q by blast
qed


lemma sample_get:
  "\<exists>a d. dir_step sample_db (sample_stored, {}) (Client (Get_object ''bucket'' ''key'' None) a) (d, {})
     \<and> d_objects d = d_objects sample_stored \<and> d_refs d 1 = Some 1"
proof -
  have "\<exists>a d. dir_apply sample_db \<lparr>e_now = 0, e_uuid = ''w''\<rparr> (Get_object ''bucket'' ''key'' None) sample_stored = Some (d, a)
      \<and> d_objects d = d_objects sample_stored \<and> d_refs d 1 = Some 1"
    by (simp add: dir_get_object_def lookup_object_def vrm_get_object_def vrm_get_bucket_info_def vrm_get_bucket_id_def newest_row_def bindE_def
        sample_stored_def insert_object_def sample_directory_def dir_new_def vrm_inc_reference_def)
  moreover have "uuid_fresh \<lparr>e_now = 0, e_uuid = ''w''\<rparr> sample_stored"
    by (simp add: uuid_fresh_def sample_stored_def insert_object_def sample_directory_def dir_new_def)
  ultimately show ?thesis using dir_step.client by blast
qed


subsection \<open>Behaviour of deleted versions\<close>

definition sample_row :: "nat \<Rightarrow> bytes \<Rightarrow> object_state \<Rightarrow> bool \<Rightarrow> object_row" where
  "sample_row i u st sticky = \<lparr>o_id = i, o_bucket = 1, o_name = ''key'', o_address = Encoded [mk_fragment 0 3], o_size = 3, o_last_modified = 0, o_etag = None,
     o_mime = None, o_version = u, o_status = st, o_deleted_at = None, o_sticky = sticky\<rparr>"

definition sample_versioned :: "object_row list \<Rightarrow> directory" where
  "sample_versioned rows = sample_directory\<lparr>d_buckets := map (\<lambda>b. b\<lparr>b_versioning := Enabled\<rparr>) (d_buckets sample_directory), d_objects := rows, d_next_object := 3\<rparr>"

lemmas sample_simps = sample_versioned_def sample_directory_def dir_new_def sample_row_def

text \<open>A collected row whose version is deleted once more is handed to the collectors a second time.\<close>

lemma collected_twice:
  "dir_next_deleted (fst (dir_delete_object sample_db e ''bucket'' ''key'' (Some ''u'')
      (fst (dir_next_deleted (sample_versioned [sample_row 1 ''u'' Deleted False]))))) =
    (sample_versioned [sample_row 1 ''u'' Collected False]\<lparr>d_objects := [(sample_row 1 ''u'' Collected False)\<lparr>o_deleted_at := Some (e_now e)\<rparr>]\<rparr>,
     Inr (Some (1, [mk_fragment 0 3])))"
  by (simp add: dir_next_deleted_def vrm_next_deleted_def collectable_def update_objects_def dir_delete_object_def vrm_delete_object_version_def
      vrm_get_object_by_version_def newest_row_def vrm_get_bucket_id_def bindE_def delete_row_def sample_simps sample_db_def)

text \<open>
  After the newest version has been deleted, the object can be read again (its former version) but is
  not listed, so that the bucket counts as empty and can be deleted.
\<close>

lemma object_not_listed:
  fixes e :: env
  defines "d \<equiv> fst (dir_delete_object sample_db e ''bucket'' ''key'' (Some ''w'') (sample_versioned [sample_row 1 ''u'' Normal True, sample_row 2 ''w'' Normal True]))"
  shows "dir_head_object sample_db ''bucket'' ''key'' None d = row_to_object (sample_row 1 ''u'' Normal True) (Some ''u'')"
    and "dir_list_objects sample_db ''bucket'' None None d = Inr []"
    and "snd (dir_delete_bucket sample_db ''bucket'' d) = Inr ()"
  by (simp_all add: d_def dir_head_object_def dir_list_objects_def dir_delete_bucket_def vrm_delete_bucket_def dir_bucket_exists_def vrm_check_bucket_def
      lookup_object_def vrm_get_object_def vrm_get_bucket_info_def vrm_list_objects_def newest_def order_by_def
      dir_delete_object_def vrm_delete_object_version_def
      vrm_get_object_by_version_def newest_row_def vrm_get_bucket_id_def bindE_def delete_row_def update_objects_def sample_simps sample_db_def)

end
