(* ===== verification/Vrm_Maps.thy ===== *)
theory Vrm_Maps
  imports Vrm_Prelude "HOL-Library.List_Lexorder" "HOL-Library.Char_ord"
begin

text \<open>
  \<open>std::map\<close> and \<open>std::set\<close> as association lists and lists in the order of their keys, which is the
  order in which the source iterates over them. Strings are ordered bytewise.
\<close>

fun map_insert :: "'k::linorder \<Rightarrow> 'v \<Rightarrow> ('k \<times> 'v) list \<Rightarrow> ('k \<times> 'v) list" where
  "map_insert k v [] = [(k, v)]"
| "map_insert k v ((j, w) # xs) = (if k < j then (k, v) # (j, w) # xs else if k = j then (k, v) # xs else (j, w) # map_insert k v xs)"

definition map_of_pairs :: "('k::linorder \<times> 'v) list \<Rightarrow> ('k \<times> 'v) list" where
  "map_of_pairs ps = foldl (\<lambda>m p. map_insert (fst p) (snd p) m) [] ps"

definition set_of_list :: "'k::linorder list \<Rightarrow> 'k list" where
  "set_of_list xs = sort (remdups xs)"

lemma keys_map_insert: "fst ` set (map_insert k v m) = insert k (fst ` set m)"
  by (induction k v m rule: map_insert.induct) auto

lemma set_map_insert: "k \<notin> fst ` set m \<Longrightarrow> set (map_insert k v m) = insert (k, v) (set m)"
  by (induction k v m rule: map_insert.induct) auto

lemma sorted_map_insert: "sorted_wrt (<) (map fst m) \<Longrightarrow> sorted_wrt (<) (map fst (map_insert k v m))"
proof (induction k v m rule: map_insert.induct)
  case (2 k v j w xs)
  then show ?case using keys_map_insert [of k v xs] by (auto simp flip: set_map)
qed simp

lemma map_of_map_insert: "map_of (map_insert k v m) = (map_of m)(k \<mapsto> v)"
  by (induction k v m rule: map_insert.induct) (auto simp: fun_eq_iff)

lemma map_of_map_of_pairs: "map_of (map_of_pairs ps) = map_of (rev ps)"
proof -
  have "map_of (foldl (\<lambda>m p. map_insert (fst p) (snd p) m) m ps) = map_of m ++ map_of (rev ps)" for m
    by (induction ps arbitrary: m) (simp_all add: map_of_map_insert map_add_def fun_eq_iff split: option.split)
  from this [of "[]"] show ?thesis by (simp add: map_of_pairs_def)
qed

lemma sorted_map_of_pairs: "sorted_wrt (<) (map fst (map_of_pairs ps))"
proof -
  have "sorted_wrt (<) (map fst (foldl (\<lambda>m p. map_insert (fst p) (snd p) m) m ps))" if "sorted_wrt (<) (map fst m)" for m
    using that by (induction ps arbitrary: m) (simp_all add: sorted_map_insert)
  from this [of "[]"] show ?thesis by (simp add: map_of_pairs_def)
qed

lemma find_first: "\<forall>y\<in>set ys. \<not> P y \<Longrightarrow> P x \<Longrightarrow> find P (ys @ x # zs) = Some x"
  by (induction ys) auto

end
