(* ===== verification/Vrm_Collector.thy ===== *)
theory Vrm_Collector
  imports Vrm_DirectoryRefine Vrm_View Vrm_Maps
begin

text \<open>
  The garbage collector (\<open>entrypoint/garbage_collector.cpp\<close>): a loop that takes a deleted row from the
  directory, releases its data and removes the row. The main result is that the loop gets rid of
  every row that is to be collected and then of the deleted buckets that have become empty.
\<close>

subsection \<open>The loop\<close>

text \<open>
  How a turn of the loop ends: it goes on, it sleeps for the polling interval, or an error of the
  directory ends the task. An error of the storage is logged only.
\<close>

datatype gc_outcome = Goes_on | Sleeps | Fails exn

definition gc_turn :: "'v view_ops \<Rightarrow> directory \<times> 'v \<Rightarrow> ((directory \<times> 'v) \<times> gc_outcome) option" where
  "gc_turn V s =
     (case dir_next_deleted (fst s) of
        (d, Inl x) \<Rightarrow> Some ((d, snd s), Fails x)
      | (d, Inr None) \<Rightarrow> Some ((dir_clear_buckets d, snd s), Sleeps)
      | (d, Inr (Some (i, addr))) \<Rightarrow>
          (case vo_unlink V (snd s) addr of
             None \<Rightarrow> None
           | Some (v, freed) \<Rightarrow>
               (case dir_remove_object i d of
                  (d', Inl x) \<Rightarrow> Some ((d', v), Fails x)
                | (d', Inr _) \<Rightarrow> Some ((d', v), Goes_on))))"

text \<open>The loop until it is cancelled, that is for a number of turns; a failed task takes no further turn.\<close>

fun gc_collect :: "'v view_ops \<Rightarrow> nat \<Rightarrow> directory \<times> 'v \<Rightarrow> ((directory \<times> 'v) \<times> gc_outcome) option" where
  "gc_collect V 0 s = Some (s, Goes_on)"
| "gc_collect V (Suc n) s =
     (case gc_turn V s of
        None \<Rightarrow> None
      | Some (s', Fails x) \<Rightarrow> Some (s', Fails x)
      | Some (s', out) \<Rightarrow> if n = 0 then Some (s', out) else gc_collect V n s')"

declare gc_collect.simps(2) [simp del]

subsection \<open>What a turn does\<close>

text \<open>The addresses of a list of rows are released in their order.\<close>

fun unlink_each :: "'v view_ops \<Rightarrow> object_row list \<Rightarrow> 'v \<Rightarrow> 'v option" where
  "unlink_each V [] v = Some v"
| "unlink_each V (r # rs) v =
     (case o_address r of
        Empty_bytea \<Rightarrow> None
      | Encoded a \<Rightarrow> (case vo_unlink V v a of None \<Rightarrow> None | Some (v', _) \<Rightarrow> unlink_each V rs v'))"

text \<open>One turn takes the first row that is to be collected out of the table, and no other.\<close>

lemma gc_turn_collects:
  assumes "distinct (map o_id (d_objects d))" and "filter (collectable d) (d_objects d) = r # rs"
    and "o_address r = Encoded a" and "vo_unlink V v a = Some (v', q)"
  shows "\<exists>d'. gc_turn V (d, v) = Some ((d', v'), Goes_on) \<and> filter (collectable d') (d_objects d') = rs
    \<and> d' = d\<lparr>d_objects := filter (\<lambda>x. x \<noteq> r) (d_objects d)\<rparr>"
proof -
  obtain ys zs where s: "d_objects d = ys @ r # zs" "\<forall>y\<in>set ys. \<not> collectable d y" "collectable d r" "rs = filter (collectable d) zs"
    using assms(2) unfolding filter_eq_Cons_iff by auto
  then have f: "find (collectable d) (d_objects d) = Some r" by (simp add: find_first)
  have ids: "o_id r \<notin> o_id ` set ys" "o_id r \<notin> o_id ` set zs" using assms(1) s(1) by auto
  let ?u = "update_objects (\<lambda>q. o_id q = o_id r) (\<lambda>q. q\<lparr>o_status := Collected\<rparr>) d"
  let ?d = "d\<lparr>d_objects := ys @ zs\<rparr>"
  have "filter (\<lambda>q. o_id q \<noteq> o_id r) (d_objects ?u) = ys @ zs"
  proof -
    have "filter (\<lambda>q. o_id q \<noteq> o_id r) (map (\<lambda>q. if o_id q = o_id r then q\<lparr>o_status := Collected\<rparr> else q) xs) = xs" if "o_id r \<notin> o_id ` set xs" for xs :: "object_row list"
      using that by (induction xs) auto
    then show ?thesis using ids by (simp add: update_objects_def s(1))
  qed
  then have "dir_remove_object (o_id r) ?u = (?d, Inr ())"
    using s(3) by (simp add: dir_remove_object_def vrm_delete_object_by_id_def collectable_def update_objects_def)
  then have "gc_turn V (d, v) = Some ((?d, v'), Goes_on)"
    using f assms(3,4) by (simp add: gc_turn_def dir_next_deleted_def vrm_next_deleted_def)
  moreover have "collectable ?d = collectable d" by (simp add: collectable_def fun_eq_iff)
  then have "filter (collectable ?d) (d_objects ?d) = rs" using s(2,4) by simp
  moreover have "filter (\<lambda>x. x \<noteq> r) ys = ys" "filter (\<lambda>x. x \<noteq> r) zs = zs" using ids by (auto simp: filter_id_conv)
  then have "ys @ zs = filter (\<lambda>x. x \<noteq> r) (d_objects d)" by (simp add: s(1))
  ultimately show ?thesis by (intro exI [of _ ?d]) auto
qed

lemma gc_turn_sleeps:
  assumes "filter (collectable d) (d_objects d) = []"
  shows "gc_turn V (d, v) = Some ((dir_clear_buckets d, v), Sleeps)"
proof -
  have "find (collectable d) (d_objects d) = None" using assms by (simp add: find_None_iff filter_empty_conv)
  then show ?thesis by (simp add: gc_turn_def dir_next_deleted_def vrm_next_deleted_def)
qed

text \<open>A row without an address ends the task of the collector: the error is not caught.\<close>

lemma gc_turn_fails:
  assumes "find (collectable d) (d_objects d) = Some r" and "o_address r = Empty_bytea"
  shows "\<exists>s. gc_collect V (Suc n) (d, v) = Some (s, Fails Runtime_error)"
  using assms by (simp add: gc_collect.simps gc_turn_def dir_next_deleted_def vrm_next_deleted_def)

subsection \<open>The loop ends its work\<close>

lemma gc_collect_step:
  assumes "gc_turn V s = Some (s', out)" and "out = Goes_on \<or> out = Sleeps"
  shows "gc_collect V (Suc (Suc n)) s = gc_collect V (Suc n) s'"
  using assms(2) by (subst gc_collect.simps) (auto simp: assms(1))

lemma gc_idle:
  assumes "filter (collectable d) (d_objects d) = []"
  shows "gc_collect V (Suc n) (d, v) = Some ((dir_clear_buckets d, v), Sleeps)"
  using assms
proof (induction n arbitrary: d)
  case 0
  then show ?case by (simp add: gc_collect.simps gc_turn_sleeps)
next
  case (Suc n)
  have i: "filter (collectable (dir_clear_buckets d)) (d_objects (dir_clear_buckets d)) = []"
    using Suc.prems by (simp add: dir_clear_buckets_def vrm_clear_deleted_buckets_def collectable_def filter_empty_conv)
  have "dir_clear_buckets (dir_clear_buckets d) = dir_clear_buckets d"
    by (simp add: dir_clear_buckets_def vrm_clear_deleted_buckets_def)
  then show ?case using Suc.IH [OF i] gc_collect_step [OF gc_turn_sleeps [OF Suc.prems, of V v], of n] by simp
qed

locale releasing_view =
  fixes V :: "'v view_ops" and vinv :: "'v \<Rightarrow> bool"
  assumes unlink_returns: "vinv v \<Longrightarrow> \<exists>v' r. vo_unlink V v addr = Some (v', r) \<and> vinv v'"
begin

lemma collects_all:
  assumes "vinv v" and "distinct (map o_id (d_objects d))"
    and "\<forall>r\<in>set (d_objects d). collectable d r \<longrightarrow> o_address r \<noteq> Empty_bytea"
    and "length (filter (collectable d) (d_objects d)) \<le> n"
  shows "\<exists>v'. gc_collect V (Suc n) (d, v) =
      Some ((dir_clear_buckets (d\<lparr>d_objects := filter (\<lambda>r. \<not> collectable d r) (d_objects d)\<rparr>), v'), Sleeps)
    \<and> vinv v' \<and> unlink_each V (filter (collectable d) (d_objects d)) v = Some v'"
  using assms
proof (induction n arbitrary: d v)
  case 0
  then have e: "filter (collectable d) (d_objects d) = []" by simp
  then have "filter (\<lambda>r. \<not> collectable d r) (d_objects d) = d_objects d" by (auto simp: filter_empty_conv filter_id_conv)
  then show ?case using 0 gc_idle [OF e, of V 0 v] by (simp add: e)
next
  case (Suc n)
  show ?case
  proof (cases "filter (collectable d) (d_objects d)")
    case Nil
    then have "filter (\<lambda>r. \<not> collectable d r) (d_objects d) = d_objects d" by (auto simp: filter_empty_conv filter_id_conv)
    then show ?thesis using Suc.prems(1) gc_idle [OF Nil, of V "Suc n" v] by (simp add: Nil)
  next
    case (Cons r rs)
    have "r \<in> set (filter (collectable d) (d_objects d))" by (simp add: Cons)
    then have r: "r \<in> set (d_objects d)" "collectable d r" by simp_all
    then obtain a where a: "o_address r = Encoded a" using Suc.prems(3) by (cases "o_address r") auto
    obtain v1 q where v: "vo_unlink V v a = Some (v1, q)" "vinv v1" using unlink_returns [OF Suc.prems(1)] by blast
    obtain d1 where d: "gc_turn V (d, v) = Some ((d1, v1), Goes_on)" "filter (collectable d1) (d_objects d1) = rs"
      "d1 = d\<lparr>d_objects := filter (\<lambda>x. x \<noteq> r) (d_objects d)\<rparr>"
      using gc_turn_collects [OF Suc.prems(2) Cons a v(1)] by blast
    have c: "collectable d1 = collectable d" by (simp add: d(3) collectable_def fun_eq_iff)
    have f: "filter (\<lambda>x. \<not> collectable d x) (d_objects d1) = filter (\<lambda>x. \<not> collectable d x) (d_objects d)"
      unfolding d(3) using r(2) by (simp add: conj_commute) (rule filter_cong, auto)
    have "distinct (map o_id (d_objects d1))" using Suc.prems(2) by (simp add: d(3) distinct_map_filter)
    moreover have "\<forall>x\<in>set (d_objects d1). collectable d1 x \<longrightarrow> o_address x \<noteq> Empty_bytea" using Suc.prems(3) by (auto simp: d(3) collectable_def)
    moreover have "length (filter (collectable d1) (d_objects d1)) \<le> n" using Suc.prems(4) Cons d(2) by simp
    ultimately obtain v' where "gc_collect V (Suc n) (d1, v1) =
        Some ((dir_clear_buckets (d1\<lparr>d_objects := filter (\<lambda>r. \<not> collectable d1 r) (d_objects d1)\<rparr>), v'), Sleeps)"
      "vinv v'" "unlink_each V rs v1 = Some v'" using Suc.IH [OF v(2)] d(2) by metis
    then show ?thesis using Cons a v(1) f by (simp add: gc_collect_step [OF d(1) disjI1 [OF refl]] c) (simp add: d(3))
  qed
qed

end

lemma run_for_all_returns:
  assumes "\<And>i s. f i s \<noteq> None"
  shows "run_for_all f j ss \<noteq> None"
proof (induction ss arbitrary: j)
  case (Cons s ss)
  obtain s' r where "f j s = Some (s', r)" using assms [of j s] by auto
  moreover obtain ss' rs where "run_for_all f (Suc j) ss = Some (ss', rs)" using Cons.IH [of "Suc j"] by auto
  ultimately show ?case by simp
qed simp

lemma rr_releasing: "releasing_view (rr_ops S) (\<lambda>_. True)"
proof
  fix v :: "'a rr_view" and addr
  have "rr_unlink S v addr \<noteq> None" by (simp add: rr_unlink_def Let_def run_for_all_returns del: not_None_eq)
  then show "\<exists>v' r. vo_unlink (rr_ops S) v addr = Some (v', r) \<and> True" by (auto simp: rr_ops_def)
qed

interpretation rr_gc: releasing_view "rr_ops (local_ops plain_os map_kv)" "\<lambda>_. True"
  by (rule rr_releasing)

lemma gc_turn_abs:
  assumes "dir_inv (fst s)" and "gc_turn V s = Some (s', out)"
  shows "dir_inv (fst s') \<and> dir_abs (fst s') = dir_abs (fst s)"
proof -
  obtain d1 x where n: "vrm_next_deleted (fst s) = (d1, x)" by fastforce
  have 1: "dir_inv d1" "dir_abs d1 = dir_abs (fst s)" using next_deleted_ok [OF assms(1) n] by (simp_all add: safe_change_def)
  have 2: "dir_inv d2 \<and> dir_abs d2 = dir_abs d1" if "x = Some (i, a)" "vrm_delete_object_by_id i d1 = (d2, res)" for i a d2 res
    using remove_object_ok [OF 1(1) _ that(2)] next_deleted_pending [OF assms(1)] n that(1) by (simp add: safe_change_def)
  have 3: "dir_inv (dir_clear_buckets d1) \<and> dir_abs (dir_clear_buckets d1) = dir_abs d1"
    using clear_buckets_ok [OF 1(1)] by (simp add: safe_change_def dir_clear_buckets_def)
  show ?thesis using assms(2) 1 2 3 n
    by (auto simp: gc_turn_def dir_next_deleted_def dir_remove_object_def split: option.splits prod.splits bytea.splits sum.splits)
qed

lemma gc_collect_abs:
  "dir_inv (fst s) \<Longrightarrow> gc_collect V n s = Some (s', out) \<Longrightarrow> dir_abs (fst s') = dir_abs (fst s)"
proof (induction n arbitrary: s)
  case (Suc n)
  obtain s1 o1 where t: "gc_turn V s = Some (s1, o1)" using Suc.prems(2) by (auto simp: gc_collect.simps(2) split: option.splits)
  note a = gc_turn_abs [OF Suc.prems(1) t]
  have "s' = s1 \<or> gc_collect V n s1 = Some (s', out)"
    using Suc.prems(2) by (cases o1) (simp_all add: gc_collect.simps(2) t split: if_splits)
  then show ?case using Suc.IH [of s1] a by auto
qed simp


definition sample_deleted :: directory where
  "sample_deleted = fst (dir_delete_object sample_db \<lparr>e_now = 0, e_uuid = ''w''\<rparr> ''bucket'' ''key'' None sample_stored)"

lemma sample_deleted_objects: "map (collectable sample_deleted) (d_objects sample_deleted) = [True]" "map o_address (d_objects sample_deleted) = [Encoded [mk_fragment 0 3]]"
  by (simp_all add: sample_deleted_def dir_delete_object_def vrm_delete_object_def vrm_get_object_def vrm_get_bucket_info_def vrm_get_bucket_id_def newest_row_def
      bindE_def delete_row_def update_objects_def collectable_def sample_stored_def insert_object_def sample_directory_def dir_new_def)

lemma sample_deleted_reachable: "dir_reachable sample_db (sample_deleted, {})"
proof -
  obtain x where x: "dir_apply sample_db \<lparr>e_now = 0, e_uuid = ''w''\<rparr> (Delete_object ''bucket'' ''key'' None) sample_stored = Some (sample_deleted, x)"
    by (cases "dir_delete_object sample_db \<lparr>e_now = 0, e_uuid = ''w''\<rparr> ''bucket'' ''key'' None sample_stored") (auto simp: sample_deleted_def)
  have "uuid_fresh \<lparr>e_now = 0, e_uuid = ''w''\<rparr> sample_stored"
    by (simp add: uuid_fresh_def sample_stored_def insert_object_def sample_directory_def dir_new_def)
  then show ?thesis using dir_reachable.step [OF dir_reachable.step [OF sample_steps] dir_step.client [OF _ x]] by simp
qed


end
