(* ===== verification/Vrm_Body.thy ===== *)
theory Vrm_Body
  imports Vrm_FragmentSet Vrm_Strings
begin

text \<open>
  Bodies of HTTP messages (\<open>entrypoint/http/body.h\<close>, \<open>string_body.cpp\<close>, \<open>response.cpp\<close>) and the
  body of a downloaded object (\<open>local_read_handle\<close> in \<open>commands/s3/get_object.cpp\<close>). A body hands out
  its bytes in pieces through a buffer that \<open>consume\<close> frees; the contract of the interface says what
  the loops over a body rely on, and the bodies provide it.
\<close>

subsection \<open>The interface\<close>

record 'b body_ops =
  bo_length :: "'b \<Rightarrow> size_t option"
  bo_read :: "size_t \<Rightarrow> ('b, bytes) proc"
  bo_consume :: "('b, unit) proc"
  bo_buffer_size :: "'b \<Rightarrow> size_t"

partial_function (option) copy_loop :: "'b body_ops \<Rightarrow> size_t \<Rightarrow> bytes \<Rightarrow> bytes \<Rightarrow> 'b \<Rightarrow> ('b \<times> bytes res) option" where
  "copy_loop B bs data rv b =
     (case bo_consume B b of
        None \<Rightarrow> None
      | Some (b1, Inl e) \<Rightarrow> Some (b1, Inl e)
      | Some (b1, Inr _) \<Rightarrow>
          if data = [] then Some (b1, Inr rv)
          else (case bo_read B bs b1 of
                  None \<Rightarrow> None
                | Some (b2, Inl e) \<Rightarrow> Some (b2, Inl e)
                | Some (b2, Inr data') \<Rightarrow> copy_loop B bs data' (rv @ data) b2))"

definition copy_to_buffer :: "'b body_ops \<Rightarrow> ('b, bytes) proc" where
  "copy_to_buffer B b = bindP (bo_read B (bo_buffer_size B b)) (\<lambda>data. copy_loop B (bo_buffer_size B b) data []) b"

subsection \<open>Responses\<close>

record response =
  res_status :: nat
  res_fields :: "(bytes \<times> bytes) list"

definition res_header :: "response \<Rightarrow> bytes \<Rightarrow> bytes option" where
  "res_header r name = map_option snd (find (\<lambda>(k, v). equals_nocase k name) (res_fields r))"

definition res_set :: "bytes \<Rightarrow> bytes option \<Rightarrow> response \<Rightarrow> response" where
  "res_set name value r = r\<lparr>res_fields := filter (\<lambda>(k, v). \<not> equals_nocase k name) (res_fields r)
     @ (case value of Some v \<Rightarrow> [(name, v)] | None \<Rightarrow> [])\<rparr>"

text \<open>The bytes sent after the header.\<close>

partial_function (option) write_loop :: "'b body_ops \<Rightarrow> size_t \<Rightarrow> bytes \<Rightarrow> bytes \<Rightarrow> 'b \<Rightarrow> ('b \<times> bytes res) option" where
  "write_loop B bs data sent b =
     (if data = [] then Some (b, Inr sent)
      else case bo_consume B b of
             None \<Rightarrow> None
           | Some (b1, Inl e) \<Rightarrow> Some (b1, Inl e)
           | Some (b1, Inr _) \<Rightarrow>
               (case bo_read B bs b1 of
                  None \<Rightarrow> None
                | Some (b2, Inl e) \<Rightarrow> Some (b2, Inl e)
                | Some (b2, Inr data') \<Rightarrow> write_loop B bs data' (sent @ data) b2))"

definition response_headers :: "'b body_ops \<Rightarrow> bytes \<Rightarrow> bytes \<Rightarrow> response \<Rightarrow> 'b \<Rightarrow> response" where
  "response_headers B req_id date res b =
     (let r = res_set ''Date'' (Some date) (res_set ''x-amz-request-id'' (Some req_id) (res_set ''Server'' (Some ''Vroom'') res))
      in if res_header r ''Content-Length'' = None
         then res_set ''Content-Length'' (map_option nat_str (bo_length B b)) r else r)"

definition response_write :: "'b body_ops \<Rightarrow> bytes \<Rightarrow> bytes \<Rightarrow> response \<Rightarrow> ('b, response \<times> bytes) proc" where
  "response_write B req_id date res b =
     bindP (bo_read B (bo_buffer_size B b)) (\<lambda>data.
     bindP (write_loop B (bo_buffer_size B b) data []) (\<lambda>sent.
       retP (response_headers B req_id date res b, sent))) b"

subsection \<open>A string as a body\<close>

record string_body =
  sb_body :: bytes
  sb_read :: size_t

definition string_body_ops :: "string_body body_ops" where
  "string_body_ops = \<lparr>
     bo_length = \<lambda>b. Some (length (sb_body b)),
     bo_read = \<lambda>count b. let len = min count (length (sb_body b) - sb_read b)
                         in Some (b\<lparr>sb_read := sb_read b + len\<rparr>, Inr (slice (sb_read b) len (sb_body b))),
     bo_consume = \<lambda>b. Some (b, Inr ()),
     bo_buffer_size = \<lambda>b. length (sb_body b)\<rparr>"

subsection \<open>An object as a body\<close>

record 'v read_handle =
  rh_view :: 'v
  rh_addr :: address
  rh_buffer :: bytes
  rh_get :: size_t
  rh_put :: size_t
  rh_index :: nat
  rh_offset :: size_t
  rh_size :: size_t
  rh_total :: size_t

definition read_handle_new :: "'v \<Rightarrow> address \<Rightarrow> size_t \<Rightarrow> 'v read_handle" where
  "read_handle_new v addr buffer_size = \<lparr>rh_view = v, rh_addr = addr, rh_buffer = replicate buffer_size (CHR 0x00), rh_get = 0, rh_put = 0,
     rh_index = 0, rh_offset = 0, rh_size = data_size addr, rh_total = 0\<rparr>"

text \<open>
  The fragments that still fit into the buffer, from fragment \<open>index\<close> on: \<open>used\<close> bytes of the buffer
  are taken when the loop starts. The result is the partial address, the number of its bytes, and
  the fragment and the offset to go on with.
\<close>

fun fill_loop :: "size_t \<Rightarrow> size_t \<Rightarrow> fragment list \<Rightarrow> nat \<Rightarrow> size_t \<Rightarrow> size_t \<Rightarrow> address \<Rightarrow> address \<times> size_t \<times> nat \<times> size_t" where
  "fill_loop cap used [] index offset count partial = (partial, count, index, offset)"
| "fill_loop cap used (f # fs) index offset count partial =
     (if \<not> count + used < cap then (partial, count, index, offset)
      else let frag = (if offset > 0 then mk_fragment (add128 (pointer f) offset) (fsize f - offset) else f)
           in if fsize frag + count + used > cap
              then let remains = cap - (count + used)
                   in (push partial (mk_fragment (pointer frag) remains), count + remains, index, offset + remains)
              else fill_loop cap used fs (index + 1) 0 (count + fsize frag) (push partial frag))"

definition rh_fill :: "'v view_ops \<Rightarrow> ('v read_handle, unit) proc" where
  "rh_fill V h =
     (case fill_loop (length (rh_buffer h)) (rh_put h) (drop (rh_index h) (rh_addr h)) (rh_index h) (rh_offset h) 0 [] of
        (partial, count, index, offset) \<Rightarrow>
          let h1 = h\<lparr>rh_index := index, rh_offset := offset\<rparr>
          in if count = 0 then Some (h1, Inr ())
             else case vo_read_address V (rh_view h) partial (slice (rh_put h) count (rh_buffer h)) of
                    None \<Rightarrow> None
                  | Some (b, Inl e) \<Rightarrow> Some (h1\<lparr>rh_buffer := overwrite (rh_put h) b (rh_buffer h)\<rparr>, Inl e)
                  | Some (b, Inr _) \<Rightarrow>
                      Some (h1\<lparr>rh_buffer := overwrite (rh_put h) b (rh_buffer h), rh_put := rh_put h + count,
                               rh_total := rh_total h + count, rh_size := sub64 (rh_size h) count\<rparr>, Inr ()))"

definition rh_read :: "'v view_ops \<Rightarrow> size_t \<Rightarrow> ('v read_handle, bytes) proc" where
  "rh_read V count h =
     bindP (\<lambda>h. if rh_put h - rh_get h < count then rh_fill V h else Some (h, Inr ())) (\<lambda>_ h.
       let n = min count (rh_put h - rh_get h)
       in Some (h\<lparr>rh_get := rh_get h + n\<rparr>, Inr (slice (rh_get h) n (rh_buffer h)))) h"

definition rh_consume :: "('v read_handle, unit) proc" where
  "rh_consume h =
     (let count = rh_put h - rh_get h
      in if count > 0
         then Some (h\<lparr>rh_buffer := overwrite 0 (slice (rh_get h) count (rh_buffer h)) (rh_buffer h), rh_put := count, rh_get := 0\<rparr>, Inr ())
         else Some (h\<lparr>rh_put := 0, rh_get := 0\<rparr>, Inr ()))"

definition read_handle_ops :: "'v view_ops \<Rightarrow> 'v read_handle body_ops" where
  "read_handle_ops V = \<lparr>bo_length = \<lambda>h. Some (rh_size h), bo_read = rh_read V, bo_consume = rh_consume,
     bo_buffer_size = \<lambda>h. length (rh_buffer h)\<rparr>"

subsection \<open>The contract and the loops over a body\<close>

text \<open>
  \<open>fresh\<close> holds of a body whose buffer was freed, \<open>used\<close> of one that was read from; \<open>rest\<close> is what
  is still to come.
\<close>

locale body =
  fixes B :: "'b body_ops"
    and fresh :: "'b \<Rightarrow> bool"
    and used :: "'b \<Rightarrow> bool"
    and rest :: "'b \<Rightarrow> bytes"
  assumes read_law: "fresh b \<Longrightarrow> \<exists>b' d. bo_read B (bo_buffer_size B b) b = Some (b', Inr d) \<and> used b'
      \<and> bo_buffer_size B b' = bo_buffer_size B b \<and> rest b = d @ rest b' \<and> (d = [] \<longrightarrow> rest b = [])"
    and consume_law: "used b \<Longrightarrow> \<exists>b'. bo_consume B b = Some (b', Inr ()) \<and> fresh b'
      \<and> bo_buffer_size B b' = bo_buffer_size B b \<and> rest b' = rest b"
begin

lemma copy_loop_rest:
  assumes "used b" and "bo_buffer_size B b = bs" and "data = [] \<longrightarrow> rest b = []"
  shows "\<exists>b'. copy_loop B bs data rv b = Some (b', Inr (rv @ data @ rest b)) \<and> fresh b'"
  using assms
proof (induction "length (rest b) + (if data = [] then 0 else 1)" arbitrary: b data rv rule: less_induct)
  case less
  obtain b1 where 1: "bo_consume B b = Some (b1, Inr ())" "fresh b1" "bo_buffer_size B b1 = bs" "rest b1 = rest b"
    using consume_law [OF less.prems(1)] less.prems(2) by auto
  show ?case
  proof (cases "data = []")
    case True
    then show ?thesis using 1 less.prems(3) by (subst copy_loop.simps) simp
  next
    case False
    obtain b2 d where 2: "bo_read B bs b1 = Some (b2, Inr d)" "used b2" "bo_buffer_size B b2 = bs" "rest b1 = d @ rest b2" "d = [] \<longrightarrow> rest b1 = []"
      using read_law [OF 1(2)] 1(3) by auto
    have "length (rest b2) + (if d = [] then 0 else 1) < length (rest b) + (if data = [] then 0 else 1)"
      using arg_cong [OF 2(4), of length] 1(4) False by (cases d) auto
    from less.hyps [OF this 2(2,3), of "rv @ data"] obtain b' where "copy_loop B bs d (rv @ data) b2 = Some (b', Inr ((rv @ data) @ d @ rest b2))" "fresh b'"
      using 2(4,5) by auto
    then show ?thesis using 1 2 False by (subst copy_loop.simps) simp
  qed
qed

lemma copy_to_buffer_rest:
  assumes "fresh b"
  shows "\<exists>b'. copy_to_buffer B b = Some (b', Inr (rest b)) \<and> fresh b'"
proof -
  obtain b1 d where 1: "bo_read B (bo_buffer_size B b) b = Some (b1, Inr d)" "used b1" "bo_buffer_size B b1 = bo_buffer_size B b"
    "rest b = d @ rest b1" "d = [] \<longrightarrow> rest b = []" using read_law [OF assms] by auto
  then show ?thesis using copy_loop_rest [of b1 "bo_buffer_size B b" d "[]"] by (auto simp: copy_to_buffer_def)
qed

lemma write_loop_rest:
  assumes "used b" and "bo_buffer_size B b = bs" and "data = [] \<longrightarrow> rest b = []"
  shows "\<exists>b'. write_loop B bs data sent b = Some (b', Inr (sent @ data @ rest b))"
  using assms
proof (induction "length (rest b) + (if data = [] then 0 else 1)" arbitrary: b data sent rule: less_induct)
  case less
  show ?case
  proof (cases "data = []")
    case True
    then show ?thesis using less.prems(3) by (subst write_loop.simps) simp
  next
    case False
    obtain b1 where 1: "bo_consume B b = Some (b1, Inr ())" "fresh b1" "bo_buffer_size B b1 = bs" "rest b1 = rest b"
      using consume_law [OF less.prems(1)] less.prems(2) by auto
    obtain b2 d where 2: "bo_read B bs b1 = Some (b2, Inr d)" "used b2" "bo_buffer_size B b2 = bs" "rest b1 = d @ rest b2" "d = [] \<longrightarrow> rest b1 = []"
      using read_law [OF 1(2)] 1(3) by auto
    have "length (rest b2) + (if d = [] then 0 else 1) < length (rest b) + (if data = [] then 0 else 1)"
      using arg_cong [OF 2(4), of length] 1(4) False by (cases d) auto
    from less.hyps [OF this 2(2,3), of "sent @ data"] obtain b' where "write_loop B bs d (sent @ data) b2 = Some (b', Inr ((sent @ data) @ d @ rest b2))"
      using 2(4,5) by auto
    then show ?thesis using 1 2 False by (subst write_loop.simps) simp
  qed
qed

lemma response_write_rest:
  assumes "fresh b"
  shows "\<exists>b'. response_write B req_id date res b = Some (b', Inr (response_headers B req_id date res b, rest b))"
proof -
  obtain b1 d where 1: "bo_read B (bo_buffer_size B b) b = Some (b1, Inr d)" "used b1" "bo_buffer_size B b1 = bo_buffer_size B b"
    "rest b = d @ rest b1" "d = [] \<longrightarrow> rest b = []" using read_law [OF assms] by auto
  then show ?thesis using write_loop_rest [of b1 "bo_buffer_size B b" d "[]"] by (auto simp: response_write_def)
qed

end

definition sb_ok :: "string_body \<Rightarrow> bool" where
  "sb_ok b \<longleftrightarrow> sb_read b \<le> length (sb_body b)"

definition sb_rest :: "string_body \<Rightarrow> bytes" where
  "sb_rest b = drop (sb_read b) (sb_body b)"

interpretation string_body: body string_body_ops sb_ok sb_ok sb_rest
proof
  fix b assume "sb_ok b"
  then show "\<exists>b' d. bo_read string_body_ops (bo_buffer_size string_body_ops b) b = Some (b', Inr d) \<and> sb_ok b'
      \<and> bo_buffer_size string_body_ops b' = bo_buffer_size string_body_ops b \<and> sb_rest b = d @ sb_rest b' \<and> (d = [] \<longrightarrow> sb_rest b = [])"
    by (auto simp: string_body_ops_def sb_ok_def sb_rest_def slice_def min_def)
  show "\<exists>b'. bo_consume string_body_ops b = Some (b', Inr ()) \<and> sb_ok b'
      \<and> bo_buffer_size string_body_ops b' = bo_buffer_size string_body_ops b \<and> sb_rest b' = sb_rest b"
    using \<open>sb_ok b\<close> by (simp add: string_body_ops_def)
qed

subsection \<open>Downloading an object\<close>

definition addr_data :: "(nat \<Rightarrow> nat \<Rightarrow> bytes option) \<Rightarrow> address \<Rightarrow> bytes" where
  "addr_data B a = concat (map (\<lambda>f. the (B (pointer f) (fsize f))) a)"

definition addr_readable :: "(nat \<Rightarrow> nat \<Rightarrow> bytes option) \<Rightarrow> address \<Rightarrow> bool" where
  "addr_readable B a \<longleftrightarrow> (\<forall>f\<in>set a. 0 < fsize f \<and> B (pointer f) (fsize f) \<noteq> None)"

lemma address_holds_iff: "address_holds B a x \<longleftrightarrow> addr_readable B a \<and> addr_data B a = x"
  by (auto simp: address_holds_def addr_readable_def addr_data_def list_all_iff)

lemma addr_data_simps [simp]: "addr_data B [] = []" "addr_data B (f # fs) = the (B (pointer f) (fsize f)) @ addr_data B fs"
  "addr_data B (a @ b) = addr_data B a @ addr_data B b"
  by (simp_all add: addr_data_def)

lemma addr_readable_simps [simp]: "addr_readable B []" "addr_readable B (f # fs) \<longleftrightarrow> 0 < fsize f \<and> B (pointer f) (fsize f) \<noteq> None \<and> addr_readable B fs"
  "addr_readable B (a @ b) \<longleftrightarrow> addr_readable B a \<and> addr_readable B b"
  by (auto simp: addr_readable_def)

text \<open>A position in a list of fragments: an offset inside the first one, if there is one.\<close>

definition pos_ok :: "fragment list \<Rightarrow> nat \<Rightarrow> bool" where
  "pos_ok fs off \<longleftrightarrow> (case fs of [] \<Rightarrow> off = 0 | f # _ \<Rightarrow> off < fsize f)"

text \<open>What is still to be read from the storages, and what is still to be delivered.\<close>

definition rh_pending :: "('v \<Rightarrow> nat \<Rightarrow> nat \<Rightarrow> bytes option) \<Rightarrow> 'v read_handle \<Rightarrow> bytes" where
  "rh_pending vbytes h = drop (rh_offset h) (addr_data (vbytes (rh_view h)) (drop (rh_index h) (rh_addr h)))"

definition rh_rest :: "('v \<Rightarrow> nat \<Rightarrow> nat \<Rightarrow> bytes option) \<Rightarrow> 'v read_handle \<Rightarrow> bytes" where
  "rh_rest vbytes h = slice (rh_get h) (rh_put h - rh_get h) (rh_buffer h) @ rh_pending vbytes h"

definition rh_inv :: "('v \<Rightarrow> bool) \<Rightarrow> ('v \<Rightarrow> nat \<Rightarrow> nat \<Rightarrow> bytes option) \<Rightarrow> 'v read_handle \<Rightarrow> bool" where
  "rh_inv vinv vbytes h \<longleftrightarrow> vinv (rh_view h) \<and> addr_readable (vbytes (rh_view h)) (drop (rh_index h) (rh_addr h))
     \<and> pos_ok (drop (rh_index h) (rh_addr h)) (rh_offset h) \<and> rh_get h \<le> rh_put h \<and> rh_put h \<le> length (rh_buffer h)
     \<and> 0 < length (rh_buffer h) \<and> rh_index h \<le> length (rh_addr h) \<and> length (rh_pending vbytes h) < M64"

context data_view
begin

text \<open>The rest of a fragment, and a beginning of it.\<close>

lemma fragment_part:
  assumes "vbytes v (pointer f) (fsize f) = Some b" and "off < fsize f" and "0 < k" and "off + k \<le> fsize f"
    and "frag = (if off > 0 then mk_fragment (add128 (pointer f) off) (fsize f - off) else f)"
  shows "fsize frag = fsize f - off" "vbytes v (pointer frag) k = Some (slice off k b)"
proof -
  show "fsize frag = fsize f - off" using assms(5) by simp
  show "vbytes v (pointer frag) k = Some (slice off k b)"
  proof (cases "off = 0")
    case True
    then show ?thesis using bytes_prefix [OF assms(1,3)] assms(4,5) by (simp add: slice_def)
  next
    case False
    then show ?thesis using bytes_sub [OF assms(1,3,4)] assms(5) by simp
  qed
qed

lemma fill_loop_ok:
  assumes "addr_readable (vbytes v) fs" and "pos_ok fs off" and "count + used \<le> cap"
  shows "\<exists>a j off'. fill_loop cap used fs index off count partial =
      (partial @ a, count + min (cap - (count + used)) (length (drop off (addr_data (vbytes v) fs))), index + j, off')
    \<and> addr_readable (vbytes v) a \<and> addr_data (vbytes v) a = take (cap - (count + used)) (drop off (addr_data (vbytes v) fs))
    \<and> j \<le> length fs \<and> pos_ok (drop j fs) off'
    \<and> drop off' (addr_data (vbytes v) (drop j fs)) = drop (cap - (count + used)) (drop off (addr_data (vbytes v) fs))"
  using assms
proof (induction fs arbitrary: index off count partial)
  case Nil
  then show ?case by (auto simp: pos_ok_def)
next
  case (Cons f fs)
  obtain b where b: "vbytes v (pointer f) (fsize f) = Some b" "length b = fsize f" using Cons.prems(1) bytes_length by fastforce
  have off: "off < fsize f" using Cons.prems(2) by (simp add: pos_ok_def)
  define frag where "frag = (if off > 0 then mk_fragment (add128 (pointer f) off) (fsize f - off) else f)"
  note part = fragment_part [OF b(1) off _ _ frag_def]
  have fs: "fsize frag = fsize f - off" using part(1) [of 1] off by simp
  show ?case
  proof (cases "count + used < cap")
    case False
    then show ?thesis using Cons.prems by (intro exI [of _ "[]"] exI [of _ 0] exI [of _ off]) auto
  next
    case True
    show ?thesis
    proof (cases "fsize frag + count + used > cap")
      case cut: True
      let ?r = "cap - (count + used)"
      have r: "0 < ?r" "off + ?r \<le> fsize f" "off + ?r < fsize f" using True cut fs off by auto
      have "vbytes v (pointer frag) ?r = Some (slice off ?r b)" by (rule part(2) [OF r(1,2)])
      then show ?thesis
        using True cut r b off Cons.prems(1)
        by (intro exI [of _ "[mk_fragment (pointer frag) ?r]"] exI [of _ 0] exI [of _ "off + ?r"])
          (simp add: Let_def frag_def [symmetric] push_def slice_def pos_ok_def drop_drop add.commute)
    next
      case fits: False
      have p0: "pos_ok fs 0" using Cons.prems(1) by (cases fs) (simp_all add: pos_ok_def)
      have c: "count + fsize frag + used \<le> cap" using fits by simp
      have vb: "vbytes v (pointer frag) (fsize frag) = Some (drop off b)" using part(2) [of "fsize f - off"] off b(2) by (simp add: fs slice_def)
      obtain a j off' where ih: "fill_loop cap used fs (index + 1) 0 (count + fsize frag) (push partial frag) =
          (push partial frag @ a, count + fsize frag + min (cap - (count + fsize frag + used)) (length (drop 0 (addr_data (vbytes v) fs))), index + 1 + j, off')"
        "addr_readable (vbytes v) a" "addr_data (vbytes v) a = take (cap - (count + fsize frag + used)) (drop 0 (addr_data (vbytes v) fs))"
        "j \<le> length fs" "pos_ok (drop j fs) off'"
        "drop off' (addr_data (vbytes v) (drop j fs)) = drop (cap - (count + fsize frag + used)) (drop 0 (addr_data (vbytes v) fs))"
        using Cons.IH [OF _ p0 c, of "index + 1" "push partial frag"] Cons.prems(1) by auto
      have l: "length (drop off b) = fsize frag" using b(2) fs by simp
      have d: "drop off (addr_data (vbytes v) (f # fs)) = drop off b @ addr_data (vbytes v) fs" using b off by simp
      have k: "cap - (count + used) = fsize frag + (cap - (count + fsize frag + used))" using c by simp
      have "fill_loop cap used (f # fs) index off count partial =
          (partial @ (frag # a), count + min (cap - (count + used)) (length (drop off (addr_data (vbytes v) (f # fs)))), index + Suc j, off')"
      proof -
        have "min (cap - (count + used)) (length (drop off b @ addr_data (vbytes v) fs)) =
            fsize frag + min (cap - (count + fsize frag + used)) (length (addr_data (vbytes v) fs))"
          unfolding k length_append l by (simp add: min_add_distrib_right)
        moreover have "fill_loop cap used (f # fs) index off count partial =
            fill_loop cap used fs (index + 1) 0 (count + fsize frag) (push partial frag)"
          using True fits by (simp add: Let_def frag_def [symmetric])
        ultimately show ?thesis unfolding d ih(1) by (simp add: push_def)
      qed
      moreover have "addr_readable (vbytes v) (frag # a)" using vb fs off ih(2) by simp
      moreover have "addr_data (vbytes v) (frag # a) = take (cap - (count + used)) (drop off (addr_data (vbytes v) (f # fs)))"
        using ih(3) l unfolding d k by (simp add: vb)
      moreover have "drop off' (addr_data (vbytes v) (drop (Suc j) (f # fs))) = drop (cap - (count + used)) (drop off (addr_data (vbytes v) (f # fs)))"
        using ih(6) l unfolding d k by simp
      ultimately show ?thesis using ih(4,5) by (intro exI conjI) auto
    qed
  qed
qed

lemma rh_fill_ok:
  assumes "rh_inv vinv vbytes h"
  shows "\<exists>h'. rh_fill V h = Some (h', Inr ()) \<and> rh_inv vinv vbytes h' \<and> rh_rest vbytes h' = rh_rest vbytes h \<and> rh_get h' = rh_get h
    \<and> length (rh_buffer h') = length (rh_buffer h) \<and> rh_put h' = min (length (rh_buffer h)) (rh_put h + length (rh_pending vbytes h))"
proof -
  let ?B = "vbytes (rh_view h)" and ?fs = "drop (rh_index h) (rh_addr h)" and ?p = "rh_put h" and ?cap = "length (rh_buffer h)"
  let ?P = "drop (rh_offset h) (addr_data ?B ?fs)"
  have I: "vinv (rh_view h)" "addr_readable ?B ?fs" "pos_ok ?fs (rh_offset h)" "rh_get h \<le> ?p" "?p \<le> ?cap" "rh_index h \<le> length (rh_addr h)"
    "length ?P < M64" "0 < ?cap" using assms by (auto simp: rh_inv_def rh_pending_def)
  obtain a j off' where f: "fill_loop ?cap ?p ?fs (rh_index h) (rh_offset h) 0 [] = (a, min (?cap - ?p) (length ?P), rh_index h + j, off')"
    "addr_readable ?B a" "addr_data ?B a = take (?cap - ?p) ?P" "j \<le> length ?fs" "pos_ok (drop j ?fs) off'"
    "drop off' (addr_data ?B (drop j ?fs)) = drop (?cap - ?p) ?P"
    using fill_loop_ok [OF I(2,3), of 0 ?p ?cap "rh_index h" "[]"] I(5) by auto
  define n where "n = min (?cap - ?p) (length ?P)"
  have f1: "fill_loop ?cap ?p ?fs (rh_index h) (rh_offset h) 0 [] = (a, n, rh_index h + j, off')" using f(1) by (simp add: n_def)
  have tk: "take (?cap - ?p) ?P = take n ?P" "drop (?cap - ?p) ?P = drop n ?P" by (auto simp: n_def min_def)
  have idx: "drop (rh_index h + j) (rh_addr h) = drop j ?fs" "rh_index h + j \<le> length (rh_addr h)" using f(4) I(6) by (simp_all add: add.commute)
  have rd: "addr_readable ?B (drop j ?fs)" using I(2) unfolding addr_readable_def by (meson in_set_dropD)
  show ?thesis
  proof (cases "n = 0")
    case True
    define h' where "h' = h\<lparr>rh_index := rh_index h + j, rh_offset := off'\<rparr>"
    have "rh_fill V h = Some (h', Inr ())" using f1 True by (simp add: rh_fill_def h'_def Let_def)
    moreover have "rh_pending vbytes h' = rh_pending vbytes h" using f(6) True tk(2) idx(1) by (simp add: rh_pending_def h'_def)
    moreover have "rh_inv vinv vbytes h'" using I f(5) rd idx calculation(2) by (simp add: rh_inv_def h'_def rh_pending_def)
    moreover have "?p = min ?cap (?p + length (rh_pending vbytes h))" using True I(5) by (auto simp: n_def rh_pending_def min_def split: if_splits)
    ultimately show ?thesis by (simp add: rh_rest_def h'_def)
  next
    case False
    have n: "?p + n \<le> ?cap" "n \<le> length ?P" using I(5) by (auto simp: n_def)
    have ah: "address_holds ?B a (take n ?P)" using f(2,3) tk(1) by (simp add: address_holds_iff)
    have rd_a: "vo_read_address V (rh_view h) a (slice ?p n (rh_buffer h)) = Some (take n ?P, Inr n)"
      using read_address_law [OF I(1) ah, of "slice ?p n (rh_buffer h)"] n I(7) by (simp add: length_slice)
    define h' where "h' = h\<lparr>rh_index := rh_index h + j, rh_offset := off', rh_buffer := overwrite ?p (take n ?P) (rh_buffer h),
      rh_put := ?p + n, rh_total := rh_total h + n, rh_size := sub64 (rh_size h) n\<rparr>"
    have "rh_fill V h = Some (h', Inr ())" using f1 False rd_a by (simp add: rh_fill_def h'_def Let_def)
    moreover have p': "rh_pending vbytes h' = drop n ?P" using f(6) tk(2) idx(1) by (simp add: rh_pending_def h'_def)
    moreover have lb: "length (rh_buffer h') = ?cap" using n by (simp add: h'_def length_overwrite)
    moreover have "rh_inv vinv vbytes h'" using I f(5) rd idx n p' lb by (simp add: rh_inv_def h'_def)
    moreover have "?p + n = min ?cap (?p + length (rh_pending vbytes h))" using I(5) by (auto simp: n_def rh_pending_def min_def)
    moreover have sl: "slice (rh_get h) (?p + n - rh_get h) (rh_buffer h') = slice (rh_get h) (?p - rh_get h) (rh_buffer h) @ take n ?P"
      using I(4,5) n by (simp add: h'_def slice_def overwrite_def drop_take)
    moreover have hp: "rh_put h' = ?p + n" "rh_get h' = rh_get h" by (simp_all add: h'_def)
    moreover have "rh_rest vbytes h' = rh_rest vbytes h"
      unfolding rh_rest_def p' hp sl rh_pending_def [of vbytes h] append_assoc append_take_drop_id ..
    ultimately show ?thesis by metis
  qed
qed

lemma rh_read_ok:
  assumes "rh_inv vinv vbytes h" and "rh_get h = 0"
  shows "\<exists>h' d. rh_read V (length (rh_buffer h)) h = Some (h', Inr d) \<and> rh_inv vinv vbytes h'
    \<and> length (rh_buffer h') = length (rh_buffer h) \<and> rh_rest vbytes h = d @ rh_rest vbytes h' \<and> (d = [] \<longrightarrow> rh_rest vbytes h = [])"
proof -
  let ?cap = "length (rh_buffer h)"
  have "\<exists>h1. (if rh_put h - rh_get h < ?cap then rh_fill V h else Some (h, Inr ())) = Some (h1, Inr ()) \<and> rh_inv vinv vbytes h1
      \<and> rh_rest vbytes h1 = rh_rest vbytes h \<and> rh_get h1 = 0 \<and> length (rh_buffer h1) = ?cap \<and> (rh_put h1 = 0 \<longrightarrow> rh_pending vbytes h1 = [])"
  proof (cases "rh_put h < ?cap")
    case True
    obtain h1 where h1: "rh_fill V h = Some (h1, Inr ())" "rh_inv vinv vbytes h1" "rh_rest vbytes h1 = rh_rest vbytes h" "rh_get h1 = rh_get h"
      "length (rh_buffer h1) = ?cap" "rh_put h1 = min ?cap (rh_put h + length (rh_pending vbytes h))"
      using rh_fill_ok [OF assms(1)] by auto
    have "rh_pending vbytes h1 = []" if p: "rh_put h1 = 0"
    proof -
      have "rh_put h = 0" "rh_pending vbytes h = []" using p h1(6) assms(1) by (auto simp: rh_inv_def min_def split: if_splits)
      then show ?thesis using p h1(3,4) assms(2) by (simp add: rh_rest_def)
    qed
    then show ?thesis using True h1 assms(2) by auto
  next
    case False
    then have "rh_put h \<noteq> 0" using assms(1) by (auto simp: rh_inv_def)
    then show ?thesis using False assms by auto
  qed
  then obtain h1 where h1: "(if rh_put h - rh_get h < ?cap then rh_fill V h else Some (h, Inr ())) = Some (h1, Inr ())" "rh_inv vinv vbytes h1"
    "rh_rest vbytes h1 = rh_rest vbytes h" "rh_get h1 = 0" "length (rh_buffer h1) = ?cap" "rh_put h1 = 0 \<longrightarrow> rh_pending vbytes h1 = []"
    by (elim exE conjE) (rule that; assumption)
  have p: "rh_put h1 \<le> ?cap" using h1(2,5) by (auto simp: rh_inv_def)
  define h' where "h' = h1\<lparr>rh_get := rh_put h1\<rparr>"
  define d where "d = slice 0 (rh_put h1) (rh_buffer h1)"
  have "rh_read V ?cap h = Some (h', Inr d)" using h1(1,4) p by (simp add: rh_read_def h'_def d_def bindP_def Let_def min_absorb2)
  moreover have "rh_inv vinv vbytes h'" using h1(2) by (simp add: rh_inv_def h'_def rh_pending_def)
  moreover have r: "rh_rest vbytes h1 = d @ rh_rest vbytes h'" using h1(4) by (simp add: rh_rest_def h'_def d_def slice_def rh_pending_def)
  moreover have "d = [] \<longrightarrow> rh_rest vbytes h1 = []"
    using h1(4,5,6) p by (auto simp: d_def rh_rest_def slice_def)
  ultimately show ?thesis using h1(3,5) by (intro exI [of _ h'] exI [of _ d]) (simp add: h'_def)
qed

lemma rh_consume_ok:
  assumes "rh_inv vinv vbytes h"
  shows "\<exists>h'. rh_consume h = Some (h', Inr ()) \<and> rh_inv vinv vbytes h' \<and> rh_get h' = 0
    \<and> length (rh_buffer h') = length (rh_buffer h) \<and> rh_rest vbytes h' = rh_rest vbytes h"
proof (cases "rh_get h < rh_put h")
  case True
  let ?n = "rh_put h - rh_get h"
  have I: "rh_get h \<le> rh_put h" "rh_put h \<le> length (rh_buffer h)" using assms by (auto simp: rh_inv_def)
  have l: "length (slice (rh_get h) ?n (rh_buffer h)) = ?n" using I by (simp add: length_slice)
  then have "slice 0 ?n (overwrite 0 (slice (rh_get h) ?n (rh_buffer h)) (rh_buffer h)) = slice (rh_get h) ?n (rh_buffer h)"
    by (simp add: slice_def overwrite_def)
  moreover have "length (overwrite 0 (slice (rh_get h) ?n (rh_buffer h)) (rh_buffer h)) = length (rh_buffer h)"
    using l I by (simp add: length_overwrite)
  moreover have "overwrite 0 (slice (rh_get h) ?n (rh_buffer h)) (rh_buffer h) \<noteq> []" using l True by (auto simp: overwrite_def)
  moreover have "?n \<le> length (rh_buffer h)" using I by simp
  ultimately show ?thesis using True assms by (simp add: rh_consume_def Let_def rh_inv_def rh_rest_def rh_pending_def)
next
  case False
  then show ?thesis using assms by (auto simp: rh_consume_def Let_def rh_inv_def rh_rest_def rh_pending_def slice_def)
qed

end

text \<open>A view with the contract makes every object a body with the contract.\<close>

sublocale data_view \<subseteq> object: body "read_handle_ops V" "\<lambda>h. rh_inv vinv vbytes h \<and> rh_get h = 0" "rh_inv vinv vbytes" "rh_rest vbytes"
  by unfold_locales (use rh_read_ok rh_consume_ok in \<open>fastforce simp: read_handle_ops_def\<close>)+

context data_view
begin

lemma read_handle_new_ok:
  assumes "vinv v" and "address_holds (vbytes v) a data" and "length data < M64" and "0 < bs"
  shows "rh_inv vinv vbytes (read_handle_new v a bs)" "rh_get (read_handle_new v a bs) = 0" "rh_rest vbytes (read_handle_new v a bs) = data"
    "rh_size (read_handle_new v a bs) = length data"
proof -
  have r: "addr_readable (vbytes v) a" "addr_data (vbytes v) a = data" using assms(2) by (auto simp: address_holds_iff)
  have len: "length (addr_data (vbytes v) a) = total_size a" if "addr_readable (vbytes v) a" for a
    using that by (induction a) (auto dest: bytes_length)
  have "pos_ok a 0" using r(1) by (cases a) (auto simp: pos_ok_def)
  then show "rh_inv vinv vbytes (read_handle_new v a bs)" using assms r by (simp add: rh_inv_def read_handle_new_def rh_pending_def)
  show "rh_get (read_handle_new v a bs) = 0" by (simp add: read_handle_new_def)
  show "rh_rest vbytes (read_handle_new v a bs) = data" using r(2) by (simp add: rh_rest_def rh_pending_def read_handle_new_def slice_def)
  have "total_size a = length data" using len [OF r(1)] r(2) by simp
  then show "rh_size (read_handle_new v a bs) = length data" using assms(3) by (simp add: read_handle_new_def data_size_mod)
qed

text \<open>The response for an object: its bytes, after a header that announces their number.\<close>

lemma object_response:
  assumes "vinv v" and "address_holds (vbytes v) a data" and "length data < M64" and "0 < bs"
  shows "\<exists>h'. response_write (read_handle_ops V) req_id date res (read_handle_new v a bs) =
    Some (h', Inr (response_headers (read_handle_ops V) req_id date res (read_handle_new v a bs), data))"
  using object.response_write_rest [of "read_handle_new v a bs" req_id date res] read_handle_new_ok [OF assms] by simp

end

lemma res_header_set: "res_header (res_set name value r) name' = (if equals_nocase name name' then value else res_header r name')"
proof -
  have sym: "equals_nocase k n \<longleftrightarrow> map (schar \<circ> tolower) k = map (schar \<circ> tolower) n" for k n by (rule equals_nocase_iff)
  have "find (\<lambda>(k, v). equals_nocase k name') (filter (\<lambda>(k, v). \<not> equals_nocase k name) fs) =
      (if equals_nocase name name' then None else find (\<lambda>(k, v). equals_nocase k name') fs)" for fs :: "(bytes \<times> bytes) list"
    by (induction fs) (auto simp: sym)
  then show ?thesis by (auto simp: res_header_def res_set_def find_append sym split: option.split)
qed

end
