(* ===== verification/Vrm_Wildcard.thy ===== *)
theory Vrm_Wildcard
  imports Vrm_Strings
begin

text \<open>
  Wildcards and variables of policies (\<open>entrypoint/policy/variables.cpp\<close>): the matcher of patterns
  with two wildcard characters, the replacement of \<open>${name}\<close> and of escapes, and their combination.
  The language of a pattern is the reference the matcher is compared with.
\<close>

subsection \<open>Definitions\<close>

text \<open>The pattern is what is left of it from \<open>pat_index\<close> on.\<close>

function equals_wildcard :: "char \<Rightarrow> char \<Rightarrow> bytes \<Rightarrow> bytes \<Rightarrow> nat \<Rightarrow> bool" where
  "equals_wildcard asterisk questionmark [] str str_index \<longleftrightarrow> str_index = length str"
| "equals_wildcard asterisk questionmark (p # ps) str str_index \<longleftrightarrow>
     (if p = asterisk then
        equals_wildcard asterisk questionmark ps str str_index
        \<or> (if str_index < length str then equals_wildcard asterisk questionmark (p # ps) str (str_index + 1) else False)
      else if p = questionmark \<or> (str_index < length str \<and> str ! str_index = p) then
        equals_wildcard asterisk questionmark ps str (str_index + 1)
      else False)"
  by pat_completeness auto
termination by (relation "measures [\<lambda>(a, q, p, s, i). length p, \<lambda>(a, q, p, s, i). length s - i]") auto

fun find_char :: "char \<Rightarrow> bytes \<Rightarrow> nat option" where
  "find_char c [] = None"
| "find_char c (x # xs) = (if x = c then Some 0 else map_option Suc (find_char c xs))"

definition var_value :: "char \<Rightarrow> char \<Rightarrow> (bytes \<Rightarrow> bytes option) \<Rightarrow> bytes \<Rightarrow> bytes" where
  "var_value asterisk questionmark vars name =
     (case vars name of
        Some v \<Rightarrow> v
      | None \<Rightarrow> if length name = 1
                then (if name ! 0 = asterisk then ''*'' else []) @ (if name ! 0 = questionmark then ''?'' else [])
                     @ (if name ! 0 = CHR ''$'' then ''$'' else [])
                else [])"

text \<open>What is left of the format, and the last character read, zero after an escaped one.\<close>

function var_replace_loop :: "char \<Rightarrow> char \<Rightarrow> (bytes \<Rightarrow> bytes option) \<Rightarrow> char \<Rightarrow> bytes \<Rightarrow> bytes" where
  "var_replace_loop asterisk questionmark vars prev [] = []"
| "var_replace_loop asterisk questionmark vars prev (current # rest) =
     (if prev = CHR 0x5C then current # var_replace_loop asterisk questionmark vars (CHR 0x00) rest
      else if current = CHR ''$'' then
        (if rest = [] then [current]
         else if hd rest = CHR ''{'' then
           (case find_char (CHR ''}'') rest of
              Some e \<Rightarrow> var_value asterisk questionmark vars (take (e - 1) (tl rest))
                        @ var_replace_loop asterisk questionmark vars current (drop (e + 1) rest)
            | None \<Rightarrow> current # rest)
         else var_replace_loop asterisk questionmark vars current rest)
      else if current = CHR 0x5C then var_replace_loop asterisk questionmark vars current rest
      else current # var_replace_loop asterisk questionmark vars current rest)"
  by pat_completeness auto
termination by (relation "measure (\<lambda>(a, q, v, l, f). length f)") auto

definition var_replace :: "char \<Rightarrow> char \<Rightarrow> (bytes \<Rightarrow> bytes option) \<Rightarrow> bytes \<Rightarrow> bytes" where
  "var_replace asterisk questionmark vars format = var_replace_loop asterisk questionmark vars (CHR 0x00) format"

definition temp_asterisk :: char where "temp_asterisk = CHR 0xFF"
definition temp_questionmark :: char where "temp_questionmark = CHR 0xFE"

definition temp_char :: "char \<Rightarrow> char" where
  "temp_char c = (if c = CHR ''*'' then temp_asterisk else if c = CHR ''?'' then temp_questionmark else c)"

definition equals_wildcard_vars :: "(bytes \<Rightarrow> bytes option) \<Rightarrow> bytes \<Rightarrow> bytes \<Rightarrow> bool" where
  "equals_wildcard_vars vars pattern str =
     equals_wildcard temp_asterisk temp_questionmark
       (var_replace temp_asterisk temp_questionmark vars (map temp_char pattern)) str 0"

subsection \<open>The language of a pattern\<close>

primrec lang :: "char \<Rightarrow> char \<Rightarrow> bytes \<Rightarrow> bytes set" where
  "lang a q [] = {[]}"
| "lang a q (p # ps) =
     (if p = a then {u @ t | u t. t \<in> lang a q ps}
      else if p = q then {c # t | c t. t \<in> lang a q ps}
      else {p # t | t. t \<in> lang a q ps})"

text \<open>Past the end of the string nothing matches.\<close>

lemma wildcard_past_end: "length s < i \<Longrightarrow> \<not> equals_wildcard a q p s i"
  by (induction a q p s i rule: equals_wildcard.induct) auto

lemma wildcard_lang_from: "i \<le> length s \<Longrightarrow> equals_wildcard a q p s i \<longleftrightarrow> drop i s \<in> lang a q p"
proof (induction a q p s i rule: equals_wildcard.induct)
  case (1 a q s i)
  then show ?case by auto
next
  case (2 a q p ps s i)
  consider "p = a" | "p \<noteq> a" "i = length s" | "p \<noteq> a" "i < length s" using 2(4) by linarith
  then show ?case
  proof cases
    case 1
    have "drop i s \<in> lang a q (p # ps) \<longleftrightarrow> drop i s \<in> lang a q ps \<or> (i < length s \<and> drop (i + 1) s \<in> lang a q (p # ps))"
    proof -
      have "(\<exists>u t. xs = u @ t \<and> t \<in> L) \<longleftrightarrow> xs \<in> L \<or> (xs \<noteq> [] \<and> (\<exists>u t. tl xs = u @ t \<and> t \<in> L))" for xs :: bytes and L
        by (cases xs) (auto simp: Cons_eq_append_conv append_eq_Cons_conv)
      from this [of "drop i s" "lang a q ps"] show ?thesis using 1 by (auto simp: drop_Suc tl_drop)
    qed
    then show ?thesis using 1 2 by simp
  next
    case 2
    then show ?thesis using wildcard_past_end [of s "i + 1"] by auto
  next
    case 3
    then have d: "drop i s = s ! i # drop (i + 1) s" by (simp add: Cons_nth_drop_Suc)
    show ?thesis using 3 "2.IH"(3) wildcard_past_end [of s "i + 1"] by (auto simp: d)
  qed
qed

text \<open>
  C18: The recursive matcher decides the language of the pattern: an asterisk stands for any string,
  a question mark for any one character and every other character for itself. Reading past the end
  of the string, which the case of the question mark does not exclude, never makes a match.
\<close>

theorem equals_wildcard_iff_lang: "equals_wildcard a q p s 0 \<longleftrightarrow> s \<in> lang a q p"
  using wildcard_lang_from [of 0 s a q p] by simp

subsection \<open>Variables are matched literally\<close>

lemma lang_append: "lang a q (p @ r) = {x @ z | x z. x \<in> lang a q p \<and> z \<in> lang a q r}"
proof (induction p)
  case (Cons c p)
  show ?case unfolding append_Cons lang.simps Cons by (auto; metis append.assoc append_Cons)
qed simp

lemma lang_literal: "a \<notin> set v \<Longrightarrow> q \<notin> set v \<Longrightarrow> lang a q v = {v}"
  by (induction v) auto

lemma lang_temp:
  "temp_asterisk \<notin> set p \<Longrightarrow> temp_questionmark \<notin> set p \<Longrightarrow>
   lang temp_asterisk temp_questionmark (map temp_char p) = lang (CHR ''*'') (CHR ''?'') p"
  by (induction p) (auto simp: temp_char_def temp_asterisk_def temp_questionmark_def)

lemma replace_plain:
  "CHR ''$'' \<notin> set p \<Longrightarrow> CHR 0x5C \<notin> set p \<Longrightarrow> prev \<noteq> CHR 0x5C \<Longrightarrow>
   \<exists>prev'. prev' \<noteq> CHR 0x5C \<and> var_replace_loop a q vars prev (p @ r) = p @ var_replace_loop a q vars prev' r"
proof (induction p arbitrary: prev)
  case (Cons c p)
  then show ?case using Cons.IH [of c] by auto
qed auto

lemma find_char_append: "c \<notin> set xs \<Longrightarrow> find_char c (xs @ c # ys) = Some (length xs)"
  by (induction xs) auto

lemma replace_variable:
  assumes "CHR ''}'' \<notin> set name" and "prev \<noteq> CHR 0x5C"
  shows "var_replace_loop a q vars prev (''${'' @ name @ ''}'' @ r) = var_value a q vars name @ var_replace_loop a q vars (CHR ''$'') r"
proof -
  have "find_char (CHR ''}'') (CHR ''{'' # name @ CHR ''}'' # r) = Some (length name + 1)"
    using find_char_append [of "CHR ''}''" "CHR ''{'' # name" r] assms(1) by simp
  then show ?thesis using assms(2) by simp
qed

lemma temp_char_keeps [simp]: "temp_char c = CHR ''$'' \<longleftrightarrow> c = CHR ''$''" "temp_char c = CHR 0x5C \<longleftrightarrow> c = CHR 0x5C"
  "CHR ''$'' = temp_char c \<longleftrightarrow> c = CHR ''$''" "CHR 0x5C = temp_char c \<longleftrightarrow> c = CHR 0x5C"
  by (auto simp: temp_char_def temp_asterisk_def temp_questionmark_def)

text \<open>
  C35: The value of a variable in a pattern is compared as it is: its own asterisks and question
  marks are not wildcards, so that the name of a user cannot widen a policy that mentions it. The
  two bytes the implementation uses in place of the wildcards have to be absent.
\<close>

theorem variable_matched_literally:
  assumes "CHR ''$'' \<notin> set (pre @ post)" and "CHR 0x5C \<notin> set (pre @ post)" and "CHR ''}'' \<notin> set name"
    and "set name \<inter> {CHR ''*'', CHR ''?''} = {}" and "vars name = Some v"
    and "{temp_asterisk, temp_questionmark} \<inter> set (pre @ v @ post) = {}"
  shows "equals_wildcard_vars vars (pre @ ''${'' @ name @ ''}'' @ post) s \<longleftrightarrow>
    (\<exists>x z. s = x @ v @ z \<and> x \<in> lang (CHR ''*'') (CHR ''?'') pre \<and> z \<in> lang (CHR ''*'') (CHR ''?'') post)"
proof -
  let ?a = temp_asterisk and ?q = temp_questionmark
  have n: "map temp_char name = name" using assms(4) by (intro map_idI) (auto simp: temp_char_def)
  have t: "temp_char (CHR ''$'') = CHR ''$''" "temp_char (CHR ''{'') = CHR ''{''" "temp_char (CHR ''}'') = CHR ''}''"
    "temp_char (CHR 0x5C) = CHR 0x5C" by (simp_all add: temp_char_def)
  have nd: "CHR ''$'' \<notin> set (map temp_char pre)" "CHR 0x5C \<notin> set (map temp_char pre)"
    "CHR ''$'' \<notin> set (map temp_char post)" "CHR 0x5C \<notin> set (map temp_char post)"
    using assms(1,2) by (auto simp: t)
  have z: "CHR 0x00 \<noteq> CHR 0x5C" "CHR ''$'' \<noteq> CHR 0x5C" by simp_all
  obtain l where l: "l \<noteq> CHR 0x5C" "var_replace_loop ?a ?q vars (CHR 0x00) (map temp_char pre @ ''${'' @ name @ ''}'' @ map temp_char post) =
      map temp_char pre @ var_replace_loop ?a ?q vars l (''${'' @ name @ ''}'' @ map temp_char post)"
    using replace_plain [OF nd(1,2) z(1), of ?a ?q vars "''${'' @ name @ ''}'' @ map temp_char post"] by blast
  obtain l' where "var_replace_loop ?a ?q vars (CHR ''$'') (map temp_char post @ []) = map temp_char post @ var_replace_loop ?a ?q vars l' []"
    using replace_plain [OF nd(3,4) z(2), of ?a ?q vars "[]"] by blast
  then have "var_replace ?a ?q vars (map temp_char (pre @ ''${'' @ name @ ''}'' @ post)) = map temp_char pre @ v @ map temp_char post"
    using l replace_variable [OF assms(3) l(1), of ?a ?q vars "map temp_char post"] assms(5)
    by (simp add: var_replace_def n t var_value_def del: var_replace_loop.simps(2))
  then have "equals_wildcard_vars vars (pre @ ''${'' @ name @ ''}'' @ post) s \<longleftrightarrow> s \<in> lang ?a ?q (map temp_char pre @ v @ map temp_char post)"
    using wildcard_lang_from [of 0 s ?a ?q] by (simp add: equals_wildcard_vars_def)
  also have "lang ?a ?q (map temp_char pre @ v @ map temp_char post) =
      {x @ v @ z | x z. x \<in> lang (CHR ''*'') (CHR ''?'') pre \<and> z \<in> lang (CHR ''*'') (CHR ''?'') post}"
    using assms(6) by (auto simp: lang_append lang_temp lang_literal)
  finally show ?thesis by auto
qed

theorem variable_matched_literally_witness:
  "\<not> equals_wildcard_vars [''aws:username'' \<mapsto> ''*''] ''home/${aws:username}/*'' ''home/bob/x''
   \<and> equals_wildcard_vars [''aws:username'' \<mapsto> ''bob''] ''home/${aws:username}/*'' ''home/bob/x''"
proof -
  have s: "''home/'' @ ''${'' @ ''aws:username'' @ ''}'' @ ''/*'' = ''home/${aws:username}/*''" by simp
  have h: "equals_wildcard_vars [''aws:username'' \<mapsto> v] ''home/${aws:username}/*'' ''home/bob/x'' \<longleftrightarrow>
      (\<exists>x z. ''home/bob/x'' = x @ v @ z \<and> x \<in> lang (CHR ''*'') (CHR ''?'') ''home/'' \<and> z \<in> lang (CHR ''*'') (CHR ''?'') ''/*'')"
    if "{temp_asterisk, temp_questionmark} \<inter> set v = {}" for v
    using variable_matched_literally [of "''home/''" "''/*''" "''aws:username''" "[''aws:username'' \<mapsto> v]" v "''home/bob/x''"] that
    unfolding s by (auto simp: temp_asterisk_def temp_questionmark_def)
  have "\<not> equals_wildcard_vars [''aws:username'' \<mapsto> ''*''] ''home/${aws:username}/*'' ''home/bob/x''"
    by (subst h) (auto simp: temp_asterisk_def temp_questionmark_def)
  moreover have "equals_wildcard_vars [''aws:username'' \<mapsto> ''bob''] ''home/${aws:username}/*'' ''home/bob/x''"
    by (subst h) (auto simp: temp_asterisk_def temp_questionmark_def intro!: exI [of _ "''/x''"])
  ultimately show ?thesis by simp
qed

text \<open>With the byte 255 in its value, a variable matches everything.\<close>

lemma temp_byte_is_wildcard:
  "equals_wildcard_vars [''aws:username'' \<mapsto> [CHR 0xFF]] ''home/${aws:username}'' ''home/alice/secret''"
proof -
  have "var_replace temp_asterisk temp_questionmark [''aws:username'' \<mapsto> [CHR 0xFF]] (map temp_char ''home/${aws:username}'') = ''home/'' @ [temp_asterisk]"
    by code_simp
  moreover have "''home/alice/secret'' \<in> lang temp_asterisk temp_questionmark (''home/'' @ [temp_asterisk])"
    by (auto simp: temp_asterisk_def temp_questionmark_def)
  ultimately show ?thesis using wildcard_lang_from [of 0] by (simp add: equals_wildcard_vars_def)
qed

end
