(* ===== verification/Vrm_Range.thy ===== *)
theory Vrm_Range
  imports Vrm_Body Vrm_Wildcard
begin

text \<open>
  Byte ranges of a download (\<open>entrypoint/http/range.cpp\<close>): the header is parsed into ranges and the
  address of the object is cut to them. The address that is left holds the bytes of the range.
\<close>

subsection \<open>Ranges of a request\<close>

record byte_range =
  br_start :: size_t
  br_end :: size_t

definition range_length :: "byte_range \<Rightarrow> size_t" where
  "range_length r = (if br_end r < br_start r then 0 else br_end r - br_start r)"

definition range_to_string :: "byte_range \<Rightarrow> bytes" where
  "range_to_string r = nat_str (br_start r) @ ''-'' @ nat_str (sub64 (br_end r) 1)"

definition bad_range :: exn where
  "bad_range = Command_exception 400 ''BadRequest''"

definition parse_range_spec :: "bytes \<Rightarrow> size_t \<Rightarrow> byte_range res" where
  "parse_range_spec spec n =
     (case find_char (CHR ''-'') spec of
        None \<Rightarrow> Inl bad_range
      | Some dash \<Rightarrow>
          (case (if dash = 0 then bindE (stoull (drop 1 spec)) (\<lambda>k. Inr \<lparr>br_start = sub64 n k, br_end = n\<rparr>)
                 else if dash = length spec - 1 then bindE (stoull (take (length spec - 1) spec)) (\<lambda>k. Inr \<lparr>br_start = k, br_end = n\<rparr>)
                 else bindE (stoull (take dash spec)) (\<lambda>from. bindE (stoull (drop (dash + 1) spec)) (\<lambda>to.
                        Inr \<lparr>br_start = from, br_end = add64 to 1\<rparr>))) of
             Inl _ \<Rightarrow> Inl bad_range
           | Inr r \<Rightarrow> Inr r))"

fun parse_specs :: "bytes list \<Rightarrow> size_t \<Rightarrow> byte_range list res" where
  "parse_specs [] n = Inr []"
| "parse_specs (s # ss) n = bindE (parse_range_spec s n) (\<lambda>r. bindE (parse_specs ss n) (\<lambda>rs. Inr (r # rs)))"

definition parse_range_header :: "bytes \<Rightarrow> size_t \<Rightarrow> byte_range list res" where
  "parse_range_header header n =
     (case find_char (CHR ''='') header of
        None \<Rightarrow> Inl bad_range
      | Some e \<Rightarrow> if lowercase (take e header) \<noteq> ''bytes'' then Inl bad_range
                  else parse_specs (split_str (drop (e + 1) header) (CHR '','')) n)"

definition apply_range :: "address \<Rightarrow> byte_range list \<Rightarrow> address" where
  "apply_range addr ranges =
     (if addr = [] then addr
      else fold (\<lambda>r rv. append_address rv (range_address addr (br_start r) (br_end r))) ranges [])"

subsection \<open>The bytes of a range\<close>

definition frag_readable :: "(nat \<Rightarrow> nat \<Rightarrow> bytes option) \<Rightarrow> fragment \<Rightarrow> bool" where
  "frag_readable B f \<longleftrightarrow> 0 < fsize f \<and> B (pointer f) (fsize f) \<noteq> None"

definition frag_view :: "(nat \<Rightarrow> nat \<Rightarrow> bytes option) \<Rightarrow> fragment \<Rightarrow> bytes" where
  "frag_view B f = the (B (pointer f) (fsize f))"

lemma address_holds_frags: "address_holds B a data \<longleftrightarrow> list_all (frag_readable B) a \<and> concat (map (frag_view B) a) = data"
  by (simp add: address_holds_def frag_readable_def [abs_def] frag_view_def [abs_def])

context data_view
begin

lemma readable_subfrag:
  assumes "frag_readable (vbytes v) f" and "s < e" and "s < fsize f" and "fsize f < M64"
  shows "frag_readable (vbytes v) (subfrag f s e)" and "frag_view (vbytes v) (subfrag f s e) = take (e - s) (drop s (frag_view (vbytes v) f))"
proof -
  obtain b where b: "vbytes v (pointer f) (fsize f) = Some b" "length b = fsize f" using assms(1) bytes_length by (auto simp: frag_readable_def)
  have "sub64 (min (fsize f) e) s = min (fsize f) e - s" using assms(2-4) by (intro sub64_eq) auto
  then have s: "subfrag f s e = mk_fragment (add128 (pointer f) s) (min (fsize f) e - s)" using assms(2) by (simp add: subfrag_def)
  have "vbytes v (add128 (pointer f) s) (min (fsize f) e - s) = Some (slice s (min (fsize f) e - s) b)"
    using assms(2,3) by (intro bytes_sub [OF b(1)]) auto
  then show "frag_readable (vbytes v) (subfrag f s e)" and "frag_view (vbytes v) (subfrag f s e) = take (e - s) (drop s (frag_view (vbytes v) f))"
    using assms(2,3) b by (auto simp: s frag_readable_def frag_view_def slice_def min_def)
qed

lemma range_rest_readable:
  "list_all (frag_readable (vbytes v)) fs \<Longrightarrow> ptr + total_size fs < M64 \<Longrightarrow> endp < M64 \<Longrightarrow> list_all (frag_readable (vbytes v)) (range_rest fs endp ptr)"
proof (induction fs endp ptr rule: range_rest.induct)
  case (2 f fs endp ptr)
  show ?case
  proof (cases "ptr < endp")
    case True
    have f: "0 < fsize f" "fsize f < M64" using 2(2,3) by (auto simp: frag_readable_def)
    have d: "sub64 endp ptr = endp - ptr" using True 2(4) by (simp add: sub64_eq)
    have r: "frag_readable (vbytes v) (subfrag f 0 (endp - ptr))" using 2(2) True f by (intro readable_subfrag) auto
    have s: "fsize (subfrag f 0 (endp - ptr)) \<le> fsize f" using True f by (simp add: fsize_subfrag)
    then have "add64 ptr (fsize (subfrag f 0 (endp - ptr))) + total_size fs < M64" using 2(3) by (simp add: add64_eq)
    then show ?thesis using 2(1) [OF True refl] 2(2,4) r True d by (simp add: Let_def)
  qed simp
qed simp

lemma range_find_readable:
  "list_all (frag_readable (vbytes v)) a \<Longrightarrow> ptr + total_size a < M64 \<Longrightarrow> ptr \<le> start \<Longrightarrow> start < endp \<Longrightarrow> endp < M64 \<Longrightarrow>
   range_find a start endp ptr = Some (g, p, fs) \<Longrightarrow>
   frag_readable (vbytes v) g \<and> list_all (frag_readable (vbytes v)) fs \<and> p + total_size fs < M64"
proof (induction a start endp ptr rule: range_find.induct)
  case (2 f fs' start endp ptr)
  have a: "add64 ptr (fsize f) = ptr + fsize f" using 2(3) by (simp add: add64_eq)
  show ?case
  proof (cases "start < ptr + fsize f")
    case True
    have s: "sub64 start ptr = start - ptr" "sub64 endp ptr = endp - ptr" using 2(4,5,6) by (auto intro: sub64_eq)
    have f: "fsize f < M64" "start - ptr < fsize f" "start - ptr < endp - ptr" using 2(3,4,5) True by auto
    have g: "g = subfrag f (start - ptr) (endp - ptr)" "fs = fs'" "p = add64 start (fsize g)" using 2(7) True a s by (auto simp: Let_def)
    have "fsize g = min (fsize f) (endp - ptr) - (start - ptr)" unfolding g using f by (intro fsize_subfrag) auto
    then have "start + fsize g \<le> ptr + fsize f" using f 2(4) by auto
    then have "p + total_size fs' < M64" using g(3) 2(3) by (simp add: add64_eq)
    then show ?thesis using readable_subfrag(1) [OF _ f(3,2,1)] 2(2) g by simp
  next
    case False
    then show ?thesis using 2(1) [unfolded a] 2(2-7) a by simp
  qed
qed simp

end

sublocale data_view \<subseteq> part: fragment_content "frag_view (vbytes v)" "frag_readable (vbytes v)" for v
proof
  fix f s e
  assume f: "frag_readable (vbytes v) f"
  then show "length (frag_view (vbytes v) f) = fsize f" using bytes_length by (auto simp: frag_readable_def frag_view_def)
  show "fsize f = 0 \<Longrightarrow> frag_view (vbytes v) (subfrag f 0 e) = []" using f by (simp add: frag_readable_def)
  show "s < e \<Longrightarrow> s < fsize f \<Longrightarrow> fsize f < M64 \<Longrightarrow> frag_view (vbytes v) (subfrag f s e) = take (e - s) (drop s (frag_view (vbytes v) f))"
    using readable_subfrag(2) [OF f] by blast
qed

context data_view
begin

lemma total_size_holds: "address_holds (vbytes v) a data \<Longrightarrow> total_size a = length data"
proof -
  assume "address_holds (vbytes v) a data"
  then have "list_all (frag_readable (vbytes v)) a" "data = concat (map (frag_view (vbytes v)) a)" by (simp_all add: address_holds_frags)
  then show ?thesis using part.content_length by (induction a arbitrary: data) auto
qed

lemma range_holds:
  assumes h: "address_holds (vbytes v) a data" and "length data < M64" and "start < endp" and "endp < M64" and "start < length data"
  shows "address_holds (vbytes v) (range_address a start endp) (slice start (endp - start) data)"
proof -
  have a: "list_all (frag_readable (vbytes v)) a" "concat (map (frag_view (vbytes v)) a) = data" "total_size a = length data"
    using h total_size_holds [OF h] by (simp_all add: address_holds_frags)
  obtain g p fs where r: "range_find a start endp 0 = Some (g, p, fs)" using range_find_Some [of 0 a start endp] a(3) assms(2,5) by auto
  have "list_all (frag_readable (vbytes v)) (range_address a start endp)"
    using range_find_readable [OF a(1) _ _ assms(3,4) r] range_rest_readable [of v fs p endp] a(3) assms(2,4) by (simp add: range_address_def r)
  then show ?thesis using part.range_content [OF a(1) _ assms(3,4)] a(2,3) assms(2,5) by (simp add: address_holds_frags slice_def)
qed

end

subsection \<open>The header\<close>

lemma find_char_first: "c \<notin> set xs \<Longrightarrow> find_char c (xs @ c # ys) = Some (length xs)"
  by (induction xs) auto

lemma nat_str_no_digit: "digit_value 10 c = None \<Longrightarrow> c \<notin> set (nat_str n)"
  using nat_str_digits [of n] by auto

lemma parse_range_exact:
  assumes "b + 1 < M64" and "a < M64"
  shows "parse_range_header (''bytes='' @ nat_str a @ ''-'' @ nat_str b) n = Inr [\<lparr>br_start = a, br_end = b + 1\<rparr>]"
proof -
  let ?s = "nat_str a @ ''-'' @ nat_str b"
  have d: "digit_value 10 (CHR ''-'') = None" "digit_value 10 (CHR '','') = None" by code_simp+
  have e: "find_char (CHR ''='') (''bytes='' @ ?s) = Some 5" using find_char_first [of "CHR ''=''" "''bytes''" ?s] by simp
  have "CHR '','' \<notin> set ?s" using nat_str_no_digit [OF d(2)] by simp
  then have sp: "split_str ?s (CHR '','') = [?s]" using split_rest_join [of "CHR '',''" ?s "[]" "[]"] by (simp add: split_str_def)
  have f: "find_char (CHR ''-'') ?s = Some (length (nat_str a))" using find_char_first [OF nat_str_no_digit [OF d(1)], of a "nat_str b"] by simp
  have l: "nat_str a \<noteq> []" "nat_str b \<noteq> []" by (simp_all add: nat_str_not_Nil)
  have "parse_range_spec ?s n = Inr \<lparr>br_start = a, br_end = b + 1\<rparr>"
    using f l assms stoull_nat_str [of a] stoull_nat_str [of b] by (simp add: parse_range_spec_def bindE_def add64_eq)
  moreover have "lowercase ''bytes'' = ''bytes''" by code_simp
  ultimately show ?thesis using e sp by (simp add: parse_range_header_def bindE_def)
qed

end
