(* ===== verification/Vrm_Request.thy ===== *)
theory Vrm_Request
  imports Vrm_Strings
begin

text \<open>
  Requests (\<open>entrypoint/http/request.cpp\<close>): the method, the decoded path with the bucket and the
  key of the object in it, the parameters of the query and the header fields. The HTTP parser
  and the URL decoder are libraries; a request is what they deliver.
\<close>

datatype verb = GET | PUT | POST | DELETE | HEAD | OPTIONS | Other_verb

record s3_request =
  rq_method :: verb
  rq_path :: bytes
  rq_params :: "bytes \<Rightarrow> bytes option"
  rq_fields :: "(bytes \<times> bytes) list"

definition RESERVED_BUCKET_NAME :: bytes where
  "RESERVED_BUCKET_NAME = ''vroom''"

definition get_bucket_id :: "bytes \<Rightarrow> bytes" where
  "get_bucket_id path = (let segments = split_str path (CHR ''/'') in if 2 \<le> length segments then segments ! 1 else [])"

definition get_object_key :: "bytes \<Rightarrow> bytes" where
  "get_object_key path =
     (let segments = split_str path (CHR ''/'') in if 3 \<le> length segments then join (drop 2 segments) ''/'' else [])"

definition rq_bucket :: "s3_request \<Rightarrow> bytes" where
  "rq_bucket rq = get_bucket_id (rq_path rq)"

definition rq_key :: "s3_request \<Rightarrow> bytes" where
  "rq_key rq = get_object_key (rq_path rq)"

definition rq_arn :: "s3_request \<Rightarrow> bytes" where
  "rq_arn rq = (if rq_key rq \<noteq> [] then ''arn:aws:s3:::'' @ rq_bucket rq @ ''/'' @ rq_key rq else ''arn:aws:s3:::'' @ rq_bucket rq)"

definition rq_header :: "s3_request \<Rightarrow> bytes \<Rightarrow> bytes option" where
  "rq_header rq name = map_option snd (find (\<lambda>(k, v). equals_nocase k name) (rq_fields rq))"

text \<open>The field is required by \<open>at\<close>, which throws when it is absent.\<close>

definition rq_content_length :: "s3_request \<Rightarrow> size_t res" where
  "rq_content_length rq = (case rq_header rq ''Content-Length'' of None \<Rightarrow> Inl Out_of_range | Some v \<Rightarrow> stoull v)"

definition query_size :: "s3_request \<Rightarrow> bytes \<Rightarrow> size_t option res" where
  "query_size rq name =
     (case rq_params rq name of
        None \<Rightarrow> Inr None
      | Some v \<Rightarrow> (case stoull v of Inl _ \<Rightarrow> Inl (Command_exception 400 ''InvalidArgument'') | Inr n \<Rightarrow> Inr (Some n)))"

text \<open>The path of an object gives back its bucket and its key, which may contain slashes.\<close>

lemma split_rest_slash: "d \<notin> set x \<Longrightarrow> split_rest d acc (x @ d # r) = (acc @ x) # split_rest d [] r"
  by (induction x arbitrary: acc) auto

lemma path_parts:
  assumes "CHR ''/'' \<notin> set bucket"
  shows "get_bucket_id (''/'' @ bucket @ ''/'' @ key) = bucket" and "get_object_key (''/'' @ bucket @ ''/'' @ key) = key"
proof -
  let ?p = "''/'' @ bucket @ ''/'' @ key"
  have s: "split_str ?p (CHR ''/'') = [] # bucket # split_rest (CHR ''/'') [] key"
    using split_rest_slash [OF assms, of "[]" key] by (simp add: split_str_def)
  then show "get_bucket_id ?p = bucket" by (simp add: get_bucket_id_def)
  have "split_rest (CHR ''/'') [] key \<noteq> []" by simp
  then have "3 \<le> length (split_str ?p (CHR ''/''))" using s by (cases "split_rest (CHR ''/'') [] key") auto
  then show "get_object_key ?p = key" using s join_split_rest [of "CHR ''/''" "[]" key] by (simp add: get_object_key_def Let_def)
qed

lemma bucket_path: "CHR ''/'' \<notin> set bucket \<Longrightarrow> get_bucket_id (''/'' @ bucket) = bucket \<and> get_object_key (''/'' @ bucket) = []"
  using split_rest_join [of "CHR ''/''" bucket "[]" "[]"] by (simp add: get_bucket_id_def get_object_key_def split_str_def)

end
