(* ===== verification/Vrm_Stream.thy ===== *)
theory Vrm_Stream
  imports Vrm_Body Vrm_Wildcard
begin

text \<open>
  Request bodies read from a connection: the buffered stream over a socket
  (\<open>entrypoint/http/stream.cpp\<close>), bodies with a known length and with a payload signature
  (\<open>raw_body.cpp\<close>, \<open>raw_body_sha256.cpp\<close>) and bodies in chunks (\<open>chunked_body.cpp\<close>,
  \<open>chunk_body_sha256.cpp\<close>). The socket is an argument: \<open>recv k n\<close> is what
  \<open>async_read_some\<close> delivers into a buffer of \<open>n\<close> bytes. SHA-256 and HMAC are arguments too. The
  result \<open>None\<close> stands for a call that does not return and for undefined behaviour.
\<close>

subsection \<open>The stream\<close>

record 'k socket_stream =
  ss_socket :: 'k
  ss_buffer :: bytes
  ss_get :: size_t
  ss_put :: size_t

type_synonym 'k receive = "'k \<Rightarrow> size_t \<Rightarrow> 'k \<times> bytes res"

definition ss_new :: "'k \<Rightarrow> size_t \<Rightarrow> 'k socket_stream" where
  "ss_new k buffer_size = \<lparr>ss_socket = k, ss_buffer = zero_bytes buffer_size, ss_get = 0, ss_put = 0\<rparr>"

definition ss_fill :: "'k receive \<Rightarrow> ('k socket_stream, unit) proc" where
  "ss_fill recv s =
     (case recv (ss_socket s) (length (ss_buffer s) - ss_put s) of
        (k, Inl e) \<Rightarrow> Some (s\<lparr>ss_socket := k\<rparr>, Inl e)
      | (k, Inr d) \<Rightarrow> Some (s\<lparr>ss_socket := k, ss_buffer := overwrite (ss_put s) d (ss_buffer s), ss_put := ss_put s + length d\<rparr>, Inr ()))"

definition ss_read :: "'k receive \<Rightarrow> size_t \<Rightarrow> ('k socket_stream, bytes) proc" where
  "ss_read recv count =
     bindP (\<lambda>s. if count > ss_put s - ss_get s then ss_fill recv s else Some (s, Inr ())) (\<lambda>_ s.
       let n = min count (ss_put s - ss_get s)
       in Some (s\<lparr>ss_get := ss_get s + n\<rparr>, Inr (slice (ss_get s) n (ss_buffer s))))"

text \<open>\<open>std::string_view::find\<close>: the first position where the delimiter begins.\<close>

fun find_str :: "bytes \<Rightarrow> bytes \<Rightarrow> nat option" where
  "find_str d [] = (if d = [] then Some 0 else None)"
| "find_str d (x # xs) = (if take (length d) (x # xs) = d then Some 0 else map_option Suc (find_str d xs))"

partial_function (option) ss_read_until :: "'k receive \<Rightarrow> bytes \<Rightarrow> 'k socket_stream \<Rightarrow> ('k socket_stream \<times> bytes res) option" where
  "ss_read_until recv delimiter s =
     (case find_str delimiter (slice (ss_get s) (ss_put s - ss_get s) (ss_buffer s)) of
        Some pos \<Rightarrow> Some (s\<lparr>ss_get := ss_get s + (pos + length delimiter)\<rparr>,
                          Inr (slice (ss_get s) (pos + length delimiter) (ss_buffer s)))
      | None \<Rightarrow>
          (case ss_fill recv s of
             None \<Rightarrow> None
           | Some (s1, Inl e) \<Rightarrow> Some (s1, Inl e)
           | Some (s1, Inr _) \<Rightarrow> if ss_put s1 \<noteq> ss_put s then ss_read_until recv delimiter s1 else Some (s1, Inr [])))"

definition ss_consume :: "('k socket_stream, unit) proc" where
  "ss_consume s = Some (s\<lparr>ss_buffer := overwrite 0 (slice (ss_get s) (ss_put s - ss_get s) (ss_buffer s)) (ss_buffer s),
     ss_put := ss_put s - ss_get s, ss_get := 0\<rparr>, Inr ())"

subsection \<open>Bodies with a length\<close>

record 'k raw_body =
  rb_stream :: "'k socket_stream"
  rb_length :: size_t

text \<open>The value of the header \<open>Content-Length\<close>, if there is one.\<close>

definition get_length :: "bytes option \<Rightarrow> size_t res" where
  "get_length content_length = (case content_length of Some v \<Rightarrow> stoull v | None \<Rightarrow> Inr 0)"

definition raw_body_new :: "'k socket_stream \<Rightarrow> bytes option \<Rightarrow> 'k raw_body res" where
  "raw_body_new s content_length = bindE (get_length content_length) (\<lambda>n. Inr \<lparr>rb_stream = s, rb_length = n\<rparr>)"

definition lift_stream :: "('k socket_stream, 'a) proc \<Rightarrow> ('k raw_body, 'a) proc" where
  "lift_stream m b = (case m (rb_stream b) of None \<Rightarrow> None | Some (s, r) \<Rightarrow> Some (b\<lparr>rb_stream := s\<rparr>, r))"

definition rb_read :: "'k receive \<Rightarrow> size_t \<Rightarrow> ('k raw_body, bytes) proc" where
  "rb_read recv count b =
     bindP (lift_stream (ss_read recv (min count (rb_length b)))) (\<lambda>rv b.
       Some (b\<lparr>rb_length := sub64 (rb_length b) (length rv)\<rparr>, Inr rv)) b"

definition raw_body_ops :: "'k receive \<Rightarrow> 'k raw_body body_ops" where
  "raw_body_ops recv = \<lparr>bo_length = \<lambda>b. Some (rb_length b), bo_read = rb_read recv, bo_consume = lift_stream ss_consume,
     bo_buffer_size = \<lambda>b. length (ss_buffer (rb_stream b))\<rparr>"

record 'k raw_body_sha256 =
  rs_body :: "'k raw_body"
  rs_signature :: bytes
  rs_hashed :: bytes

definition rs_read :: "(bytes \<Rightarrow> bytes) \<Rightarrow> 'k receive \<Rightarrow> size_t \<Rightarrow> ('k raw_body_sha256, bytes) proc" where
  "rs_read sha256 recv count b =
     (case rb_read recv count (rs_body b) of
        None \<Rightarrow> None
      | Some (r, Inl e) \<Rightarrow> Some (b\<lparr>rs_body := r\<rparr>, Inl e)
      | Some (r, Inr rv) \<Rightarrow>
          let b1 = b\<lparr>rs_body := r, rs_hashed := rs_hashed b @ rv\<rparr>
          in if rv = [] \<and> to_hex (sha256 (rs_hashed b1)) \<noteq> rs_signature b then Some (b1, Inl Runtime_error) else Some (b1, Inr rv))"

definition raw_body_sha256_ops :: "(bytes \<Rightarrow> bytes) \<Rightarrow> 'k receive \<Rightarrow> 'k raw_body_sha256 body_ops" where
  "raw_body_sha256_ops sha256 recv = \<lparr>bo_length = \<lambda>b. Some (rb_length (rs_body b)), bo_read = rs_read sha256 recv,
     bo_consume = \<lambda>b. (case lift_stream ss_consume (rs_body b) of None \<Rightarrow> None | Some (r, x) \<Rightarrow> Some (b\<lparr>rs_body := r\<rparr>, x)),
     bo_buffer_size = \<lambda>b. length (ss_buffer (rb_stream (rs_body b)))\<rparr>"

subsection \<open>Bodies in chunks\<close>

definition CRLF :: bytes where
  "CRLF = [CHR 0x0D, CHR 0x0A]"

text \<open>A map from views of strings: a key that is set twice has its last value.\<close>

fun parse_pairs :: "bytes list \<Rightarrow> (bytes \<Rightarrow> bytes option) res" where
  "parse_pairs [] = Inr Map.empty"
| "parse_pairs (p # ps) =
     (case split_str p (CHR ''='') of
        [k, v] \<Rightarrow> bindE (parse_pairs ps) (\<lambda>m. Inr (Map.empty(trim WHITESPACE k \<mapsto> trim WHITESPACE v) ++ m))
      | _ \<Rightarrow> Inl Runtime_error)"

definition parse_values_string :: "bytes \<Rightarrow> char \<Rightarrow> (bytes \<Rightarrow> bytes option) res" where
  "parse_values_string values pair_separator = parse_pairs (split_str values pair_separator)"

record chunk_header =
  ch_size :: size_t
  ch_extensions :: "bytes \<Rightarrow> bytes option"

datatype trailing_headers = No_trailer | Read_trailer

text \<open>What a derived class does at a header, at data, at the end of a chunk and of the body.\<close>

record 'h chunk_hooks =
  on_chunk_header :: "chunk_header \<Rightarrow> 'h \<Rightarrow> 'h"
  on_chunk_data :: "bytes \<Rightarrow> 'h \<Rightarrow> 'h"
  on_chunk_done :: "'h \<Rightarrow> 'h \<times> unit res"
  on_body_done :: "'h \<Rightarrow> 'h \<times> unit res"

record ('k, 'h) chunked_body =
  cb_stream :: "'k socket_stream"
  cb_trailing :: trailing_headers
  cb_left :: size_t
  cb_end :: bool
  cb_state :: 'h

definition chunk_header_parse :: "bytes \<Rightarrow> chunk_header res option" where
  "chunk_header_parse data =
     (if data = [] then None
      else let ds = digits_of 16 (butlast data); n = length ds
           in if ds = [] \<or> digits_value 16 ds \<ge> M64 then Some (Inl Runtime_error)
              else if data ! n = CHR '';''
                   then Some (bindE (parse_values_string (drop (n + 1) (butlast data)) (CHR '';'')) (\<lambda>m.
                          Inr \<lparr>ch_size = digits_value 16 ds, ch_extensions = m\<rparr>))
                   else Some (Inr \<lparr>ch_size = digits_value 16 ds, ch_extensions = Map.empty\<rparr>))"

definition cb_on_stream :: "('k socket_stream, 'a) proc \<Rightarrow> (('k, 'h) chunked_body, 'a) proc" where
  "cb_on_stream m b = (case m (cb_stream b) of None \<Rightarrow> None | Some (s, r) \<Rightarrow> Some (b\<lparr>cb_stream := s\<rparr>, r))"

definition cb_hook :: "('h \<Rightarrow> 'h \<times> unit res) \<Rightarrow> (('k, 'h) chunked_body, unit) proc" where
  "cb_hook f b = (case f (cb_state b) of (h, r) \<Rightarrow> Some (b\<lparr>cb_state := h\<rparr>, r))"

definition read_chunk_header :: "'h chunk_hooks \<Rightarrow> 'k receive \<Rightarrow> (('k, 'h) chunked_body, chunk_header) proc" where
  "read_chunk_header H recv =
     bindP (cb_on_stream (ss_read_until recv CRLF)) (\<lambda>data b.
       case chunk_header_parse data of
         None \<Rightarrow> None
       | Some (Inl e) \<Rightarrow> Some (b, Inl e)
       | Some (Inr hdr) \<Rightarrow> Some (b\<lparr>cb_state := on_chunk_header H hdr (cb_state b)\<rparr>, Inr hdr))"

text \<open>The last chunk: the hook and the end of the trailer.\<close>

definition finish_chunks :: "'h chunk_hooks \<Rightarrow> 'k receive \<Rightarrow> (('k, 'h) chunked_body, bytes) proc" where
  "finish_chunks H recv =
     bindP (cb_hook (on_body_done H)) (\<lambda>_ b.
     bindP (cb_on_stream (ss_read_until recv (case cb_trailing b of Read_trailer \<Rightarrow> CRLF @ CRLF | No_trailer \<Rightarrow> CRLF)))
       (\<lambda>_. retP []) (b\<lparr>cb_end := True\<rparr>))"

definition expect_newline :: "bytes \<Rightarrow> (('k, 'h) chunked_body, unit) proc" where
  "expect_newline nl b =
     (case nl of
        [] \<Rightarrow> None
      | [c] \<Rightarrow> if c \<noteq> CHR 0x0D then Some (b, Inl Runtime_error) else None
      | c # d # _ \<Rightarrow> if c \<noteq> CHR 0x0D \<or> d \<noteq> CHR 0x0A then Some (b, Inl Runtime_error) else Some (b, Inr ()))"

definition chunk_data :: "'h chunk_hooks \<Rightarrow> 'k receive \<Rightarrow> size_t \<Rightarrow> (('k, 'h) chunked_body, bytes) proc" where
  "chunk_data H recv count b =
     bindP (cb_on_stream (ss_read recv (min (cb_left b) count))) (\<lambda>data b.
       let b1 = b\<lparr>cb_state := on_chunk_data H data (cb_state b), cb_left := sub64 (cb_left b) (length data)\<rparr>
       in if cb_left b1 = 0
          then bindP (cb_hook (on_chunk_done H)) (\<lambda>_.
               bindP (cb_on_stream (ss_read recv 2)) (\<lambda>nl.
               bindP (expect_newline nl) (\<lambda>_. retP data))) b1
          else Some (b1, Inr data)) b"

definition cb_read :: "'h chunk_hooks \<Rightarrow> 'k receive \<Rightarrow> size_t \<Rightarrow> (('k, 'h) chunked_body, bytes) proc" where
  "cb_read H recv count b =
     (if cb_end b then Some (b, Inr [])
      else if cb_left b = 0
      then bindP (read_chunk_header H recv) (\<lambda>hdr b.
             let b1 = b\<lparr>cb_left := ch_size hdr\<rparr>
             in if ch_size hdr = 0 then finish_chunks H recv b1 else chunk_data H recv count b1) b
      else chunk_data H recv count b)"

definition chunked_body_ops :: "'h chunk_hooks \<Rightarrow> 'k receive \<Rightarrow> ('k, 'h) chunked_body body_ops" where
  "chunked_body_ops H recv = \<lparr>bo_length = \<lambda>_. None, bo_read = cb_read H recv, bo_consume = cb_on_stream ss_consume,
     bo_buffer_size = \<lambda>b. length (ss_buffer (cb_stream b))\<rparr>"

definition no_hooks :: "unit chunk_hooks" where
  "no_hooks = \<lparr>on_chunk_header = \<lambda>_ h. h, on_chunk_data = \<lambda>_ h. h, on_chunk_done = \<lambda>h. (h, Inr ()), on_body_done = \<lambda>h. (h, Inr ())\<rparr>"

subsection \<open>Signed chunks\<close>

definition SHA256_EMPTY_STRING :: bytes where
  "SHA256_EMPTY_STRING = ''e3b0c44298fc1c149afbf4c8996fb92427ae41e4649b934ca495991b7852b855''"

record chunk_sha256 =
  cs_hashed :: bytes
  cs_prelude :: bytes
  cs_signing_key :: bytes
  cs_chunk_signature :: bytes
  cs_to_sign :: bytes

definition newline :: bytes where
  "newline = [CHR 0x0A]"

definition chunk_sha256_new :: "bytes \<Rightarrow> bytes \<Rightarrow> bytes \<Rightarrow> chunk_sha256" where
  "chunk_sha256_new prelude signing_key signature = \<lparr>cs_hashed = [], cs_prelude = prelude, cs_signing_key = signing_key,
     cs_chunk_signature = [], cs_to_sign = prelude @ signature @ newline @ SHA256_EMPTY_STRING @ newline\<rparr>"

definition sha256_hooks :: "(bytes \<Rightarrow> bytes) \<Rightarrow> (bytes \<Rightarrow> bytes \<Rightarrow> bytes) \<Rightarrow> chunk_sha256 chunk_hooks" where
  "sha256_hooks sha256 hmac = \<lparr>
     on_chunk_header = \<lambda>hdr h. (case ch_extensions hdr ''chunk-signature'' of Some v \<Rightarrow> h\<lparr>cs_chunk_signature := v\<rparr> | None \<Rightarrow> h),
     on_chunk_data = \<lambda>data h. h\<lparr>cs_hashed := cs_hashed h @ data\<rparr>,
     on_chunk_done = \<lambda>h.
       let to_sign = cs_to_sign h @ to_hex (sha256 (cs_hashed h)); signature = to_hex (hmac (cs_signing_key h) to_sign)
       in if signature \<noteq> cs_chunk_signature h then (h\<lparr>cs_to_sign := to_sign, cs_hashed := []\<rparr>, Inl Runtime_error)
          else (h\<lparr>cs_to_sign := cs_prelude h @ signature @ newline @ SHA256_EMPTY_STRING @ newline, cs_hashed := []\<rparr>, Inr ()),
     on_body_done = \<lambda>h.
       let to_sign = cs_to_sign h @ SHA256_EMPTY_STRING
       in (h\<lparr>cs_to_sign := to_sign\<rparr>,
           if to_hex (hmac (cs_signing_key h) to_sign) \<noteq> cs_chunk_signature h then Inl Runtime_error else Inr ())\<rparr>"

subsection \<open>Reading from a socket\<close>

text \<open>
  The behaviour of a connected socket that the stream relies on: a read into a non-empty buffer
  delivers at least one byte of what is still to arrive.
\<close>

locale socket =
  fixes recv :: "'k receive"
    and incoming :: "'k \<Rightarrow> bytes"
  assumes recv_none: "recv k 0 = (k, Inr [])"
    and recv_some: "incoming k \<noteq> [] \<Longrightarrow> 0 < n \<Longrightarrow>
      \<exists>k' d. recv k n = (k', Inr d) \<and> d \<noteq> [] \<and> length d \<le> n \<and> incoming k = d @ incoming k'"

text \<open>Data that arrives in segments; a read delivers at most one of them.\<close>

fun segment_recv :: "bytes list receive" where
  "segment_recv [] n = ([], if n = 0 then Inr [] else Inl Runtime_error)"
| "segment_recv (seg # segs) n =
     (if n = 0 then (seg # segs, Inr [])
      else if seg = [] then segment_recv segs n
      else if length seg \<le> n then (segs, Inr seg) else (drop n seg # segs, Inr (take n seg)))"

interpretation segments: socket segment_recv concat
proof
  show "segment_recv k 0 = (k, Inr [])" for k by (cases k) simp_all
  show "\<exists>k' d. segment_recv k n = (k', Inr d) \<and> d \<noteq> [] \<and> length d \<le> n \<and> concat k = d @ concat k'" if "concat k \<noteq> []" "0 < n" for k n
    using that by (induction k) auto
qed

definition ss_ok :: "'k socket_stream \<Rightarrow> bool" where
  "ss_ok s \<longleftrightarrow> ss_get s \<le> ss_put s \<and> ss_put s \<le> length (ss_buffer s) \<and> 0 < length (ss_buffer s)"

definition ss_buffered :: "'k socket_stream \<Rightarrow> bytes" where
  "ss_buffered s = slice (ss_get s) (ss_put s - ss_get s) (ss_buffer s)"

text \<open>What the stream has received and not handed out, and what is still to arrive.\<close>

definition ss_rest :: "('k \<Rightarrow> bytes) \<Rightarrow> 'k socket_stream \<Rightarrow> bytes" where
  "ss_rest incoming s = ss_buffered s @ incoming (ss_socket s)"

lemma length_ss_buffered: "ss_ok s \<Longrightarrow> length (ss_buffered s) = ss_put s - ss_get s"
  by (auto simp: ss_buffered_def ss_ok_def length_slice min_def)

lemma slice_within: "a + n \<le> put \<Longrightarrow> slice a n buf = take n (slice a (put - a) buf)"
  by (simp add: slice_def min_def)

lemma ss_buffered_advance: "ss_get s + n \<le> ss_put s \<Longrightarrow> ss_buffered (s\<lparr>ss_get := ss_get s + n\<rparr>) = drop n (ss_buffered s)"
  by (simp add: ss_buffered_def slice_def drop_take add.commute)

context socket
begin

text \<open>One more read from the socket, when there is room and something to come.\<close>

lemma ss_fill_ok:
  assumes "ss_ok s" and "ss_put s < length (ss_buffer s)" and "incoming (ss_socket s) \<noteq> []"
  shows "\<exists>s'. ss_fill recv s = Some (s', Inr ()) \<and> ss_ok s' \<and> ss_get s' = ss_get s \<and> ss_put s < ss_put s' \<and> ss_rest incoming s' = ss_rest incoming s
    \<and> length (ss_buffer s') = length (ss_buffer s)"
proof -
  let ?n = "length (ss_buffer s) - ss_put s"
  obtain k d where r: "recv (ss_socket s) ?n = (k, Inr d)" "d \<noteq> []" "length d \<le> ?n" "incoming (ss_socket s) = d @ incoming k"
    using recv_some [OF assms(3), of ?n] assms(2) by auto
  define s' where "s' = s\<lparr>ss_socket := k, ss_buffer := overwrite (ss_put s) d (ss_buffer s), ss_put := ss_put s + length d\<rparr>"
  have l: "length (ss_buffer s') = length (ss_buffer s)" using r(3) assms by (simp add: s'_def length_overwrite)
  have "ss_buffered s' = ss_buffered s @ d"
  proof -
    have le: "ss_get s \<le> ss_put s" "ss_put s \<le> length (ss_buffer s)" using assms(1) by (auto simp: ss_ok_def)
    then have "ss_put s + length d - ss_get s = (ss_put s - ss_get s) + length d" "length (take (ss_put s - ss_get s) (drop (ss_get s) (ss_buffer s))) = ss_put s - ss_get s"
      by auto
    then show ?thesis using le by (simp add: s'_def ss_buffered_def slice_def overwrite_def drop_take)
  qed
  then have "ss_rest incoming s' = ss_rest incoming s" using r(4) by (simp add: ss_rest_def s'_def)
  moreover have "ss_ok s'" using assms(1) r(3) l by (auto simp: s'_def ss_ok_def)
  moreover have "ss_fill recv s = Some (s', Inr ())" using r(1) by (simp add: ss_fill_def s'_def)
  ultimately show ?thesis using r(2) l by (simp add: s'_def)
qed

lemma ss_advance:
  assumes "ss_ok s" and "n \<le> ss_put s - ss_get s"
  shows "ss_ok (s\<lparr>ss_get := ss_get s + n\<rparr>)" "ss_rest incoming s = take n (ss_rest incoming s) @ ss_rest incoming (s\<lparr>ss_get := ss_get s + n\<rparr>)"
    "slice (ss_get s) n (ss_buffer s) = take n (ss_rest incoming s)"
proof -
  have l: "n \<le> length (ss_buffered s)" and g: "ss_get s + n \<le> ss_put s" using assms by (auto simp: length_ss_buffered ss_ok_def)
  show "ss_ok (s\<lparr>ss_get := ss_get s + n\<rparr>)" using assms(1) g by (simp add: ss_ok_def)
  show "ss_rest incoming s = take n (ss_rest incoming s) @ ss_rest incoming (s\<lparr>ss_get := ss_get s + n\<rparr>)" using l g by (simp add: ss_rest_def ss_buffered_advance)
  show "slice (ss_get s) n (ss_buffer s) = take n (ss_rest incoming s)" using l g slice_within [OF g] by (simp add: ss_rest_def ss_buffered_def)
qed

text \<open>A read delivers something when it is asked for something that is still to come and the buffer has room.\<close>

lemma ss_read_ok:
  assumes "ss_ok s" and "n \<le> length (ss_rest incoming s)" and "ss_get s + n \<le> length (ss_buffer s)"
  shows "\<exists>s' d. ss_read recv n s = Some (s', Inr d) \<and> ss_ok s' \<and> ss_rest incoming s = d @ ss_rest incoming s' \<and> length d \<le> n \<and> (d = [] \<longrightarrow> n = 0)
    \<and> length (ss_buffer s') = length (ss_buffer s) \<and> ss_get s' = ss_get s + length d"
proof -
  have "\<exists>s1. (if n > ss_put s - ss_get s then ss_fill recv s else Some (s, Inr ())) = Some (s1, Inr ()) \<and> ss_ok s1 \<and> ss_rest incoming s1 = ss_rest incoming s
      \<and> ss_get s1 = ss_get s \<and> length (ss_buffer s1) = length (ss_buffer s) \<and> (n = 0 \<or> 0 < ss_put s1 - ss_get s1)"
  proof (cases "n > ss_put s - ss_get s")
    case True
    then have p: "ss_put s < length (ss_buffer s)" using assms(1,3) by (auto simp: ss_ok_def)
    have "length (ss_buffered s) < n" using True assms(1) by (simp add: length_ss_buffered)
    then have "incoming (ss_socket s) \<noteq> []" using assms(2) by (auto simp: ss_rest_def)
    from ss_fill_ok [OF assms(1) p this] obtain s1 where "ss_fill recv s = Some (s1, Inr ())" "ss_ok s1" "ss_get s1 = ss_get s"
      "ss_put s < ss_put s1" "ss_rest incoming s1 = ss_rest incoming s" "length (ss_buffer s1) = length (ss_buffer s)" by auto
    then show ?thesis using True assms(1) by (auto simp: ss_ok_def)
  next
    case False
    then show ?thesis using assms(1) by auto
  qed
  then obtain s1 where 1: "(if n > ss_put s - ss_get s then ss_fill recv s else Some (s, Inr ())) = Some (s1, Inr ())" "ss_ok s1" "ss_rest incoming s1 = ss_rest incoming s"
    "ss_get s1 = ss_get s" "length (ss_buffer s1) = length (ss_buffer s)" "n = 0 \<or> 0 < ss_put s1 - ss_get s1"
    by (elim exE conjE) (rule that; assumption)
  define m where "m = min n (ss_put s1 - ss_get s1)"
  note adv = ss_advance [OF 1(2), of m]
  have m: "m \<le> ss_put s1 - ss_get s1" "m \<le> n" "m = 0 \<longrightarrow> n = 0" using 1(6) by (auto simp: m_def)
  have ml: "length (take m (ss_rest incoming s1)) = m" using m(1) 1(2) by (simp add: ss_rest_def length_ss_buffered)
  have "ss_read recv n s = Some (s1\<lparr>ss_get := ss_get s1 + m\<rparr>, Inr (take m (ss_rest incoming s1)))"
    using 1(1) adv(3) m(1) by (simp add: ss_read_def bindP_def m_def [symmetric])
  then show ?thesis using adv m ml 1(3-5) by (intro exI [of _ "s1\<lparr>ss_get := ss_get s1 + m\<rparr>"] exI [of _ "take m (ss_rest incoming s1)"]) auto
qed

lemma ss_consume_ok:
  assumes "ss_ok s"
  shows "\<exists>s'. ss_consume s = Some (s', Inr ()) \<and> ss_ok s' \<and> ss_get s' = 0 \<and> ss_rest incoming s' = ss_rest incoming s \<and> length (ss_buffer s') = length (ss_buffer s)"
proof -
  let ?n = "ss_put s - ss_get s"
  have l: "length (slice (ss_get s) ?n (ss_buffer s)) = ?n" using assms by (auto simp: ss_ok_def length_slice min_def)
  have "?n \<le> length (ss_buffer s)" using assms by (auto simp: ss_ok_def)
  then show ?thesis using l assms
    by (auto simp: ss_consume_def ss_ok_def ss_rest_def ss_buffered_def slice_def overwrite_def length_overwrite)
qed

end

subsection \<open>A body with a length provides the contract of bodies\<close>

definition rb_ok :: "('k \<Rightarrow> bytes) \<Rightarrow> 'k raw_body \<Rightarrow> bool" where
  "rb_ok incoming b \<longleftrightarrow> ss_ok (rb_stream b) \<and> rb_length b \<le> length (ss_rest incoming (rb_stream b)) \<and> rb_length b < M64"

definition rb_fresh :: "('k \<Rightarrow> bytes) \<Rightarrow> 'k raw_body \<Rightarrow> bool" where
  "rb_fresh incoming b \<longleftrightarrow> rb_ok incoming b \<and> ss_get (rb_stream b) = 0"

definition rb_rest :: "('k \<Rightarrow> bytes) \<Rightarrow> 'k raw_body \<Rightarrow> bytes" where
  "rb_rest incoming b = take (rb_length b) (ss_rest incoming (rb_stream b))"

context socket
begin

lemma rb_read_ok:
  assumes "rb_fresh incoming b"
  shows "\<exists>b' d. rb_read recv (length (ss_buffer (rb_stream b))) b = Some (b', Inr d) \<and> rb_ok incoming b'
      \<and> length (ss_buffer (rb_stream b')) = length (ss_buffer (rb_stream b)) \<and> rb_rest incoming b = d @ rb_rest incoming b' \<and> (d = [] \<longrightarrow> rb_rest incoming b = [])"
proof -
  let ?s = "rb_stream b" and ?n = "min (length (ss_buffer (rb_stream b))) (rb_length b)"
  have I: "ss_ok ?s" "ss_get ?s = 0" "rb_length b \<le> length (ss_rest incoming ?s)" "rb_length b < M64"
    using assms by (auto simp: rb_fresh_def rb_ok_def)
  obtain s' d where r: "ss_read recv ?n ?s = Some (s', Inr d)" "ss_ok s'" "ss_rest incoming ?s = d @ ss_rest incoming s'" "length d \<le> ?n" "d = [] \<longrightarrow> ?n = 0"
    "length (ss_buffer s') = length (ss_buffer ?s)"
  proof -
    have "?n \<le> length (ss_rest incoming ?s)" "ss_get ?s + ?n \<le> length (ss_buffer ?s)" using I(2,3) by auto
    from ss_read_ok [OF I(1) this] show ?thesis by (elim exE conjE) (rule that; assumption)
  qed
  define b' where "b' = b\<lparr>rb_stream := s', rb_length := rb_length b - length d\<rparr>"
  have "rb_read recv (length (ss_buffer ?s)) b = Some (b', Inr d)"
    using r(1,4) I(4) by (simp add: rb_read_def lift_stream_def bindP_def b'_def sub64_eq)
  moreover have "rb_ok incoming b'" using r I by (auto simp: rb_ok_def b'_def)
  moreover have "rb_rest incoming b = d @ rb_rest incoming b'" using r(3,4) by (simp add: rb_rest_def b'_def)
  moreover have "d = [] \<longrightarrow> rb_rest incoming b = []" using r(5) I(1) by (auto simp: rb_rest_def ss_ok_def min_def split: if_splits)
  moreover have "length (ss_buffer (rb_stream b')) = length (ss_buffer ?s)" using r(6) by (simp add: b'_def)
  ultimately show ?thesis by blast
qed

lemma rb_consume_ok:
  assumes "rb_ok incoming b"
  shows "\<exists>b'. lift_stream ss_consume b = Some (b', Inr ()) \<and> rb_fresh incoming b'
      \<and> length (ss_buffer (rb_stream b')) = length (ss_buffer (rb_stream b)) \<and> rb_rest incoming b' = rb_rest incoming b"
  using ss_consume_ok [of "rb_stream b"] assms
  by (auto simp: rb_ok_def rb_fresh_def rb_rest_def lift_stream_def)

end

sublocale socket \<subseteq> raw: body "raw_body_ops recv" "rb_fresh incoming" "rb_ok incoming" "rb_rest incoming"
  by unfold_locales (use rb_read_ok rb_consume_ok in \<open>simp_all add: raw_body_ops_def\<close>)

text \<open>So does a body with a payload signature, when the signature is the one of the data to come.\<close>

definition rs_ok :: "(bytes \<Rightarrow> bytes) \<Rightarrow> ('k \<Rightarrow> bytes) \<Rightarrow> 'k raw_body_sha256 \<Rightarrow> bool" where
  "rs_ok sha256 incoming b \<longleftrightarrow> rb_ok incoming (rs_body b) \<and> to_hex (sha256 (rs_hashed b @ rb_rest incoming (rs_body b))) = rs_signature b"

sublocale socket \<subseteq> signed: body "raw_body_sha256_ops sha256 recv" "\<lambda>b. rs_ok sha256 incoming b \<and> rb_fresh incoming (rs_body b)"
    "rs_ok sha256 incoming" "\<lambda>b. rb_rest incoming (rs_body b)" for sha256
proof
  fix b assume "rs_ok sha256 incoming b \<and> rb_fresh incoming (rs_body b)"
  then have b: "rb_fresh incoming (rs_body b)" and sig: "to_hex (sha256 (rs_hashed b @ rb_rest incoming (rs_body b))) = rs_signature b"
    by (auto simp: rs_ok_def)
  obtain r d where r: "rb_read recv (length (ss_buffer (rb_stream (rs_body b)))) (rs_body b) = Some (r, Inr d)" "rb_ok incoming r"
    "length (ss_buffer (rb_stream r)) = length (ss_buffer (rb_stream (rs_body b)))" "rb_rest incoming (rs_body b) = d @ rb_rest incoming r"
    "d = [] \<longrightarrow> rb_rest incoming (rs_body b) = []" using rb_read_ok [OF b] by (elim exE conjE) (rule that; assumption)
  define b' where "b' = b\<lparr>rs_body := r, rs_hashed := rs_hashed b @ d\<rparr>"
  have "rs_ok sha256 incoming b'" using r(2,4) sig by (simp add: rs_ok_def b'_def)
  moreover have "rs_read sha256 recv (length (ss_buffer (rb_stream (rs_body b)))) b = Some (b', Inr d)"
    using r(1,5) sig by (auto simp: rs_read_def b'_def Let_def)
  moreover have "rs_body b' = r" by (simp add: b'_def)
  ultimately show "\<exists>b' d. bo_read (raw_body_sha256_ops sha256 recv) (bo_buffer_size (raw_body_sha256_ops sha256 recv) b) b = Some (b', Inr d) \<and> rs_ok sha256 incoming b'
      \<and> bo_buffer_size (raw_body_sha256_ops sha256 recv) b' = bo_buffer_size (raw_body_sha256_ops sha256 recv) b
      \<and> rb_rest incoming (rs_body b) = d @ rb_rest incoming (rs_body b') \<and> (d = [] \<longrightarrow> rb_rest incoming (rs_body b) = [])"
    using r(3-5) by (intro exI [of _ b'] exI [of _ d]) (simp add: raw_body_sha256_ops_def)
next
  fix b assume "rs_ok sha256 incoming b"
  then show "\<exists>b'. bo_consume (raw_body_sha256_ops sha256 recv) b = Some (b', Inr ()) \<and> (rs_ok sha256 incoming b' \<and> rb_fresh incoming (rs_body b'))
      \<and> bo_buffer_size (raw_body_sha256_ops sha256 recv) b' = bo_buffer_size (raw_body_sha256_ops sha256 recv) b
      \<and> rb_rest incoming (rs_body b') = rb_rest incoming (rs_body b)"
    using rb_consume_ok [of "rs_body b"] by (auto simp: rs_ok_def raw_body_sha256_ops_def rb_fresh_def)
qed

end
