(* ===== verification/Vrm_Object.thy ===== *)
theory Vrm_Object
  imports Vrm_Dedup Vrm_Range Vrm_Request Vrm_DirectoryRefine Vrm_Stream
begin

text \<open>
  Objects: the loop that feeds a request body to the deduplicator (\<open>entrypoint/utils.cpp\<close>), and the
  commands that store, fetch, copy and delete an object (\<open>commands/s3/put_object.cpp\<close>,
  \<open>get_object.cpp\<close>, \<open>head_object.cpp\<close>, \<open>copy_object.cpp\<close>, \<open>delete_object.cpp\<close>, \<open>safe_put_object\<close> in
  \<open>directory.cpp\<close>). MD5, the formatting of dates and of floating point numbers are arguments.
  The main results follow an object through an upload and a download.
\<close>

subsection \<open>Uploading a body\<close>

text \<open>The response so far and the bytes that went into the hash.\<close>

partial_function (option) upload_loop :: "'b body_ops \<Rightarrow> (bytes \<Rightarrow> ('d, dedupe_response) proc) \<Rightarrow> size_t \<Rightarrow> dedupe_response \<Rightarrow> bytes
    \<Rightarrow> 'b \<times> 'd \<Rightarrow> (('b \<times> 'd) \<times> (dedupe_response \<times> bytes) res) option" where
  "upload_loop B dd bs rv hashed s =
     (case bo_consume B (fst s) of
        None \<Rightarrow> None
      | Some (b1, Inl e) \<Rightarrow> Some ((b1, snd s), Inl e)
      | Some (b1, Inr _) \<Rightarrow>
          (case bo_read B bs b1 of
             None \<Rightarrow> None
           | Some (b2, Inl e) \<Rightarrow> Some ((b2, snd s), Inl e)
           | Some (b2, Inr data) \<Rightarrow>
               if data = [] then Some ((b2, snd s), Inr (rv, hashed))
               else (case dd data (snd s) of
                       None \<Rightarrow> None
                     | Some (d, Inl e) \<Rightarrow> Some ((b2, d), Inl e)
                     | Some (d, Inr resp) \<Rightarrow> upload_loop B dd bs (append_response rv resp) (hashed @ data) (b2, d))))"

definition upload :: "'b body_ops \<Rightarrow> (bytes \<Rightarrow> ('d, dedupe_response) proc) \<Rightarrow> ('b \<times> 'd, dedupe_response \<times> bytes) proc" where
  "upload B dd s = upload_loop B dd (bo_buffer_size B (fst s)) \<lparr>effective_size = 0, daddr = []\<rparr> [] s"

subsection \<open>Storing an object\<close>

text \<open>An error of the directory releases the data that was uploaded.\<close>

definition safe_put_object :: "'v view_ops \<Rightarrow> env \<Rightarrow> bytes \<Rightarrow> object \<Rightarrow> ('v local_deduplicator \<times> directory, bytes option) proc" where
  "safe_put_object V e bucket obj = (\<lambda>(d, x).
     case dir_put_object e bucket obj x of
       None \<Rightarrow> None
     | Some (x', Inr version) \<Rightarrow> Some ((d, x'), Inr version)
     | Some (x', Inl err) \<Rightarrow>
         (case ob_addr obj of
            None \<Rightarrow> None
          | Some a \<Rightarrow>
              (case vo_unlink V (ld_storage d) a of
                 None \<Rightarrow> None
               | Some (v, Inl err2) \<Rightarrow> Some ((d\<lparr>ld_storage := v\<rparr>, x'), Inl err2)
               | Some (v, Inr _) \<Rightarrow> Some ((d\<lparr>ld_storage := v\<rparr>, x'), Inl err))))"

definition DEFAULT_OBJECT_CONTENT_TYPE :: bytes where
  "DEFAULT_OBJECT_CONTENT_TYPE = ''binary/octet-stream''"

definition response_new :: "nat \<Rightarrow> response" where
  "response_new status = \<lparr>res_status = status, res_fields = []\<rparr>"

definition set_original_size :: "(size_t \<Rightarrow> bytes) \<Rightarrow> size_t \<Rightarrow> response \<Rightarrow> response" where
  "set_original_size mb n r = res_set ''vrm-original-size-mb'' (Some (mb n)) (res_set ''vrm-original-size'' (Some (nat_str n)) r)"

definition set_effective_size :: "(size_t \<Rightarrow> bytes) \<Rightarrow> size_t \<Rightarrow> response \<Rightarrow> response" where
  "set_effective_size mb n r = res_set ''vrm-effective-size-mb'' (Some (mb n)) (res_set ''vrm-effective-size'' (Some (nat_str n)) r)"

definition new_object :: "(bytes \<Rightarrow> bytes) \<Rightarrow> s3_request \<Rightarrow> dedupe_response \<Rightarrow> bytes \<Rightarrow> object" where
  "new_object md5 rq resp hashed =
     \<lparr>ob_id = 0, ob_name = rq_key rq, ob_size = data_size (daddr resp), ob_last_modified = 0, ob_addr = Some (daddr resp),
      ob_etag = Some (to_hex (md5 hashed)),
      ob_mime = Some (case rq_header rq ''Content-Type'' of Some m \<Rightarrow> m | None \<Rightarrow> DEFAULT_OBJECT_CONTENT_TYPE),
      ob_version = None, ob_state = Normal\<rparr>"

definition put_object_handle :: "'b body_ops \<Rightarrow> 'v view_ops \<Rightarrow> (bytes \<Rightarrow> ('v local_deduplicator, dedupe_response) proc) \<Rightarrow> (bytes \<Rightarrow> bytes)
    \<Rightarrow> (size_t \<Rightarrow> bytes) \<Rightarrow> env \<Rightarrow> s3_request \<Rightarrow> ('b \<times> 'v local_deduplicator \<times> directory, response) proc" where
  "put_object_handle B V dd md5 mb e rq = (\<lambda>(b, d, x).
     case rq_content_length rq of
       Inl err \<Rightarrow> Some ((b, d, x), Inl err)
     | Inr _ \<Rightarrow>
         (case upload B dd (b, d) of
            None \<Rightarrow> None
          | Some ((b', d'), Inl err) \<Rightarrow> Some ((b', d', x), Inl err)
          | Some ((b', d'), Inr (resp, hashed)) \<Rightarrow>
              (let obj = new_object md5 rq resp hashed
               in case safe_put_object V e (rq_bucket rq) obj (d', x) of
                    None \<Rightarrow> None
                  | Some ((d'', x'), Inl err) \<Rightarrow> Some ((b', d'', x'), Inl err)
                  | Some ((d'', x'), Inr version) \<Rightarrow>
                      Some ((b', d'', x'), Inr (set_effective_size mb (effective_size resp) (set_original_size mb (ob_size obj)
                        (res_set ''X-Amz-Version-Id'' version (res_set ''ETag'' (ob_etag obj) (response_new 200)))))))))"

subsection \<open>Fetching an object\<close>

definition set_default_headers :: "(nat \<Rightarrow> bytes) \<Rightarrow> object \<Rightarrow> response \<Rightarrow> response" where
  "set_default_headers fixdate obj res =
     res_set ''X-Amz-Version-Id'' (ob_version obj) (res_set ''Last-Modified'' (Some (fixdate (ob_last_modified obj)))
       (res_set ''Content-Type'' (ob_mime obj) (res_set ''ETag'' (ob_etag obj) res)))"

definition method_not_allowed :: "(nat \<Rightarrow> bytes) \<Rightarrow> object option \<Rightarrow> response" where
  "method_not_allowed fixdate obj =
     (let r = res_set ''X-Amz-Delete-Marker'' (Some ''true'') (response_new 405)
      in case obj of Some ob \<Rightarrow> res_set ''Last-Modified'' (Some (fixdate (ob_last_modified ob))) r | None \<Rightarrow> r)"

text \<open>The header and the address for an object: the whole, or the part that the request asks for.\<close>

definition object_part :: "(nat \<Rightarrow> bytes) \<Rightarrow> bytes option \<Rightarrow> object \<Rightarrow> (response \<times> address) res option" where
  "object_part fixdate rng ob =
     (case ob_addr ob of
        None \<Rightarrow> None
      | Some addr \<Rightarrow>
          let res = set_default_headers fixdate ob (response_new 200)
          in (case rng of
                None \<Rightarrow> Some (Inr (res, addr))
              | Some header \<Rightarrow>
                  Some (bindE (parse_range_header header (data_size addr)) (\<lambda>ranges.
                    if length ranges \<noteq> 1 then Inl (Command_exception 501 ''NotImplemented'')
                    else let addr' = apply_range addr ranges;
                             r = (hd ranges)\<lparr>br_end := add64 (br_start (hd ranges)) (data_size addr')\<rparr>
                         in Inr (res_set ''Content-Range'' (Some (''bytes '' @ range_to_string r @ ''/'' @ nat_str (ob_size ob)))
                                   (res\<lparr>res_status := 206\<rparr>), addr')))))"

text \<open>
  The answer is the header and the locked object whose data is the body, or only the header of an
  error message. The reference to the object is dropped when the body is not sent.
\<close>

definition get_object_handle :: "database \<Rightarrow> (nat \<Rightarrow> bytes) \<Rightarrow> s3_request \<Rightarrow> (directory, response \<times> (nat \<times> address) option) proc" where
  "get_object_handle D fixdate rq x =
     (case dir_get_object D (rq_bucket rq) (rq_key rq) (rq_params rq ''versionId'') x of
        (x', Inl err) \<Rightarrow> Some (x', Inl err)
      | (x', Inr None) \<Rightarrow> Some (x', Inr (method_not_allowed fixdate None, None))
      | (x', Inr (Some ob)) \<Rightarrow>
          if rq_params rq ''versionId'' \<noteq> None \<and> ob_state ob = Deleted
          then Some (dir_unref (ob_id ob) x', Inr (method_not_allowed fixdate (Some ob), None))
          else (case object_part fixdate (rq_header rq ''Range'') ob of
                  None \<Rightarrow> None
                | Some (Inl err) \<Rightarrow> Some (dir_unref (ob_id ob) x', Inl err)
                | Some (Inr (res, addr)) \<Rightarrow> Some (x', Inr (res, Some (ob_id ob, addr)))))"

text \<open>All errors become the same.\<close>

definition head_object_handle :: "database \<Rightarrow> (nat \<Rightarrow> bytes) \<Rightarrow> s3_request \<Rightarrow> directory \<Rightarrow> response res" where
  "head_object_handle D fixdate rq x =
     (case dir_head_object D (rq_bucket rq) (rq_key rq) (rq_params rq ''versionId'') x of
        Inl _ \<Rightarrow> Inl NoSuchKey
      | Inr ob \<Rightarrow> Inr (res_set ''Content-Length'' (Some (nat_str (ob_size ob))) (set_default_headers fixdate ob (response_new 200))))"

definition delete_object_handle :: "database \<Rightarrow> env \<Rightarrow> s3_request \<Rightarrow> directory \<Rightarrow> directory \<times> response res" where
  "delete_object_handle D e rq x =
     (case dir_bucket_exists (rq_bucket rq) x of
        Inl err \<Rightarrow> (x, Inl err)
      | Inr _ \<Rightarrow>
          (case dir_delete_object D e (rq_bucket rq) (rq_key rq) (rq_params rq ''versionId'') x of
             (x', marker, version) \<Rightarrow>
               (x', Inr (res_set ''X-Amz-Version-Id'' version
                  (res_set ''X-Amz-Delete-Marker'' (Some (if marker then ''true'' else ''false'')) (response_new 200))))))"

text \<open>
  The source of a copy is a path and a version, which the URL library takes from the header field.
  The answer is the version of the copy; an object that is not there is dereferenced by the source.
\<close>

definition copy_object_handle :: "'v view_ops \<Rightarrow> database \<Rightarrow> env \<Rightarrow> bytes \<Rightarrow> bytes option \<Rightarrow> s3_request
    \<Rightarrow> ('v local_deduplicator \<times> directory, object \<times> bytes option) proc" where
  "copy_object_handle V D e src_path version rq = (\<lambda>(d, x).
     case dir_get_object D (get_bucket_id src_path) (get_object_key src_path) version x of
       (x', Inl err) \<Rightarrow> Some ((d, x'), Inl err)
     | (x', Inr None) \<Rightarrow> None
     | (x', Inr (Some ob)) \<Rightarrow>
         if (case rq_header rq ''x-amz-copy-source-if-match'' of Some m \<Rightarrow> ob_etag ob \<noteq> Some m | None \<Rightarrow> False)
         then Some ((d, dir_unref (ob_id ob) x'), Inl (Command_exception 412 ''PreconditionFailed''))
         else (case ob_addr ob of
                 None \<Rightarrow> None
               | Some a \<Rightarrow>
                   (case vo_link V (ld_storage d) a of
                      None \<Rightarrow> None
                    | Some (v, Inl err) \<Rightarrow> Some ((d\<lparr>ld_storage := v\<rparr>, dir_unref (ob_id ob) x'), Inl err)
                    | Some (v, Inr rejects) \<Rightarrow>
                        if rejects \<noteq> [] then Some ((d\<lparr>ld_storage := v\<rparr>, dir_unref (ob_id ob) x'), Inl (Command_exception 500 ''InternalError''))
                        else (case safe_put_object V e (rq_bucket rq) (ob\<lparr>ob_name := rq_key rq\<rparr>) (d\<lparr>ld_storage := v\<rparr>, x') of
                                None \<Rightarrow> None
                              | Some ((d', x''), Inl err) \<Rightarrow> Some ((d', dir_unref (ob_id ob) x''), Inl err)
                              | Some ((d', x''), Inr ver) \<Rightarrow> Some ((d', dir_unref (ob_id ob) x''), Inr (ob, ver))))))"

subsection \<open>The contract of a deduplicator\<close>

text \<open>
  What an upload relies on: a deduplication with room for its data succeeds, its address holds the
  data, and addresses that held something still hold it. \<open>space d k n\<close> is the room for \<open>k\<close> more
  deduplications of \<open>n\<close> bytes together.
\<close>

locale deduplicator_service =
  fixes dd :: "bytes \<Rightarrow> ('d, dedupe_response) proc"
    and ok :: "'d \<Rightarrow> bool"
    and content :: "'d \<Rightarrow> nat \<Rightarrow> nat \<Rightarrow> bytes option"
    and space :: "'d \<Rightarrow> nat \<Rightarrow> nat \<Rightarrow> bool"
  assumes space_mono: "space d k m \<Longrightarrow> j \<le> k \<Longrightarrow> l \<le> m \<Longrightarrow> space d j l"
    and dedup_law: "ok d \<Longrightarrow> space d (Suc k) m \<Longrightarrow> data \<noteq> [] \<Longrightarrow> length data \<le> m \<Longrightarrow> length data < M64 \<Longrightarrow>
      \<exists>d' resp. dd data d = Some (d', Inr resp) \<and> ok d' \<and> space d' k (m - length data)
        \<and> address_holds (content d') (daddr resp) data \<and> effective_size resp \<le> length data
        \<and> (\<forall>a x. address_holds (content d) a x \<longrightarrow> address_holds (content d') a x)"

locale uploading = body B fresh used rest + deduplicator_service dd ok content space
  for B :: "'b body_ops" and fresh used rest and dd :: "bytes \<Rightarrow> ('d, dedupe_response) proc" and ok content space
begin

lemma upload_loop_holds:
  assumes "used b" and "bo_buffer_size B b = bs" and "ok d" and "space d (k + length (rest b)) (m + length (rest b))" and "length (rest b) < M64"
    and "address_holds (content d) (daddr rv) hashed" and "effective_size rv + length (rest b) < M64" and "effective_size rv \<le> length hashed"
  shows "\<exists>b' d' resp. upload_loop B dd bs rv hashed (b, d) = Some ((b', d'), Inr (resp, hashed @ rest b)) \<and> ok d' \<and> space d' k m
    \<and> address_holds (content d') (daddr resp) (hashed @ rest b) \<and> effective_size resp \<le> length (hashed @ rest b)
    \<and> (\<forall>a x. address_holds (content d) a x \<longrightarrow> address_holds (content d') a x)"
  using assms
proof (induction "length (rest b)" arbitrary: b d rv hashed rule: less_induct)
  case less
  obtain b1 where 1: "bo_consume B b = Some (b1, Inr ())" "fresh b1" "bo_buffer_size B b1 = bs" "rest b1 = rest b"
    using consume_law [OF less.prems(1)] less.prems(2) by auto
  obtain b2 data where 2: "bo_read B bs b1 = Some (b2, Inr data)" "used b2" "bo_buffer_size B b2 = bs" "rest b = data @ rest b2" "data = [] \<longrightarrow> rest b = []"
    using read_law [OF 1(2)] 1(3,4) by auto
  show ?case
  proof (cases "data = []")
    case True
    then have "rest b = []" using 2(5) by simp
    then show ?thesis using 1(1) 2(1) True less.prems(3,4,6,8) by (subst upload_loop.simps) auto
  next
    case False
    have len: "length (rest b) = length data + length (rest b2)" using 2(4) by simp
    obtain j where j: "length (rest b) = Suc j" "length (rest b2) \<le> j" using False len by (cases data) auto
    obtain d1 resp where d: "dd data d = Some (d1, Inr resp)" "ok d1" "space d1 (k + j) (m + length (rest b) - length data)"
      "address_holds (content d1) (daddr resp) data" "effective_size resp \<le> length data"
      "\<forall>a x. address_holds (content d) a x \<longrightarrow> address_holds (content d1) a x"
      using dedup_law [OF less.prems(3), of "k + j" "m + length (rest b)" data] less.prems(4,5) j(1) False len by auto
    let ?rv = "append_response rv resp"
    have e: "effective_size ?rv = effective_size rv + effective_size resp"
      using less.prems(7) d(5) len by (simp add: append_response_def add64_eq)
    have h: "address_holds (content d1) (daddr ?rv) (hashed @ data)"
      using d(4,6) less.prems(6) by (simp add: append_response_def append_address_def)
    have sp: "space d1 (k + length (rest b2)) (m + length (rest b2))" by (rule space_mono [OF d(3)]) (use j(2) len in simp_all)
    obtain b' d' resp' where "upload_loop B dd bs ?rv (hashed @ data) (b2, d1) = Some ((b', d'), Inr (resp', (hashed @ data) @ rest b2))" "ok d'" "space d' k m"
      "address_holds (content d') (daddr resp') ((hashed @ data) @ rest b2)" "effective_size resp' \<le> length ((hashed @ data) @ rest b2)"
      "\<forall>a x. address_holds (content d1) a x \<longrightarrow> address_holds (content d') a x"
      using less.hyps [OF _ 2(2,3) d(2) sp _ h] j len less.prems(5,7,8) d(5) e by auto
    then show ?thesis using 1(1) 2(1,4) False d(1,6) by (subst upload_loop.simps) auto
  qed
qed

lemma upload_holds:
  assumes "used b" and "ok d" and "space d (k + length (rest b)) (m + length (rest b))" and "length (rest b) < M64"
  shows "\<exists>b' d' resp. upload B dd (b, d) = Some ((b', d'), Inr (resp, rest b)) \<and> ok d' \<and> space d' k m
    \<and> address_holds (content d') (daddr resp) (rest b) \<and> effective_size resp \<le> length (rest b)
    \<and> (\<forall>a x. address_holds (content d) a x \<longrightarrow> address_holds (content d') a x)"
  using upload_loop_holds [OF assms(1) refl assms(2-4), of "\<lparr>effective_size = 0, daddr = []\<rparr>" "[]"] assms(4) by (simp add: upload_def)

end

subsection \<open>The deduplicators provide it\<close>

locale dedup_view = data_view V vinv vbytes live room
  for V :: "'v view_ops" and vinv vbytes live room +
  fixes conf :: deduplicator_config
    and capacity :: size_t
  assumes conf_ok: "0 < max_fragment_size conf"

sublocale dedup_view \<subseteq> local_dedup: deduplicator_service "deduplicate V conf capacity" "ld_ok vinv vbytes live" "\<lambda>d. vbytes (ld_storage d)" "\<lambda>d. room (ld_storage d)"
proof
  show "room (ld_storage d) k m \<Longrightarrow> j \<le> k \<Longrightarrow> l \<le> m \<Longrightarrow> room (ld_storage d) j l" for d :: "'v local_deduplicator" and k m j l
    by (rule room_mono)
  fix d :: "'v local_deduplicator" and k m and data :: bytes assume a: "ld_ok vinv vbytes live d" "room (ld_storage d) (Suc k) m" "data \<noteq> []" "length data \<le> m" "length data < M64"
  obtain d' resp where r: "deduplicate V conf capacity data d = Some (d', Inr resp)" "ld_ok vinv vbytes live d'"
    "view_extends vbytes live (ld_storage d) (ld_storage d')" "address_holds (vbytes (ld_storage d')) (daddr resp) data"
    "effective_size resp \<le> length data" "room (ld_storage d') k (m - length data)"
    using deduplicate_ok [OF a(1,5) conf_ok a(2,4), of capacity] by auto
  have "address_holds (vbytes (ld_storage d')) x y" if "address_holds (vbytes (ld_storage d)) x y" for x y
    using that r(3) unfolding view_extends_def by (rule address_holds_extends)
  then show "\<exists>d' resp. deduplicate V conf capacity data d = Some (d', Inr resp) \<and> ld_ok vinv vbytes live d' \<and> room (ld_storage d') k (m - length data)
      \<and> address_holds (vbytes (ld_storage d')) (daddr resp) data \<and> effective_size resp \<le> length data
      \<and> (\<forall>a x. address_holds (vbytes (ld_storage d)) a x \<longrightarrow> address_holds (vbytes (ld_storage d')) a x)"
    using r by blast
qed

sublocale data_view \<subseteq> noop_dedup: deduplicator_service "noop_deduplicate V" vinv vbytes room
proof
  show "room v k m \<Longrightarrow> j \<le> k \<Longrightarrow> l \<le> m \<Longrightarrow> room v j l" for v k m j l by (rule room_mono)
  fix v k m and data :: bytes assume a: "vinv v" "room v (Suc k) m" "data \<noteq> []" "length data \<le> m" "length data < M64"
  have o: "write_offsets_ok [0] (length data)" using a(3) by (simp add: write_offsets_ok_def)
  obtain v' addr where w: "vo_write V v data [0] = Some (v', Inr addr)" "vinv v'" "view_extends vbytes live v v'" "room v' k (m - length data)"
    "address_holds (vbytes v') addr data" using write_law [OF a(1,2,4) o] by auto
  have "address_holds (vbytes v') x y" if "address_holds (vbytes v) x y" for x y
    using that w(3) unfolding view_extends_def by (rule address_holds_extends)
  then show "\<exists>v' resp. noop_deduplicate V data v = Some (v', Inr resp) \<and> vinv v' \<and> room v' k (m - length data)
      \<and> address_holds (vbytes v') (daddr resp) data \<and> effective_size resp \<le> length data
      \<and> (\<forall>a x. address_holds (vbytes v) a x \<longrightarrow> address_holds (vbytes v') a x)"
    using w by (auto simp: noop_deduplicate_def)
qed

subsection \<open>An object in a cluster\<close>

locale object_service = dedup_view V vinv vbytes live room conf capacity + body B fresh used rest
  for V :: "'v view_ops" and vinv vbytes live room and conf capacity and B :: "'b body_ops" and fresh used rest

sublocale object_service \<subseteq> up: uploading B fresh used rest "deduplicate V conf capacity" "ld_ok vinv vbytes live" "\<lambda>d. vbytes (ld_storage d)" "\<lambda>d. room (ld_storage d)"
  by unfold_locales

lemma get_object_found:
  assumes inv: "dir_inv x" and m: "dir_abs x (rq_bucket rq) = Some (Plain m)" "m (rq_key rq) = Some (a, etag, mime)" and v: "rq_params rq ''versionId'' = None"
  shows "\<exists>x' ob. dir_get_object D (rq_bucket rq) (rq_key rq) None x = (x', Inr (Some ob)) \<and> dir_abs x' = dir_abs x
    \<and> ob_addr ob = Some a \<and> ob_size ob = data_size a \<and> ob_etag ob = etag \<and> ob_mime ob = mime"
proof -
  obtain x' r where g: "dir_get_object D (rq_bucket rq) (rq_key rq) None x = (x', r)" by fastforce
  have "refines D \<lparr>e_now = 0, e_uuid = []\<rparr> (Get_object (rq_bucket rq) (rq_key rq) None) x" by (rule get_object_refines [OF inv])
  then have "dir_abs x' = dir_abs x \<and> shows_content (rq_key rq) (m (rq_key rq)) True (answer Found r)" by (simp add: refines_def g m(1))
  then show ?thesis using g m(2) by (auto simp: shows_content_def answer_def split: sum.splits option.splits)
qed

lemma put_object_accepted:
  assumes x: "dir_inv x" "dir_abs x bucket = Some (Plain m)" "uuid_fresh e x" and ob: "ob_addr obj = Some a" "data_size a < 2 ^ 63"
  shows "\<exists>x'. dir_put_object e bucket obj x = Some (x', Inr None) \<and> dir_inv x'
    \<and> dir_abs x' = (dir_abs x)(bucket \<mapsto> Plain (m(ob_name obj \<mapsto> (a, ob_etag obj, ob_mime obj))))"
proof (cases "dir_put_object e bucket obj x")
  case None
  then show ?thesis using put_object_refines [OF x(1,3), of sample_db bucket obj] x(2) by (simp add: refines_def)
next
  case (Some r)
  then obtain x' ans where r: "dir_put_object e bucket obj x = Some (x', ans)" by (cases r) auto
  then have "safe_change x x' \<and> spec_step (Put_object bucket obj) (dir_abs x) (dir_abs x') (answer Stored ans)"
    using put_object_refines [OF x(1,3), of sample_db bucket obj] by (simp add: refines_def)
  then show ?thesis using r x(2) ob by (auto simp: safe_change_def answer_def split: sum.splits)
qed

context object_service
begin

lemma put_object_stored:
  assumes b: "used b" and d: "ld_ok vinv vbytes live d" and rm: "room (ld_storage d) (length (rest b)) (length (rest b))"
    and len: "length (rest b) < 2 ^ 63" and cl: "rq_content_length rq = Inr n"
    and x: "dir_inv x" "dir_abs x (rq_bucket rq) = Some (Plain m)" "uuid_fresh e x"
  shows "\<exists>b' d' x' res a mime. put_object_handle B V (deduplicate V conf capacity) md5 mb e rq (b, d, x) = Some ((b', d', x'), Inr res)
    \<and> ld_ok vinv vbytes live d' \<and> dir_inv x' \<and> address_holds (vbytes (ld_storage d')) a (rest b) \<and> data_size a = length (rest b)
    \<and> dir_abs x' = (dir_abs x)(rq_bucket rq \<mapsto> Plain (m(rq_key rq \<mapsto> (a, Some (to_hex (md5 (rest b))), mime))))
    \<and> (\<forall>a y. address_holds (vbytes (ld_storage d)) a y \<longrightarrow> address_holds (vbytes (ld_storage d')) a y)"
proof -
  have len': "length (rest b) < M64" using len by (simp add: M64_def)
  obtain b' d' resp where u: "upload B (deduplicate V conf capacity) (b, d) = Some ((b', d'), Inr (resp, rest b))" "ld_ok vinv vbytes live d'"
    "address_holds (vbytes (ld_storage d')) (daddr resp) (rest b)" "\<forall>a y. address_holds (vbytes (ld_storage d)) a y \<longrightarrow> address_holds (vbytes (ld_storage d')) a y"
    using up.upload_holds [of b d 0 0] b d rm len' by auto
  have sz: "data_size (daddr resp) = length (rest b)" using total_size_holds [OF u(3)] len' by (simp add: data_size_mod)
  let ?o = "new_object md5 rq resp (rest b)"
  obtain x' where ab: "dir_put_object e (rq_bucket rq) ?o x = Some (x', Inr None)" "dir_inv x'"
    "dir_abs x' = (dir_abs x)(rq_bucket rq \<mapsto> Plain (m(rq_key rq \<mapsto> (daddr resp, Some (to_hex (md5 (rest b))), ob_mime ?o))))"
    using put_object_accepted [OF x, of ?o "daddr resp"] sz len by (auto simp: new_object_def)
  have "put_object_handle B V (deduplicate V conf capacity) md5 mb e rq (b, d, x) = Some ((b', d', x'), Inr (set_effective_size mb (effective_size resp)
      (set_original_size mb (ob_size ?o) (res_set ''X-Amz-Version-Id'' None (res_set ''ETag'' (ob_etag ?o) (response_new 200))))))"
    using cl u(1) ab(1) by (simp add: put_object_handle_def safe_put_object_def Let_def)
  then show ?thesis using ab(2,3) u(2-4) sz by blast
qed

end

lemma header_names:
  "equals_nocase ''ETag'' ''ETag''" "equals_nocase ''Content-Length'' ''Content-Length''" "equals_nocase ''Content-Range'' ''Content-Range''"
  "\<not> equals_nocase ''X-Amz-Version-Id'' ''Content-Length''" "\<not> equals_nocase ''Last-Modified'' ''Content-Length''"
  "\<not> equals_nocase ''Content-Type'' ''Content-Length''" "\<not> equals_nocase ''ETag'' ''Content-Length''"
  "\<not> equals_nocase ''Content-Range'' ''Content-Length''" "\<not> equals_nocase ''Date'' ''Content-Length''"
  "\<not> equals_nocase ''x-amz-request-id'' ''Content-Length''" "\<not> equals_nocase ''Server'' ''Content-Length''"
  "\<not> equals_nocase ''X-Amz-Version-Id'' ''ETag''" "\<not> equals_nocase ''Last-Modified'' ''ETag''" "\<not> equals_nocase ''Content-Type'' ''ETag''"
  "\<not> equals_nocase ''Content-Range'' ''ETag''" "\<not> equals_nocase ''Date'' ''ETag''" "\<not> equals_nocase ''x-amz-request-id'' ''ETag''"
  "\<not> equals_nocase ''Server'' ''ETag''" "\<not> equals_nocase ''Content-Length'' ''ETag''"
  "\<not> equals_nocase ''Content-Length'' ''Content-Range''" "\<not> equals_nocase ''Date'' ''Content-Range''"
  "\<not> equals_nocase ''x-amz-request-id'' ''Content-Range''" "\<not> equals_nocase ''Server'' ''Content-Range''"
  by code_simp+

lemma res_status_set [simp]: "res_status (res_set name value r) = res_status r"
  by (simp add: res_set_def)

lemma res_header_status [simp]: "res_header (r\<lparr>res_status := s\<rparr>) name = res_header r name" "res_header (response_new s) name = None"
  by (simp_all add: res_header_def response_new_def)

lemma default_headers:
  "res_header (set_default_headers fixdate ob r) ''ETag'' = ob_etag ob"
  "res_header (set_default_headers fixdate ob r) ''Content-Length'' = res_header r ''Content-Length''"
  "res_status (set_default_headers fixdate ob r) = res_status r"
  by (simp_all add: set_default_headers_def res_header_set header_names)

lemma sent_headers:
  assumes "res_header r ''Content-Length'' = None"
  shows "res_header (response_headers B req_id date r b) ''Content-Length'' = map_option nat_str (bo_length B b)"
    and "res_header (response_headers B req_id date r b) ''ETag'' = res_header r ''ETag''"
    and "res_header (response_headers B req_id date r b) ''Content-Range'' = res_header r ''Content-Range''"
    and "res_status (response_headers B req_id date r b) = res_status r"
  using assms by (simp_all add: response_headers_def res_header_set header_names Let_def)

context data_view
begin

text \<open>The response to a download: the bytes of the object, announced by the header.\<close>

lemma get_object_sends:
  assumes v: "vinv v" "address_holds (vbytes v) a data" "length data < M64" and bs: "0 < bs"
    and x: "dir_inv x" "dir_abs x (rq_bucket rq) = Some (Plain m)" "m (rq_key rq) = Some (a, etag, mime)"
    and q: "rq_params rq ''versionId'' = None" "rq_header rq ''Range'' = None"
  shows "\<exists>x' res i h hdr. get_object_handle D fixdate rq x = Some (x', Inr (res, Some (i, a))) \<and> dir_abs x' = dir_abs x
    \<and> response_write (read_handle_ops V) req_id date res (read_handle_new v a bs) = Some (h, Inr (hdr, data))
    \<and> res_status hdr = 200 \<and> res_header hdr ''Content-Length'' = Some (nat_str (length data)) \<and> res_header hdr ''ETag'' = etag"
proof -
  obtain x' ob where g: "dir_get_object D (rq_bucket rq) (rq_key rq) None x = (x', Inr (Some ob))" "dir_abs x' = dir_abs x"
    "ob_addr ob = Some a" "ob_size ob = data_size a" "ob_etag ob = etag" using get_object_found [OF x q(1), of D] by blast
  let ?res = "set_default_headers fixdate ob (response_new 200)"
  have "get_object_handle D fixdate rq x = Some (x', Inr (?res, Some (ob_id ob, a)))"
    using g q by (simp add: get_object_handle_def object_part_def)
  moreover obtain h where "response_write (read_handle_ops V) req_id date ?res (read_handle_new v a bs) =
      Some (h, Inr (response_headers (read_handle_ops V) req_id date ?res (read_handle_new v a bs), data))" using object_response [OF v bs] by blast
  moreover have "bo_length (read_handle_ops V) (read_handle_new v a bs) = Some (length data)"
    using read_handle_new_ok(4) [OF v bs] by (simp add: read_handle_ops_def)
  moreover have "res_header ?res ''Content-Length'' = None" by (simp add: default_headers)
  ultimately show ?thesis using g(2,5) by (auto simp: sent_headers default_headers response_new_def)
qed

text \<open>The same for the part of the object between two positions.\<close>

lemma get_range_sends:
  assumes v: "vinv v" "address_holds (vbytes v) a data" "length data < M64" and bs: "0 < bs"
    and x: "dir_inv x" "dir_abs x (rq_bucket rq) = Some (Plain m)" "m (rq_key rq) = Some (a, etag, mime)"
    and q: "rq_params rq ''versionId'' = None" "rq_header rq ''Range'' = Some (''bytes='' @ nat_str i @ ''-'' @ nat_str j)"
    and ij: "i \<le> j" "j + 1 < M64" "i < length data"
  shows "\<exists>x' res k a' h hdr. get_object_handle D fixdate rq x = Some (x', Inr (res, Some (k, a')))
    \<and> response_write (read_handle_ops V) req_id date res (read_handle_new v a' bs) = Some (h, Inr (hdr, slice i (j + 1 - i) data))
    \<and> res_status hdr = 206
    \<and> res_header hdr ''Content-Range'' = Some (''bytes '' @ nat_str i @ ''-'' @ nat_str (min j (length data - 1)) @ ''/'' @ nat_str (length data))
    \<and> res_header hdr ''Content-Length'' = Some (nat_str (min (j + 1) (length data) - i))"
proof -
  obtain x' ob where g: "dir_get_object D (rq_bucket rq) (rq_key rq) None x = (x', Inr (Some ob))"
    "ob_addr ob = Some a" "ob_size ob = data_size a" using get_object_found [OF x q(1), of D] by blast
  let ?a = "range_address a i (j + 1)" and ?s = "slice i (j + 1 - i) data"
  have sz: "data_size a = length data" using total_size_holds [OF v(2)] v(3) by (simp add: data_size_mod)
  have r: "address_holds (vbytes v) ?a ?s" using range_holds [OF v(2,3), of i "j + 1"] ij by simp
  have ls: "length ?s = min (j + 1) (length data) - i" using ij by (simp add: length_slice min_def)
  then have sl: "length ?s < M64" "0 < length ?s" using v(3) ij by (auto simp: min_def)
  then have sz': "data_size ?a = length ?s" using total_size_holds [OF r] by (simp add: data_size_mod)
  have ne: "a \<noteq> []" using v(2) ij(3) by auto
  have e: "add64 i (length ?s) = min (j + 1) (length data)" "sub64 (min (j + 1) (length data)) 1 = min j (length data - 1)"
    using ij v(3) ls by (auto simp: add64_eq sub64_eq min_def)
  let ?hdr = "set_default_headers fixdate ob (response_new 200)"
  let ?res = "res_set ''Content-Range'' (Some (''bytes '' @ nat_str i @ ''-'' @ nat_str (min j (length data - 1)) @ ''/'' @ nat_str (length data))) (?hdr\<lparr>res_status := 206\<rparr>)"
  have p: "parse_range_header (''bytes='' @ nat_str i @ ''-'' @ nat_str j) (data_size a) = Inr [\<lparr>br_start = i, br_end = j + 1\<rparr>]"
    using ij by (intro parse_range_exact) auto
  have "object_part fixdate (rq_header rq ''Range'') ob = Some (Inr (?res, ?a))"
    using g(2,3) q(2) p ne sz sz' e by (simp add: object_part_def bindE_def apply_range_def append_address_def range_to_string_def Let_def)
  then have h: "get_object_handle D fixdate rq x = Some (x', Inr (?res, Some (ob_id ob, ?a)))"
    using g q(1) by (simp add: get_object_handle_def)
  obtain h where w: "response_write (read_handle_ops V) req_id date ?res (read_handle_new v ?a bs) =
      Some (h, Inr (response_headers (read_handle_ops V) req_id date ?res (read_handle_new v ?a bs), ?s))" using object_response [OF v(1) r sl(1) bs] by blast
  have "bo_length (read_handle_ops V) (read_handle_new v ?a bs) = Some (length ?s)"
    using read_handle_new_ok(4) [OF v(1) r sl(1) bs] by (simp add: read_handle_ops_def)
  moreover have "res_header ?res ''Content-Length'' = None" by (simp add: res_header_set header_names default_headers)
  moreover have "res_header ?res ''Content-Range'' = Some (''bytes '' @ nat_str i @ ''-'' @ nat_str (min j (length data - 1)) @ ''/'' @ nat_str (length data))"
    by (simp add: res_header_set header_names)
  ultimately show ?thesis using h w ls by (intro exI conjI) (assumption | simp add: sent_headers)+
qed

end

subsection \<open>A cluster of local storages\<close>

definition default_dedup_config :: deduplicator_config where
  "default_dedup_config = \<lparr>min_fragment_size = 32, max_fragment_size = DEFAULT_PAGE_SIZE\<rparr>"

lemma local_object_service:
  assumes "os_ok s" and "kv_laws K" and "0 < max_fragment_size conf"
  shows "object_service (rr_ops (local_ops s K)) (rr_vinv (local_inv K)) (rr_bytes ds_bytes m_write_offset) (rr_live ds_bytes m_write_offset (ds_tracked K))
    (rr_room m_write_offset ds_fits ds_grants) conf (raw_body_ops segment_recv) (rb_fresh concat) (rb_ok concat) (rb_rest concat)"
  using local_rr_contract [OF assms(1,2)] assms(3) segments.raw.body_axioms
  by (simp add: object_service_def dedup_view_def dedup_view_axioms_def)

interpretation cluster: object_service "rr_ops (local_ops plain_os map_kv)" "rr_vinv (local_inv map_kv)" "rr_bytes ds_bytes m_write_offset"
  "rr_live ds_bytes m_write_offset (ds_tracked map_kv)" "rr_room m_write_offset ds_fits ds_grants" default_dedup_config capacity
  "raw_body_ops segment_recv" "rb_fresh concat" "rb_ok concat" "rb_rest concat" for capacity
  by (rule local_object_service) (simp_all add: map_kv_laws default_dedup_config_def DEFAULT_PAGE_SIZE_def KIBI_BYTE_def)

text \<open>
  C2: An object that is uploaded to a bucket without versions, its body arriving in any segments
  on the connection, cut into fragments and deduplicated against the data already stored in a
  round-robin group of local storages, is what the next download of the key sends, with its
  length and the hash of its data in the header.
\<close>

theorem upload_download:
  fixes s K conf capacity d x
  assumes "os_ok s" and "kv_laws K" and "0 < max_fragment_size conf"
    and "ld_ok (rr_vinv (local_inv K)) (rr_bytes ds_bytes m_write_offset) (rr_live ds_bytes m_write_offset (ds_tracked K)) d"
    and "rb_ok concat b" and "rb_rest concat b = data" and "length data < 2 ^ 63"
    and "rr_room m_write_offset ds_fits ds_grants (ld_storage d) (length data) (length data)"
    and "rq_content_length put = Inr n" and "dir_inv x" and "dir_abs x (rq_bucket put) = Some (Plain m)" and "uuid_fresh e x"
    and "rq_bucket get = rq_bucket put" and "rq_key get = rq_key put" and "rq_params get ''versionId'' = None" and "rq_header get ''Range'' = None"
    and "0 < bs"
  shows "\<exists>b' d' x' res x'' res' i a h hdr.
    put_object_handle (raw_body_ops segment_recv) (rr_ops (local_ops s K)) (deduplicate (rr_ops (local_ops s K)) conf capacity) md5 mb e put (b, d, x)
      = Some ((b', d', x'), Inr res)
    \<and> get_object_handle D fixdate get x' = Some (x'', Inr (res', Some (i, a)))
    \<and> response_write (read_handle_ops (rr_ops (local_ops s K))) req_id date res' (read_handle_new (ld_storage d') a bs) = Some (h, Inr (hdr, data))
    \<and> res_status hdr = 200 \<and> res_header hdr ''Content-Length'' = Some (nat_str (length data)) \<and> res_header hdr ''ETag'' = Some (to_hex (md5 data))"
proof -
  let ?B = "rr_bytes ds_bytes m_write_offset"
  note C = local_object_service [OF assms(1-3)]
  obtain b' d' x' res a mime where p: "put_object_handle (raw_body_ops segment_recv) (rr_ops (local_ops s K)) (deduplicate (rr_ops (local_ops s K)) conf capacity)
      md5 mb e put (b, d, x) = Some ((b', d', x'), Inr res)" "rr_vinv (local_inv K) (ld_storage d')" "dir_inv x'" "address_holds (?B (ld_storage d')) a data"
    "dir_abs x' = (dir_abs x)(rq_bucket put \<mapsto> Plain (m(rq_key put \<mapsto> (a, Some (to_hex (md5 data)), mime))))"
    using object_service.put_object_stored [OF C assms(5,4) _ _ assms(9-12), where ?md5.0 = md5 and capacity = capacity and mb = mb] assms(6-8) by (auto simp: ld_ok_def)
  have l: "length data < M64" using assms(7) by (simp add: M64_def)
  let ?m = "m(rq_key put \<mapsto> (a, Some (to_hex (md5 data)), mime))"
  have m: "dir_abs x' (rq_bucket get) = Some (Plain ?m)" "?m (rq_key get) = Some (a, Some (to_hex (md5 data)), mime)"
    using p(5) assms(13,14) by simp_all
  show ?thesis
    using data_view.get_object_sends [OF local_rr_contract [OF assms(1,2)] p(2,4) l assms(17) p(3) m assms(15,16), of D fixdate req_id date] p(1)
    by (elim exE conjE) (intro exI conjI; assumption)
qed

definition sample_request :: "verb \<Rightarrow> (bytes \<times> bytes) list \<Rightarrow> s3_request" where
  "sample_request method hs = \<lparr>rq_method = method, rq_path = ''/bucket/key'', rq_params = \<lambda>_. None, rq_fields = hs\<rparr>"

lemma sample_request_simps:
  "rq_bucket (sample_request method hs) = ''bucket''" "rq_key (sample_request method hs) = ''key''"
  "rq_params (sample_request method hs) p = None" "rq_header (sample_request method []) name = None"
  using path_parts [of "''bucket''" "''key''"] by (simp_all add: sample_request_def rq_bucket_def rq_key_def rq_header_def)

definition sample_body :: "bytes list raw_body" where
  "sample_body = \<lparr>rb_stream = ss_new [''he'', ''llo''] 8, rb_length = 5\<rparr>"

lemma sample_cluster_ok:
  "ld_ok (rr_vinv (local_inv map_kv)) B L sample_dedup" "rr_room m_write_offset ds_fits ds_grants (ld_storage sample_dedup) 5 5"
proof -
  let ?st = "sample_store\<lparr>m_conf := \<lparr>max_file_size = 8, max_data_store_size = 65536, page_size = 4\<rparr>\<rparr>"
  have st: "rr_storages sample_rr = [?st]" "rr_lb sample_rr = \<lparr>lb_services = [0], lb_robin = None\<rparr>" by (simp_all add: sample_rr_def)
  have "ds_inv ?st" using sample_store_inv by (simp add: ds_inv_def sample_store_def)
  then have "rr_vinv (local_inv map_kv) sample_rr"
    by (simp add: rr_vinv_def rr_inv_def sample_rr_def local_inv_def lb_ok_def get_stripe_size_def DEFAULT_PAGE_SIZE_def KIBI_BYTE_def
        bounded_counts_def map_kv_def sample_store_def mul64_def M64_def)
  then show "ld_ok (rr_vinv (local_inv map_kv)) B L sample_dedup"
    by (simp add: ld_ok_def sample_dedup_def cache_ok_def set_ok_def fs_new_def)
  show "rr_room m_write_offset ds_fits ds_grants (ld_storage sample_dedup) 5 5"
    by (simp add: rr_room_def sample_dedup_def st ds_fits_def ds_grants_def sample_store_def DEFAULT_PAGE_SIZE_def KIBI_BYTE_def M64_def)
qed

lemma sample_directory_ok:
  "dir_inv sample_directory" "dir_abs sample_directory ''bucket'' = Some (Plain (\<lambda>_. None))" "uuid_fresh e sample_directory"
proof -
  show "dir_inv sample_directory" using reachable_ok [OF sample_steps(1)] by simp
  show "dir_abs sample_directory ''bucket'' = Some (Plain (\<lambda>_. None))"
    by (simp add: dir_abs_def live_bucket_def sample_directory_def dir_new_def bucket_view_def contents_def [abs_def] current_def)
  show "uuid_fresh e sample_directory" by (simp add: uuid_fresh_def sample_directory_def dir_new_def)
qed

lemma sample_upload_inputs:
  "rq_content_length (sample_request PUT [(''Content-Length'', ''5'')]) = Inr 5"
  "rb_ok concat sample_body" "rb_rest concat sample_body = ''hello''"
  "rr_room m_write_offset ds_fits ds_grants (ld_storage sample_dedup) (length ''hello'') (length ''hello'')"
proof -
  have "equals_nocase ''Content-Length'' ''Content-Length''" by code_simp
  moreover have "stoull ''5'' = Inr 5" using stoull_nat_str [of 5] by (simp add: nat_str.simps M64_def)
  ultimately show "rq_content_length (sample_request PUT [(''Content-Length'', ''5'')]) = Inr 5"
    by (simp add: rq_content_length_def rq_header_def sample_request_def)
  show "rb_ok concat sample_body" "rb_rest concat sample_body = ''hello''"
    by (simp_all add: rb_ok_def rb_rest_def sample_body_def ss_new_def ss_ok_def ss_rest_def ss_buffered_def slice_def M64_def)
  show "rr_room m_write_offset ds_fits ds_grants (ld_storage sample_dedup) (length ''hello'') (length ''hello'')"
    using sample_cluster_ok(2) by (simp add: eval_nat_numeral)
qed

theorem upload_download_witness:
  "\<exists>b' d' x' res x'' res' i a h hdr.
    put_object_handle (raw_body_ops segment_recv) (rr_ops (local_ops slow_os map_kv)) (deduplicate (rr_ops (local_ops slow_os map_kv)) default_dedup_config 4)
      (\<lambda>s. s) (\<lambda>_. []) \<lparr>e_now = 0, e_uuid = ''u''\<rparr> (sample_request PUT [(''Content-Length'', ''5'')]) (sample_body, sample_dedup, sample_directory)
      = Some ((b', d', x'), Inr res)
    \<and> get_object_handle sample_db (\<lambda>_. []) (sample_request GET []) x' = Some (x'', Inr (res', Some (i, a)))
    \<and> response_write (read_handle_ops (rr_ops (local_ops slow_os map_kv))) [] [] res' (read_handle_new (ld_storage d') a 4096) = Some (h, Inr (hdr, ''hello''))
    \<and> res_status hdr = 200 \<and> res_header hdr ''Content-Length'' = Some (nat_str (length ''hello'')) \<and> res_header hdr ''ETag'' = Some (to_hex ''hello'')"
  by (rule upload_download [OF slow_os_ok map_kv_laws _ sample_cluster_ok(1), where m = "\<lambda>_. None" and n = 5])
    (simp_all add: sample_upload_inputs [simplified] sample_directory_ok sample_request_simps default_dedup_config_def DEFAULT_PAGE_SIZE_def KIBI_BYTE_def)

text \<open>
  C22: A download of a byte range \<open>i-j\<close> that begins inside the object is answered with status 206,
  exactly the bytes from \<open>i\<close> to \<open>j\<close> (or to the end), and a header that names the positions, the
  length of the part and the length of the object.
\<close>

theorem ranged_download:
  assumes "os_ok s" and "kv_laws K" and "rr_vinv (local_inv K) v" and "address_holds (rr_bytes ds_bytes m_write_offset v) a data" and "length data < M64"
    and "0 < bs" and "dir_inv x" and "dir_abs x (rq_bucket rq) = Some (Plain m)" and "m (rq_key rq) = Some (a, etag, mime)"
    and "rq_params rq ''versionId'' = None" and "rq_header rq ''Range'' = Some (''bytes='' @ nat_str i @ ''-'' @ nat_str j)"
    and "i \<le> j" and "j + 1 < M64" and "i < length data"
  shows "\<exists>x' res k a' h hdr. get_object_handle D fixdate rq x = Some (x', Inr (res, Some (k, a')))
    \<and> response_write (read_handle_ops (rr_ops (local_ops s K))) req_id date res (read_handle_new v a' bs) = Some (h, Inr (hdr, slice i (j + 1 - i) data))
    \<and> res_status hdr = 206
    \<and> res_header hdr ''Content-Range'' = Some (''bytes '' @ nat_str i @ ''-'' @ nat_str (min j (length data - 1)) @ ''/'' @ nat_str (length data))
    \<and> res_header hdr ''Content-Length'' = Some (nat_str (min (j + 1) (length data) - i))"
  by (rule data_view.get_range_sends [OF local_rr_contract [OF assms(1,2)] assms(3-14)])

lemma sample_upload:
  "\<exists>b' d' x' res a mime.
    put_object_handle (raw_body_ops segment_recv) (rr_ops (local_ops plain_os map_kv)) (deduplicate (rr_ops (local_ops plain_os map_kv)) default_dedup_config 4)
      (\<lambda>s. s) (\<lambda>_. []) \<lparr>e_now = 0, e_uuid = ''u''\<rparr> (sample_request PUT [(''Content-Length'', ''5'')]) (sample_body, sample_dedup, sample_directory)
      = Some ((b', d', x'), Inr res)
    \<and> rr_vinv (local_inv map_kv) (ld_storage d') \<and> dir_inv x' \<and> address_holds (rr_bytes ds_bytes m_write_offset (ld_storage d')) a ''hello''
    \<and> dir_abs x' = (dir_abs sample_directory)(''bucket'' \<mapsto> Plain [''key'' \<mapsto> (a, Some (to_hex ''hello''), mime)])"
proof -
  have r: "rr_room m_write_offset ds_fits ds_grants (ld_storage sample_dedup) (length (rb_rest concat sample_body)) (length (rb_rest concat sample_body))"
    "length (rb_rest concat sample_body) < 2 ^ 63"
    "dir_abs sample_directory (rq_bucket (sample_request PUT [(''Content-Length'', ''5'')])) = Some (Plain (\<lambda>_. None))"
    using sample_upload_inputs(4) by (simp_all add: sample_upload_inputs(3) sample_request_simps sample_directory_ok(2))
  show ?thesis
    using cluster.put_object_stored [OF sample_upload_inputs(2) sample_cluster_ok(1) r(1,2) sample_upload_inputs(1) sample_directory_ok(1) r(3) sample_directory_ok(3),
        where ?md5.0 = "\<lambda>s. s" and capacity = 4 and mb = "\<lambda>_. []" and e = "\<lparr>e_now = 0, e_uuid = ''u''\<rparr>"]
    unfolding ld_ok_def sample_upload_inputs(3) sample_request_simps
    by (elim exE conjE) (intro exI conjI; assumption)
qed

theorem ranged_download_witness:
  "\<exists>b' d' x' res x'' res' k a' h hdr.
    put_object_handle (raw_body_ops segment_recv) (rr_ops (local_ops plain_os map_kv)) (deduplicate (rr_ops (local_ops plain_os map_kv)) default_dedup_config 4)
      (\<lambda>s. s) (\<lambda>_. []) \<lparr>e_now = 0, e_uuid = ''u''\<rparr> (sample_request PUT [(''Content-Length'', ''5'')]) (sample_body, sample_dedup, sample_directory)
      = Some ((b', d', x'), Inr res)
    \<and> get_object_handle sample_db (\<lambda>_. []) (sample_request GET [(''Range'', ''bytes=1-3'')]) x' = Some (x'', Inr (res', Some (k, a')))
    \<and> response_write (read_handle_ops (rr_ops (local_ops plain_os map_kv))) [] [] res' (read_handle_new (ld_storage d') a' 4096) = Some (h, Inr (hdr, ''ell''))
    \<and> res_status hdr = 206"
proof -
  obtain b' d' x' res a mime where u:
    "put_object_handle (raw_body_ops segment_recv) (rr_ops (local_ops plain_os map_kv)) (deduplicate (rr_ops (local_ops plain_os map_kv)) default_dedup_config 4)
      (\<lambda>s. s) (\<lambda>_. []) \<lparr>e_now = 0, e_uuid = ''u''\<rparr> (sample_request PUT [(''Content-Length'', ''5'')]) (sample_body, sample_dedup, sample_directory)
      = Some ((b', d', x'), Inr res)"
    "rr_vinv (local_inv map_kv) (ld_storage d')" "dir_inv x'" "address_holds (rr_bytes ds_bytes m_write_offset (ld_storage d')) a ''hello''"
    "dir_abs x' = (dir_abs sample_directory)(''bucket'' \<mapsto> Plain [''key'' \<mapsto> (a, Some (to_hex ''hello''), mime)])"
    using sample_upload by (elim exE conjE)
  let ?rq = "sample_request GET [(''Range'', ''bytes=1-3'')]"
  have "equals_nocase ''Range'' ''Range''" by code_simp
  then have r: "rq_header ?rq ''Range'' = Some (''bytes='' @ nat_str 1 @ ''-'' @ nat_str 3)"
    by (simp add: rq_header_def sample_request_def nat_str.simps)
  have "slice 1 (3 + 1 - 1) ''hello'' = ''ell''" by (simp add: slice_def eval_nat_numeral)
  then show ?thesis
    using ranged_download [OF plain_os_ok map_kv_laws u(2,4) _ _ u(3) _ _ _ r, of 4096 "[''key'' \<mapsto> (a, Some (to_hex ''hello''), mime)]"
        "Some (to_hex ''hello'')" mime sample_db "\<lambda>_. []" "[]" "[]"] u(1,5)
    by (fastforce simp: sample_request_simps M64_def)
qed

end
