(* ===== verification/Vrm_Xml.thy ===== *)
theory Vrm_Xml
  imports Vrm_Prelude
begin

text \<open>
  Trees of named nodes, as the commands hand them to the XML writer and get them from the XML
  parser (\<open>common/utils/xml_parser.cpp\<close>, \<open>put\<close> in \<open>entrypoint/http/response.h\<close>). Parsing and printing
  are done by the property tree library; the parser and its conversion of numbers are arguments.
\<close>

datatype node = Leaf bytes | Number nat | Flag bool | Tree "(bytes \<times> node) list"

definition put_node :: "bytes \<Rightarrow> bytes option \<Rightarrow> (bytes \<times> node) list" where
  "put_node key v = (case v of None \<Rightarrow> [] | Some x \<Rightarrow> [(key, Leaf x)])"

fun node_text :: "node \<Rightarrow> bytes list" where
  "node_text (Leaf t) = [t]"
| "node_text nd = []"

fun node_children :: "bytes \<Rightarrow> node \<Rightarrow> node list" where
  "node_children key (Tree fs) = map snd (filter (\<lambda>(k, v). k = key) fs)"
| "node_children key nd = []"

record xml_library =
  xl_parse :: "bytes \<Rightarrow> node option"
  xl_number :: "bytes \<Rightarrow> nat option"

text \<open>The nodes at a path; a star stands for any name, except at the end of the path.\<close>

fun get_nodes :: "bytes list \<Rightarrow> node \<Rightarrow> node list res" where
  "get_nodes [] nd = Inl Runtime_error"
| "get_nodes [name] nd = Inr (node_children name nd)"
| "get_nodes (head # path) nd =
     (case nd of
        Tree fs \<Rightarrow>
          foldr (\<lambda>(k, child) acc. if head = ''*'' \<or> k = head then bindE (get_nodes path child) (\<lambda>xs. bindE acc (\<lambda>ys. Inr (xs @ ys))) else acc) fs (Inr [])
      | _ \<Rightarrow> Inr [])"

definition get_text :: "bytes \<Rightarrow> node \<Rightarrow> bytes option" where
  "get_text name nd =
     (case node_children name nd of
        [] \<Rightarrow> None
      | c # _ \<Rightarrow> (case c of Leaf t \<Rightarrow> Some t | _ \<Rightarrow> Some []))"

definition get_number :: "xml_library \<Rightarrow> bytes \<Rightarrow> node \<Rightarrow> nat option" where
  "get_number X name nd = Option.bind (get_text name nd) (xl_number X)"

lemma put_node_children [simp]:
  "filter (\<lambda>(k, v). k = key) (put_node k' v) = (if k' = key then put_node k' v else [])"
  by (simp add: put_node_def split: option.split)

lemma get_nodes_pair:
  "get_nodes [a, b] (Tree [(a, Tree fs)]) = Inr (map snd (filter (\<lambda>(k, v). k = b) fs))"
  by simp

end
