(* ===== verification/Vrm_Reply.thy ===== *)
theory Vrm_Reply
  imports Vrm_Object Vrm_Xml
begin

text \<open>
  What a command answers: the header of a response and its body, which is a text, a tree that is
  written as XML, or the data of a locked object (\<open>entrypoint/http/response.cpp\<close>), and the answers to
  errors (\<open>entrypoint/http/command_exception.cpp\<close>). The texts of exceptions are not part of their
  model; \<open>what\<close> gives them.
\<close>

datatype answer =
    Text bytes
  | Xml node
  | Object_data nat address

record reply =
  rp_head :: response
  rp_body :: answer

definition plain_reply :: "response \<Rightarrow> reply" where
  "plain_reply r = \<lparr>rp_head = r, rp_body = Text []\<rparr>"

definition xml_reply :: "response \<Rightarrow> node \<Rightarrow> reply" where
  "xml_reply r nd = \<lparr>rp_head = res_set ''Content-Type'' (Some ''application/xml'') r, rp_body = Xml nd\<rparr>"

definition error_response :: "nat \<Rightarrow> bytes \<Rightarrow> bytes \<Rightarrow> reply" where
  "error_response status code reason =
     xml_reply (response_new status) (Tree [(''Error'', Tree [(''Code'', Leaf code), (''Message'', Leaf reason)])])"

text \<open>An exception that is not a \<open>command_exception\<close> becomes an internal error.\<close>

definition make_response :: "(exn \<Rightarrow> bytes) \<Rightarrow> exn \<Rightarrow> reply" where
  "make_response what err =
     (case err of
        Command_exception status code \<Rightarrow> error_response status code (what err)
      | _ \<Rightarrow> error_response 500 ''InternalError'' ''Internal server error.'')"

datatype error_type =
    Bucket_already_exists | Bucket_not_empty | Object_not_found | Bucket_not_found | Storage_limit_exceeded
  | Invalid_bucket_name | Internal_network_error | Busy | Service_unavailable | Unknown_error

fun command_exception_of :: "error_type \<Rightarrow> exn" where
  "command_exception_of Bucket_already_exists = Command_exception 409 ''BucketAlreadyExists''"
| "command_exception_of Bucket_not_empty = Command_exception 409 ''BucketNotEmpty''"
| "command_exception_of Object_not_found = Command_exception 404 ''NoSuchKey''"
| "command_exception_of Bucket_not_found = Command_exception 404 ''NoSuchBucket''"
| "command_exception_of Storage_limit_exceeded = Command_exception 507 ''InsufficientCapacity''"
| "command_exception_of Invalid_bucket_name = Command_exception 400 ''InvalidBucketName''"
| "command_exception_of Internal_network_error = Command_exception 500 ''InternalError''"
| "command_exception_of Busy = Command_exception 503 ''SlowDown''"
| "command_exception_of Service_unavailable = Command_exception 503 ''ServiceUnavailable''"
| "command_exception_of Unknown_error = Command_exception 500 ''UnknownError''"

text \<open>Every error answer says that it is one: no exception becomes a success.\<close>

lemma res_set_status [simp]: "res_status (res_set k v r) = res_status r"
  by (simp add: res_set_def)

lemma response_new_status [simp]: "res_status (response_new n) = n"
  by (simp add: response_new_def)

lemma make_response_status:
  "res_status (rp_head (make_response what err)) = (case err of Command_exception status _ \<Rightarrow> status | _ \<Rightarrow> 500)"
  by (simp add: make_response_def error_response_def xml_reply_def split: exn.split)

lemma named_errors_are_errors: "400 \<le> res_status (rp_head (make_response what (command_exception_of t)))"
  by (cases t) (simp_all add: make_response_status)

end
