(* ===== verification/Vrm_Listing.thy ===== *)
theory Vrm_Listing
  imports Vrm_Object Vrm_Xml "HOL-Library.List_Lexorder" "HOL-Library.Char_ord"
begin

text \<open>
  Listings (\<open>entrypoint/utils.cpp\<close>, \<open>commands/s3/list_objects.cpp\<close>, \<open>list_objects_v2.cpp\<close>,
  \<open>list_object_versions.cpp\<close>, \<open>list_buckets.cpp\<close>): names with a common prefix are collapsed, the result
  is cut into pages, and a page names the key from which the next one continues. The answer is the
  tree that is handed to the XML writer. The main result is that a client that follows the pages
  gets every object, provided that no name is the beginning of another one.
\<close>

subsection \<open>Common prefixes\<close>

record collapsed_objects =
  co_prefix :: "bytes option"
  co_object :: "object option"

definition find_str_from :: "bytes \<Rightarrow> nat \<Rightarrow> bytes \<Rightarrow> nat option" where
  "find_str_from pat pos s = (if length s < pos then None else map_option ((+) pos) (find_str pat (drop pos s)))"

fun collapse_loop :: "bytes option \<Rightarrow> nat \<Rightarrow> bytes \<Rightarrow> object list \<Rightarrow> collapsed_objects list" where
  "collapse_loop delimiter pos previous [] = []"
| "collapse_loop delimiter pos previous (ob # obs) =
     (case (case delimiter of None \<Rightarrow> None | Some d \<Rightarrow> find_str_from d pos (ob_name ob)) of
        Some i \<Rightarrow>
          (let p = take (i + 1) (ob_name ob)
           in if previous \<noteq> p then \<lparr>co_prefix = Some p, co_object = None\<rparr> # collapse_loop delimiter pos p obs
              else collapse_loop delimiter pos previous obs)
      | None \<Rightarrow> \<lparr>co_prefix = None, co_object = Some ob\<rparr> # collapse_loop delimiter pos previous obs)"

definition collapse :: "object list \<Rightarrow> bytes option \<Rightarrow> bytes option \<Rightarrow> collapsed_objects list" where
  "collapse objects delimiter pre = collapse_loop delimiter (case pre of None \<Rightarrow> 0 | Some p \<Rightarrow> length p) [] objects"

text \<open>The percent encoding is a library function.\<close>

definition encoder :: "(bytes \<Rightarrow> bytes) \<Rightarrow> bytes option \<Rightarrow> (bytes \<Rightarrow> bytes) res" where
  "encoder url_encode encoding_type =
     (case encoding_type of
        None \<Rightarrow> Inr (\<lambda>s. s)
      | Some t \<Rightarrow> if t \<noteq> ''url'' then Inl (Command_exception 400 ''InvalidArgument'') else Inr url_encode)"

subsection \<open>Pages\<close>

record page =
  pg_contents :: "object list"
  pg_prefixes :: "bytes list"
  pg_truncated :: bool
  pg_next :: "bytes option"

fun page_loop :: "object list \<Rightarrow> bool \<Rightarrow> size_t \<Rightarrow> nat \<Rightarrow> page \<Rightarrow> collapsed_objects list \<Rightarrow> page" where
  "page_loop objects mark max_keys avail pg [] = pg"
| "page_loop objects mark max_keys avail pg (c # cs) =
     (let pg' = (case co_prefix c of
                   Some p \<Rightarrow> pg\<lparr>pg_prefixes := pg_prefixes pg @ [p]\<rparr>
                 | None \<Rightarrow> (case co_object c of Some ob \<Rightarrow> pg\<lparr>pg_contents := pg_contents pg @ [ob]\<rparr> | None \<Rightarrow> pg))
      in if length (pg_contents pg') + length (pg_prefixes pg') = max_keys \<and> max_keys < avail
         then pg'\<lparr>pg_truncated := True,
                  pg_next := if mark then Some (case co_prefix c of Some p \<Rightarrow> p | None \<Rightarrow> ob_name (objects ! (max_keys - 1))) else None\<rparr>
         else page_loop objects mark max_keys avail pg' cs)"

definition object_page :: "object list \<Rightarrow> bytes option \<Rightarrow> bytes option \<Rightarrow> bool \<Rightarrow> size_t \<Rightarrow> page" where
  "object_page objects delimiter pre mark max_keys =
     (let pg = \<lparr>pg_contents = [], pg_prefixes = [], pg_truncated = False, pg_next = None\<rparr>
      in if objects \<noteq> [] \<and> 0 < max_keys
         then let cs = collapse objects delimiter pre in page_loop objects mark max_keys (length cs) pg cs
         else pg)"

text \<open>An empty delimiter counts as none.\<close>

definition rq_delimiter :: "s3_request \<Rightarrow> bytes option" where
  "rq_delimiter rq = (if rq_params rq ''delimiter'' = Some [] then None else rq_params rq ''delimiter'')"

definition contents_node :: "(bytes \<Rightarrow> bytes) \<Rightarrow> (nat \<Rightarrow> bytes) \<Rightarrow> (bytes \<times> node) list \<Rightarrow> object \<Rightarrow> bytes \<times> node" where
  "contents_node encode_key iso_date extra ob =
     (''Contents'', Tree (put_node ''ETag'' (ob_etag ob) @ [(''Key'', Leaf (encode_key (ob_name ob))), (''Size'', Number (ob_size ob)),
        (''LastModified'', Leaf (iso_date (ob_last_modified ob)))] @ extra))"

definition prefix_node :: "(bytes \<Rightarrow> bytes) \<Rightarrow> bytes \<Rightarrow> bytes \<times> node" where
  "prefix_node encode_key p = (''CommonPrefixes'', Tree [(''Prefix'', Leaf (encode_key p))])"

definition list_objects_response :: "(bytes \<Rightarrow> bytes) \<Rightarrow> (nat \<Rightarrow> bytes) \<Rightarrow> object list \<Rightarrow> s3_request \<Rightarrow> node res" where
  "list_objects_response url_encode iso_date objects rq =
     bindE (encoder url_encode (rq_params rq ''encoding-type'')) (\<lambda>encode_key.
     bindE (query_size rq ''max-keys'') (\<lambda>mk.
       let max_keys = (case mk of None \<Rightarrow> 1000 | Some n \<Rightarrow> n);
           delimiter = rq_delimiter rq;
           pg = object_page objects delimiter (rq_params rq ''prefix'') (delimiter \<noteq> None) max_keys
       in Inr (Tree [(''ListBucketResult'', Tree (
            [(''IsTruncated'', Leaf (if pg_truncated pg then ''true'' else ''false''))] @ put_node ''Marker'' (rq_params rq ''marker'')
            @ put_node ''NextMarker'' (pg_next pg) @ [(''Name'', Leaf (rq_bucket rq))] @ put_node ''Prefix'' (rq_params rq ''prefix'')
            @ put_node ''Delimiter'' delimiter @ [(''MaxKeys'', Number max_keys)] @ put_node ''EncodingType'' (rq_params rq ''encoding-type'')
            @ map (contents_node encode_key iso_date []) (pg_contents pg) @ map (prefix_node encode_key) (pg_prefixes pg)))])))"

definition list_objects_handle :: "database \<Rightarrow> (bytes \<Rightarrow> bytes) \<Rightarrow> (nat \<Rightarrow> bytes) \<Rightarrow> s3_request \<Rightarrow> directory \<Rightarrow> node res" where
  "list_objects_handle D url_encode iso_date rq x =
     (case dir_list_objects D (rq_bucket rq) (rq_params rq ''prefix'') (rq_params rq ''marker'') x of
        Inl _ \<Rightarrow> Inl NoSuchBucket
      | Inr objects \<Rightarrow> list_objects_response url_encode iso_date objects rq)"

text \<open>
  The second version reads a flag from a stream, which leaves its variable unset at the end of the
  input (\<^const>\<open>None\<close>).
\<close>

definition to_bool :: "bytes \<Rightarrow> bool option" where
  "to_bool s = (let r = dropWhile isspace (lowercase s) in if r = [] then None else Some (prefix ''true'' r))"

definition lower_bound_v2 :: "s3_request \<Rightarrow> bytes option" where
  "lower_bound_v2 rq =
     (case rq_params rq ''continuation-token'' of
        None \<Rightarrow> rq_params rq ''start-after''
      | Some t \<Rightarrow>
          if t \<noteq> [] \<and> (case rq_params rq ''start-after'' of None \<Rightarrow> True | Some l \<Rightarrow> l < t) then Some t
          else rq_params rq ''start-after'')"

definition page_v2 :: "object list \<Rightarrow> s3_request \<Rightarrow> page res" where
  "page_v2 objects rq =
     bindE (query_size rq ''max-keys'') (\<lambda>mk.
       Inr (object_page objects (rq_delimiter rq) (rq_params rq ''prefix'') True (case mk of None \<Rightarrow> 1000 | Some n \<Rightarrow> n)))"

definition list_objects_v2_response :: "(bytes \<Rightarrow> bytes) \<Rightarrow> (nat \<Rightarrow> bytes) \<Rightarrow> object list \<Rightarrow> s3_request \<Rightarrow> node res option" where
  "list_objects_v2_response url_encode iso_date objects rq =
     (case encoder url_encode (rq_params rq ''encoding-type'') of
        Inl e \<Rightarrow> Some (Inl e)
      | Inr encode_key \<Rightarrow>
          (case query_size rq ''max-keys'' of
             Inl e \<Rightarrow> Some (Inl e)
           | Inr mk \<Rightarrow>
               (case (case rq_params rq ''fetch-owner'' of None \<Rightarrow> Some False | Some v \<Rightarrow> to_bool v) of
                  None \<Rightarrow> None
                | Some owner \<Rightarrow>
                    Some (bindE (page_v2 objects rq) (\<lambda>pg.
                      Inr (Tree [(''ListBucketResult'', Tree (
                        [(''<xmlattr>'', Tree [(''xmlns'', Leaf ''http://s3.amazonaws.com/doc/2006-03-01/'')]), (''IsTruncated'', Leaf (if pg_truncated pg then ''true'' else ''false'')),
                         (''Name'', Leaf (rq_bucket rq))] @ put_node ''Prefix'' (rq_params rq ''prefix'') @ put_node ''Delimiter'' (rq_delimiter rq)
                        @ [(''MaxKeys'', Number (case mk of None \<Rightarrow> 1000 | Some n \<Rightarrow> n))] @ put_node ''EncodingType'' (rq_params rq ''encoding-type'')
                        @ [(''KeyCount'', Number (length (pg_contents pg) + length (pg_prefixes pg)))]
                        @ put_node ''ContinuationToken'' (rq_params rq ''continuation-token'') @ put_node ''NextContinuationToken'' (pg_next pg)
                        @ put_node ''StartAfter'' (rq_params rq ''start-after'')
                        @ map (contents_node encode_key iso_date (if owner then [(''Owner'', Leaf ''no-owner-support'')] else [])) (pg_contents pg)
                        @ map (prefix_node encode_key) (pg_prefixes pg)))]))))))"

definition list_objects_v2_handle :: "database \<Rightarrow> (bytes \<Rightarrow> bytes) \<Rightarrow> (nat \<Rightarrow> bytes) \<Rightarrow> s3_request \<Rightarrow> directory \<Rightarrow> node res option" where
  "list_objects_v2_handle D url_encode iso_date rq x =
     (case dir_list_objects D (rq_bucket rq) (rq_params rq ''prefix'') (lower_bound_v2 rq) x of
        Inl _ \<Rightarrow> Some (Inl NoSuchBucket)
      | Inr objects \<Rightarrow> list_objects_v2_response url_encode iso_date objects rq)"

subsection \<open>Versions and buckets\<close>

text \<open>The prefixes found, the keys seen and the nodes; the sets of the source are sorted.\<close>

fun version_nodes :: "(bytes \<Rightarrow> bytes) \<Rightarrow> (nat \<Rightarrow> bytes) \<Rightarrow> bytes option \<Rightarrow> nat \<Rightarrow> bytes list \<Rightarrow> bytes list \<Rightarrow> object list \<Rightarrow> bytes list \<times> (bytes \<times> node) list" where
  "version_nodes encode_key iso_date delimiter pos found seen [] = (found, [])"
| "version_nodes encode_key iso_date delimiter pos found seen (ob # obs) =
     (case (case delimiter of None \<Rightarrow> None | Some d \<Rightarrow> find_str_from d pos (ob_name ob)) of
        Some i \<Rightarrow> version_nodes encode_key iso_date delimiter pos (List.insert (take i (ob_name ob)) found) seen obs
      | None \<Rightarrow>
          (let latest = (ob_name ob \<notin> set seen);
               tail = [(''IsLatest'', Flag latest), (''LastModified'', Leaf (iso_date (ob_last_modified ob)))] @ put_node ''VersionId'' (ob_version ob);
               nd = (if ob_state ob = Normal
                     then (''Version'', Tree (put_node ''ETag'' (ob_etag ob) @ [(''Key'', Leaf (encode_key (ob_name ob))), (''Size'', Number (ob_size ob))] @ tail))
                     else (''DeleteMarker'', Tree ((''Key'', Leaf (encode_key (ob_name ob))) # tail)));
               rest = version_nodes encode_key iso_date delimiter pos found (List.insert (ob_name ob) seen) obs
           in (fst rest, nd # snd rest)))"

definition list_object_versions_response :: "(nat \<Rightarrow> bytes) \<Rightarrow> (bytes \<Rightarrow> bytes) \<Rightarrow> size_t \<Rightarrow> object list \<Rightarrow> s3_request \<Rightarrow> node" where
  "list_object_versions_response iso_date encode_key max_keys objects rq =
     (let truncated = max_keys < length objects;
          pre = rq_params rq ''prefix'';
          nodes = version_nodes encode_key iso_date (rq_params rq ''delimiter'') (case pre of None \<Rightarrow> 0 | Some p \<Rightarrow> length p) [] [] objects;
          enc = (\<lambda>key v. put_node key (map_option encode_key v))
      in Tree [(''ListVersionsResult'', Tree (
           [(''<xmlattr>'', Tree [(''xmlns'', Leaf ''http://s3.amazonaws.com/doc/2006-03-01/'')]), (''IsTruncated'', Flag truncated)] @ enc ''KeyMarker'' (rq_params rq ''key-marker'')
           @ put_node ''VersionMarker'' (rq_params rq ''version-id-marker'') @ [(''Name'', Leaf (rq_bucket rq))] @ enc ''Prefix'' pre
           @ enc ''Delimiter'' (rq_params rq ''delimiter'') @ [(''MaxKeys'', Number max_keys)] @ put_node ''EncodingType'' (rq_params rq ''encoding-type'')
           @ (if truncated then (''NextKeyMarker'', Leaf (encode_key (ob_name (List.last objects)))) # put_node ''NextVersionMarker'' (ob_version (List.last objects)) else [])
           @ snd nodes
           @ (if fst nodes = [] then [] else [(''CommonPrefixes'', Tree (map (\<lambda>p. (''Prefix'', Leaf (encode_key p))) (sort (fst nodes))))])))])"

definition list_object_versions_handle :: "database \<Rightarrow> (bytes \<Rightarrow> bytes) \<Rightarrow> (nat \<Rightarrow> bytes) \<Rightarrow> s3_request \<Rightarrow> directory \<Rightarrow> node res" where
  "list_object_versions_handle D url_encode iso_date rq x =
     bindE (encoder url_encode (rq_params rq ''encoding-type'')) (\<lambda>encode_key.
     bindE (query_size rq ''max-keys'') (\<lambda>mk.
       let max_keys = (case mk of None \<Rightarrow> 1000 | Some n \<Rightarrow> n)
       in bindE (dir_list_object_versions D (rq_bucket rq) (rq_params rq ''prefix'') (rq_params rq ''key-marker'') (rq_params rq ''version-id-marker'')
                   (add64 max_keys 1) x) (\<lambda>objects.
            Inr (list_object_versions_response iso_date encode_key max_keys objects rq))))"

definition list_buckets_response :: "bytes list \<Rightarrow> node" where
  "list_buckets_response buckets =
     Tree [(''ListAllMyBucketsResult'', Tree [(''Buckets'', Tree (map (\<lambda>b. (''Bucket'', Tree [(''Name'', Leaf b)])) buckets))])]"

definition list_buckets_handle :: "directory \<Rightarrow> node" where
  "list_buckets_handle x = list_buckets_response (dir_list_buckets x)"

subsection \<open>A client that follows the pages\<close>

fun answer_fields :: "node \<Rightarrow> (bytes \<times> node) list" where
  "answer_fields (Tree [(k, Tree fs)]) = fs"
| "answer_fields nd = []"

definition answer_keys :: "node \<Rightarrow> bytes list" where
  "answer_keys nd = concat (map node_text (concat (map (node_children ''Key'') (node_children ''Contents'' (Tree (answer_fields nd))))))"

definition answer_token :: "node \<Rightarrow> bytes option" where
  "answer_token nd =
     (case concat (map node_text (node_children ''NextContinuationToken'' (Tree (answer_fields nd)))) of [] \<Rightarrow> None | t # _ \<Rightarrow> Some t)"

definition next_request :: "bytes \<Rightarrow> s3_request \<Rightarrow> s3_request" where
  "next_request t rq = rq\<lparr>rq_params := (rq_params rq)(''continuation-token'' \<mapsto> t)\<rparr>"

fun follow_pages :: "nat \<Rightarrow> database \<Rightarrow> (bytes \<Rightarrow> bytes) \<Rightarrow> (nat \<Rightarrow> bytes) \<Rightarrow> s3_request \<Rightarrow> directory \<Rightarrow> bytes list res option" where
  "follow_pages 0 D url_encode iso_date rq x = None"
| "follow_pages (Suc n) D url_encode iso_date rq x =
     (case list_objects_v2_handle D url_encode iso_date rq x of
        None \<Rightarrow> None
      | Some (Inl e) \<Rightarrow> Some (Inl e)
      | Some (Inr nd) \<Rightarrow>
          (case answer_token nd of
             None \<Rightarrow> Some (Inr (answer_keys nd))
           | Some t \<Rightarrow> map_option (\<lambda>r. bindE r (\<lambda>ks. Inr (answer_keys nd @ ks))) (follow_pages n D url_encode iso_date (next_request t rq) x)))"

lemma collapse_none: "collapse objects None pre = map (\<lambda>ob. \<lparr>co_prefix = None, co_object = Some ob\<rparr>) objects"
proof -
  have "collapse_loop None pos previous objects = map (\<lambda>ob. \<lparr>co_prefix = None, co_object = Some ob\<rparr>) objects" for pos previous
    by (induction objects) simp_all
  then show ?thesis by (simp add: collapse_def)
qed

lemma page_loop_none:
  assumes "length (pg_contents pg) < max_keys" and "pg_prefixes pg = []" and "avail = length (pg_contents pg) + length obs"
  shows "page_loop objects True max_keys avail pg (map (\<lambda>ob. \<lparr>co_prefix = None, co_object = Some ob\<rparr>) obs)
    = pg\<lparr>pg_contents := take max_keys (pg_contents pg @ obs), pg_truncated := (max_keys < avail \<or> pg_truncated pg),
         pg_next := if max_keys < avail then Some (ob_name (objects ! (max_keys - 1))) else pg_next pg\<rparr>"
  using assms
proof (induction obs arbitrary: pg)
  case (Cons ob obs)
  let ?pg = "pg\<lparr>pg_contents := pg_contents pg @ [ob]\<rparr>"
  show ?case
  proof (cases "length (pg_contents ?pg) = max_keys \<and> max_keys < avail")
    case True
    then show ?thesis using Cons.prems by (auto simp: Let_def)
  next
    case False
    then have "length (pg_contents ?pg) < max_keys \<or> obs = []" using Cons.prems by (cases obs) auto
    then show ?thesis using False Cons.IH [of ?pg] Cons.prems by (auto simp: Let_def)
  qed
qed auto

lemma object_page_none:
  assumes "0 < max_keys"
  shows "object_page objects None pre True max_keys
    = \<lparr>pg_contents = take max_keys objects, pg_prefixes = [], pg_truncated = (max_keys < length objects),
       pg_next = if max_keys < length objects then Some (ob_name (objects ! (max_keys - 1))) else None\<rparr>"
  using assms by (simp add: object_page_def collapse_none page_loop_none Let_def)

definition plain_listing :: "size_t option \<Rightarrow> s3_request \<Rightarrow> bool" where
  "plain_listing mk rq \<longleftrightarrow> query_size rq ''max-keys'' = Inr mk \<and> mk \<noteq> Some 0 \<and> rq_delimiter rq = None \<and> rq_params rq ''encoding-type'' = None
     \<and> rq_params rq ''fetch-owner'' = None \<and> rq_params rq ''start-after'' = None"

definition page_size_of :: "size_t option \<Rightarrow> size_t" where
  "page_size_of mk = (case mk of None \<Rightarrow> 1000 | Some n \<Rightarrow> n)"

lemma node_children_contents [simp]:
  "filter (\<lambda>(k, v). k = key) (map (contents_node enc iso_date extra) obs) = (if key = ''Contents'' then map (contents_node enc iso_date extra) obs else [])"
  by (induction obs) (simp_all add: contents_node_def)

lemma v2_page:
  assumes rq: "plain_listing mk rq" and obs: "dir_list_objects D (rq_bucket rq) (rq_params rq ''prefix'') (lower_bound_v2 rq) x = Inr objects"
  shows "\<exists>nd. list_objects_v2_handle D url_encode iso_date rq x = Some (Inr nd) \<and> answer_keys nd = take (page_size_of mk) (map ob_name objects)
    \<and> answer_token nd = (if page_size_of mk < length objects then Some (ob_name (objects ! (page_size_of mk - 1))) else None)"
proof -
  let ?n = "page_size_of mk"
  have n: "0 < ?n" using rq by (auto simp: plain_listing_def page_size_of_def split: option.split)
  have k: "concat (map node_text (concat (map (node_children ''Key'' \<circ> snd) (map (contents_node (\<lambda>s. s) iso_date []) obs)))) = map ob_name obs" for obs
    by (induction obs) (simp_all add: contents_node_def)
  show ?thesis
    using rq obs n
    by (simp add: list_objects_v2_handle_def list_objects_v2_response_def plain_listing_def encoder_def page_v2_def
        page_size_of_def [symmetric] object_page_none answer_keys_def answer_token_def k [unfolded map_map] take_map put_node_def)
qed

subsection \<open>The listing of a bucket\<close>

text \<open>The collation of the database is a linear order of the strings.\<close>

definition text_order :: "(bytes \<Rightarrow> bytes \<Rightarrow> bool) \<Rightarrow> bool" where
  "text_order le \<longleftrightarrow> (\<forall>a b. le a b \<or> le b a) \<and> (\<forall>a b c. le a b \<longrightarrow> le b c \<longrightarrow> le a c) \<and> (\<forall>a b. le a b \<longrightarrow> le b a \<longrightarrow> a = b)"

lemma text_orderD:
  assumes "text_order le"
  shows "le a b \<or> le b a" "le a b \<Longrightarrow> le b c \<Longrightarrow> le a c" "le a b \<Longrightarrow> le b a \<Longrightarrow> a = b"
  using assms unfolding text_order_def by blast+

lemma set_insert_by [simp]: "set (insert_by le x ys) = insert x (set ys)"
  by (induction ys) auto

lemma set_order_by [simp]: "set (order_by le xs) = set xs"
  by (induction xs) (simp_all add: order_by_def)

lemma distinct_order_by [simp]: "distinct (order_by le xs) \<longleftrightarrow> distinct xs"
proof -
  have "distinct (insert_by le x ys) \<longleftrightarrow> x \<notin> set ys \<and> distinct ys" for x ys by (induction ys) auto
  then show ?thesis by (induction xs) (simp_all add: order_by_def set_order_by [unfolded order_by_def])
qed

lemma sorted_insert_by:
  assumes "text_order le" and "sorted_wrt (\<lambda>r q. le (f r) (f q)) ys"
  shows "sorted_wrt (\<lambda>r q. le (f r) (f q)) (insert_by (\<lambda>r q. le (f r) (f q)) x ys)"
  using assms(2)
proof (induction ys)
  case (Cons y ys)
  show ?case
  proof (cases "le (f x) (f y)")
    case True
    then show ?thesis using Cons.prems text_orderD(2) [OF assms(1) True] by auto
  next
    case False
    then have "le (f y) (f x)" using text_orderD(1) [OF assms(1)] by blast
    then show ?thesis using False Cons by auto
  qed
qed simp

lemma sorted_order_by: "text_order le \<Longrightarrow> sorted_wrt (\<lambda>r q. le (f r) (f q)) (order_by (\<lambda>r q. le (f r) (f q)) xs)"
  by (induction xs) (simp_all add: order_by_def sorted_insert_by)

lemma sorted_set_unique:
  assumes "text_order le" and "sorted_wrt le xs" "sorted_wrt le ys" and "distinct xs" "distinct ys" and "set xs = set ys"
  shows "xs = ys"
  using assms(2-)
proof (induction xs arbitrary: ys)
  case (Cons x xs)
  then obtain y ys' where y: "ys = y # ys'" by (cases ys) auto
  have "x = y \<or> le x y" "x = y \<or> le y x" using Cons.prems unfolding y by auto
  then have "x = y" using text_orderD(3) [OF assms(1)] by blast
  moreover from this have "xs = ys'" using Cons.prems unfolding y by (intro Cons.IH) auto
  ultimately show ?case using y by simp
qed simp

definition listed :: "database \<Rightarrow> (bytes \<Rightarrow> content option) \<Rightarrow> bytes option \<Rightarrow> bytes set" where
  "listed D m pre = {k. m k \<noteq> None \<and> pg_like D k ((case pre of None \<Rightarrow> [] | Some p \<Rightarrow> p) @ ''%'')}"

definition after :: "database \<Rightarrow> bytes option \<Rightarrow> bytes \<Rightarrow> bool" where
  "after D lower k \<longleftrightarrow> (case lower of None \<Rightarrow> True | Some l \<Rightarrow> l = [] \<or> \<not> pg_le D k l \<and> \<not> prefix l k)"

lemma rows_to_objects_map: "\<exists>obs. rows_to_objects rs = Inr obs \<and> map ob_name obs = map o_name rs"
  by (induction rs) auto

lemma list_plain:
  assumes inv: "dir_inv x" and b: "dir_abs x bucket = Some (Plain m)" and le: "text_order (pg_le D)"
  shows "\<exists>obs. dir_list_objects D bucket pre lower x = Inr obs \<and> sorted_wrt (pg_le D) (map ob_name obs) \<and> distinct (map ob_name obs)
    \<and> set (map ob_name obs) = {k\<in>listed D m pre. after D lower k}"
proof -
  obtain c where c: "live_bucket x bucket = Some c" "b_versioning c = Disabled" "m = contents x (b_id c)"
    using b by (auto simp: dir_abs_def bucket_view_def split: if_splits)
  have cs: "c \<in> set (d_buckets x)" using live_bucket_SomeD [OF c(1)] by simp
  have pl: "plain x (b_id c)" and ok: "objects_ok x" "buckets_ok x" using inv cs c(2) by (auto simp: dir_inv_def)
  let ?cond = "listing_condition (pg_like D) (pg_le D) (case pre of None \<Rightarrow> [] | Some p \<Rightarrow> p) (case lower of None \<Rightarrow> [] | Some l \<Rightarrow> l)"
  let ?rs = "filter (\<lambda>r. newest x r \<and> o_bucket r = b_id c \<and> ?cond r \<and> o_status r = Normal) (d_objects x)"
  let ?os = "order_by (\<lambda>r q. pg_le D (o_name r) (o_name q)) ?rs"
  have l: "vrm_list_objects (pg_le D) ?cond bucket x = Inr ?os"
    using c(1) by (simp add: vrm_list_objects_def check_bucket_live bucket_id_live [OF ok(2)])
  obtain obs where obs: "rows_to_objects ?os = Inr obs" "map ob_name obs = map o_name ?os" using rows_to_objects_map by blast
  have in_rs: "r \<in> set ?rs \<longleftrightarrow> current x (b_id c) (o_name r) = Some r \<and> ?cond r" for r
    using pl by (auto simp: current_iff [OF ok(1) pl] plain_def)
  have "inj_on o_name (set ?rs)"
  proof (rule inj_onI)
    fix r q assume rq: "r \<in> set ?rs" "q \<in> set ?rs" "o_name r = o_name q"
    have "current x (b_id c) (o_name r) = Some r" by (rule in_rs [THEN iffD1, OF rq(1), THEN conjunct1])
    moreover have "current x (b_id c) (o_name q) = Some q" by (rule in_rs [THEN iffD1, OF rq(2), THEN conjunct1])
    ultimately show "r = q" unfolding rq(3) by simp
  qed
  moreover have "distinct (d_objects x)" using ok(1) by (simp add: objects_ok_def distinct_map)
  ultimately have d: "distinct (map o_name ?os)" by (simp add: distinct_map)
  have "k \<in> o_name ` set ?rs \<longleftrightarrow> k \<in> listed D m pre \<and> after D lower k" for k
  proof -
    have "k \<in> o_name ` set ?rs \<longleftrightarrow> (\<exists>r. r \<in> set ?rs \<and> o_name r = k)" by blast
    also have "\<dots> \<longleftrightarrow> (\<exists>r. current x (b_id c) k = Some r \<and> o_name r = k \<and> ?cond r)" unfolding in_rs by blast
    also have "\<dots> \<longleftrightarrow> (\<exists>r. current x (b_id c) k = Some r) \<and> pg_like D k ((case pre of None \<Rightarrow> [] | Some p \<Rightarrow> p) @ ''%'') \<and> after D lower k"
      by (auto simp: listing_condition_def after_def current_iff [OF ok(1) pl] split: option.splits)
    finally show ?thesis by (auto simp: c(3) contents_def listed_def)
  qed
  then have "set (map o_name ?os) = {k\<in>listed D m pre. after D lower k}" unfolding set_map set_order_by by blast
  moreover have "sorted_wrt (pg_le D) (map o_name ?os)" using sorted_order_by [OF le, of o_name ?rs] by (simp add: sorted_wrt_map)
  moreover have "dir_list_objects D bucket pre lower x = Inr obs" using obs(1) l c(1) by (simp add: dir_list_objects_def bucket_exists_live)
  ultimately show ?thesis using d unfolding obs(2) [symmetric] by blast
qed

text \<open>What comes after a key of the listing are the keys behind it, unless a name begins with the key.\<close>

lemma later_page:
  assumes le: "text_order (pg_le D)" and ks: "sorted_wrt (pg_le D) (xs @ t # ys)" "distinct (xs @ t # ys)" "set (xs @ t # ys) = {k\<in>S. after D lower k}"
    and pf: "\<forall>k\<in>S. \<forall>k'\<in>S. prefix k k' \<longrightarrow> k = k'" "[] \<notin> S" and lower: "lower = None \<or> (\<exists>l\<in>S. lower = Some l)"
  shows "set ys = {k\<in>S. after D (Some t) k}"
proof (intro set_eqI iffI)
  have t: "t \<in> S" "t \<noteq> []" "after D lower t" using ks(3) pf(2) by auto
  note total = text_orderD(1) [OF le] and trans = text_orderD(2) [OF le] and antisym = text_orderD(3) [OF le]
  fix k
  show "k \<in> {k\<in>S. after D (Some t) k}" if k: "k \<in> set ys"
  proof -
    have "k \<in> S" "pg_le D t k" "k \<noteq> t" using k ks by (auto simp: sorted_wrt_append)
    then show ?thesis using antisym [of t k] pf(1) t(1) by (auto simp: after_def)
  qed
  show "k \<in> set ys" if k: "k \<in> {k\<in>S. after D (Some t) k}"
  proof -
    have kS: "k \<in> S" "\<not> pg_le D k t" using k t(2) by (simp_all add: after_def)
    have "after D lower k"
    proof (cases lower)
      case (Some l)
      then have l: "l \<in> S" "\<not> pg_le D t l" using lower t pf(2) by (auto simp: after_def)
      have "\<not> pg_le D k l" using kS(2) l(2) total [of l t] trans by blast
      then show ?thesis using Some l(1) kS(1) pf(1) total [of k k] by (auto simp: after_def)
    qed (simp add: after_def)
    then have "k \<in> set (xs @ t # ys)" using ks(3) kS(1) by simp
    moreover have "k \<notin> set xs" "k \<noteq> t" using ks(1) kS(2) total [of k k] by (auto simp: sorted_wrt_append)
    ultimately show ?thesis by simp
  qed
qed

lemma next_page_request:
  "plain_listing mk rq \<Longrightarrow> plain_listing mk (next_request t rq)" "rq_bucket (next_request t rq) = rq_bucket rq"
  "rq_params (next_request t rq) ''prefix'' = rq_params rq ''prefix''"
  "plain_listing mk rq \<Longrightarrow> t \<noteq> [] \<Longrightarrow> lower_bound_v2 (next_request t rq) = Some t"
  by (auto simp: plain_listing_def next_request_def query_size_def rq_delimiter_def rq_bucket_def lower_bound_v2_def)

lemma follow_from:
  assumes inv: "dir_inv x" and b: "dir_abs x (rq_bucket rq) = Some (Plain m)" and le: "text_order (pg_le D)" and rq: "plain_listing mk rq"
    and S: "S = listed D m (rq_params rq ''prefix'')" "\<forall>k\<in>S. \<forall>k'\<in>S. prefix k k' \<longrightarrow> k = k'" "[] \<notin> S"
    and lower: "lower_bound_v2 rq = None \<or> (\<exists>l\<in>S. lower_bound_v2 rq = Some l)"
    and ks: "sorted_wrt (pg_le D) ks" "distinct ks" "set ks = {k\<in>S. after D (lower_bound_v2 rq) k}" and n: "length ks < n"
  shows "follow_pages n D url_encode iso_date rq x = Some (Inr ks)"
  using b rq S(1) lower ks n
proof (induction n arbitrary: rq ks)
  case (Suc n)
  obtain obs where obs: "dir_list_objects D (rq_bucket rq) (rq_params rq ''prefix'') (lower_bound_v2 rq) x = Inr obs"
    "sorted_wrt (pg_le D) (map ob_name obs)" "distinct (map ob_name obs)" "set (map ob_name obs) = {k\<in>S. after D (lower_bound_v2 rq) k}"
    using list_plain [OF inv Suc.prems(1) le] Suc.prems(3) by blast
  have names: "map ob_name obs = ks" using sorted_set_unique [OF le obs(2) Suc.prems(5) obs(3) Suc.prems(6)] obs(4) Suc.prems(7) by simp
  let ?n = "page_size_of mk"
  obtain nd where nd: "list_objects_v2_handle D url_encode iso_date rq x = Some (Inr nd)" "answer_keys nd = take ?n ks"
    "answer_token nd = (if ?n < length ks then Some (ks ! (?n - 1)) else None)"
    using v2_page [OF Suc.prems(2) obs(1), of url_encode iso_date] by (cases "?n < length obs") (auto simp: names [symmetric])
  show ?case
  proof (cases "?n < length ks")
    case False
    then show ?thesis using nd by simp
  next
    case True
    have n0: "0 < ?n" using Suc.prems(2) by (auto simp: plain_listing_def page_size_of_def split: option.split)
    let ?t = "ks ! (?n - 1)" and ?ys = "drop ?n ks"
    have split: "ks = take (?n - 1) ks @ ?t # ?ys" using True n0 id_take_nth_drop [of "?n - 1" ks] by simp
    have t: "?t \<in> S" "?t \<noteq> []" using Suc.prems(7) True S(3) nth_mem [of "?n - 1" ks] by (auto simp: in_set_conv_nth)
    have ys: "set ?ys = {k\<in>S. after D (Some ?t) k}"
      by (rule later_page [OF le _ _ _ S(2,3) Suc.prems(4), of "take (?n - 1) ks" ?t ?ys, unfolded split [symmetric], OF Suc.prems(5-7)])
    have "follow_pages n D url_encode iso_date (next_request ?t rq) x = Some (Inr ?ys)"
    proof (rule Suc.IH)
      show "sorted_wrt (pg_le D) ?ys" "distinct ?ys" using Suc.prems(5,6) by (simp_all add: sorted_wrt_drop)
      show "length ?ys < n" using Suc.prems(8) n0 True by simp
    qed (use Suc.prems t ys in \<open>auto simp: next_page_request(1-3) next_page_request(4) [of mk]\<close>)
    then show ?thesis using nd True by simp
  qed
qed simp

lemma finite_keys:
  assumes "dir_abs x bucket = Some (Plain m)"
  shows "finite {k. m k \<noteq> None}"
proof (rule finite_subset)
  obtain i where "m = contents x i" using assms by (auto simp: dir_abs_def bucket_view_def split: if_splits)
  then show "{k. m k \<noteq> None} \<subseteq> o_name ` set (d_objects x)" by (auto simp: contents_def current_def dest: find_SomeD)
qed simp


definition bytewise_db :: database where
  "bytewise_db = sample_db\<lparr>pg_le := (\<le>)\<rparr>"

definition sample_names :: "bytes \<Rightarrow> bytes \<Rightarrow> directory" where
  "sample_names a b = sample_directory\<lparr>d_objects := [(sample_row 1 ''u'' Normal False)\<lparr>o_name := b\<rparr>, (sample_row 2 ''w'' Normal False)\<lparr>o_name := a\<rparr>], d_next_object := 3\<rparr>"

definition sample_listing :: s3_request where
  "sample_listing = \<lparr>rq_method = GET, rq_path = ''/bucket'', rq_params = [''list-type'' \<mapsto> ''2'', ''max-keys'' \<mapsto> ''1''], rq_fields = []\<rparr>"

lemma sample_listing_request:
  "rq_bucket sample_listing = ''bucket''" "query_size sample_listing ''max-keys'' = Inr (Some 1)"
proof -
  show "rq_bucket sample_listing = ''bucket''" by (simp add: rq_bucket_def sample_listing_def bucket_path [simplified])
  have "stoull ''1'' = Inr 1" using stoull_nat_str [of 1] by (simp add: nat_str.simps M64_def)
  then show "query_size sample_listing ''max-keys'' = Inr (Some 1)" by (simp add: query_size_def sample_listing_def)
qed

lemma sample_names_ok:
  assumes "a \<noteq> b"
  shows "dir_inv (sample_names a b)"
    and "dir_abs (sample_names a b) ''bucket'' = Some (Plain [a \<mapsto> ([mk_fragment 0 3], None, None), b \<mapsto> ([mk_fragment 0 3], None, None)])"
proof -
  show "dir_inv (sample_names a b)"
    using assms by (auto simp: dir_inv_def buckets_ok_def objects_ok_def plain_def newest_def row_size_def data_size_def add64_def M64_def sample_names_def sample_simps)
  show "dir_abs (sample_names a b) ''bucket'' = Some (Plain [a \<mapsto> ([mk_fragment 0 3], None, None), b \<mapsto> ([mk_fragment 0 3], None, None)])"
    using assms
    by (auto simp: dir_abs_def live_bucket_def bucket_view_def contents_def current_def content_def sample_names_def sample_simps fun_eq_iff)
qed


text \<open>A name that begins with the last name of a page is lost: the next page skips it.\<close>

lemma page_skips_name:
  "follow_pages 3 bytewise_db (\<lambda>s. s) (\<lambda>_. []) sample_listing (sample_names ''a'' ''ab'') = Some (Inr [''a''])"
proof -
  let ?x = "sample_names ''a'' ''ab''" and ?next = "next_request ''a'' sample_listing"
  let ?m = "[''a'' \<mapsto> ([mk_fragment 0 3], None, None), ''ab'' \<mapsto> ([mk_fragment 0 3], None, None)] :: bytes \<Rightarrow> content option"
  have x: "dir_inv ?x" "dir_abs ?x ''bucket'' = Some (Plain ?m)" by (rule sample_names_ok; simp)+
  have le: "text_order (pg_le bytewise_db)" "pg_le bytewise_db = (\<le>)" "\<And>a b. pg_like bytewise_db a b"
    by (auto simp: text_order_def bytewise_db_def sample_db_def)
  have S: "listed bytewise_db ?m None = {''a'', ''ab''}" by (auto simp: listed_def le(3))
  have p: "plain_listing (Some 1) sample_listing" "lower_bound_v2 sample_listing = None" "rq_params sample_listing ''prefix'' = None"
    using sample_listing_request(2) by (simp_all add: plain_listing_def rq_delimiter_def lower_bound_v2_def sample_listing_def)
  obtain obs :: "object list" where obs: "dir_list_objects bytewise_db ''bucket'' None None ?x = Inr obs" "sorted_wrt (\<le>) (map ob_name obs)"
    "distinct (map ob_name obs)" "set (map ob_name obs) = {''a'', ''ab''}"
    using list_plain [OF x le(1), of None None] by (auto simp: S le(2) after_def [of _ None])
  have names: "map ob_name obs = [''a'', ''ab'']"
    by (rule sorted_set_unique [OF le(1)]) (use obs in \<open>simp_all add: le(2)\<close>)
  have none: "{k\<in>listed bytewise_db ?m None. after bytewise_db (Some ''a'') k} = {}" by (auto simp: S after_def le(2))
  have empty: "dir_list_objects bytewise_db ''bucket'' None (Some ''a'') ?x = Inr []"
    using list_plain [OF x le(1), of None "Some ''a''"] unfolding none by auto
  obtain u v where uv: "obs = [u, v]" "ob_name u = ''a''" "ob_name v = ''ab''" using names by (auto simp: map_eq_Cons_conv)
  note page = v2_page [of "Some 1" _ bytewise_db ?x _ "\<lambda>s. s" "\<lambda>_. []", unfolded page_size_of_def option.case]
  obtain nd where nd: "list_objects_v2_handle bytewise_db (\<lambda>s. s) (\<lambda>_. []) sample_listing ?x = Some (Inr nd)" "answer_keys nd = [''a'']" "answer_token nd = Some ''a''"
    using page [of sample_listing obs] p obs(1) by (auto simp: sample_listing_request(1) uv)
  obtain nd' where nd': "list_objects_v2_handle bytewise_db (\<lambda>s. s) (\<lambda>_. []) ?next ?x = Some (Inr nd')" "answer_keys nd' = []" "answer_token nd' = None"
    using page [of ?next "[]"] p empty next_page_request(1) [OF p(1), of "''a''"] next_page_request(4) [OF p(1), of "''a''"]
    by (auto simp: next_page_request(2,3) sample_listing_request(1))
  show ?thesis by (simp add: eval_nat_numeral nd nd')
qed

end
