(* ===== verification/Vrm_Multipart.thy ===== *)
theory Vrm_Multipart
  imports Vrm_Object Vrm_Xml Vrm_Maps
begin

text \<open>
  Uploads in parts: the tables and stored procedures of the uploads (\<open>data/sql/vrm_multipart\<close>, in their
  last version), the class that calls them (\<open>entrypoint/multipart_state.cpp\<close>) and the commands that
  start an upload, store a part, complete and abort it (\<open>commands/s3/*multipart.cpp\<close>). Each command holds
  the lock of its upload while it uses the tables. The main results are that a completed upload is
  the concatenation of its parts, and what an abort does to it afterwards.
\<close>

subsection \<open>Tables and stored procedures\<close>

record upload_row =
  u_id :: bytes
  u_bucket :: bytes
  u_key :: bytes
  u_erased_since :: "nat option"
  u_mime :: "bytes option"
  u_complete :: nat

record part_row =
  p_upload :: bytes
  p_part :: nat
  p_size :: nat
  p_effective :: nat
  p_address :: address
  p_etag :: bytes

record uploads =
  up_uploads :: "upload_row list"
  up_parts :: "part_row list"

text \<open>An id is a text that the database converts to a UUID; it is the primary key of the uploads.\<close>

definition vrm_create_upload :: "env \<Rightarrow> bytes \<Rightarrow> bytes \<Rightarrow> bytes option \<Rightarrow> uploads \<Rightarrow> uploads \<times> bytes res" where
  "vrm_create_upload e bucket key mime u =
     (if \<exists>r\<in>set (up_uploads u). u_id r = e_uuid e then (u, Inl Runtime_error)
      else (u\<lparr>up_uploads := up_uploads u @ [\<lparr>u_id = e_uuid e, u_bucket = bucket, u_key = key, u_erased_since = None, u_mime = mime, u_complete = 0\<rparr>]\<rparr>,
            Inr (e_uuid e)))"

definition update_part :: "part_row \<Rightarrow> part_row list \<Rightarrow> part_row list" where
  "update_part q ps =
     (if \<exists>p\<in>set ps. p_upload p = p_upload q \<and> p_part p = p_part q
      then map (\<lambda>p. if p_upload p = p_upload q \<and> p_part p = p_part q then q else p) ps else ps @ [q])"

definition vrm_put_multipart :: "database \<Rightarrow> bytes \<Rightarrow> nat \<Rightarrow> nat \<Rightarrow> nat \<Rightarrow> address \<Rightarrow> bytes \<Rightarrow> uploads \<Rightarrow> uploads \<times> unit res" where
  "vrm_put_multipart D i part n eff a etag u =
     (case pg_uuid D i of
        None \<Rightarrow> (u, Inl Runtime_error)
      | Some uid \<Rightarrow>
          if \<exists>r\<in>set (up_uploads u). u_id r = uid
          then (u\<lparr>up_parts := update_part \<lparr>p_upload = uid, p_part = part, p_size = n, p_effective = eff, p_address = a, p_etag = etag\<rparr> (up_parts u)\<rparr>, Inr ())
          else (u, Inl Runtime_error))"

definition vrm_get_upload :: "database \<Rightarrow> bytes \<Rightarrow> uploads \<Rightarrow> upload_row option res" where
  "vrm_get_upload D i u =
     (case pg_uuid D i of None \<Rightarrow> Inl Runtime_error | Some uid \<Rightarrow> Inr (find (\<lambda>r. u_id r = uid) (up_uploads u)))"

definition vrm_get_upload_parts :: "database \<Rightarrow> bytes \<Rightarrow> uploads \<Rightarrow> part_row list res" where
  "vrm_get_upload_parts D i u =
     (case pg_uuid D i of None \<Rightarrow> Inl Runtime_error | Some uid \<Rightarrow> Inr (filter (\<lambda>p. p_upload p = uid) (up_parts u)))"

definition vrm_get_upload_part :: "database \<Rightarrow> bytes \<Rightarrow> nat \<Rightarrow> uploads \<Rightarrow> part_row option res" where
  "vrm_get_upload_part D i part u =
     (case pg_uuid D i of None \<Rightarrow> Inl Runtime_error | Some uid \<Rightarrow> Inr (find (\<lambda>p. p_upload p = uid \<and> p_part p = part) (up_parts u)))"

definition vrm_get_uploads :: "bytes \<Rightarrow> uploads \<Rightarrow> upload_row list" where
  "vrm_get_uploads bucket u = filter (\<lambda>r. u_erased_since r = None \<and> u_bucket r = bucket) (up_uploads u)"

definition update_upload :: "bytes \<Rightarrow> (upload_row \<Rightarrow> upload_row) \<Rightarrow> uploads \<Rightarrow> uploads" where
  "update_upload uid f u = u\<lparr>up_uploads := map (\<lambda>r. if u_id r = uid then f r else r) (up_uploads u)\<rparr>"

definition vrm_complete_upload :: "database \<Rightarrow> bytes \<Rightarrow> uploads \<Rightarrow> uploads \<times> unit res" where
  "vrm_complete_upload D i u =
     (case pg_uuid D i of None \<Rightarrow> (u, Inl Runtime_error) | Some uid \<Rightarrow> (update_upload uid (\<lambda>r. r\<lparr>u_complete := 1\<rparr>) u, Inr ()))"

text \<open>Deleting only marks the upload; bucket and key become random, here from a generator of UUIDs.\<close>

definition vrm_delete_upload :: "database \<Rightarrow> env \<Rightarrow> (bytes \<Rightarrow> bytes) \<Rightarrow> bytes \<Rightarrow> uploads \<Rightarrow> uploads \<times> unit res" where
  "vrm_delete_upload D e random i u =
     (case pg_uuid D i of
        None \<Rightarrow> (u, Inl Runtime_error)
      | Some uid \<Rightarrow> (update_upload uid (\<lambda>r. r\<lparr>u_erased_since := Some (e_now e), u_bucket := random (u_bucket r), u_key := random (u_key r)\<rparr>) u, Inr ()))"

text \<open>The parts go with their upload.\<close>

definition vrm_clean_deleted :: "env \<Rightarrow> nat \<Rightarrow> uploads \<Rightarrow> uploads" where
  "vrm_clean_deleted e age u =
     (let old = (\<lambda>r. case u_erased_since r of None \<Rightarrow> False | Some t \<Rightarrow> t + age < e_now e);
          gone = map u_id (filter old (up_uploads u))
      in u\<lparr>up_uploads := filter (\<lambda>r. \<not> old r) (up_uploads u), up_parts := filter (\<lambda>p. p_upload p \<notin> set gone) (up_parts u)\<rparr>)"

subsection \<open>The state of the uploads\<close>

record part_info =
  pi_etag :: bytes
  pi_size :: size_t
  pi_addr :: address

record upload_info =
  ui_key :: bytes
  ui_bucket :: bytes
  ui_erased :: bool
  ui_completed :: bool
  ui_mime :: "bytes option"
  ui_parts :: "(nat \<times> part_info) list"
  ui_effective :: size_t
  ui_data :: size_t

text \<open>The parts are a map with ordered keys of 16 bits.\<close>

definition generate_total_address :: "upload_info \<Rightarrow> address" where
  "generate_total_address info = foldl (\<lambda>a p. append_address a (pi_addr (snd p))) [] (ui_parts info)"

definition ms_insert_upload :: "env \<Rightarrow> bytes \<Rightarrow> bytes \<Rightarrow> bytes option \<Rightarrow> uploads \<Rightarrow> uploads \<times> bytes res" where
  "ms_insert_upload e bucket key mime u = vrm_create_upload e bucket key mime u"

definition NoSuchUpload :: exn where
  "NoSuchUpload = Command_exception 404 ''NoSuchUpload''"

definition part_of_row :: "part_row \<Rightarrow> part_info" where
  "part_of_row p = \<lparr>pi_etag = p_etag p, pi_size = p_size p, pi_addr = p_address p\<rparr>"

text \<open>All errors of the first query count as a missing upload.\<close>

definition ms_details :: "database \<Rightarrow> bytes \<Rightarrow> uploads \<Rightarrow> upload_info res" where
  "ms_details D i u =
     (case vrm_get_upload D i u of
        Inr (Some r) \<Rightarrow>
          bindE (vrm_get_upload_parts D i u) (\<lambda>ps.
            Inr \<lparr>ui_key = u_key r, ui_bucket = u_bucket r, ui_erased = (u_erased_since r \<noteq> None), ui_completed = (u_complete r \<noteq> 0), ui_mime = u_mime r,
                 ui_parts = foldl (\<lambda>m p. map_insert (p_part p mod 65536) (part_of_row p) m) [] ps,
                 ui_effective = foldl (\<lambda>n p. add64 n (p_effective p)) 0 ps, ui_data = foldl (\<lambda>n p. add64 n (p_size p)) 0 ps\<rparr>)
      | _ \<Rightarrow> Inl NoSuchUpload)"

definition ms_part_details :: "database \<Rightarrow> bytes \<Rightarrow> nat \<Rightarrow> uploads \<Rightarrow> part_info res" where
  "ms_part_details D i part u =
     bindE (vrm_get_upload_part D i part u) (\<lambda>q.
       case q of None \<Rightarrow> Inl (Command_exception 404 ''InvalidPart'') | Some p \<Rightarrow> Inr (part_of_row p))"

text \<open>The sizes must fit into a BIGINT.\<close>

definition ms_append_part :: "database \<Rightarrow> bytes \<Rightarrow> nat \<Rightarrow> dedupe_response \<Rightarrow> size_t \<Rightarrow> bytes \<Rightarrow> uploads \<Rightarrow> uploads \<times> unit res" where
  "ms_append_part D i part resp n md5 u =
     (if 2 ^ 63 \<le> n \<or> 2 ^ 63 \<le> effective_size resp then (u, Inl Runtime_error)
      else vrm_put_multipart D i part n (effective_size resp) (daddr resp) md5 u)"

definition DEFAULT_TIMEOUT :: nat where
  "DEFAULT_TIMEOUT = 300 * 1000000"

definition ms_clear_infos :: "env \<Rightarrow> uploads \<Rightarrow> uploads" where
  "ms_clear_infos e u = vrm_clean_deleted e DEFAULT_TIMEOUT u"

definition ms_remove_upload :: "database \<Rightarrow> env \<Rightarrow> (bytes \<Rightarrow> bytes) \<Rightarrow> bytes \<Rightarrow> uploads \<Rightarrow> uploads \<times> unit res" where
  "ms_remove_upload D e random i u =
     (case vrm_complete_upload D i u of
        (u1, Inl err) \<Rightarrow> (u1, Inl err)
      | (u1, Inr _) \<Rightarrow>
          (case vrm_delete_upload D e random i u1 of
             (u2, Inl err) \<Rightarrow> (u2, Inl err)
           | (u2, Inr _) \<Rightarrow> (ms_clear_infos e u2, Inr ())))"

text \<open>The ids in the order of the map that holds them.\<close>

definition ms_list_uploads :: "bytes \<Rightarrow> uploads \<Rightarrow> (bytes \<times> bytes) list" where
  "ms_list_uploads bucket u = sort_key fst (map (\<lambda>r. (u_id r, u_key r)) (vrm_get_uploads bucket u))"

subsection \<open>Commands\<close>

definition init_multipart_response :: "s3_request \<Rightarrow> bytes \<Rightarrow> node" where
  "init_multipart_response rq i =
     Tree [(''InitiateMultipartUploadResult'', Tree [(''Bucket'', Leaf (rq_bucket rq)), (''Key'', Leaf (rq_key rq)), (''UploadId'', Leaf i)])]"

definition init_multipart_handle :: "env \<Rightarrow> s3_request \<Rightarrow> directory \<Rightarrow> uploads \<Rightarrow> uploads \<times> node res" where
  "init_multipart_handle e rq x u =
     (case dir_bucket_exists (rq_bucket rq) x of
        Inl err \<Rightarrow> (u, Inl err)
      | Inr _ \<Rightarrow>
          (case ms_insert_upload e (rq_bucket rq) (rq_key rq) (rq_header rq ''Content-Type'') u of
             (u', Inl err) \<Rightarrow> (u', Inl err)
           | (u', Inr i) \<Rightarrow> (u', Inr (init_multipart_response rq i))))"

text \<open>The parameters that \<open>can_handle\<close> requires are dereferenced.\<close>

definition multipart_validate :: "s3_request \<Rightarrow> unit res option" where
  "multipart_validate rq =
     (case query_size rq ''partNumber'' of
        Inl err \<Rightarrow> Some (Inl err)
      | Inr None \<Rightarrow> None
      | Inr (Some n) \<Rightarrow> Some (if n < 1 \<or> 10000 < n then Inl (Command_exception 400 ''InvalidPart'') else Inr ()))"

definition is_command_exception :: "exn \<Rightarrow> bool" where
  "is_command_exception err = (case err of Command_exception _ _ \<Rightarrow> True | _ \<Rightarrow> False)"

text \<open>What the command does with the tables, under the lock of the upload: the part that is replaced, if any.\<close>

definition store_part :: "database \<Rightarrow> bytes \<Rightarrow> nat \<Rightarrow> dedupe_response \<Rightarrow> bytes \<Rightarrow> uploads \<Rightarrow> uploads \<times> part_info option res" where
  "store_part D i part resp md5 u =
     (case ms_part_details D i part u of
        Inl err \<Rightarrow>
          if is_command_exception err
          then apsnd (\<lambda>r. bindE r (\<lambda>_. Inr None)) (ms_append_part D i part resp (data_size (daddr resp)) md5 u)
          else (u, Inl err)
      | Inr old \<Rightarrow> apsnd (\<lambda>r. bindE r (\<lambda>_. Inr (Some old))) (ms_append_part D i part resp (data_size (daddr resp)) md5 u))"

definition multipart_handle :: "'b body_ops \<Rightarrow> 'v view_ops \<Rightarrow> (bytes \<Rightarrow> ('v local_deduplicator, dedupe_response) proc) \<Rightarrow> (bytes \<Rightarrow> bytes) \<Rightarrow> database
    \<Rightarrow> s3_request \<Rightarrow> ('b \<times> 'v local_deduplicator \<times> uploads, response) proc" where
  "multipart_handle B V dd md5 D rq = (\<lambda>(b, d, u).
     case upload B dd (b, d) of
       None \<Rightarrow> None
     | Some ((b', d'), Inl err) \<Rightarrow> Some ((b', d', u), Inl err)
     | Some ((b', d'), Inr (resp, hashed)) \<Rightarrow>
         (case (rq_params rq ''uploadId'', query_size rq ''partNumber'') of
            (None, _) \<Rightarrow> None
          | (Some i, Inl err) \<Rightarrow> Some ((b', d', u), Inl err)
          | (Some i, Inr None) \<Rightarrow> None
          | (Some i, Inr (Some n)) \<Rightarrow>
              (case store_part D i (n mod 65536) resp (to_hex (md5 hashed)) u of
                 (u', Inl err) \<Rightarrow> Some ((b', d', u'), Inl err)
               | (u', Inr old) \<Rightarrow>
                   (let res = res_set ''ETag'' (Some (to_hex (md5 hashed))) (response_new 200)
                    in case old of
                         None \<Rightarrow> Some ((b', d', u'), Inr res)
                       | Some p \<Rightarrow>
                           (case vo_unlink V (ld_storage d') (pi_addr p) of
                              None \<Rightarrow> None
                            | Some (v, Inl err) \<Rightarrow> Some ((b', d'\<lparr>ld_storage := v\<rparr>, u'), Inl err)
                            | Some (v, Inr _) \<Rightarrow> Some ((b', d'\<lparr>ld_storage := v\<rparr>, u'), Inr res))))))"

text \<open>The list of parts in the body of the request, checked against the parts that are stored.\<close>

definition MAXIMUM_CHUNK_SIZE :: nat where
  "MAXIMUM_CHUNK_SIZE = 5 * 1024 * 1024"

definition MAXIMUM_PART_NUMBER :: nat where
  "MAXIMUM_PART_NUMBER = 10000"

definition MalformedXML :: exn where
  "MalformedXML = Command_exception 400 ''MalformedXML''"

fun validate_parts :: "(nat \<times> part_info) list \<Rightarrow> nat \<Rightarrow> (nat option \<times> bytes option) list \<Rightarrow> unit res" where
  "validate_parts parts part_counter [] = Inr ()"
| "validate_parts parts part_counter ((Some n, Some etag) # nodes) =
     (if MAXIMUM_PART_NUMBER < part_counter then Inl MalformedXML
      else (case map_of parts (n mod 65536) of
              None \<Rightarrow> Inl (Command_exception 400 ''InvalidPart'')
            | Some p \<Rightarrow>
                if pi_size p < MAXIMUM_CHUNK_SIZE \<and> n \<noteq> length parts then Inl (Command_exception 400 ''EntityTooSmall'')
                else if pi_etag p \<noteq> etag then Inl (Command_exception 400 ''InvalidPart'')
                else if n \<noteq> part_counter then Inl (Command_exception 400 ''InvalidPartOrder'')
                else validate_parts parts ((part_counter + 1) mod 65536) nodes))"
| "validate_parts parts part_counter (node # nodes) = Inl MalformedXML"

definition listed_parts :: "xml_library \<Rightarrow> bytes \<Rightarrow> (nat option \<times> bytes option) list res" where
  "listed_parts X xml =
     (case xl_parse X xml of
        None \<Rightarrow> Inl MalformedXML
      | Some tree \<Rightarrow>
          bindE (get_nodes [''CompleteMultipartUpload'', ''Part''] tree) (\<lambda>nodes.
            if nodes = [] then Inl MalformedXML else Inr (map (\<lambda>nd. (get_number X ''PartNumber'' nd, get_text ''ETag'' nd)) nodes)))"

definition validate_internal :: "xml_library \<Rightarrow> upload_info \<Rightarrow> bytes \<Rightarrow> unit res" where
  "validate_internal X info xml = bindE (listed_parts X xml) (\<lambda>nodes. validate_parts (ui_parts info) 1 nodes)"

fun unhex_all :: "(nat \<times> part_info) list \<Rightarrow> bytes res" where
  "unhex_all [] = Inr []"
| "unhex_all (p # ps) = bindE (unhex (pi_etag (snd p))) (\<lambda>h. bindE (unhex_all ps) (\<lambda>hs. Inr (h @ hs)))"

definition multipart_etag :: "(bytes \<Rightarrow> bytes) \<Rightarrow> upload_info \<Rightarrow> bytes res" where
  "multipart_etag md5 info = bindE (unhex_all (ui_parts info)) (\<lambda>buffer. Inr (to_hex (md5 buffer) @ ''-'' @ nat_str (length (ui_parts info))))"

definition complete_object :: "s3_request \<Rightarrow> upload_info \<Rightarrow> bytes \<Rightarrow> object" where
  "complete_object rq info etag =
     (let a = generate_total_address info
      in \<lparr>ob_id = 0, ob_name = rq_key rq, ob_size = data_size a, ob_last_modified = 0, ob_addr = Some a, ob_etag = Some etag,
          ob_mime = Some (case ui_mime info of Some m \<Rightarrow> m | None \<Rightarrow> DEFAULT_OBJECT_CONTENT_TYPE), ob_version = None, ob_state = Normal\<rparr>)"

definition complete_response :: "(size_t \<Rightarrow> bytes) \<Rightarrow> s3_request \<Rightarrow> upload_info \<Rightarrow> bytes \<Rightarrow> bytes option \<Rightarrow> response \<times> node" where
  "complete_response mb rq info etag version =
     (res_set ''Content-Type'' (Some ''application/xml'') (set_effective_size mb (ui_effective info) (set_original_size mb (ui_data info)
        (res_set ''X-Amz-Version-Id'' version (res_set ''ETag'' (Some etag) (response_new 200))))),
      Tree [(''CompleteMultipartUploadResult'', Tree [(''Bucket'', Leaf (rq_bucket rq)), (''Key'', Leaf (ui_key info)), (''ETag'', Leaf etag)])])"

definition complete_multipart_handle :: "'b body_ops \<Rightarrow> (bytes \<Rightarrow> bytes) \<Rightarrow> (size_t \<Rightarrow> bytes) \<Rightarrow> xml_library \<Rightarrow> database \<Rightarrow> env \<Rightarrow> (bytes \<Rightarrow> bytes)
    \<Rightarrow> s3_request \<Rightarrow> ('b \<times> directory \<times> uploads, response \<times> node) proc" where
  "complete_multipart_handle B md5 mb X D e random rq = (\<lambda>(b, x, u).
     case copy_to_buffer B b of
       None \<Rightarrow> None
     | Some (b', Inl err) \<Rightarrow> Some ((b', x, u), Inl err)
     | Some (b', Inr xml) \<Rightarrow>
         (case rq_params rq ''uploadId'' of
            None \<Rightarrow> None
          | Some i \<Rightarrow>
              (case bindE (ms_details D i u) (\<lambda>info. bindE (validate_internal X info xml) (\<lambda>_. bindE (multipart_etag md5 info) (\<lambda>etag. Inr (info, etag)))) of
                 Inl err \<Rightarrow> Some ((b', x, u), Inl err)
               | Inr (info, etag) \<Rightarrow>
                   if ui_completed info then Some ((b', x, u), Inr (complete_response mb rq info etag None))
                   else (case dir_put_object e (rq_bucket rq) (complete_object rq info etag) x of
                           None \<Rightarrow> None
                         | Some (x', Inl err) \<Rightarrow> Some ((b', x', u), Inl err)
                         | Some (x', Inr version) \<Rightarrow>
                             (case ms_remove_upload D e random i u of
                                (u', Inl err) \<Rightarrow> Some ((b', x', u'), Inl err)
                              | (u', Inr _) \<Rightarrow> Some ((b', x', u'), Inr (complete_response mb rq info etag version)))))))"

text \<open>Only the exceptions of one class are caught while the parts are released.\<close>

fun unlink_parts :: "'v view_ops \<Rightarrow> (exn \<Rightarrow> bool) \<Rightarrow> (nat \<times> part_info) list \<Rightarrow> ('v, unit) proc" where
  "unlink_parts V caught [] v = Some (v, Inr ())"
| "unlink_parts V caught (p # ps) v =
     (case vo_unlink V v (pi_addr (snd p)) of
        None \<Rightarrow> None
      | Some (v', Inl err) \<Rightarrow> if caught err then unlink_parts V caught ps v' else Some (v', Inl err)
      | Some (v', Inr _) \<Rightarrow> unlink_parts V caught ps v')"

definition abort_multipart_handle :: "'v view_ops \<Rightarrow> (exn \<Rightarrow> bool) \<Rightarrow> database \<Rightarrow> env \<Rightarrow> (bytes \<Rightarrow> bytes) \<Rightarrow> s3_request \<Rightarrow> ('v \<times> uploads, response) proc" where
  "abort_multipart_handle V caught D e random rq = (\<lambda>(v, u).
     case rq_params rq ''uploadId'' of
       None \<Rightarrow> None
     | Some i \<Rightarrow>
         (case ms_details D i u of
            Inl err \<Rightarrow> Some ((v, u), Inl err)
          | Inr info \<Rightarrow>
              (case ms_remove_upload D e random i u of
                 (u', Inl err) \<Rightarrow> Some ((v, u'), Inl err)
               | (u', Inr _) \<Rightarrow>
                   map_option (\<lambda>(v', r). ((v', u'), bindE r (\<lambda>_. Inr (response_new 200)))) (unlink_parts V caught (ui_parts info) v))))"

definition list_multipart_handle :: "s3_request \<Rightarrow> uploads \<Rightarrow> node res" where
  "list_multipart_handle rq u =
     (let ongoing = ms_list_uploads (rq_bucket rq) u
      in if ongoing = [] then Inl (Command_exception 404 ''NoMultiPartUploads'')
         else Inr (Tree [(''ListMultipartUploadsResult'', Tree (
                map (\<lambda>(i, k). (''Upload'', Tree [(''Key'', Leaf k), (''UploadId'', Leaf i)])) ongoing
                @ [(''Bucket'', Leaf (rq_bucket rq)), (''IsTruncated'', Flag False)]))]))"

subsection \<open>The parts of an upload\<close>

definition part_ok :: "(nat \<Rightarrow> nat \<Rightarrow> bytes option) \<Rightarrow> (bytes \<Rightarrow> bytes) \<Rightarrow> part_info \<Rightarrow> bytes \<Rightarrow> bool" where
  "part_ok cont md5 p data \<longleftrightarrow> address_holds cont (pi_addr p) data \<and> pi_size p = length data \<and> pi_etag p = to_hex (md5 data)"

definition upload_rows :: "bytes \<Rightarrow> uploads \<Rightarrow> part_row list" where
  "upload_rows uid u = filter (\<lambda>p. p_upload p = uid) (up_parts u)"

definition parts_hold :: "(nat \<Rightarrow> nat \<Rightarrow> bytes option) \<Rightarrow> (bytes \<Rightarrow> bytes) \<Rightarrow> bytes \<Rightarrow> (nat \<Rightarrow> bytes option) \<Rightarrow> uploads \<Rightarrow> bool" where
  "parts_hold cont md5 uid f u \<longleftrightarrow> distinct (map p_part (upload_rows uid u)) \<and> p_part ` set (upload_rows uid u) = dom f
     \<and> (\<forall>p\<in>set (upload_rows uid u). p_part p < 65536 \<and> part_ok cont md5 (part_of_row p) (the (f (p_part p))))"

lemma collected_parts:
  assumes "sorted_wrt (<) (map fst m)" and "distinct (map p_part ps)" and "fst ` set m \<inter> p_part ` set ps = {}" and "\<forall>p\<in>set ps. p_part p < 65536"
  defines "m' \<equiv> foldl (\<lambda>m p. map_insert (p_part p mod 65536) (part_of_row p) m) m ps"
  shows "sorted_wrt (<) (map fst m') \<and> set m' = set m \<union> (\<lambda>p. (p_part p, part_of_row p)) ` set ps"
  using assms(1-4) unfolding m'_def
proof (induction ps arbitrary: m)
  case (Cons p ps)
  let ?m = "map_insert (p_part p mod 65536) (part_of_row p) m"
  have p: "p_part p mod 65536 = p_part p" using Cons.prems(4) by simp
  have "fst ` set ?m \<inter> p_part ` set ps = {}" using Cons.prems(2,3) by (auto simp: keys_map_insert p)
  then show ?case
    using Cons.IH [of ?m] Cons.prems sorted_map_insert [OF Cons.prems(1)] set_map_insert [of "p_part p" m "part_of_row p"] by (auto simp: p)
qed simp

lemma details_parts:
  assumes u: "pg_uuid D i = Some uid" "find (\<lambda>r. u_id r = uid) (up_uploads u) = Some r" and p: "parts_hold cont md5 uid f u"
  shows "\<exists>info. ms_details D i u = Inr info \<and> ui_completed info = (u_complete r \<noteq> 0) \<and> map fst (ui_parts info) = sorted_list_of_set (dom f)
    \<and> (\<forall>(n, q)\<in>set (ui_parts info). part_ok cont md5 q (the (f n)))"
proof -
  let ?ps = "upload_rows uid u"
  let ?m = "foldl (\<lambda>m p. map_insert (p_part p mod 65536) (part_of_row p) m) [] ?ps"
  have d: "distinct (map p_part ?ps)" "p_part ` set ?ps = dom f" "\<forall>p\<in>set ?ps. p_part p < 65536" using p by (auto simp: parts_hold_def)
  have m: "sorted_wrt (<) (map fst ?m)" "set ?m = (\<lambda>p. (p_part p, part_of_row p)) ` set ?ps" using collected_parts [of "[]" ?ps] d by auto
  have "fst ` set ?m = dom f" unfolding m(2) using d(2) by (auto simp: image_image)
  then have k: "map fst ?m = sorted_list_of_set (dom f)"
    using m(1) sorted_list_of_set.idem_if_sorted_distinct [of "map fst ?m"] unfolding strict_sorted_iff set_map by simp
  have "\<forall>(n, q)\<in>set ?m. part_ok cont md5 q (the (f n))" unfolding m(2) using p by (auto simp: parts_hold_def)
  then show ?thesis using u k by (auto simp: ms_details_def vrm_get_upload_def vrm_get_upload_parts_def upload_rows_def)
qed

lemma total_address_holds:
  assumes "\<forall>(n, q)\<in>set ps. part_ok cont md5 q (g n)"
  shows "address_holds cont (foldl (\<lambda>a p. append_address a (pi_addr (snd p))) [] ps) (concat (map g (map fst ps)))"
proof -
  have "address_holds cont (foldl (\<lambda>a p. append_address a (pi_addr (snd p))) a ps) (x @ concat (map g (map fst ps)))"
    if "address_holds cont a x" "\<forall>(n, q)\<in>set ps. part_ok cont md5 q (g n)" for a x ps
    using that
  proof (induction ps arbitrary: a x)
    case (Cons p ps)
    then have "address_holds cont (append_address a (pi_addr (snd p))) (x @ g (fst p))" by (auto simp: append_address_def part_ok_def split: prod.splits)
    then show ?case using Cons.IH [of "append_address a (pi_addr (snd p))" "x @ g (fst p)"] Cons.prems(2) by simp
  qed simp
  from this [of "[]" "[]" ps] show ?thesis using assms by simp
qed

text \<open>The list that a client sends for the parts 1 to n.\<close>

lemma validate_complete:
  assumes p: "map fst ps = [1..<Suc n]" "\<forall>(k, q)\<in>set ps. part_ok cont md5 q (g k)" and n: "n \<le> MAXIMUM_PART_NUMBER"
    and big: "\<forall>k\<in>{1..<n}. MAXIMUM_CHUNK_SIZE \<le> length (g k)" and c: "1 \<le> c"
  shows "validate_parts ps c (map (\<lambda>k. (Some k, Some (to_hex (md5 (g k))))) [c..<Suc n]) = Inr ()"
  using c
proof (induction "Suc n - c" arbitrary: c)
  case (Suc m)
  then have cn: "c \<in> {1..n}" by auto
  have "c \<in> set (map fst ps)" "distinct (map fst ps)" using cn unfolding p(1) by auto
  then obtain q where q: "(c, q) \<in> set ps" "map_of ps c = Some q" by auto
  have ok: "pi_size q = length (g c)" "pi_etag q = to_hex (md5 (g c))" using q(1) p(2) by (auto simp: part_ok_def)
  have len: "length ps = n" using arg_cong [OF p(1), of length] by simp
  have "length (g c) < MAXIMUM_CHUNK_SIZE \<longrightarrow> c = n" using big cn by force
  moreover have "c < 65536" "\<not> MAXIMUM_PART_NUMBER < c" "c + 1 < 65536" using cn n by (simp_all add: MAXIMUM_PART_NUMBER_def)
  moreover have "[c..<Suc n] = c # [Suc c..<Suc n]" using cn by (simp add: upt_conv_Cons)
  moreover have "validate_parts ps (Suc c) (map (\<lambda>k. (Some k, Some (to_hex (md5 (g k))))) [Suc c..<Suc n]) = Inr ()"
    using Suc.hyps(2) Suc.prems by (intro Suc.hyps(1)) auto
  ultimately show ?case using q(2) ok len by auto
qed simp

lemma unhex_all_ok:
  assumes "\<forall>(k, q)\<in>set ps. part_ok cont md5 q (g k)"
  shows "\<exists>h. unhex_all ps = Inr h"
  using assms
proof (induction ps)
  case (Cons p ps)
  then obtain h where "unhex_all ps = Inr h" by auto
  moreover have "pi_etag (snd p) = to_hex (md5 (g (fst p)))" using Cons.prems by (auto simp: part_ok_def)
  ultimately show ?case by (simp add: unhex_loses_high_digit)
qed simp

context data_view
begin

lemma complete_multipart_stores:
  fixes u :: uploads
  assumes b: "copy_to_buffer B b = Some (b', Inr xml)" "rq_params rq ''uploadId'' = Some i" "pg_uuid D i = Some uid"
    and u: "find (\<lambda>r. u_id r = uid) (up_uploads u) = Some r" "u_complete r = 0"
    and p: "parts_hold (vbytes v) md5 uid f u" "dom f = {1..n}" "n \<le> MAXIMUM_PART_NUMBER" "\<forall>k\<in>{1..<n}. MAXIMUM_CHUNK_SIZE \<le> length (the (f k))"
    and l: "listed_parts X xml = Inr (map (\<lambda>k. (Some k, Some (to_hex (md5 (the (f k)))))) [1..<Suc n])"
    and len: "length (concat (map (\<lambda>k. the (f k)) [1..<Suc n])) < 2 ^ 63"
    and x: "dir_inv x" "dir_abs x (rq_bucket rq) = Some (Plain m)" "uuid_fresh e x"
  shows "\<exists>x' u' res a etag mime. complete_multipart_handle B md5 mb X D e random rq (b, x, u) = Some ((b', x', u'), Inr res) \<and> dir_inv x'
    \<and> dir_abs x' = (dir_abs x)(rq_bucket rq \<mapsto> Plain (m(rq_key rq \<mapsto> (a, etag, mime))))
    \<and> address_holds (vbytes v) a (concat (map (\<lambda>k. the (f k)) [1..<Suc n]))"
proof -
  obtain info where info: "ms_details D i u = Inr info" "\<not> ui_completed info" "map fst (ui_parts info) = [1..<Suc n]"
    "\<forall>(k, q)\<in>set (ui_parts info). part_ok (vbytes v) md5 q (the (f k))"
    using details_parts [OF b(3) u(1) p(1)] u(2) p(2) by (auto simp: atLeastLessThanSuc_atLeastAtMost simp flip: sorted_list_of_set_range)
  let ?a = "generate_total_address info" and ?data = "concat (map (\<lambda>k. the (f k)) [1..<Suc n])"
  have a: "address_holds (vbytes v) ?a ?data"
    using total_address_holds [OF info(4)] unfolding info(3) generate_total_address_def by simp
  have "data_size ?a = length ?data" using total_size_holds [OF a] len by (simp add: data_size_mod M64_def)
  then have sz: "data_size ?a < 2 ^ 63" using len by simp
  have "validate_internal X info xml = Inr ()"
    using validate_complete [OF info(3,4) p(3,4), of 1] by (simp add: validate_internal_def l)
  moreover obtain etag where "multipart_etag md5 info = Inr etag" using unhex_all_ok [OF info(4)] by (auto simp: multipart_etag_def)
  moreover obtain x' where x': "dir_put_object e (rq_bucket rq) (complete_object rq info etag) x = Some (x', Inr None)" "dir_inv x'"
    "dir_abs x' = (dir_abs x)(rq_bucket rq \<mapsto> Plain (m(rq_key rq \<mapsto> (?a, Some etag, ob_mime (complete_object rq info etag)))))"
    using put_object_accepted [OF x, of "complete_object rq info etag" ?a] sz by (auto simp: complete_object_def Let_def)
  moreover obtain u' where "ms_remove_upload D e random i u = (u', Inr ())"
    using b(3) by (auto simp: ms_remove_upload_def vrm_complete_upload_def vrm_delete_upload_def)
  ultimately have "complete_multipart_handle B md5 mb X D e random rq (b, x, u) = Some ((b', x', u'), Inr (complete_response mb rq info etag None))"
    using b(1,2) info(1,2) by (simp add: complete_multipart_handle_def)
  then show ?thesis using x'(2,3) a by (intro exI conjI)
qed

end

text \<open>A client that uploads parts one after the other, and stops at the first error.\<close>

fun run_parts :: "'b body_ops \<Rightarrow> 'v view_ops \<Rightarrow> (bytes \<Rightarrow> ('v local_deduplicator, dedupe_response) proc) \<Rightarrow> (bytes \<Rightarrow> bytes) \<Rightarrow> database
    \<Rightarrow> (s3_request \<times> 'b) list \<Rightarrow> 'v local_deduplicator \<times> uploads \<Rightarrow> ('v local_deduplicator \<times> uploads) option" where
  "run_parts B V dd md5 D [] s = Some s"
| "run_parts B V dd md5 D ((rq, b) # ps) (d, u) =
     (case multipart_handle B V dd md5 D rq (b, d, u) of
        Some ((b', d', u'), Inr _) \<Rightarrow> run_parts B V dd md5 D ps (d', u')
      | _ \<Rightarrow> None)"

lemma upload_rows_append: "upload_rows uid (u\<lparr>up_parts := up_parts u @ [q]\<rparr>) = upload_rows uid u @ (if p_upload q = uid then [q] else [])"
  by (simp add: upload_rows_def)

lemma parts_hold_mono:
  assumes "parts_hold cont md5 uid f u" and "\<And>a x. address_holds cont a x \<Longrightarrow> address_holds cont' a x"
  shows "parts_hold cont' md5 uid f u"
  using assms by (auto simp: parts_hold_def part_ok_def)

lemma store_new_part:
  assumes D: "pg_uuid D i = Some uid" "\<exists>r\<in>set (up_uploads u). u_id r = uid" and p: "parts_hold cont md5 uid f u" "f n = None" "n < 65536"
    and r: "address_holds cont (daddr resp) data" "data_size (daddr resp) = length data" "effective_size resp \<le> length data" "length data < 2 ^ 63"
  shows "\<exists>u'. store_part D i n resp (to_hex (md5 data)) u = (u', Inr None) \<and> up_uploads u' = up_uploads u \<and> parts_hold cont md5 uid (f(n \<mapsto> data)) u'"
proof -
  let ?q = "\<lparr>p_upload = uid, p_part = n, p_size = length data, p_effective = effective_size resp, p_address = daddr resp, p_etag = to_hex (md5 data)\<rparr>"
  let ?u = "u\<lparr>up_parts := up_parts u @ [?q]\<rparr>"
  have new: "p_part p \<noteq> n" if "p \<in> set (up_parts u)" "p_upload p = uid" for p
  proof -
    have "p_part p \<in> p_part ` set (upload_rows uid u)" using that by (simp add: upload_rows_def)
    then have "p_part p \<in> dom f" using p(1) by (simp add: parts_hold_def)
    then show ?thesis using p(2) by auto
  qed
  then have "find (\<lambda>p. p_upload p = uid \<and> p_part p = n) (up_parts u) = None" by (auto simp: find_None_iff)
  moreover have "update_part ?q (up_parts u) = up_parts u @ [?q]" using new by (auto simp: update_part_def)
  ultimately have s: "store_part D i n resp (to_hex (md5 data)) u = (?u, Inr None)"
    using D r(2-4) by (simp add: store_part_def ms_part_details_def vrm_get_upload_part_def is_command_exception_def ms_append_part_def vrm_put_multipart_def)
  have fresh: "n \<notin> p_part ` set (upload_rows uid u)" using new by (auto simp: upload_rows_def)
  then have "distinct (map p_part (upload_rows uid ?u)) \<and> p_part ` set (upload_rows uid ?u) = dom (f(n \<mapsto> data))"
    using p(1) by (simp add: parts_hold_def upload_rows_append)
  moreover have "\<forall>p\<in>set (upload_rows uid ?u). p_part p < 65536 \<and> part_ok cont md5 (part_of_row p) (the ((f(n \<mapsto> data)) (p_part p)))"
    using p(1,3) r(1) fresh by (auto simp: parts_hold_def upload_rows_append part_ok_def part_of_row_def)
  ultimately show ?thesis using s by (auto simp: parts_hold_def)
qed

context object_service
begin

lemma multipart_part:
  assumes b: "used b" and d: "ld_ok vinv vbytes live d" and rm: "room (ld_storage d) (k + length (rest b)) (m + length (rest b))" and len: "length (rest b) < 2 ^ 63"
    and rq: "rq_params rq ''uploadId'' = Some i" "query_size rq ''partNumber'' = Inr (Some n)" "n < 65536"
    and u: "pg_uuid D i = Some uid" "\<exists>r\<in>set (up_uploads u). u_id r = uid" "parts_hold (vbytes (ld_storage d)) md5 uid f u" "f n = None"
  shows "\<exists>b' d' u' res. multipart_handle B V (deduplicate V conf capacity) md5 D rq (b, d, u) = Some ((b', d', u'), Inr res)
    \<and> ld_ok vinv vbytes live d' \<and> room (ld_storage d') k m \<and> up_uploads u' = up_uploads u
    \<and> parts_hold (vbytes (ld_storage d')) md5 uid (f(n \<mapsto> rest b)) u'"
proof -
  have len': "length (rest b) < M64" using len by (simp add: M64_def)
  obtain b' d' resp where up: "upload B (deduplicate V conf capacity) (b, d) = Some ((b', d'), Inr (resp, rest b))" "ld_ok vinv vbytes live d'"
    "room (ld_storage d') k m" "address_holds (vbytes (ld_storage d')) (daddr resp) (rest b)" "effective_size resp \<le> length (rest b)"
    "\<And>a y. address_holds (vbytes (ld_storage d)) a y \<Longrightarrow> address_holds (vbytes (ld_storage d')) a y"
    using up.upload_holds [OF b d rm len'] by blast
  have sz: "data_size (daddr resp) = length (rest b)" using total_size_holds [OF up(4)] len' by (simp add: data_size_mod)
  have ph: "parts_hold (vbytes (ld_storage d')) md5 uid f u" by (rule parts_hold_mono [OF u(3) up(6)])
  obtain u' where u': "store_part D i n resp (to_hex (md5 (rest b))) u = (u', Inr None)" "up_uploads u' = up_uploads u"
    "parts_hold (vbytes (ld_storage d')) md5 uid (f(n \<mapsto> rest b)) u'"
    using store_new_part [OF u(1,2) ph u(4) rq(3) up(4) sz up(5) len] by blast
  then show ?thesis using up rq by (auto simp: multipart_handle_def)
qed

lemma run_parts_hold:
  assumes "ld_ok vinv vbytes live d" and "parts_hold (vbytes (ld_storage d)) md5 uid f u" and "pg_uuid D i = Some uid" and "\<exists>r\<in>set (up_uploads u). u_id r = uid"
    and "room (ld_storage d) (sum_list (map (\<lambda>(rq, b). length (rest b)) ps)) (sum_list (map (\<lambda>(rq, b). length (rest b)) ps))"
    and "list_all2 (\<lambda>(rq, b) n. used b \<and> length (rest b) < 2 ^ 63 \<and> rq_params rq ''uploadId'' = Some i \<and> query_size rq ''partNumber'' = Inr (Some n)) ps ns"
    and "distinct ns" and "\<forall>n\<in>set ns. n < 65536 \<and> f n = None"
  shows "\<exists>d' u'. run_parts B V (deduplicate V conf capacity) md5 D ps (d, u) = Some (d', u') \<and> ld_ok vinv vbytes live d' \<and> up_uploads u' = up_uploads u
    \<and> parts_hold (vbytes (ld_storage d')) md5 uid (f ++ map_of (zip ns (map (rest \<circ> snd) ps))) u'"
  using assms
proof (induction ps arbitrary: d u f ns)
  case (Cons p ps)
  obtain rq b n ns' where p: "p = (rq, b)" "ns = n # ns'" using Cons.prems(6) by (cases p) (auto simp: list_all2_Cons1)
  let ?k = "sum_list (map (\<lambda>(rq, b). length (rest b)) ps)"
  have rm: "room (ld_storage d) (?k + length (rest b)) (?k + length (rest b))" using Cons.prems(5) p(1) by (simp add: add.commute)
  obtain b' d' u' res where h: "multipart_handle B V (deduplicate V conf capacity) md5 D rq (b, d, u) = Some ((b', d', u'), Inr res)"
    "ld_ok vinv vbytes live d'" "room (ld_storage d') ?k ?k" "up_uploads u' = up_uploads u" "parts_hold (vbytes (ld_storage d')) md5 uid (f(n \<mapsto> rest b)) u'"
    using multipart_part [OF _ Cons.prems(1) rm, of rq i n D uid u md5 f] Cons.prems(2-4,6,8) p by auto
  have f: "distinct ns'" "\<forall>n'\<in>set ns'. n' < 65536 \<and> (f(n \<mapsto> rest b)) n' = None" using Cons.prems(7,8) p(2) by auto
  have l: "list_all2 (\<lambda>(rq, b) n. used b \<and> length (rest b) < 2 ^ 63 \<and> rq_params rq ''uploadId'' = Some i \<and> query_size rq ''partNumber'' = Inr (Some n)) ps ns'"
    using Cons.prems(6) p by simp
  obtain d'' u'' where r: "run_parts B V (deduplicate V conf capacity) md5 D ps (d', u') = Some (d'', u'')" "ld_ok vinv vbytes live d''" "up_uploads u'' = up_uploads u'"
    "parts_hold (vbytes (ld_storage d'')) md5 uid (f(n \<mapsto> rest b) ++ map_of (zip ns' (map (rest \<circ> snd) ps))) u''"
    using Cons.IH [OF h(2,5) Cons.prems(3) Cons.prems(4) [folded h(4)] h(3) l f] by blast
  have "n \<notin> dom (map_of (zip ns' (map (rest \<circ> snd) ps)))" using Cons.prems(7) p(2) by (auto dest: map_of_SomeD set_zip_leftD)
  then have eq: "f(n \<mapsto> rest b) ++ map_of (zip ns' (map (rest \<circ> snd) ps)) = f ++ map_of (zip ns (map (rest \<circ> snd) (p # ps)))"
    using p by (simp add: map_add_upd_left)
  have "run_parts B V (deduplicate V conf capacity) md5 D (p # ps) (d, u) = Some (d'', u'')" using h(1) r(1) p(1) by simp
  then show ?case using r(2-4) h(4) unfolding eq h(4) by blast
qed simp

end

subsection \<open>An upload in parts and its download\<close>

definition part_data :: "('b \<Rightarrow> bytes) \<Rightarrow> nat list \<Rightarrow> (s3_request \<times> 'b) list \<Rightarrow> nat \<Rightarrow> bytes" where
  "part_data rest ns ps k = the (map_of (zip ns (map (rest \<circ> snd) ps)) k)"

text \<open>
  C7: An object that is uploaded in parts, in any order of the part numbers 1 to n and each part
  with a body of its own, and completed with the list of these parts, is the concatenation of the
  parts in the order of their numbers: this is what a download of the key sends.
\<close>

theorem multipart_download:
  fixes s K conf capacity d x u
  assumes "os_ok s" and "kv_laws K" and "0 < max_fragment_size conf"
    and "ld_ok (rr_vinv (local_inv K)) (rr_bytes ds_bytes m_write_offset) (rr_live ds_bytes m_write_offset (ds_tracked K)) d"
    and "pg_uuid D i = Some uid" and "find (\<lambda>r. u_id r = uid) (up_uploads u) = Some r" and "u_complete r = 0" and "upload_rows uid u = []"
    and "list_all2 (\<lambda>(rq, b) k. rb_ok concat b \<and> length (rb_rest concat b) < 2 ^ 63 \<and> rq_params rq ''uploadId'' = Some i \<and> query_size rq ''partNumber'' = Inr (Some k)) ps ns"
    and "distinct ns" and "set ns = {1..n}" and "n \<le> MAXIMUM_PART_NUMBER"
    and "rr_room m_write_offset ds_fits ds_grants (ld_storage d) (sum_list (map (\<lambda>(rq, b). length (rb_rest concat b)) ps)) (sum_list (map (\<lambda>(rq, b). length (rb_rest concat b)) ps))"
    and "\<forall>k\<in>{1..<n}. MAXIMUM_CHUNK_SIZE \<le> length (part_data (rb_rest concat) ns ps k)"
    and "length (concat (map (part_data (rb_rest concat) ns ps) [1..<Suc n])) < 2 ^ 63"
    and "rb_fresh concat bc" and "rb_rest concat bc = xml" and "rq_params cq ''uploadId'' = Some i"
    and "listed_parts X xml = Inr (map (\<lambda>k. (Some k, Some (to_hex (md5 (part_data (rb_rest concat) ns ps k))))) [1..<Suc n])"
    and "dir_inv x" and "dir_abs x (rq_bucket cq) = Some (Plain m)" and "uuid_fresh e x"
    and "rq_bucket get = rq_bucket cq" and "rq_key get = rq_key cq" and "rq_params get ''versionId'' = None" and "rq_header get ''Range'' = None" and "0 < bs"
  shows "\<exists>d' u' b' x' u'' res x'' res' k a h hdr.
    run_parts (raw_body_ops segment_recv) (rr_ops (local_ops s K)) (deduplicate (rr_ops (local_ops s K)) conf capacity) md5 D ps (d, u) = Some (d', u')
    \<and> complete_multipart_handle (raw_body_ops segment_recv) md5 mb X D e random cq (bc, x, u') = Some ((b', x', u''), Inr res)
    \<and> get_object_handle D fixdate get x' = Some (x'', Inr (res', Some (k, a)))
    \<and> response_write (read_handle_ops (rr_ops (local_ops s K))) req_id date res' (read_handle_new (ld_storage d') a bs)
      = Some (h, Inr (hdr, concat (map (part_data (rb_rest concat) ns ps) [1..<Suc n])))"
proof -
  let ?B = "rr_bytes ds_bytes m_write_offset" and ?f = "map_of (zip ns (map (rb_rest concat \<circ> snd) ps))" and ?g = "part_data (rb_rest concat) ns ps"
  note C = local_object_service [OF assms(1-3)] and R = local_rr_contract [OF assms(1,2)]
  have e: "parts_hold (?B (ld_storage d)) md5 uid (\<lambda>_. None) u" using assms(8) by (simp add: parts_hold_def)
  have uid: "\<exists>r\<in>set (up_uploads u). u_id r = uid" using find_SomeD [OF assms(6)] by blast
  have ns: "\<forall>k\<in>set ns. k < 65536 \<and> (\<lambda>_. None :: bytes option) k = None" using assms(11,12) by (auto simp: MAXIMUM_PART_NUMBER_def)
  obtain d' u' where r: "run_parts (raw_body_ops segment_recv) (rr_ops (local_ops s K)) (deduplicate (rr_ops (local_ops s K)) conf capacity) md5 D ps (d, u) = Some (d', u')"
    "rr_vinv (local_inv K) (ld_storage d')" "up_uploads u' = up_uploads u" "parts_hold (?B (ld_storage d')) md5 uid ?f u'"
    using object_service.run_parts_hold [OF C assms(4) e assms(5) uid assms(13) assms(9,10) ns, where capacity = capacity] by (auto simp: ld_ok_def)
  have f: "dom ?f = {1..n}" using list_all2_lengthD [OF assms(9)] assms(11) by (simp add: dom_map_of_zip)
  have g: "?g = (\<lambda>k. the (?f k))" by (simp add: part_data_def fun_eq_iff)
  obtain b' where b: "copy_to_buffer (raw_body_ops segment_recv) bc = Some (b', Inr xml)"
    using segments.raw.copy_to_buffer_rest [OF assms(16)] assms(17) by auto
  obtain x' u'' res a etag mime where c: "complete_multipart_handle (raw_body_ops segment_recv) md5 mb X D e random cq (bc, x, u') = Some ((b', x', u''), Inr res)"
    "dir_inv x'" "dir_abs x' = (dir_abs x)(rq_bucket cq \<mapsto> Plain (m(rq_key cq \<mapsto> (a, etag, mime))))" "address_holds (?B (ld_storage d')) a (concat (map ?g [1..<Suc n]))"
    using data_view.complete_multipart_stores [OF R b assms(18,5) _ assms(7) r(4) f assms(12) _ _ _ assms(20-22), where mb = mb and random = random and X = X]
      assms(6,14,15,19) r(3) unfolding g by auto
  have l: "length (concat (map ?g [1..<Suc n])) < M64" using assms(15) by (simp add: M64_def)
  have m: "dir_abs x' (rq_bucket get) = Some (Plain (m(rq_key cq \<mapsto> (a, etag, mime))))" "(m(rq_key cq \<mapsto> (a, etag, mime))) (rq_key get) = Some (a, etag, mime)"
    using c(3) assms(23,24) by simp_all
  show ?thesis
    using data_view.get_object_sends [OF R r(2) c(4) l assms(27) c(2) m assms(25,26), of D fixdate req_id date] r(1) c(1)
    by (elim exE conjE) (intro exI conjI; assumption)
qed

definition sample_uploads :: uploads where
  "sample_uploads = \<lparr>up_uploads = [\<lparr>u_id = ''i'', u_bucket = ''bucket'', u_key = ''key'', u_erased_since = None, u_mime = None, u_complete = 0\<rparr>], up_parts = []\<rparr>"

definition sample_part_request :: "verb \<Rightarrow> s3_request" where
  "sample_part_request vb = (sample_request vb [])\<lparr>rq_params := [''uploadId'' \<mapsto> ''i'', ''partNumber'' \<mapsto> ''1'']\<rparr>"

definition sample_xml :: xml_library where
  "sample_xml = \<lparr>xl_parse = \<lambda>_. Some (Tree [(''CompleteMultipartUpload'', Tree [(''Part'', Tree [(''PartNumber'', Leaf ''1''), (''ETag'', Leaf (to_hex ''hello''))])])]),
     xl_number = \<lambda>_. Some 1\<rparr>"

lemma sample_part:
  "rq_params (sample_part_request vb) ''uploadId'' = Some ''i''" "query_size (sample_part_request vb) ''partNumber'' = Inr (Some 1)"
  "rq_bucket (sample_part_request vb) = ''bucket''" "rq_key (sample_part_request vb) = ''key''"
  "listed_parts sample_xml xml = Inr [(Some 1, Some (to_hex ''hello''))]"
proof -
  have "stoull ''1'' = Inr 1" using stoull_nat_str [of 1] by (simp add: nat_str.simps M64_def)
  then show "query_size (sample_part_request vb) ''partNumber'' = Inr (Some 1)" by (simp add: query_size_def sample_part_request_def)
  show "rq_bucket (sample_part_request vb) = ''bucket''" "rq_key (sample_part_request vb) = ''key''"
    using sample_request_simps(1,2) [of vb "[]"] by (simp_all add: sample_part_request_def rq_bucket_def rq_key_def)
qed (simp_all add: sample_part_request_def listed_parts_def sample_xml_def get_number_def get_text_def)

lemma sample_body_fresh: "ss_get (rb_stream sample_body) = 0"
  by (simp add: sample_body_def ss_new_def)

theorem multipart_download_witness:
  "\<exists>d' u' b' x' u'' res x'' res' k a h hdr.
    run_parts (raw_body_ops segment_recv) (rr_ops (local_ops slow_os map_kv)) (deduplicate (rr_ops (local_ops slow_os map_kv)) default_dedup_config 4) (\<lambda>s. s) sample_db
      [(sample_part_request PUT, sample_body)] (sample_dedup, sample_uploads) = Some (d', u')
    \<and> complete_multipart_handle (raw_body_ops segment_recv) (\<lambda>s. s) (\<lambda>_. []) sample_xml sample_db \<lparr>e_now = 0, e_uuid = ''u''\<rparr> (\<lambda>s. s)
        (sample_part_request POST) (sample_body, sample_directory, u') = Some ((b', x', u''), Inr res)
    \<and> get_object_handle sample_db (\<lambda>_. []) (sample_request GET []) x' = Some (x'', Inr (res', Some (k, a)))
    \<and> response_write (read_handle_ops (rr_ops (local_ops slow_os map_kv))) [] [] res' (read_handle_new (ld_storage d') a 4096)
      = Some (h, Inr (hdr, concat (map (part_data (rb_rest concat) [1] [(sample_part_request PUT, sample_body)]) [1..<Suc 1])))"
  by (rule multipart_download [OF slow_os_ok map_kv_laws _ sample_cluster_ok(1), where i = "''i''" and uid = "''i''" and xml = "''hello''" and m = "\<lambda>_. None"
        and r = "\<lparr>u_id = ''i'', u_bucket = ''bucket'', u_key = ''key'', u_erased_since = None, u_mime = None, u_complete = 0\<rparr>"])
    (use sample_upload_inputs(4) in \<open>simp_all add: sample_upload_inputs(2,3) sample_body_fresh sample_directory_ok sample_request_simps sample_part sample_uploads_def upload_rows_def part_data_def
       sample_db_def default_dedup_config_def DEFAULT_PAGE_SIZE_def KIBI_BYTE_def MAXIMUM_PART_NUMBER_def rb_fresh_def\<close>)

subsection \<open>Aborting a completed upload\<close>

lemma removed_upload_found:
  assumes u: "pg_uuid D i = Some uid" "ms_details D i u = Inr info"
  shows "\<exists>u' info'. ms_remove_upload D e random i u = (u', Inr ()) \<and> ms_details D i u' = Inr info' \<and> ui_completed info' \<and> ui_parts info' = ui_parts info"
proof -
  define F :: "upload_row \<Rightarrow> upload_row" where
    "F = (\<lambda>r. if u_id r = uid then r\<lparr>u_complete := 1, u_erased_since := Some (e_now e), u_bucket := random (u_bucket r), u_key := random (u_key r)\<rparr> else r)"
  define old :: "upload_row \<Rightarrow> bool" where "old = (\<lambda>r. case u_erased_since r of None \<Rightarrow> False | Some t \<Rightarrow> t + DEFAULT_TIMEOUT < e_now e)"
  let ?us = "map F (up_uploads u)"
  define gone where "gone = set (map u_id (filter old ?us))"
  let ?u = "u\<lparr>up_uploads := filter (\<lambda>r. \<not> old r) ?us, up_parts := filter (\<lambda>p. p_upload p \<notin> gone) (up_parts u)\<rparr>"
  have F: "u_id (F r) = u_id r" "u_id r = uid \<Longrightarrow> \<not> old (F r)" "u_id r = uid \<Longrightarrow> u_complete (F r) = 1" for r
    by (simp_all add: F_def old_def)
  have "update_upload uid (\<lambda>r. r\<lparr>u_erased_since := Some (e_now e), u_bucket := random (u_bucket r), u_key := random (u_key r)\<rparr>)
      (update_upload uid (\<lambda>r. r\<lparr>u_complete := 1\<rparr>) u) = u\<lparr>up_uploads := ?us\<rparr>"
    by (simp add: update_upload_def F_def)
  then have "ms_remove_upload D e random i u = (vrm_clean_deleted e DEFAULT_TIMEOUT (u\<lparr>up_uploads := ?us\<rparr>), Inr ())"
    using u(1) by (simp only: ms_remove_upload_def vrm_complete_upload_def vrm_delete_upload_def ms_clear_infos_def prod.case sum.case option.case)
  also have "vrm_clean_deleted e DEFAULT_TIMEOUT (u\<lparr>up_uploads := ?us\<rparr>) = ?u"
    by (simp add: vrm_clean_deleted_def Let_def old_def gone_def)
  finally have rm: "ms_remove_upload D e random i u = (?u, Inr ())" .
  obtain r where r: "find (\<lambda>r. u_id r = uid) (up_uploads u) = Some r"
    using u by (auto simp: ms_details_def vrm_get_upload_def split: option.splits)
  have "find (\<lambda>r. u_id r = uid) (filter (\<lambda>r. \<not> old r) (map F xs)) = map_option F (find (\<lambda>r. u_id r = uid) xs)" for xs
    using F by (induction xs) auto
  then have r': "find (\<lambda>r. u_id r = uid) (up_uploads ?u) = Some (F r)" using r by simp
  have "uid \<notin> gone" using F by (auto simp: gone_def)
  then have "filter (\<lambda>p. p_upload p = uid) (up_parts ?u) = filter (\<lambda>p. p_upload p = uid) (up_parts u)"
    by (auto intro!: filter_cong)
  then show ?thesis using u r r' rm F(3) find_SomeD [OF r] by (auto simp: ms_details_def vrm_get_upload_def vrm_get_upload_parts_def)
qed

text \<open>
  C33: An abort that follows the completion of an upload is not refused: as long as the row of
  the upload has not been cleared, it unlinks the addresses of all parts, although the address
  of the object that the completion stored consists of these addresses.
\<close>

theorem abort_after_complete:
  assumes "pg_uuid D i = Some uid" and "rq_params cq ''uploadId'' = Some i" and "ms_details D i u = Inr info" and "\<not> ui_completed info"
    and "complete_multipart_handle B md5 mb X D e random cq (b, x, u) = Some ((b', x', u'), Inr res)" and "rq_params aq ''uploadId'' = Some i"
  shows "\<exists>etag version u''. dir_put_object e (rq_bucket cq) (complete_object cq info etag) x = Some (x', Inr version)
    \<and> ob_addr (complete_object cq info etag) = Some (concat (map (\<lambda>p. pi_addr (snd p)) (ui_parts info)))
    \<and> abort_multipart_handle V caught D e' random aq (v, u')
      = map_option (\<lambda>(v', r). ((v', u''), bindE r (\<lambda>_. Inr (response_new 200)))) (unlink_parts V caught (ui_parts info) v)"
proof -
  obtain etag version where c: "dir_put_object e (rq_bucket cq) (complete_object cq info etag) x = Some (x', Inr version)" "ms_remove_upload D e random i u = (u', Inr ())"
    using assms(2-5) by (auto simp: complete_multipart_handle_def bindE_def split: option.splits sum.splits prod.splits if_splits)
  obtain info' where i: "ms_details D i u' = Inr info'" "ui_parts info' = ui_parts info"
    using removed_upload_found [OF assms(1,3), of e random] c(2) by auto
  obtain u'' where "ms_remove_upload D e' random i u' = (u'', Inr ())" using removed_upload_found [OF assms(1) i(1)] by blast
  moreover have "foldl (\<lambda>a p. append_address a (pi_addr (snd p))) a ps = a @ concat (map (\<lambda>p. pi_addr (snd p)) ps)" for a and ps :: "(nat \<times> part_info) list"
    by (induction ps arbitrary: a) (simp_all add: append_address_def)
  ultimately show ?thesis using c(1) i assms(6) by (auto simp: abort_multipart_handle_def complete_object_def generate_total_address_def Let_def)
qed

definition sample_info :: upload_info where
  "sample_info = \<lparr>ui_key = ''key'', ui_bucket = ''bucket'', ui_erased = False, ui_completed = False, ui_mime = None,
     ui_parts = [(1, \<lparr>pi_etag = to_hex ''hello'', pi_size = 5, pi_addr = [mk_fragment 0 5]\<rparr>)], ui_effective = 5, ui_data = 5\<rparr>"

definition sample_parted :: uploads where
  "sample_parted = sample_uploads\<lparr>up_parts := [\<lparr>p_upload = ''i'', p_part = 1, p_size = 5, p_effective = 5, p_address = [mk_fragment 0 5], p_etag = to_hex ''hello''\<rparr>]\<rparr>"

lemma sample_details: "ms_details sample_db ''i'' sample_parted = Inr sample_info"
  by (simp add: ms_details_def vrm_get_upload_def vrm_get_upload_parts_def sample_parted_def sample_uploads_def sample_db_def sample_info_def part_of_row_def add64_def M64_def)

lemma sample_complete:
  "\<exists>b' x' u' res. complete_multipart_handle (raw_body_ops segment_recv) (\<lambda>s. s) (\<lambda>_. []) sample_xml sample_db \<lparr>e_now = 0, e_uuid = ''u''\<rparr> (\<lambda>s. s)
     (sample_part_request POST) (sample_body, sample_directory, sample_parted) = Some ((b', x', u'), Inr res)"
proof -
  let ?e = "\<lparr>e_now = 0, e_uuid = ''u''\<rparr>" and ?etag = "to_hex (map (\<lambda>c. char_of (of_char c mod 16 :: nat)) ''hello'') @ ''-'' @ nat_str 1"
  have "rb_fresh concat sample_body" using sample_upload_inputs(2) sample_body_fresh by (simp add: rb_fresh_def)
  then obtain b' where b: "copy_to_buffer (raw_body_ops segment_recv) sample_body = Some (b', Inr ''hello'')"
    using segments.raw.copy_to_buffer_rest [of sample_body] by (auto simp: sample_upload_inputs(3))
  have v: "validate_internal sample_xml sample_info ''hello'' = Inr ()" by (simp add: validate_internal_def sample_part sample_info_def MAXIMUM_PART_NUMBER_def)
  have t: "multipart_etag (\<lambda>s. s) sample_info = Inr ?etag" by (simp add: multipart_etag_def sample_info_def unhex_loses_high_digit)
  obtain x' where x: "dir_put_object ?e ''bucket'' (complete_object (sample_part_request POST) sample_info ?etag) sample_directory = Some (x', Inr None)"
    using put_object_accepted [OF sample_directory_ok(1,2), of ?e "complete_object (sample_part_request POST) sample_info ?etag" "[mk_fragment 0 5]"] sample_directory_ok(3)
    by (auto simp: complete_object_def generate_total_address_def sample_info_def append_address_def data_size_def add64_def M64_def)
  obtain u' where "ms_remove_upload sample_db ?e (\<lambda>s. s) ''i'' sample_parted = (u', Inr ())"
    using removed_upload_found [OF _ sample_details, of "''i''"] by (auto simp: sample_db_def)
  then show ?thesis using b v t x by (simp add: complete_multipart_handle_def sample_part sample_details)
qed

theorem abort_after_complete_witness:
  "\<exists>b' x' u' res etag version u''.
    complete_multipart_handle (raw_body_ops segment_recv) (\<lambda>s. s) (\<lambda>_. []) sample_xml sample_db \<lparr>e_now = 0, e_uuid = ''u''\<rparr> (\<lambda>s. s)
      (sample_part_request POST) (sample_body, sample_directory, sample_parted) = Some ((b', x', u'), Inr res)
    \<and> dir_put_object \<lparr>e_now = 0, e_uuid = ''u''\<rparr> ''bucket'' (complete_object (sample_part_request POST) sample_info etag) sample_directory = Some (x', Inr version)
    \<and> abort_multipart_handle (rr_ops (local_ops plain_os map_kv)) (\<lambda>_. False) sample_db \<lparr>e_now = 1, e_uuid = ''w''\<rparr> (\<lambda>s. s) (sample_part_request DELETE) (sample_rr, u')
      = map_option (\<lambda>(v', r). ((v', u''), bindE r (\<lambda>_. Inr (response_new 200)))) (unlink_parts (rr_ops (local_ops plain_os map_kv)) (\<lambda>_. False) (ui_parts sample_info) sample_rr)"
proof -
  obtain b' x' u' res where c: "complete_multipart_handle (raw_body_ops segment_recv) (\<lambda>s. s) (\<lambda>_. []) sample_xml sample_db \<lparr>e_now = 0, e_uuid = ''u''\<rparr> (\<lambda>s. s)
      (sample_part_request POST) (sample_body, sample_directory, sample_parted) = Some ((b', x', u'), Inr res)" using sample_complete by blast
  show ?thesis
    using abort_after_complete [OF _ _ sample_details _ c, of "''i''" "sample_part_request DELETE" "rr_ops (local_ops plain_os map_kv)" "\<lambda>_. False" "\<lparr>e_now = 1, e_uuid = ''w''\<rparr>" sample_rr] c
    by (auto simp: sample_part sample_info_def [THEN arg_cong, of ui_completed] sample_db_def)
qed

end
