(* ===== verification/Vrm_Policy.thy ===== *)
theory Vrm_Policy
  imports Vrm_Wildcard
begin

text \<open>
  Access policies (\<open>entrypoint/policy\<close>, \<open>common/utils/json.h\<close>): the variables of a request, the
  matchers a statement is made of, the parser of policy documents and the decision over the global
  policies, the policy of the bucket and those of the user. A parsed JSON document is a value of
  \<open>json\<close>; the text parser of the library, the clock and \<open>std::get_time\<close> are arguments. An exception of
  the JSON library is a \<open>Runtime_error\<close>.
\<close>

subsection \<open>Variables of a request\<close>

record request_info =
  ri_action_id :: bytes
  ri_arn :: bytes
  ri_user_arn :: "bytes option"
  ri_user_name :: bytes
  ri_user_id :: bytes
  ri_peer :: bytes
  ri_header :: "bytes \<Rightarrow> bytes option"
  ri_query :: "bytes \<Rightarrow> bytes option"

definition default_providers :: "bytes \<Rightarrow> (bytes \<times> (request_info \<Rightarrow> bytes option)) list" where
  "default_providers now =
    [(''vrm:ActionId'', \<lambda>r. Some (ri_action_id r)),
     (''vrm:ResourceArn'', \<lambda>r. Some (ri_arn r)),
     (''aws:PrincipalArn'', \<lambda>r. ri_user_arn r),
     (''aws:username'', \<lambda>r. Some (ri_user_name r)),
     (''aws:userid'', \<lambda>r. Some (ri_user_id r)),
     (''aws:SourceIp'', \<lambda>r. Some (ri_peer r)),
     (''aws:referer'', \<lambda>r. ri_header r ''Referer''),
     (''aws:UserAgent'', \<lambda>r. ri_header r ''User-Agent''),
     (''s3:x-amz-content-sha256'', \<lambda>r. ri_header r ''x-amz-content-sha256''),
     (''s3:x-amz-copy-source'', \<lambda>r. ri_header r ''x-amz-copy-source''),
     (''s3:delimiter'', \<lambda>r. ri_query r ''delimiter''),
     (''s3:prefix'', \<lambda>r. ri_query r ''prefix''),
     (''aws:CurrentTime'', \<lambda>r. Some now)]"

definition provider_get :: "(bytes \<times> (request_info \<Rightarrow> bytes option)) list \<Rightarrow> bytes \<Rightarrow> request_info \<Rightarrow> bytes option" where
  "provider_get providers name r =
     (case find (\<lambda>(k, f). equals_nocase k name) providers of None \<Rightarrow> None | Some (k, f) \<Rightarrow> f r)"

record variables =
  v_request :: request_info
  v_cache :: "bytes \<rightharpoonup> bytes"

definition variables_get :: "bytes \<Rightarrow> bytes \<Rightarrow> variables \<Rightarrow> variables \<times> bytes option" where
  "variables_get now name v =
     (case v_cache v name of
        Some x \<Rightarrow> (v, Some x)
      | None \<Rightarrow> (case provider_get (default_providers now) name (v_request v) of
                   Some x \<Rightarrow> (v\<lparr>v_cache := (v_cache v)(name \<mapsto> x)\<rparr>, Some x)
                 | None \<Rightarrow> (v, None)))"

definition variables_put :: "bytes \<Rightarrow> bytes \<Rightarrow> variables \<Rightarrow> variables" where
  "variables_put k x v = v\<lparr>v_cache := (v_cache v)(k \<mapsto> x)\<rparr>"

subsection \<open>Matchers\<close>

text \<open>A matcher sees the variables as the function from names to values that the cache makes of them.\<close>

type_synonym vars = "bytes \<Rightarrow> bytes option"
type_synonym matcher = "vars \<Rightarrow> bool res"

datatype undefined_variable = Ignore | Do_not_match

definition match_always :: matcher where "match_always = (\<lambda>vars. Inr True)"
definition match_never :: matcher where "match_never = (\<lambda>vars. Inr False)"

fun conjunction :: "matcher list \<Rightarrow> matcher" where
  "conjunction [] vars = Inr True"
| "conjunction (m # ms) vars = bindE (m vars) (\<lambda>b. if \<not> b then Inr False else conjunction ms vars)"

fun match_any :: "'a list \<Rightarrow> ('a \<Rightarrow> bool res) \<Rightarrow> bool res" where
  "match_any [] pred = Inr False"
| "match_any (x # xs) pred = bindE (pred x) (\<lambda>b. if b then Inr True else match_any xs pred)"

definition negE :: "bool res \<Rightarrow> bool res" where
  "negE r = bindE r (\<lambda>b. Inr (\<not> b))"

definition match_action :: "bytes list \<Rightarrow> matcher" where
  "match_action actions vars = match_any actions (\<lambda>value.
     case vars ''vrm:ActionId'' of
       Some action \<Rightarrow> Inr (equals_wildcard (CHR ''*'') (CHR ''?'') value action 0)
     | None \<Rightarrow> Inl Runtime_error)"

definition match_not_action :: "bytes list \<Rightarrow> matcher" where
  "match_not_action actions vars = negE (match_action actions vars)"

definition match_resource :: "bytes list \<Rightarrow> matcher" where
  "match_resource resources vars = match_any resources (\<lambda>value.
     case vars ''vrm:ResourceArn'' of
       Some arn \<Rightarrow> Inr (equals_wildcard_vars vars value arn)
     | None \<Rightarrow> Inl Runtime_error)"

definition match_not_resource :: "bytes list \<Rightarrow> matcher" where
  "match_not_resource resources vars = negE (match_resource resources vars)"

definition match_principal :: "bytes list \<Rightarrow> matcher" where
  "match_principal principals vars = match_any principals (\<lambda>value.
     case vars ''aws:PrincipalArn'' of
       Some arn \<Rightarrow> Inr (equals_wildcard (CHR ''*'') (CHR ''?'') value arn 0)
     | None \<Rightarrow> Inl Runtime_error)"

definition match_not_principal :: "bytes list \<Rightarrow> matcher" where
  "match_not_principal principals vars = negE (match_principal principals vars)"

type_synonym condition = "(bytes \<times> bytes list) list"

fun var_matcher :: "condition \<Rightarrow> undefined_variable \<Rightarrow> (vars \<Rightarrow> bytes \<Rightarrow> bytes list \<Rightarrow> bool res) \<Rightarrow> matcher" where
  "var_matcher [] uv f vars = Inr True"
| "var_matcher ((key, options) # checks) uv f vars =
     (case vars key of
        None \<Rightarrow> if uv = Ignore then var_matcher checks uv f vars else Inr False
      | Some v \<Rightarrow> bindE (f vars v options) (\<lambda>b. if \<not> b then Inr False else var_matcher checks uv f vars))"

definition expand :: "vars \<Rightarrow> bytes \<Rightarrow> bytes" where
  "expand vars value = var_replace (CHR ''*'') (CHR ''?'') vars value"

definition match_stringequals :: "condition \<Rightarrow> undefined_variable \<Rightarrow> matcher" where
  "match_stringequals values uv = var_matcher values uv (\<lambda>vars var options.
     match_any options (\<lambda>value. Inr (var = expand vars value)))"

definition match_stringnotequals :: "condition \<Rightarrow> undefined_variable \<Rightarrow> matcher" where
  "match_stringnotequals values uv = var_matcher values uv (\<lambda>vars var options.
     negE (match_any options (\<lambda>value. Inr (var = expand vars value))))"

definition match_stringequalsignorecase :: "condition \<Rightarrow> undefined_variable \<Rightarrow> matcher" where
  "match_stringequalsignorecase values uv = var_matcher values uv (\<lambda>vars var options.
     match_any options (\<lambda>value. Inr (equals_nocase var (expand vars value))))"

definition match_stringnotequalsignorecase :: "condition \<Rightarrow> undefined_variable \<Rightarrow> matcher" where
  "match_stringnotequalsignorecase values uv = var_matcher values uv (\<lambda>vars var options.
     negE (match_any options (\<lambda>value. Inr (equals_nocase var (expand vars value)))))"

definition match_stringlike :: "condition \<Rightarrow> undefined_variable \<Rightarrow> matcher" where
  "match_stringlike values uv = var_matcher values uv (\<lambda>vars var options.
     match_any options (\<lambda>value. Inr (equals_wildcard_vars vars var value)))"

definition match_stringnotlike :: "condition \<Rightarrow> undefined_variable \<Rightarrow> matcher" where
  "match_stringnotlike values uv = var_matcher values uv (\<lambda>vars var options.
     negE (match_any options (\<lambda>value. Inr (equals_wildcard_vars vars var value))))"

definition match_numericcomparison :: "condition \<Rightarrow> undefined_variable \<Rightarrow> (int \<Rightarrow> int \<Rightarrow> bool) \<Rightarrow> matcher" where
  "match_numericcomparison values uv cmp = var_matcher values uv (\<lambda>vars var options.
     if length options \<noteq> 1 then Inl Runtime_error
     else bindE (to_int var) (\<lambda>a. bindE (to_int (expand vars (hd options))) (\<lambda>b. Inr (cmp a b))))"

text \<open>
  Dates: \<open>get_date\<close> is \<open>std::get_time\<close> for the date with \<open>timegm\<close>, giving the year and the seconds,
  \<open>get_hour\<close> is \<open>std::get_time\<close> for the hour of the time zone.
\<close>

record time_library =
  get_date :: "bytes \<Rightarrow> (nat \<times> int) option"
  get_hour :: "bytes \<Rightarrow> int option"

definition read_local_date :: "time_library \<Rightarrow> bytes \<Rightarrow> int res" where
  "read_local_date T s =
     (if length s \<noteq> 19 then Inl Runtime_error
      else case get_date T s of
             None \<Rightarrow> Inl Runtime_error
           | Some (year, t) \<Rightarrow> if year \<ge> 2261 then Inl Runtime_error else Inr t)"

definition read_timezone :: "time_library \<Rightarrow> bytes \<Rightarrow> int res" where
  "read_timezone T s =
     (if s = ''Z'' then Inr 0
      else if length s \<noteq> 6 then Inl Runtime_error
      else if hd s \<noteq> CHR ''+'' \<and> hd s \<noteq> CHR ''-'' then Inl Runtime_error
      else case get_hour T (tl s) of
             None \<Rightarrow> Inl Runtime_error
           | Some h \<Rightarrow> if h \<le> -24 \<or> h \<ge> 24 then Inl Runtime_error
                       else Inr (3600 * (if hd s = CHR ''-'' then - h else h)))"

definition read_iso8601_date :: "time_library \<Rightarrow> bytes \<Rightarrow> int res" where
  "read_iso8601_date T s =
     (if length s < 19 then Inl Runtime_error
      else bindE (read_local_date T (take 19 s)) (\<lambda>t.
           bindE (read_timezone T (drop 19 s)) (\<lambda>offset. Inr (t + offset))))"

definition match_datecomparison :: "time_library \<Rightarrow> condition \<Rightarrow> undefined_variable \<Rightarrow> (int \<Rightarrow> int \<Rightarrow> bool) \<Rightarrow> matcher" where
  "match_datecomparison T values uv cmp = var_matcher values uv (\<lambda>vars var options.
     if length options \<noteq> 1 then Inl Runtime_error
     else bindE (read_iso8601_date T var) (\<lambda>a.
          bindE (read_iso8601_date T (expand vars (hd options))) (\<lambda>b. Inr (cmp a b))))"

text \<open>The operators that are not implemented throw when they are evaluated.\<close>

definition match_unimplemented :: matcher where
  "match_unimplemented = (\<lambda>vars. Inl Runtime_error)"

subsection \<open>JSON documents\<close>

text \<open>The keys of an object are sorted, as in the library.\<close>

datatype json =
    J_null
  | J_bool bool
  | J_number int
  | J_string bytes
  | J_array "json list"
  | J_object "(bytes \<times> json) list"

definition json_find :: "bytes \<Rightarrow> json \<Rightarrow> json option" where
  "json_find key j = (case j of J_object kvs \<Rightarrow> map_of kvs key | _ \<Rightarrow> None)"

definition json_require :: "bytes \<Rightarrow> json \<Rightarrow> json res" where
  "json_require key j = (case json_find key j of None \<Rightarrow> Inl Runtime_error | Some x \<Rightarrow> Inr x)"

definition json_string :: "json \<Rightarrow> bytes res" where
  "json_string j = (case j of J_string s \<Rightarrow> Inr s | _ \<Rightarrow> Inl Runtime_error)"

definition json_items :: "json \<Rightarrow> (bytes \<times> json) list" where
  "json_items j =
     (case j of
        J_object kvs \<Rightarrow> kvs
      | J_array xs \<Rightarrow> zip (map nat_str [0..<length xs]) xs
      | J_null \<Rightarrow> []
      | _ \<Rightarrow> [([], j)])"

fun mapE :: "('a \<Rightarrow> 'b res) \<Rightarrow> 'a list \<Rightarrow> 'b list res" where
  "mapE f [] = Inr []"
| "mapE f (x # xs) = bindE (f x) (\<lambda>y. bindE (mapE f xs) (\<lambda>ys. Inr (y # ys)))"

definition multi_element :: "json \<Rightarrow> (json \<Rightarrow> 'a res) \<Rightarrow> 'a list res" where
  "multi_element j reader = (case j of J_array xs \<Rightarrow> mapE reader xs | _ \<Rightarrow> bindE (reader j) (\<lambda>x. Inr [x]))"

subsection \<open>The parser\<close>

definition MAX_VALUEFIELD_LEN :: nat where "MAX_VALUEFIELD_LEN = 200"

definition policy_string :: "json \<Rightarrow> bytes res" where
  "policy_string j = bindE (json_string j) (\<lambda>s. if length s > MAX_VALUEFIELD_LEN then Inl Runtime_error else Inr s)"

text \<open>A \<open>std::set\<close> is the sorted list of its elements.\<close>

definition string_or_set :: "json \<Rightarrow> bytes list res" where
  "string_or_set j = bindE (multi_element j policy_string) (\<lambda>xs. Inr (sort (remdups xs)))"

datatype effect = Allow | Deny

definition get_effect :: "json \<Rightarrow> effect res" where
  "get_effect stmt =
     bindE (json_require ''Effect'' stmt) (\<lambda>j. bindE (json_string j) (\<lambda>e.
       if e = ''Allow'' then Inr Allow else if e = ''Deny'' then Inr Deny else Inl Runtime_error))"

definition action_matchers :: "json \<Rightarrow> matcher res" where
  "action_matchers stmt =
     (case (json_find ''Action'' stmt, json_find ''NotAction'' stmt) of
        (Some _, Some _) \<Rightarrow> Inl Runtime_error
      | (Some a, None) \<Rightarrow> bindE (string_or_set a) (\<lambda>xs. Inr (match_action xs))
      | (None, Some a) \<Rightarrow> bindE (string_or_set a) (\<lambda>xs. Inr (match_not_action xs))
      | (None, None) \<Rightarrow> Inl Runtime_error)"

definition resource_matchers :: "json \<Rightarrow> matcher res" where
  "resource_matchers stmt =
     (case (json_find ''Resource'' stmt, json_find ''NotResource'' stmt) of
        (Some _, Some _) \<Rightarrow> Inl Runtime_error
      | (Some a, None) \<Rightarrow> bindE (string_or_set a) (\<lambda>xs. Inr (match_resource xs))
      | (None, Some a) \<Rightarrow> bindE (string_or_set a) (\<lambda>xs. Inr (match_not_resource xs))
      | (None, None) \<Rightarrow> Inl Runtime_error)"

definition principal_matchers :: "json \<Rightarrow> matcher list res" where
  "principal_matchers stmt =
     (case json_find ''Principal'' stmt of
        Some p \<Rightarrow> bindE (string_or_set p) (\<lambda>xs. Inr [match_principal xs])
      | None \<Rightarrow> (case json_find ''NotPrincipal'' stmt of
                   Some p \<Rightarrow> bindE (string_or_set p) (\<lambda>xs. Inr [match_not_principal xs])
                 | None \<Rightarrow> Inr []))"

definition condition_parameter :: "json \<Rightarrow> condition res" where
  "condition_parameter j =
     mapE (\<lambda>(k, v). bindE (multi_element v policy_string) (\<lambda>xs. Inr (k, xs))) (json_items j)"

definition ends_with :: "bytes \<Rightarrow> bytes \<Rightarrow> bool" where
  "ends_with suf s \<longleftrightarrow> suffix suf s"

definition operator_matcher :: "time_library \<Rightarrow> bytes \<Rightarrow> (condition \<Rightarrow> undefined_variable \<Rightarrow> matcher) option" where
  "operator_matcher T key = map_of
     [(''StringEquals'', match_stringequals), (''StringNotEquals'', match_stringnotequals),
      (''StringEqualsIgnoreCase'', match_stringequalsignorecase), (''StringNotEqualsIgnoreCase'', match_stringnotequalsignorecase),
      (''StringLike'', match_stringlike), (''StringNotLike'', match_stringnotlike),
      (''NumericEquals'', \<lambda>c uv. match_numericcomparison c uv (=)), (''NumericNotEquals'', \<lambda>c uv. match_numericcomparison c uv (\<noteq>)),
      (''NumericLessThan'', \<lambda>c uv. match_numericcomparison c uv (<)), (''NumericLessThanEquals'', \<lambda>c uv. match_numericcomparison c uv (\<le>)),
      (''NumericGreaterThan'', \<lambda>c uv. match_numericcomparison c uv (>)), (''NumericGreaterThanEquals'', \<lambda>c uv. match_numericcomparison c uv (\<ge>)),
      (''DateEquals'', \<lambda>c uv. match_datecomparison T c uv (=)), (''DateNotEquals'', \<lambda>c uv. match_datecomparison T c uv (\<noteq>)),
      (''DateLessThan'', \<lambda>c uv. match_datecomparison T c uv (<)), (''DateLessThanEquals'', \<lambda>c uv. match_datecomparison T c uv (\<le>)),
      (''DateGreaterThan'', \<lambda>c uv. match_datecomparison T c uv (>)), (''DateGreaterThanEquals'', \<lambda>c uv. match_datecomparison T c uv (\<ge>)),
      (''Bool'', \<lambda>c uv. match_unimplemented), (''BinaryEquals'', \<lambda>c uv. match_unimplemented), (''IpAddress'', \<lambda>c uv. match_unimplemented),
      (''NotIpAddress'', \<lambda>c uv. match_unimplemented), (''ArnEquals'', \<lambda>c uv. match_unimplemented), (''ArnLike'', \<lambda>c uv. match_unimplemented),
      (''ArnNotEquals'', \<lambda>c uv. match_unimplemented), (''ArnNotLike'', \<lambda>c uv. match_unimplemented), (''Null'', \<lambda>c uv. match_unimplemented)] key"

definition condition_matcher :: "time_library \<Rightarrow> bytes \<Rightarrow> json \<Rightarrow> matcher res" where
  "condition_matcher T key j =
     (let if_exists = ends_with ''IfExists'' key;
          uv = (if if_exists then Ignore else Do_not_match);
          key' = (if if_exists then take (length key - length ''IfExists'') key else key)
      in case operator_matcher T key' of
           Some m \<Rightarrow> bindE (condition_parameter j) (\<lambda>c. Inr (m c uv))
         | None \<Rightarrow> Inr match_never)"

definition condition_matchers :: "time_library \<Rightarrow> json \<Rightarrow> matcher list res" where
  "condition_matchers T stmt =
     (case json_find ''Condition'' stmt of
        None \<Rightarrow> Inr []
      | Some c \<Rightarrow> bindE (mapE (\<lambda>(k, v). condition_matcher T k v) (json_items c)) (\<lambda>ms. Inr [conjunction ms]))"

record policy =
  p_id :: bytes
  p_matchers :: "matcher list"
  p_effect :: effect

definition UNDEFINED_SID :: bytes where "UNDEFINED_SID = ''<Sid undefined>''"
definition IAM_JSON_VERSION :: bytes where "IAM_JSON_VERSION = ''2012-10-17''"

definition parse_policy :: "time_library \<Rightarrow> json \<Rightarrow> policy res" where
  "parse_policy T stmt =
     bindE (action_matchers stmt) (\<lambda>a. bindE (resource_matchers stmt) (\<lambda>r.
     bindE (principal_matchers stmt) (\<lambda>p. bindE (condition_matchers T stmt) (\<lambda>c.
     bindE (case json_find ''Sid'' stmt of Some j \<Rightarrow> json_string j | None \<Rightarrow> Inr UNDEFINED_SID) (\<lambda>i.
     bindE (get_effect stmt) (\<lambda>e.
       Inr \<lparr>p_id = i, p_matchers = [a, r] @ p @ c, p_effect = e\<rparr>))))))"

definition parse_policies :: "time_library \<Rightarrow> json \<Rightarrow> policy list res" where
  "parse_policies T js =
     (case json_find ''Version'' js of
        None \<Rightarrow> Inl Runtime_error
      | Some v \<Rightarrow> bindE (json_string v) (\<lambda>s.
          if s \<noteq> IAM_JSON_VERSION then Inl Runtime_error
          else bindE (json_require ''Statement'' js) (\<lambda>st. multi_element st (parse_policy T))))"

subsection \<open>The decision\<close>

fun check_matchers :: "matcher list \<Rightarrow> effect \<Rightarrow> vars \<Rightarrow> effect option res" where
  "check_matchers [] e vars = Inr (Some e)"
| "check_matchers (m # ms) e vars = bindE (m vars) (\<lambda>b. if \<not> b then Inr None else check_matchers ms e vars)"

definition policy_check :: "policy \<Rightarrow> vars \<Rightarrow> effect option res" where
  "policy_check p vars = check_matchers (p_matchers p) (p_effect p) vars"

text \<open>A run over a list of policies: it ends with a denial, with an exception, or goes on; \<open>has_allow\<close> survives an exception.\<close>

datatype verdict = Denied | Threw exn bool | Goes_on bool

fun check_policies :: "vars \<Rightarrow> policy list \<Rightarrow> bool \<Rightarrow> verdict" where
  "check_policies vars [] has_allow = Goes_on has_allow"
| "check_policies vars (p # ps) has_allow =
     (case policy_check p vars of
        Inl e \<Rightarrow> Threw e has_allow
      | Inr None \<Rightarrow> check_policies vars ps has_allow
      | Inr (Some Deny) \<Rightarrow> Denied
      | Inr (Some Allow) \<Rightarrow> check_policies vars ps True)"

text \<open>The policy document of the bucket, as the directory returns it, is parsed on every request.\<close>

definition bucket_verdict :: "(bytes \<Rightarrow> json res) \<Rightarrow> time_library \<Rightarrow> bytes \<Rightarrow> bytes option res \<Rightarrow> vars \<Rightarrow> bool \<Rightarrow> verdict" where
  "bucket_verdict json_parse T bucket resource vars has_allow =
     (if bucket = [] then Goes_on has_allow
      else case resource of
             Inl e \<Rightarrow> Threw e has_allow
           | Inr None \<Rightarrow> Goes_on has_allow
           | Inr (Some code) \<Rightarrow>
               (case bindE (json_parse code) (parse_policies T) of
                  Inl e \<Rightarrow> Threw e has_allow
                | Inr ps \<Rightarrow> check_policies vars ps has_allow))"

definition module_check :: "(bytes \<Rightarrow> json res) \<Rightarrow> time_library \<Rightarrow> policy list \<Rightarrow> bytes \<Rightarrow> bytes option res
    \<Rightarrow> (bytes \<times> policy list) list \<Rightarrow> vars \<Rightarrow> effect res" where
  "module_check json_parse T policies bucket resource user_policies vars =
     (case check_policies vars policies False of
        Denied \<Rightarrow> Inr Deny
      | Threw e _ \<Rightarrow> Inl e
      | Goes_on allow1 \<Rightarrow>
          (let after_bucket = (\<lambda>allow2.
             case check_policies vars (concat (map snd user_policies)) allow2 of
               Denied \<Rightarrow> Inr Deny
             | Threw e _ \<Rightarrow> Inl e
             | Goes_on has_allow \<Rightarrow> Inr (if has_allow then Allow else Deny))
           in case bucket_verdict json_parse T bucket resource vars allow1 of
                Denied \<Rightarrow> Inr Deny
              | Threw _ allow2 \<Rightarrow> after_bucket allow2
              | Goes_on allow2 \<Rightarrow> after_bucket allow2))"

subsection \<open>The decision is that of the evaluation logic\<close>

definition applies :: "vars \<Rightarrow> effect \<Rightarrow> policy list \<Rightarrow> bool" where
  "applies vars e ps \<longleftrightarrow> (\<exists>p\<in>set ps. policy_check p vars = Inr (Some e))"

definition evaluable :: "vars \<Rightarrow> policy list \<Rightarrow> bool" where
  "evaluable vars ps \<longleftrightarrow> (\<forall>p\<in>set ps. \<exists>r. policy_check p vars = Inr r)"

lemma applies_simps [simp]:
  "applies vars e [] \<longleftrightarrow> False"
  "applies vars e (p # ps) \<longleftrightarrow> policy_check p vars = Inr (Some e) \<or> applies vars e ps"
  "applies vars e (ps @ qs) \<longleftrightarrow> applies vars e ps \<or> applies vars e qs"
  by (auto simp: applies_def)

lemma policy_check_cases:
  obtains (threw) x where "policy_check p vars = Inl x" | (skip) "policy_check p vars = Inr None"
    | (allow) "policy_check p vars = Inr (Some Allow)" | (deny) "policy_check p vars = Inr (Some Deny)"
proof (cases "policy_check p vars")
  case (Inr r)
  show ?thesis
  proof (cases r)
    case (Some e)
    then show ?thesis using Inr that by (cases e) auto
  qed (use Inr that in auto)
qed (use that in auto)

lemma check_policies_evaluable:
  "evaluable vars ps \<Longrightarrow> check_policies vars ps b = (if applies vars Deny ps then Denied else Goes_on (b \<or> applies vars Allow ps))"
proof (induction ps arbitrary: b)
  case (Cons p ps)
  then show ?case by (cases rule: policy_check_cases [of p vars]) (auto simp: evaluable_def)
qed simp

lemma check_policies_allow:
  "check_policies vars ps b = Goes_on c \<or> check_policies vars ps b = Threw e c \<Longrightarrow> c \<Longrightarrow> b \<or> applies vars Allow ps"
proof (induction ps arbitrary: b)
  case (Cons p ps)
  then show ?case by (cases rule: policy_check_cases [of p vars]) auto
qed simp

lemma check_policies_no_deny: "check_policies vars ps b = Goes_on c \<Longrightarrow> \<not> applies vars Deny ps"
proof (induction ps arbitrary: b)
  case (Cons p ps)
  then show ?case by (cases rule: policy_check_cases [of p vars]) auto
qed simp

text \<open>The policies of a bucket, none when there is no bucket, no document or an unreadable one.\<close>

definition bucket_policies :: "(bytes \<Rightarrow> json res) \<Rightarrow> time_library \<Rightarrow> bytes \<Rightarrow> bytes option res \<Rightarrow> policy list" where
  "bucket_policies json_parse T bucket resource =
     (case (bucket, resource) of
        (_ # _, Inr (Some code)) \<Rightarrow> (case bindE (json_parse code) (parse_policies T) of Inr ps \<Rightarrow> ps | Inl _ \<Rightarrow> [])
      | _ \<Rightarrow> [])"

lemma bucket_verdict_cases:
  "bucket_verdict json_parse T bucket resource vars b = check_policies vars (bucket_policies json_parse T bucket resource) b
   \<or> (\<exists>e. bucket_verdict json_parse T bucket resource vars b = Threw e b \<and> bucket_policies json_parse T bucket resource = [])"
  by (auto simp: bucket_verdict_def bucket_policies_def split: list.split option.split sum.split)

text \<open>
  C15: When every policy can be evaluated, access is granted exactly if some policy - global, of
  the bucket or of the user - allows it and none of them denies it: an explicit denial anywhere
  overrides every permission, and without a permission access is denied.
\<close>

theorem module_check_decision:
  assumes "evaluable vars (policies @ bucket_policies json_parse T bucket resource @ concat (map snd user_policies))"
  shows "module_check json_parse T policies bucket resource user_policies vars =
    (let all = policies @ bucket_policies json_parse T bucket resource @ concat (map snd user_policies)
     in Inr (if applies vars Allow all \<and> \<not> applies vars Deny all then Allow else Deny))"
proof -
  let ?bp = "bucket_policies json_parse T bucket resource"
  have e: "evaluable vars policies" "evaluable vars ?bp" "evaluable vars (concat (map snd user_policies))"
    using assms by (auto simp: evaluable_def)
  note c = check_policies_evaluable [OF e(1)] check_policies_evaluable [OF e(2)] check_policies_evaluable [OF e(3)]
  show ?thesis
  proof (cases "applies vars Deny policies")
    case True
    then show ?thesis by (simp add: module_check_def c Let_def)
  next
    case False
    from bucket_verdict_cases [of json_parse T bucket resource vars "applies vars Allow policies"] show ?thesis
      using False by (auto simp: module_check_def c Let_def)
  qed
qed

text \<open>A statement and its policy, for the witnesses.\<close>

definition statement :: "bytes \<Rightarrow> (bytes \<times> json) list \<Rightarrow> json" where
  "statement e extra = J_object ([(''Action'', J_string ''s3:Get*''), (''Effect'', J_string e), (''Resource'', J_string ''*'')] @ extra)"

definition document :: "json list \<Rightarrow> json" where
  "document stmts = J_object [(''Statement'', J_array stmts), (''Version'', J_string IAM_JSON_VERSION)]"

definition sample_vars :: vars where
  "sample_vars = [''vrm:ActionId'' \<mapsto> ''s3:GetObject'', ''vrm:ResourceArn'' \<mapsto> ''arn:aws:s3:::b/o'']"

definition no_time :: time_library where
  "no_time = \<lparr>get_date = \<lambda>s. None, get_hour = \<lambda>s. None\<rparr>"

definition get_policy :: "effect \<Rightarrow> policy" where
  "get_policy e = \<lparr>p_id = UNDEFINED_SID, p_matchers = [match_action [''s3:Get*''], match_resource [''*'']], p_effect = e\<rparr>"

lemma sample_policy_check: "policy_check (get_policy e) sample_vars = Inr (Some e)"
proof -
  have w: "equals_wildcard (CHR ''*'') (CHR ''?'') ''s3:Get*'' ''s3:GetObject'' 0" "equals_wildcard_vars sample_vars ''*'' ''arn:aws:s3:::b/o''"
    by code_simp+
  have "sample_vars ''vrm:ActionId'' = Some ''s3:GetObject''" "sample_vars ''vrm:ResourceArn'' = Some ''arn:aws:s3:::b/o''"
    by (simp_all add: sample_vars_def)
  then show ?thesis using w by (simp add: policy_check_def get_policy_def match_action_def match_resource_def)
qed

theorem module_check_decision_witness:
  "module_check (\<lambda>_. Inl Runtime_error) no_time [get_policy Allow] [] (Inr None) [(''p'', [get_policy Deny])] sample_vars = Inr Deny"
  using module_check_decision [of sample_vars "[get_policy Allow]" "\<lambda>_. Inl Runtime_error" no_time "[]" "Inr None" "[(''p'', [get_policy Deny])]"]
  by (simp add: evaluable_def bucket_policies_def sample_policy_check)

text \<open>
  C16: Whatever fails while the policy of the bucket is read or evaluated, access is granted only if
  a policy allows it, and never against a denial of a global policy or of a policy of the user.
\<close>

theorem module_check_grant_sound:
  assumes "module_check json_parse T policies bucket resource user_policies vars = Inr Allow"
  shows "applies vars Allow (policies @ bucket_policies json_parse T bucket resource @ concat (map snd user_policies))
    \<and> \<not> applies vars Deny (policies @ concat (map snd user_policies))"
proof -
  let ?bp = "bucket_policies json_parse T bucket resource" and ?us = "concat (map snd user_policies)"
  obtain a1 where 1: "check_policies vars policies False = Goes_on a1"
    using assms by (auto simp: module_check_def split: verdict.splits)
  obtain a2 where 2: "(\<exists>e. bucket_verdict json_parse T bucket resource vars a1 = Threw e a2) \<or> bucket_verdict json_parse T bucket resource vars a1 = Goes_on a2"
    "check_policies vars ?us a2 = Goes_on True"
    using assms 1 by (auto simp: module_check_def Let_def split: verdict.splits if_splits)
  have "a2 \<longrightarrow> a1 \<or> applies vars Allow ?bp"
    using 2(1) bucket_verdict_cases [of json_parse T bucket resource vars a1] check_policies_allow [of vars ?bp a1 a2] by auto
  moreover have "a1 \<longrightarrow> applies vars Allow policies" using check_policies_allow [of vars policies False a1] 1 by auto
  moreover have "a2 \<or> applies vars Allow ?us" using check_policies_allow [of vars ?us a2 True] 2(2) by auto
  ultimately show ?thesis using check_policies_no_deny 1 2(2) by auto
qed

theorem module_check_grant_sound_witness:
  "module_check (\<lambda>_. Inl Runtime_error) no_time [] ''b'' (Inr (Some ''x'')) [(''p'', [get_policy Allow])] sample_vars = Inr Allow
   \<and> \<not> applies sample_vars Deny ([] @ concat (map snd [(''p'', [get_policy Allow])]))"
proof -
  have m: "module_check (\<lambda>_. Inl Runtime_error) no_time [] ''b'' (Inr (Some ''x'')) [(''p'', [get_policy Allow])] sample_vars = Inr Allow"
    by (simp add: module_check_def bucket_verdict_def sample_policy_check bindE_def)
  then show ?thesis using module_check_grant_sound [OF m] by blast
qed

text \<open>
  A bucket policy with a condition the program does not implement, followed by a denial: the
  exception of the first statement hides the second, and access is granted.
\<close>

lemma bucket_denial_lost:
  "module_check (\<lambda>_. Inr (document [statement ''Allow'' [(''Condition'', J_object [(''Bool'', J_object [])])], statement ''Deny'' []]))
     no_time [] ''b'' (Inr (Some ''x'')) [(''p'', [get_policy Allow])] sample_vars = Inr Allow"
proof -
  let ?p = "\<lparr>p_id = UNDEFINED_SID, p_matchers = [match_action [''s3:Get*''], match_resource [''*''], conjunction [match_unimplemented]], p_effect = Allow\<rparr>"
  have "parse_policies no_time (document [statement ''Allow'' [(''Condition'', J_object [(''Bool'', J_object [])])], statement ''Deny'' []]) =
      Inr [?p, get_policy Deny]"
    by (simp add: parse_policies_def document_def statement_def json_find_def json_require_def json_string_def IAM_JSON_VERSION_def multi_element_def
        parse_policy_def action_matchers_def resource_matchers_def principal_matchers_def condition_matchers_def condition_matcher_def
        operator_matcher_def condition_parameter_def json_items_def string_or_set_def policy_string_def MAX_VALUEFIELD_LEN_def get_effect_def
        get_policy_def UNDEFINED_SID_def ends_with_def suffix_def Let_def)
  moreover have "policy_check ?p sample_vars = Inl Runtime_error"
    using sample_policy_check [of Allow] by (auto simp: policy_check_def get_policy_def match_unimplemented_def bindE_def split: sum.splits if_splits)
  ultimately show ?thesis by (simp add: module_check_def bucket_verdict_def sample_policy_check)
qed

text \<open>\<open>StringLike\<close> takes the variable for the pattern: the pattern of the policy matches only itself.\<close>

lemma stringlike_swapped:
  "match_stringlike [(''aws:username'', [''dev-*''])] Do_not_match [''aws:username'' \<mapsto> ''dev-bob''] = Inr False"
proof -
  have "\<not> equals_wildcard_vars [''aws:username'' \<mapsto> ''dev-bob''] ''dev-bob'' ''dev-*''" by code_simp
  then show ?thesis by (simp add: match_stringlike_def)
qed

text \<open>The offset of the time zone is added to the local time; the time in UTC is the local time without it.\<close>

lemma iso8601_offset_added:
  assumes "length d = 19" and "get_date T d = Some (2011, t)" and "get_hour T ''02:00'' = Some 2"
  shows "read_iso8601_date T (d @ ''+02:00'') = Inr (t + 7200)"
  using assms by (simp add: read_iso8601_date_def read_local_date_def read_timezone_def)

end
