(* ===== verification/Vrm_Users.thy ===== *)
theory Vrm_Users
  imports Vrm_Maps Vrm_Policy Vrm_DirectoryRefine Vrm_Request Vrm_Xml
begin

text \<open>
  Users (\<open>data/sql/vrm_user\<close>, \<open>entrypoint/user/db.cpp\<close>): the tables of users, their policies and access
  keys with the stored procedures, and the class that calls them; and the commands that manage
  them (\<open>commands/iam\<close>). The key derivation, Base64 and random strings are arguments. The main
  results say which access keys and which passwords identify a user.
\<close>

subsection \<open>Tables and stored procedures\<close>

record user_row =
  us_id :: bytes
  us_name :: bytes
  us_password :: "bytes option"
  us_arn :: "bytes option"
  us_super :: nat

record user_policy_row =
  po_user :: bytes
  po_name :: bytes
  po_value :: bytes

record key_row =
  k_user :: bytes
  k_access :: bytes
  k_secret :: bytes
  k_session :: "bytes option"
  k_expires :: "nat option"

record user_tables =
  ut_users :: "user_row list"
  ut_policies :: "user_policy_row list"
  ut_keys :: "key_row list"

definition user_exists :: "bytes \<Rightarrow> user_tables \<Rightarrow> bool" where
  "user_exists name t \<longleftrightarrow> (\<exists>r\<in>set (ut_users t). us_name r = name)"

definition vrm_add_user :: "env \<Rightarrow> bytes \<Rightarrow> bytes option \<Rightarrow> bytes option \<Rightarrow> user_tables \<Rightarrow> user_tables \<times> bytes res" where
  "vrm_add_user e name password arn t =
     (if \<exists>r\<in>set (ut_users t). us_name r = name \<or> us_id r = e_uuid e then (t, Inl Runtime_error)
      else (t\<lparr>ut_users := ut_users t @ [\<lparr>us_id = e_uuid e, us_name = name, us_password = password, us_arn = arn, us_super = 0\<rparr>]\<rparr>, Inr (e_uuid e)))"

definition vrm_set_super_user :: "bytes \<Rightarrow> nat \<Rightarrow> user_tables \<Rightarrow> user_tables" where
  "vrm_set_super_user name v t = t\<lparr>ut_users := map (\<lambda>r. if us_name r = name then r\<lparr>us_super := v\<rparr> else r) (ut_users t)\<rparr>"

text \<open>Policies and keys go with their user.\<close>

definition vrm_remove_user :: "bytes \<Rightarrow> user_tables \<Rightarrow> user_tables" where
  "vrm_remove_user name t =
     \<lparr>ut_users = filter (\<lambda>r. us_name r \<noteq> name) (ut_users t), ut_policies = filter (\<lambda>p. po_user p \<noteq> name) (ut_policies t),
      ut_keys = filter (\<lambda>k. k_user k \<noteq> name) (ut_keys t)\<rparr>"

definition vrm_put_user_policy :: "database \<Rightarrow> bytes \<Rightarrow> bytes \<Rightarrow> bytes \<Rightarrow> user_tables \<Rightarrow> user_tables \<times> unit res" where
  "vrm_put_user_policy D user name doc t =
     (if \<not> pg_json D doc \<or> \<not> user_exists user t \<or> (\<exists>p\<in>set (ut_policies t). po_user p = user \<and> po_name p = name) then (t, Inl Runtime_error)
      else (t\<lparr>ut_policies := ut_policies t @ [\<lparr>po_user = user, po_name = name, po_value = doc\<rparr>]\<rparr>, Inr ()))"

definition vrm_remove_user_policy :: "bytes \<Rightarrow> bytes \<Rightarrow> user_tables \<Rightarrow> user_tables" where
  "vrm_remove_user_policy user name t = t\<lparr>ut_policies := filter (\<lambda>p. \<not> (po_user p = user \<and> po_name p = name)) (ut_policies t)\<rparr>"

definition vrm_get_user_policy :: "bytes \<Rightarrow> user_tables \<Rightarrow> user_policy_row list" where
  "vrm_get_user_policy user t = filter (\<lambda>p. po_user p = user) (ut_policies t)"

definition vrm_query_user :: "bytes \<Rightarrow> user_tables \<Rightarrow> user_row option" where
  "vrm_query_user name t = find (\<lambda>r. us_name r = name) (ut_users t)"

definition vrm_list_users :: "user_tables \<Rightarrow> bytes list" where
  "vrm_list_users t = map us_name (ut_users t)"

definition vrm_add_user_key :: "bytes \<Rightarrow> bytes \<Rightarrow> bytes \<Rightarrow> bytes option \<Rightarrow> nat option \<Rightarrow> user_tables \<Rightarrow> user_tables \<times> unit res" where
  "vrm_add_user_key user access secret session expires t =
     (if \<not> user_exists user t \<or> (\<exists>k\<in>set (ut_keys t). k_access k = access) then (t, Inl Runtime_error)
      else (t\<lparr>ut_keys := ut_keys t @ [\<lparr>k_user = user, k_access = access, k_secret = secret, k_session = session, k_expires = expires\<rparr>]\<rparr>, Inr ()))"

definition unexpired :: "env \<Rightarrow> key_row \<Rightarrow> bool" where
  "unexpired e k \<longleftrightarrow> (case k_expires k of None \<Rightarrow> True | Some t \<Rightarrow> e_now e \<le> t)"

text \<open>The join of the keys with their users.\<close>

definition vrm_query_key :: "env \<Rightarrow> bytes \<Rightarrow> user_tables \<Rightarrow> (key_row \<times> user_row) option" where
  "vrm_query_key e access t =
     find (\<lambda>(k, r). k_user k = us_name r \<and> k_access k = access \<and> unexpired e k) (List.product (ut_keys t) (ut_users t))"

definition vrm_list_user_keys :: "env \<Rightarrow> bytes \<Rightarrow> user_tables \<Rightarrow> key_row list" where
  "vrm_list_user_keys e user t = filter (\<lambda>k. k_user k = user \<and> unexpired e k) (ut_keys t)"

definition vrm_remove_key :: "bytes \<Rightarrow> user_tables \<Rightarrow> user_tables" where
  "vrm_remove_key access t = t\<lparr>ut_keys := filter (\<lambda>k. k_access k \<noteq> access) (ut_keys t)\<rparr>"

definition vrm_remove_expired_keys :: "int \<Rightarrow> user_tables \<Rightarrow> user_tables" where
  "vrm_remove_expired_keys before t =
     t\<lparr>ut_keys := filter (\<lambda>k. case k_expires k of None \<Rightarrow> True | Some x \<Rightarrow> \<not> int x \<le> before) (ut_keys t)\<rparr>"

subsection \<open>The class\<close>

record user_key =
  uk_id :: bytes
  uk_secret :: bytes
  uk_session :: "bytes option"
  uk_expires :: "nat option"

record user =
  ur_id :: bytes
  ur_name :: bytes
  ur_arn :: "bytes option"
  ur_super :: bool
  ur_policy_json :: "(bytes \<times> bytes) list"
  ur_policies :: "(bytes \<times> policy list) list"
  ur_key :: "user_key option"

definition ANONYMOUS :: bytes where "ANONYMOUS = ''anonymous''"
definition ANONYMOUS_ARN :: bytes where "ANONYMOUS_ARN = ''arn:aws:iam::1:anonymous''"

definition anonymous_user :: user where
  "anonymous_user = \<lparr>ur_id = [], ur_name = ANONYMOUS, ur_arn = Some ANONYMOUS_ARN, ur_super = False, ur_policy_json = [], ur_policies = [], ur_key = None\<rparr>"

text \<open>A column with a date is read up to its seconds, in the time zone of the database.\<close>

definition row_date :: "nat option \<Rightarrow> nat option" where
  "row_date v = map_option (\<lambda>t. t div 1000000 * 1000000) v"

text \<open>The parser of policy documents; a doc that does not parse is an error.\<close>

definition policy_parse :: "(bytes \<Rightarrow> json res) \<Rightarrow> time_library \<Rightarrow> bytes \<Rightarrow> policy list res" where
  "policy_parse json_parse T doc = bindE (json_parse doc) (parse_policies T)"

fun read_policies :: "(bytes \<Rightarrow> json res) \<Rightarrow> time_library \<Rightarrow> user_policy_row list \<Rightarrow> user \<Rightarrow> user res" where
  "read_policies json_parse T [] rv = Inr rv"
| "read_policies json_parse T (p # ps) rv =
     bindE (policy_parse json_parse T (po_value p)) (\<lambda>parsed.
       read_policies json_parse T ps (rv\<lparr>ur_policies := map_insert (po_name p) parsed (ur_policies rv),
         ur_policy_json := map_insert (po_name p) (po_value p) (ur_policy_json rv)\<rparr>))"

definition db_find_by_key :: "(bytes \<Rightarrow> json res) \<Rightarrow> time_library \<Rightarrow> env \<Rightarrow> bytes \<Rightarrow> user_tables \<Rightarrow> user res" where
  "db_find_by_key json_parse T e access t =
     (case vrm_query_key e access t of
        None \<Rightarrow> Inl (Command_exception 404 ''NoSuchAccessGrantError'')
      | Some (k, r) \<Rightarrow>
          read_policies json_parse T (vrm_get_user_policy (k_user k) t)
            \<lparr>ur_id = us_id r, ur_name = k_user k, ur_arn = us_arn r, ur_super = (us_super r \<noteq> 0), ur_policy_json = [], ur_policies = [],
             ur_key = Some \<lparr>uk_id = access, uk_secret = k_secret k, uk_session = k_session k, uk_expires = row_date (k_expires k)\<rparr>\<rparr>)"

definition row_to_user :: "(bytes \<Rightarrow> json res) \<Rightarrow> time_library \<Rightarrow> bytes \<Rightarrow> user_row \<Rightarrow> user_tables \<Rightarrow> user res" where
  "row_to_user json_parse T name r t =
     read_policies json_parse T (vrm_get_user_policy name t)
       \<lparr>ur_id = us_id r, ur_name = name, ur_arn = us_arn r, ur_super = (us_super r \<noteq> 0), ur_policy_json = [], ur_policies = [], ur_key = None\<rparr>"

definition db_find :: "(bytes \<Rightarrow> json res) \<Rightarrow> time_library \<Rightarrow> bytes \<Rightarrow> user_tables \<Rightarrow> user res" where
  "db_find json_parse T name t =
     (case vrm_query_user name t of None \<Rightarrow> Inl Runtime_error | Some r \<Rightarrow> row_to_user json_parse T name r t)"

record crypt_library =
  cl_derive :: "bytes \<Rightarrow> bytes \<Rightarrow> bytes"
  cl_base64_encode :: "bytes \<Rightarrow> bytes"
  cl_base64_decode :: "bytes \<Rightarrow> bytes"

text \<open>
  The source tests the id where it means the password, so that a user without password is an
  access to a missing value; so is a stored password without separator (\<^const>\<open>None\<close>).
\<close>

definition db_find_and_check :: "crypt_library \<Rightarrow> (bytes \<Rightarrow> json res) \<Rightarrow> time_library \<Rightarrow> bytes \<Rightarrow> bytes \<Rightarrow> user_tables \<Rightarrow> user res option" where
  "db_find_and_check L json_parse T name pass t =
     (case vrm_query_user name t of
        None \<Rightarrow> Some (Inl Runtime_error)
      | Some r \<Rightarrow>
          (case us_password r of
             None \<Rightarrow> None
           | Some enc \<Rightarrow>
               (let fields = split_str (cl_base64_decode L enc) (CHR '':'')
                in if length fields < 2 then None
                   else if cl_derive L pass (fields ! 0) \<noteq> fields ! 1 then Some (Inl Runtime_error)
                   else Some (row_to_user json_parse T name r t))))"

definition encode_password :: "crypt_library \<Rightarrow> bytes \<Rightarrow> bytes \<Rightarrow> bytes" where
  "encode_password L salt pass = cl_base64_encode L (salt @ '':'' @ cl_derive L pass salt)"

definition db_add_user :: "crypt_library \<Rightarrow> env \<Rightarrow> bytes \<Rightarrow> bytes \<Rightarrow> bytes option \<Rightarrow> bytes option \<Rightarrow> user_tables \<Rightarrow> user_tables \<times> bytes res" where
  "db_add_user L e salt name password arn t =
     (case vrm_add_user e name (map_option (encode_password L salt) password) arn t of
        (t', Inl _) \<Rightarrow> (t', Inl (Command_exception 409 ''UserAlreadyExists''))
      | (t', Inr i) \<Rightarrow> (t', Inr i))"

definition db_set_super_user :: "bytes \<Rightarrow> bool \<Rightarrow> user_tables \<Rightarrow> user_tables" where
  "db_set_super_user name flag t = vrm_set_super_user name (if flag then 1 else 0) t"

text \<open>The timestamps of the database range from the year 4714 BC up to, but not including, 294277.\<close>

definition TIMESTAMP_BEGIN :: int where "TIMESTAMP_BEGIN = - 210866803200000000"
definition TIMESTAMP_END :: int where "TIMESTAMP_END = 9224318016000000000"

definition db_add_key :: "env \<Rightarrow> bytes \<Rightarrow> bytes \<Rightarrow> bytes \<Rightarrow> bytes option \<Rightarrow> nat option \<Rightarrow> user_tables \<Rightarrow> user_tables \<times> unit res" where
  "db_add_key e name access secret sts ttl t =
     (let expires = map_option (\<lambda>s. e_now e + s * 1000000) ttl
      in if (\<exists>x\<in>set_option expires. TIMESTAMP_END \<le> int x) then (t, Inl Runtime_error)
         else vrm_add_user_key name access secret sts expires t)"

definition db_remove_key :: "bytes \<Rightarrow> user_tables \<Rightarrow> user_tables" where
  "db_remove_key access t = vrm_remove_key access t"

definition db_remove_user :: "bytes \<Rightarrow> user_tables \<Rightarrow> user_tables" where
  "db_remove_user name t = vrm_remove_user name t"

definition db_put_policy :: "database \<Rightarrow> bytes \<Rightarrow> bytes \<Rightarrow> bytes \<Rightarrow> user_tables \<Rightarrow> user_tables \<times> unit res" where
  "db_put_policy D user name doc t = vrm_put_user_policy D user name doc t"

definition db_get_policy :: "bytes \<Rightarrow> bytes \<Rightarrow> user_tables \<Rightarrow> bytes res" where
  "db_get_policy user name t =
     (case find (\<lambda>p. po_name p = name) (vrm_get_user_policy user t) of None \<Rightarrow> Inl Runtime_error | Some p \<Rightarrow> Inr (po_value p))"

definition db_remove_policy :: "bytes \<Rightarrow> bytes \<Rightarrow> user_tables \<Rightarrow> user_tables" where
  "db_remove_policy user name t = vrm_remove_user_policy user name t"

definition db_list_user_policies :: "bytes \<Rightarrow> user_tables \<Rightarrow> bytes list" where
  "db_list_user_policies user t = map po_name (vrm_get_user_policy user t)"

definition db_list_user_keys :: "env \<Rightarrow> bytes \<Rightarrow> user_tables \<Rightarrow> user_key list" where
  "db_list_user_keys e user t =
     map (\<lambda>k. \<lparr>uk_id = k_access k, uk_secret = k_secret k, uk_session = k_session k, uk_expires = row_date (k_expires k)\<rparr>) (vrm_list_user_keys e user t)"

definition db_entries :: "user_tables \<Rightarrow> bytes list" where
  "db_entries t = vrm_list_users t"

definition db_remove_expired :: "env \<Rightarrow> nat \<Rightarrow> user_tables \<Rightarrow> user_tables \<times> unit res" where
  "db_remove_expired e seconds t =
     (let before = int (e_now e) - int seconds * 1000000
      in if before < TIMESTAMP_BEGIN then (t, Inl Runtime_error) else (vrm_remove_expired_keys before t, Inr ()))"

subsection \<open>Names of users\<close>

text \<open>An ARN (\<open>aws/arn.cpp\<close>) is the list of its six fields.\<close>

type_synonym arn = "bytes list"

definition arn_new :: "bytes \<Rightarrow> bytes \<Rightarrow> bytes \<Rightarrow> arn" where
  "arn_new service account resource_id = [''arn'', ''vrm'', service, [], account, resource_id]"

definition arn_parse :: "bytes \<Rightarrow> arn res" where
  "arn_parse s = (let fs = split_str s (CHR '';'') in if length fs \<noteq> 6 then Inl Runtime_error else Inr fs)"

definition arn_service :: "arn \<Rightarrow> bytes" where "arn_service a = a ! 2"
definition arn_account :: "arn \<Rightarrow> bytes" where "arn_account a = a ! 4"
definition arn_resource_id :: "arn \<Rightarrow> bytes" where "arn_resource_id a = a ! 5"
definition arn_set_service :: "bytes \<Rightarrow> arn \<Rightarrow> arn" where "arn_set_service v a = a[2 := v]"
definition arn_set_account :: "bytes \<Rightarrow> arn \<Rightarrow> arn" where "arn_set_account v a = a[4 := v]"
definition arn_set_resource_id :: "bytes \<Rightarrow> arn \<Rightarrow> arn" where "arn_set_resource_id v a = a[5 := v]"

definition arn_to_string :: "arn \<Rightarrow> bytes" where
  "arn_to_string a = join a '':''"

subsection \<open>Commands\<close>

text \<open>
  A handler gets the request with the parameters of its body, and what it draws at random. The tree
  is what it hands to the XML writer.
\<close>

definition missing :: "bytes \<Rightarrow> exn" where
  "missing code = Command_exception 400 code"

definition path_node :: "bytes list \<Rightarrow> (bytes \<times> node) list \<Rightarrow> node" where
  "path_node path fs = foldr (\<lambda>name nd. Tree [(name, nd)]) path (Tree fs)"

definition create_user_handle :: "crypt_library \<Rightarrow> env \<Rightarrow> bytes \<Rightarrow> user \<Rightarrow> s3_request \<Rightarrow> user_tables \<Rightarrow> user_tables \<times> node res" where
  "create_user_handle L e salt caller rq t =
     (case rq_params rq ''UserName'' of
        None \<Rightarrow> (t, Inl (missing ''ValidationError''))
      | Some name \<Rightarrow>
          (let path = (case rq_params rq ''path'' of None \<Rightarrow> ''/'' | Some p \<Rightarrow> p);
               a = arn_to_string (arn_new ''iam'' (erase_all (ur_id caller) ''-'') (''user'' @ path @ name))
           in case db_add_user L e salt name None (Some a) t of
                (t', Inl x) \<Rightarrow> (t', Inl x)
              | (t', Inr i) \<Rightarrow>
                  (t', Inr (path_node [''CreateUserResponse'', ''CreateUserResult'', ''User'']
                     [(''Path'', Leaf path), (''UserName'', Leaf name), (''UserId'', Leaf i), (''Arn'', Leaf a)]))))"

definition delete_user_handle :: "s3_request \<Rightarrow> user_tables \<Rightarrow> user_tables \<times> node res" where
  "delete_user_handle rq t =
     (case rq_params rq ''UserName'' of
        None \<Rightarrow> (t, Inl (missing ''InvalidArgument''))
      | Some name \<Rightarrow> (db_remove_user name t, Inr (Tree [(''DeleteUserResponse'', Leaf [])])))"

definition create_access_key_handle :: "env \<Rightarrow> bytes \<Rightarrow> bytes \<Rightarrow> s3_request \<Rightarrow> user_tables \<Rightarrow> user_tables \<times> node res" where
  "create_access_key_handle e access secret rq t =
     (case rq_params rq ''UserName'' of
        None \<Rightarrow> (t, Inl (missing ''InvalidArgument''))
      | Some name \<Rightarrow>
          (case db_add_key e name access secret None None t of
             (t', Inl x) \<Rightarrow> (t', Inl x)
           | (t', Inr _) \<Rightarrow>
               (t', Inr (path_node [''CreateAccessKeyResponse'', ''CreateAccessKeyResult'', ''AccessKey'']
                  [(''UserName'', Leaf name), (''AccessKeyId'', Leaf access), (''Status'', Leaf ''Active''), (''SecretAccessKey'', Leaf secret)]))))"

definition delete_access_key_handle :: "(bytes \<Rightarrow> json res) \<Rightarrow> time_library \<Rightarrow> env \<Rightarrow> s3_request \<Rightarrow> user_tables \<Rightarrow> user_tables \<times> node res" where
  "delete_access_key_handle json_parse T e rq t =
     (case rq_params rq ''AccessKeyId'' of
        None \<Rightarrow> (t, Inl (missing ''InvalidArgument''))
      | Some access \<Rightarrow>
          (let owner = (case rq_params rq ''UserName'' of
                          None \<Rightarrow> Inr ()
                        | Some name \<Rightarrow> bindE (db_find_by_key json_parse T e access t) (\<lambda>u.
                            if ur_name u \<noteq> name then Inl (Command_exception 409 ''UserNameMismatch'') else Inr ()))
           in case owner of
                Inl x \<Rightarrow> (t, Inl x)
              | Inr _ \<Rightarrow> (db_remove_key access t, Inr (Tree [(''DeleteAccessKeyResponse'', Leaf [])]))))"

definition put_user_policy_handle :: "(bytes \<Rightarrow> json res) \<Rightarrow> time_library \<Rightarrow> database \<Rightarrow> s3_request \<Rightarrow> user_tables \<Rightarrow> user_tables \<times> node res" where
  "put_user_policy_handle json_parse T D rq t =
     (case (rq_params rq ''UserName'', rq_params rq ''PolicyName'', rq_params rq ''PolicyDocument'') of
        (Some name, Some policy_name, Some doc) \<Rightarrow>
          (case policy_parse json_parse T doc of
             Inl x \<Rightarrow> (t, Inl x)
           | Inr _ \<Rightarrow>
               (case db_put_policy D name policy_name doc t of
                  (t', Inl x) \<Rightarrow> (t', Inl x)
                | (t', Inr _) \<Rightarrow> (t', Inr (Tree [(''PutUserPolicyResponse'', Leaf [])]))))
      | _ \<Rightarrow> (t, Inl (missing ''InvalidArgument'')))"

definition list_user_policies_handle :: "s3_request \<Rightarrow> user_tables \<Rightarrow> node res" where
  "list_user_policies_handle rq t =
     (case rq_params rq ''UserName'' of
        None \<Rightarrow> Inl (missing ''Invalid Input'')
      | Some name \<Rightarrow>
          Inr (path_node [''ListUserPoliciesResponse'', ''ListUserPoliciesResult'']
            [(''PolicyNames'', Tree (map (\<lambda>p. (''member'', Leaf p)) (db_list_user_policies name t))), (''IsTruncated'', Flag False)]))"

definition get_user_policy_handle :: "s3_request \<Rightarrow> user_tables \<Rightarrow> node res" where
  "get_user_policy_handle rq t =
     (case (rq_params rq ''UserName'', rq_params rq ''PolicyName'') of
        (Some name, Some policy_name) \<Rightarrow>
          bindE (db_get_policy name policy_name t) (\<lambda>policy.
            Inr (path_node [''GetUserPolicyResponse'', ''GetUserPolicyResult'']
              [(''UserName'', Leaf name), (''PolicyName'', Leaf policy_name), (''PolicyDocument'', Leaf policy)]))
      | _ \<Rightarrow> Inl (missing ''InvalidArgument''))"

definition delete_user_policy_handle :: "s3_request \<Rightarrow> user_tables \<Rightarrow> user_tables \<times> node res" where
  "delete_user_policy_handle rq t =
     (case (rq_params rq ''UserName'', rq_params rq ''PolicyName'') of
        (Some name, Some policy_name) \<Rightarrow> (db_remove_policy name policy_name t, Inr (Tree [(''DeleteUserPolicyResponse'', Leaf [])]))
      | _ \<Rightarrow> (t, Inl (missing ''InvalidArgument'')))"

subsection \<open>The tables stay well-formed\<close>

definition ut_inv :: "user_tables \<Rightarrow> bool" where
  "ut_inv t \<longleftrightarrow> distinct (map us_name (ut_users t)) \<and> distinct (map us_id (ut_users t)) \<and> distinct (map k_access (ut_keys t))
     \<and> distinct (map (\<lambda>p. (po_user p, po_name p)) (ut_policies t))
     \<and> k_user ` set (ut_keys t) \<subseteq> us_name ` set (ut_users t) \<and> po_user ` set (ut_policies t) \<subseteq> us_name ` set (ut_users t)"

definition ut_new :: user_tables where
  "ut_new = \<lparr>ut_users = [], ut_policies = [], ut_keys = []\<rparr>"

text \<open>Each member of the class is one transaction; they run in any order.\<close>

inductive user_step :: "database \<Rightarrow> crypt_library \<Rightarrow> user_tables \<Rightarrow> user_tables \<Rightarrow> bool" for D L where
  add_user: "user_step D L t (fst (db_add_user L e salt name password arn t))"
| set_super_user: "user_step D L t (db_set_super_user name flag t)"
| add_key: "user_step D L t (fst (db_add_key e name access secret sts ttl t))"
| remove_key: "user_step D L t (db_remove_key access t)"
| remove_user: "user_step D L t (db_remove_user name t)"
| put_policy: "user_step D L t (fst (db_put_policy D name policy_name doc t))"
| remove_policy: "user_step D L t (db_remove_policy name policy_name t)"
| remove_expired: "user_step D L t (fst (db_remove_expired e seconds t))"

inductive user_reachable :: "database \<Rightarrow> crypt_library \<Rightarrow> user_tables \<Rightarrow> bool" for D L where
  start: "user_reachable D L ut_new"
| step: "user_reachable D L t \<Longrightarrow> user_step D L t t' \<Longrightarrow> user_reachable D L t'"

lemmas user_table_defs = db_add_user_def vrm_add_user_def db_set_super_user_def vrm_set_super_user_def db_add_key_def vrm_add_user_key_def
  db_remove_key_def vrm_remove_key_def db_remove_user_def vrm_remove_user_def db_put_policy_def vrm_put_user_policy_def
  db_remove_policy_def vrm_remove_user_policy_def db_remove_expired_def vrm_remove_expired_keys_def

lemma user_step_inv:
  assumes "user_step D L t t'" and "ut_inv t"
  shows "ut_inv t'"
  using assms(1)
proof cases
  case (set_super_user name flag)
  have "map us_name (map (\<lambda>r. if us_name r = name then r\<lparr>us_super := v\<rparr> else r) rs) = map us_name rs"
    "map us_id (map (\<lambda>r. if us_name r = name then r\<lparr>us_super := v\<rparr> else r) rs) = map us_id rs" for v and rs :: "user_row list" by auto
  then have "map us_name (ut_users t') = map us_name (ut_users t)" "map us_id (ut_users t') = map us_id (ut_users t)"
    using set_super_user by (simp_all add: db_set_super_user_def vrm_set_super_user_def)
  moreover have "ut_keys t' = ut_keys t" "ut_policies t' = ut_policies t"
    using set_super_user by (simp_all add: db_set_super_user_def vrm_set_super_user_def)
  ultimately show ?thesis using assms(2) unfolding ut_inv_def by (simp flip: set_map)
qed (use assms(2) in \<open>auto simp: ut_inv_def user_table_defs user_exists_def Let_def distinct_map_filter split: prod.splits if_splits\<close>)

lemma reachable_inv: "user_reachable D L t \<Longrightarrow> ut_inv t"
proof (induction rule: user_reachable.induct)
  case start
  then show ?case by (simp add: ut_inv_def ut_new_def)
qed (rule user_step_inv)

text \<open>
  C31: Whatever the order of the operations on users, keys and policies, the tables stay well-formed:
  names, ids and access keys are unique, and every key and every policy belongs to a user that exists.
\<close>

theorem users_well_formed: "user_reachable D L t \<Longrightarrow> ut_inv t"
  by (rule reachable_inv)

definition sample_crypt :: crypt_library where
  "sample_crypt = \<lparr>cl_derive = (\<lambda>pass salt. pass @ salt), cl_base64_encode = (\<lambda>s. s), cl_base64_decode = (\<lambda>s. s)\<rparr>"

definition sample_env :: "nat \<Rightarrow> env" where
  "sample_env now = \<lparr>e_now = now, e_uuid = ''u1''\<rparr>"

definition sample_users :: user_tables where
  "sample_users = fst (db_add_user sample_crypt (sample_env 0) ''salt'' ''ann'' (Some ''pw'') None ut_new)"

lemma sample_users_reachable: "user_reachable sample_db sample_crypt sample_users"
  unfolding sample_users_def by (intro user_reachable.step [OF user_reachable.start] user_step.add_user)

theorem users_well_formed_witness: "ut_inv sample_users \<and> ut_users sample_users \<noteq> []"
  using users_well_formed [OF sample_users_reachable] by (simp add: sample_users_def db_add_user_def vrm_add_user_def ut_new_def)

subsection \<open>Which keys and passwords identify a user\<close>

definition parsable :: "(bytes \<Rightarrow> json res) \<Rightarrow> time_library \<Rightarrow> user_policy_row list \<Rightarrow> bool" where
  "parsable json_parse T ps \<longleftrightarrow> (\<forall>p\<in>set ps. \<exists>x. policy_parse json_parse T (po_value p) = Inr x)"

lemma read_policies_ok:
  "parsable json_parse T ps \<Longrightarrow> \<exists>r. read_policies json_parse T ps rv = Inr r
     \<and> ur_id r = ur_id rv \<and> ur_name r = ur_name rv \<and> ur_arn r = ur_arn rv \<and> ur_super r = ur_super rv \<and> ur_key r = ur_key rv"
proof (induction ps arbitrary: rv)
  case (Cons p ps)
  obtain x where x: "policy_parse json_parse T (po_value p) = Inr x" using Cons.prems by (auto simp: parsable_def)
  have "parsable json_parse T ps" using Cons.prems by (simp add: parsable_def)
  from Cons.IH [OF this, of "rv\<lparr>ur_policies := map_insert (po_name p) x (ur_policies rv), ur_policy_json := map_insert (po_name p) (po_value p) (ur_policy_json rv)\<rparr>"]
  show ?case by (simp add: x bindE_def)
qed simp

lemma read_policies_keeps:
  "read_policies json_parse T ps rv = Inr r \<Longrightarrow> ur_name r = ur_name rv \<and> ur_key r = ur_key rv \<and> ur_super r = ur_super rv"
  by (induction ps arbitrary: rv) (fastforce simp: bindE_def split: sum.splits)+

lemma find_by_key_sound:
  assumes "db_find_by_key json_parse T e access t = Inr u"
  shows "\<exists>k\<in>set (ut_keys t). k_access k = access \<and> k_user k = ur_name u \<and> unexpired e k \<and> (\<exists>uk. ur_key u = Some uk \<and> uk_secret uk = k_secret k)"
proof -
  obtain k r where q: "vrm_query_key e access t = Some (k, r)"
    and u: "read_policies json_parse T (vrm_get_user_policy (k_user k) t)
      \<lparr>ur_id = us_id r, ur_name = k_user k, ur_arn = us_arn r, ur_super = (us_super r \<noteq> 0), ur_policy_json = [], ur_policies = [],
       ur_key = Some \<lparr>uk_id = access, uk_secret = k_secret k, uk_session = k_session k, uk_expires = row_date (k_expires k)\<rparr>\<rparr> = Inr u"
    using assms by (auto simp: db_find_by_key_def split: option.splits)
  have "k \<in> set (ut_keys t) \<and> k_access k = access \<and> unexpired e k" using find_SomeD [OF q [unfolded vrm_query_key_def]] by auto
  then show ?thesis using read_policies_keeps [OF u] by (intro bexI [of _ k]) auto
qed

text \<open>The join finds the one row of the key and the one row of its user.\<close>

lemma query_key_eq:
  assumes "ut_inv t" and "k \<in> set (ut_keys t)" and "r \<in> set (ut_users t)" and "k_user k = us_name r" and "unexpired e k"
  shows "vrm_query_key e (k_access k) t = Some (k, r)"
proof (cases "vrm_query_key e (k_access k) t")
  case None
  then show ?thesis using assms(2-5) by (auto simp: vrm_query_key_def find_None_iff)
next
  case (Some x)
  obtain k' r' where x: "x = (k', r')" by fastforce
  have m: "k' \<in> set (ut_keys t)" "r' \<in> set (ut_users t)" "k_user k' = us_name r'" "k_access k' = k_access k"
    using find_SomeD [OF Some [unfolded vrm_query_key_def]] x by auto
  have "inj_on k_access (set (ut_keys t))" "inj_on us_name (set (ut_users t))" using assms(1) by (simp_all add: ut_inv_def distinct_map)
  then have "k' = k" "r' = r" using m assms(2-4) unfolding inj_on_def by metis+
  then show ?thesis using Some x by simp
qed

lemma query_key_None:
  "(\<And>k. k \<in> set (ut_keys t) \<Longrightarrow> k_access k = access \<Longrightarrow> \<not> unexpired e k) \<Longrightarrow> vrm_query_key e access t = None"
  by (auto simp: vrm_query_key_def find_None_iff)

definition NoSuchAccessGrant :: exn where
  "NoSuchAccessGrant = Command_exception 404 ''NoSuchAccessGrantError''"

text \<open>
  C17: An access key identifies the user it was created for, with its secret, until the time it was given
  is over; after that, or once the key or its user has been removed, it identifies nobody.
\<close>

theorem access_key_lifetime:
  assumes "user_reachable D L t" and "db_add_key e name access secret sts ttl t = (t', Inr ())" and "parsable json_parse T (ut_policies t)"
  shows "(if \<exists>s. ttl = Some s \<and> e_now e + s * 1000000 < e_now e' then db_find_by_key json_parse T e' access t' = Inl NoSuchAccessGrant
      else \<exists>u k. db_find_by_key json_parse T e' access t' = Inr u \<and> ur_name u = name \<and> ur_key u = Some k \<and> uk_id k = access \<and> uk_secret k = secret)
    \<and> db_find_by_key json_parse T e' access (db_remove_key access t') = Inl NoSuchAccessGrant
    \<and> db_find_by_key json_parse T e' access (db_remove_user name t') = Inl NoSuchAccessGrant"
proof -
  define k where "k = \<lparr>k_user = name, k_access = access, k_secret = secret, k_session = sts, k_expires = map_option (\<lambda>s. e_now e + s * 1000000) ttl\<rparr>"
  have t': "t' = t\<lparr>ut_keys := ut_keys t @ [k]\<rparr>" and new: "access \<notin> k_access ` set (ut_keys t)" and name: "user_exists name t"
    using assms(2) by (auto simp: db_add_key_def vrm_add_user_key_def k_def Let_def split: if_splits)
  obtain r where r: "r \<in> set (ut_users t)" "us_name r = name" using name by (auto simp: user_exists_def)
  have inv: "ut_inv t'" using user_step_inv [OF user_step.add_key] reachable_inv [OF assms(1)] assms(2) by (metis fst_conv)
  have "db_find_by_key json_parse T e' access t' = Inl NoSuchAccessGrant" if "ttl = Some s" "e_now e + s * 1000000 < e_now e'" for s
  proof -
    have "\<not> unexpired e' k" using that by (simp add: unexpired_def k_def)
    then have "vrm_query_key e' access t' = None" by (intro query_key_None) (use new in \<open>auto simp: t'\<close>)
    then show ?thesis by (simp add: db_find_by_key_def NoSuchAccessGrant_def)
  qed
  moreover have "\<exists>u k. db_find_by_key json_parse T e' access t' = Inr u \<and> ur_name u = name \<and> ur_key u = Some k \<and> uk_id k = access \<and> uk_secret k = secret"
    if "\<not> (\<exists>s. ttl = Some s \<and> e_now e + s * 1000000 < e_now e')"
  proof -
    have "unexpired e' k" using that by (auto simp: unexpired_def k_def split: option.splits)
    then have q: "vrm_query_key e' access t' = Some (k, r)" using query_key_eq [OF inv, of k r e'] r by (simp add: t' k_def)
    have "parsable json_parse T (vrm_get_user_policy name t')" using assms(3) by (simp add: parsable_def vrm_get_user_policy_def t')
    from read_policies_ok [OF this] show ?thesis by (fastforce simp: db_find_by_key_def q k_def)
  qed
  moreover have "vrm_query_key e' access (db_remove_key access t') = None"
    by (rule query_key_None) (simp add: db_remove_key_def vrm_remove_key_def)
  moreover have "vrm_query_key e' access (db_remove_user name t') = None"
    by (rule query_key_None) (use new in \<open>auto simp: t' db_remove_user_def vrm_remove_user_def k_def\<close>)
  ultimately show ?thesis by (auto simp: db_find_by_key_def NoSuchAccessGrant_def)
qed

lemma sample_key: "\<exists>t'. db_add_key (sample_env 0) ''ann'' ''AK'' ''secret'' None (Some 1) sample_users = (t', Inr ())"
  by (simp add: db_add_key_def vrm_add_user_key_def user_exists_def sample_users_def db_add_user_def vrm_add_user_def ut_new_def Let_def sample_env_def TIMESTAMP_END_def)

theorem access_key_lifetime_witness:
  "\<exists>t' u k. db_add_key (sample_env 0) ''ann'' ''AK'' ''secret'' None (Some 1) sample_users = (t', Inr ())
     \<and> db_find_by_key (\<lambda>_. Inl Runtime_error) no_time (sample_env 1000000) ''AK'' t' = Inr u \<and> ur_name u = ''ann'' \<and> ur_key u = Some k \<and> uk_secret k = ''secret''
     \<and> db_find_by_key (\<lambda>_. Inl Runtime_error) no_time (sample_env 1000001) ''AK'' t' = Inl NoSuchAccessGrant"
proof -
  obtain t' where t': "db_add_key (sample_env 0) ''ann'' ''AK'' ''secret'' None (Some 1) sample_users = (t', Inr ())" using sample_key by blast
  have p: "parsable (\<lambda>_. Inl Runtime_error) no_time (ut_policies sample_users)"
    by (simp add: parsable_def sample_users_def db_add_user_def vrm_add_user_def ut_new_def)
  show ?thesis
    using access_key_lifetime [OF sample_users_reachable t' p, of "sample_env 1000000"] access_key_lifetime [OF sample_users_reachable t' p, of "sample_env 1000001"] t'
    by (auto simp: sample_env_def)
qed



text \<open>A derived key that contains a colon is cut at it, so that no password is accepted.\<close>

lemma password_with_colon:
  assumes "us_password r = Some (encode_password L salt password)" and "vrm_query_user name t = Some r"
    and "\<forall>x. cl_base64_decode L (cl_base64_encode L x) = x" and "CHR '':'' \<notin> set salt"
    and "cl_derive L password salt = x @ '':'' @ y" and "CHR '':'' \<notin> set x"
  shows "db_find_and_check L json_parse T name password t = Some (Inl Runtime_error)"
proof -
  have "split_str (cl_base64_decode L (encode_password L salt password)) (CHR '':'') = salt # x # split_rest (CHR '':'') [] y"
    using assms(3,5) split_rest_slash [OF assms(4), of "[]" "x @ '':'' @ y"] split_rest_slash [OF assms(6), of "[]" y]
    by (simp add: encode_password_def split_str_def)
  then show ?thesis using assms(1,2,5) by (simp add: db_find_and_check_def Let_def)
qed

text \<open>An ARN is printed with colons and parsed with semicolons.\<close>

lemma arn_not_parsed:
  assumes "CHR '';'' \<notin> set (arn_to_string a)"
  shows "arn_parse (arn_to_string a) = Inl Runtime_error"
  using split_rest_join [of "CHR '';''" "arn_to_string a" "[]" "[]"] assms by (simp add: arn_parse_def split_str_def)

end
