(* ===== verification/Vrm_Chunked.thy ===== *)
theory Vrm_Chunked
  imports Vrm_Stream
begin

text \<open>
  Chunked request bodies: what a correctly encoded message looks like and that reading it as a body
  (\<open>chunked_body\<close> of \<^verbatim>\<open>Vrm_Stream\<close>) delivers the payload, when the connection delivers what has
  arrived at once and the chunks fit into the buffer. Where the newline after a chunk is not in the
  buffer, the code reads past the data it received.
\<close>

subsection \<open>Finding a delimiter\<close>

lemma find_str_bound: "find_str d xs = Some i \<Longrightarrow> i + length d \<le> length xs"
proof (induction xs arbitrary: i)
  case (Cons x xs)
  show ?case
  proof (cases "take (length d) (x # xs) = d")
    case True
    then have "length d \<le> length (x # xs)" by (metis length_take min.cobounded1)
    then show ?thesis using True Cons.prems by simp
  next
    case False
    then show ?thesis using Cons by fastforce
  qed
qed (auto split: if_splits)

lemma find_str_prefix:
  assumes "i + length d \<le> length xs" and "d \<noteq> []"
  shows "find_str d (xs @ ys) = Some i \<longleftrightarrow> find_str d xs = Some i"
  using assms
proof (induction xs arbitrary: i)
  case (Cons x xs)
  have t: "take (length d) (x # xs @ ys) = take (length d) (x # xs)" using Cons.prems(1) by (cases "length d") auto
  show ?case
  proof (cases i)
    case 0
    then show ?thesis using t by auto
  next
    case (Suc j)
    then have "find_str d (xs @ ys) = Some j \<longleftrightarrow> find_str d xs = Some j" using Cons by simp
    then show ?thesis using t Suc by auto
  qed
qed simp

lemma CRLF_simps [simp]: "length CRLF = 2" "CRLF \<noteq> []"
  by (simp_all add: CRLF_def)

lemma find_str_CRLF: "CHR 0x0D \<notin> set p \<Longrightarrow> find_str CRLF (p @ CRLF @ r) = Some (length p)"
  by (induction p) (auto simp: CRLF_def)

context socket
begin

lemma ss_read_until_ok:
  assumes "ss_ok s" and "d \<noteq> []" and "find_str d (ss_rest incoming s) = Some pos" and "ss_get s + pos + length d \<le> length (ss_buffer s)"
  shows "\<exists>s'. ss_read_until recv d s = Some (s', Inr (take (pos + length d) (ss_rest incoming s))) \<and> ss_ok s'
    \<and> ss_rest incoming s' = drop (pos + length d) (ss_rest incoming s) \<and> ss_get s' = ss_get s + (pos + length d) \<and> length (ss_buffer s') = length (ss_buffer s)"
  using assms
proof (induction "length (ss_buffer s) - ss_put s" arbitrary: s rule: less_induct)
  case less
  let ?n = "pos + length d" and ?b = "ss_buffered s"
  have eq: "ss_rest incoming s = ?b @ incoming (ss_socket s)" by (simp add: ss_rest_def)
  have lb: "length ?b = ss_put s - ss_get s" by (rule length_ss_buffered [OF less.prems(1)])
  show ?case
  proof (cases "?n \<le> length ?b")
    case True
    then have f: "find_str d ?b = Some pos" using find_str_prefix [of pos d ?b] less.prems(2,3) eq by simp
    note adv = ss_advance [OF less.prems(1), of ?n]
    have "drop ?n (ss_rest incoming s) = ss_rest incoming (s\<lparr>ss_get := ss_get s + ?n\<rparr>)"
      using adv(2) True lb by (metis append_eq_conv_conj append_take_drop_id same_append_eq)
    then show ?thesis using f adv(1,3) True lb by (subst ss_read_until.simps) (simp add: ss_buffered_def [symmetric])
  next
    case False
    have f: "find_str d ?b = None"
    proof (rule ccontr)
      assume "find_str d ?b \<noteq> None"
      then obtain p where p: "find_str d ?b = Some p" by auto
      then have "find_str d (ss_rest incoming s) = Some p" using find_str_prefix [of p d ?b] find_str_bound [OF p] less.prems(2) eq by simp
      then show False using less.prems(3) find_str_bound [OF p] False by simp
    qed
    have put: "ss_put s < length (ss_buffer s)" using False lb less.prems(1,4) by (auto simp: ss_ok_def)
    have inc: "incoming (ss_socket s) \<noteq> []" using f less.prems(3) eq by auto
    obtain s1 where 1: "ss_fill recv s = Some (s1, Inr ())" "ss_ok s1" "ss_get s1 = ss_get s" "ss_put s < ss_put s1" "ss_rest incoming s1 = ss_rest incoming s"
      "length (ss_buffer s1) = length (ss_buffer s)" using ss_fill_ok [OF less.prems(1) put inc] by auto
    have "length (ss_buffer s1) - ss_put s1 < length (ss_buffer s) - ss_put s" using 1(4,6) put by simp
    from less.hyps [OF this 1(2) less.prems(2)] less.prems(3,4) 1 obtain s' where
      "ss_read_until recv d s1 = Some (s', Inr (take ?n (ss_rest incoming s)))" "ss_ok s'" "ss_rest incoming s' = drop ?n (ss_rest incoming s)"
      "ss_get s' = ss_get s + ?n" "length (ss_buffer s') = length (ss_buffer s)" by auto
    then show ?thesis using f 1(1,4) by (subst ss_read_until.simps) (simp add: ss_buffered_def [symmetric])
  qed
qed

end

subsection \<open>A connection on which everything has arrived\<close>

locale prompt_socket = socket +
  assumes recv_all: "incoming k \<noteq> [] \<Longrightarrow> recv k n = (k', Inr d) \<Longrightarrow> length d = min n (length (incoming k))"
begin

lemma ss_read_exact:
  assumes "ss_ok s" and "n \<le> length (ss_rest incoming s)" and "ss_get s + n \<le> length (ss_buffer s)"
  shows "\<exists>s'. ss_read recv n s = Some (s', Inr (take n (ss_rest incoming s))) \<and> ss_ok s' \<and> ss_rest incoming s' = drop n (ss_rest incoming s)
    \<and> length (ss_buffer s') = length (ss_buffer s) \<and> ss_get s' = ss_get s + n"
proof -
  have "\<exists>s1. (if n > ss_put s - ss_get s then ss_fill recv s else Some (s, Inr ())) = Some (s1, Inr ()) \<and> ss_ok s1 \<and> ss_rest incoming s1 = ss_rest incoming s
      \<and> ss_get s1 = ss_get s \<and> length (ss_buffer s1) = length (ss_buffer s) \<and> n \<le> ss_put s1 - ss_get s1"
  proof (cases "n > ss_put s - ss_get s")
    case True
    have l: "length (ss_buffered s) = ss_put s - ss_get s" by (rule length_ss_buffered [OF assms(1)])
    have p: "ss_put s < length (ss_buffer s)" using True assms(1,3) by (auto simp: ss_ok_def)
    have inc: "incoming (ss_socket s) \<noteq> []" using True l assms(2) by (auto simp: ss_rest_def)
    obtain s1 where 1: "ss_fill recv s = Some (s1, Inr ())" "ss_ok s1" "ss_get s1 = ss_get s" "ss_rest incoming s1 = ss_rest incoming s"
      "length (ss_buffer s1) = length (ss_buffer s)" using ss_fill_ok [OF assms(1) p inc] by auto
    then have "ss_put s1 = ss_put s + min (length (ss_buffer s) - ss_put s) (length (incoming (ss_socket s)))"
      using recv_all [OF inc] by (auto simp: ss_fill_def split: prod.splits sum.splits)
    then have "n \<le> ss_put s1 - ss_get s1" using 1(3) assms(1-3) l p by (auto simp: ss_rest_def ss_ok_def min_def)
    then show ?thesis using True 1 by auto
  next
    case False
    then show ?thesis using assms(1) by auto
  qed
  then obtain s1 where 1: "(if n > ss_put s - ss_get s then ss_fill recv s else Some (s, Inr ())) = Some (s1, Inr ())" "ss_ok s1" "ss_rest incoming s1 = ss_rest incoming s"
    "ss_get s1 = ss_get s" "length (ss_buffer s1) = length (ss_buffer s)" "n \<le> ss_put s1 - ss_get s1"
    by (elim exE conjE) (rule that; assumption)
  note adv = ss_advance [OF 1(2,6)]
  have "drop n (ss_rest incoming s) = ss_rest incoming (s1\<lparr>ss_get := ss_get s1 + n\<rparr>)"
    using adv(2) 1(3) by (metis append_take_drop_id same_append_eq)
  moreover have "ss_read recv n s = Some (s1\<lparr>ss_get := ss_get s1 + n\<rparr>, Inr (take n (ss_rest incoming s)))"
    using 1 adv(3) by (simp add: ss_read_def bindP_def min_absorb1)
  ultimately show ?thesis using adv(1) 1(4,5) by auto
qed

end

definition flat_recv :: "bytes receive" where
  "flat_recv k n = (if n = 0 then (k, Inr []) else if k = [] then (k, Inl Runtime_error) else (drop n k, Inr (take n k)))"

interpretation flat_socket: prompt_socket flat_recv "\<lambda>k. k"
  by unfold_locales (auto simp: flat_recv_def min_def split: if_splits)

subsection \<open>Encoded messages\<close>

text \<open>The payload of an encoded message, and that the message is well formed with chunks that fit into a buffer.\<close>

lemma no_digits: "digits_of 16 [] = []" "digits_value 16 [] = 0"
  by (simp_all add: digits_of_def digits_value_def)

lemma drop_shorter: "s \<noteq> [] \<Longrightarrow> length (drop (n + 2) (drop m s)) < length s"
  by (cases s) auto

function dechunk :: "bytes \<Rightarrow> bytes" where
  "dechunk s =
     (let ds = digits_of 16 s; n = digits_value 16 ds; m = drop (length ds + 2) s
      in if n = 0 then [] else take n m @ dechunk (drop (n + 2) m))"
  by auto
termination
proof (relation "measure length")
  fix s :: bytes and ds n m assume "ds = digits_of 16 s" "n = digits_value 16 ds" "m = drop (length ds + 2) s" "n \<noteq> 0"
  moreover from this have "s \<noteq> []" using no_digits by auto
  ultimately show "(drop (n + 2) m, s) \<in> measure length" using drop_shorter [of s n "length ds + 2"] by simp
qed simp

function chunked_ok :: "size_t \<Rightarrow> bytes \<Rightarrow> bool" where
  "chunked_ok bs s \<longleftrightarrow>
     (let ds = digits_of 16 s; n = digits_value 16 ds; m = drop (length ds + 2) s
      in ds \<noteq> [] \<and> n < M64 \<and> take 2 (drop (length ds) s) = CRLF
         \<and> (if n = 0 then take 2 m = CRLF \<and> length ds + 4 \<le> bs
            else take 2 (drop n m) = CRLF \<and> length ds + n + 4 \<le> bs \<and> (if ds = [] then False else chunked_ok bs (drop (n + 2) m))))"
  by auto
termination
proof (relation "measure (length \<circ> snd)")
  fix bs and s :: bytes and ds n m assume "ds = digits_of 16 s" "n = digits_value 16 ds" "m = drop (length ds + 2) s" "ds \<noteq> []"
  moreover from this have "s \<noteq> []" using no_digits by auto
  ultimately show "((bs, drop (n + 2) m), (bs, s)) \<in> measure (length \<circ> snd)" using drop_shorter [of s n "length ds + 2"] by simp
qed simp

declare dechunk.simps [simp del] chunked_ok.simps [simp del]

lemma digits_16_CR: "digit_value 16 (CHR 0x0D) = None"
  by code_simp

text \<open>The header line in front of the rest of the message.\<close>

lemma header_split:
  assumes "take 2 (drop (length (digits_of 16 s)) s) = CRLF"
  obtains p where "s = p @ CRLF @ drop (length (digits_of 16 s) + 2) s" "length p = length (digits_of 16 s)" "CHR 0x0D \<notin> set p"
    "\<forall>c\<in>set p. digit_value 16 c \<noteq> None"
proof -
  let ?p = "takeWhile (\<lambda>c. digit_value 16 c \<noteq> None) s" and ?l = "length (digits_of 16 s)"
  have l: "length ?p = ?l" by (simp add: digits_of_def)
  have p: "?p = take ?l s" unfolding l [symmetric] by (rule takeWhile_eq_take)
  have 1: "s = ?p @ drop ?l s" unfolding p by simp
  have 2: "drop ?l s = CRLF @ drop (?l + 2) s" using append_take_drop_id [of 2 "drop ?l s"] by (simp only: assms drop_drop add.commute [of 2])
  have d: "\<forall>c\<in>set ?p. digit_value 16 c \<noteq> None" by (blast dest: set_takeWhileD)
  have c: "CHR 0x0D \<notin> set ?p" using d digits_16_CR by auto
  show ?thesis
  proof (rule that)
    show "s = ?p @ CRLF @ drop (?l + 2) s" using 1 unfolding 2 .
    show "length ?p = ?l" by (rule l)
    show "CHR 0x0D \<notin> set ?p" by (rule c)
    show "\<forall>c\<in>set ?p. digit_value 16 c \<noteq> None" by (rule d)
  qed
qed

lemma parse_plain_header:
  assumes "\<forall>c\<in>set p. digit_value 16 c \<noteq> None" and "p \<noteq> []" and "digits_value 16 (digits_of 16 p) < M64"
  shows "chunk_header_parse (p @ CRLF) = Some (Inr \<lparr>ch_size = digits_value 16 (digits_of 16 p), ch_extensions = Map.empty\<rparr>)"
proof -
  have b: "butlast (p @ CRLF) = p @ [CHR 0x0D]" by (simp add: CRLF_def butlast_append)
  have "digits_of 16 [CHR 0x0D] = []" using digits_16_CR by (simp add: digits_of_def)
  then have d: "digits_of 16 (p @ [CHR 0x0D]) = digits_of 16 p" using assms(1) digits_of_append [of p 16] digits_of_append [of p 16 "[]"] by (simp add: digits_of_def)
  have "length (digits_of 16 p) = length p" using assms(1) digits_of_append [of p 16 "[]"] by (simp add: digits_of_def)
  moreover from this have "digits_of 16 p \<noteq> []" using assms(2) by auto
  ultimately show ?thesis unfolding chunk_header_parse_def b d using assms(3) by (simp add: Let_def CRLF_def nth_append)
qed

text \<open>The state between two chunks.\<close>

definition cb_ok :: "('k \<Rightarrow> bytes) \<Rightarrow> ('k, unit) chunked_body \<Rightarrow> bool" where
  "cb_ok incoming b \<longleftrightarrow> ss_ok (cb_stream b) \<and> cb_left b = 0 \<and> cb_trailing b = No_trailer
     \<and> (cb_end b \<or> chunked_ok (length (ss_buffer (cb_stream b))) (ss_rest incoming (cb_stream b)))"

definition cb_rest :: "('k \<Rightarrow> bytes) \<Rightarrow> ('k, unit) chunked_body \<Rightarrow> bytes" where
  "cb_rest incoming b = (if cb_end b then [] else dechunk (ss_rest incoming (cb_stream b)))"

context prompt_socket
begin

lemma read_header_ok:
  assumes "ss_ok (cb_stream b)" and "ss_get (cb_stream b) = 0" and "chunked_ok (length (ss_buffer (cb_stream b))) (ss_rest incoming (cb_stream b))"
    and "ds = digits_of 16 (ss_rest incoming (cb_stream b))"
  shows "\<exists>s'. read_chunk_header no_hooks recv b = Some (b\<lparr>cb_stream := s'\<rparr>, Inr \<lparr>ch_size = digits_value 16 ds, ch_extensions = Map.empty\<rparr>)
    \<and> ss_ok s' \<and> ss_rest incoming s' = drop (length ds + 2) (ss_rest incoming (cb_stream b)) \<and> ss_get s' = length ds + 2
    \<and> length (ss_buffer s') = length (ss_buffer (cb_stream b))"
proof -
  let ?s = "cb_stream b" and ?r = "ss_rest incoming (cb_stream b)"
  have ok: "ds \<noteq> []" "digits_value 16 ds < M64" "take 2 (drop (length ds) ?r) = CRLF" "length ds + 4 \<le> length (ss_buffer ?s)"
    using assms(3) unfolding assms(4) by (subst (asm) chunked_ok.simps; auto simp: Let_def split: if_splits)+
  obtain p where p: "?r = p @ CRLF @ drop (length ds + 2) ?r" "length p = length ds" "CHR 0x0D \<notin> set p" "\<forall>c\<in>set p. digit_value 16 c \<noteq> None"
    by (rule header_split [OF ok(3) [unfolded assms(4)], folded assms(4)])
  have pds: "digits_of 16 p = ds"
  proof -
    have "digits_of 16 (CRLF @ x) = []" for x using digits_16_CR by (simp add: digits_of_def CRLF_def)
    then have "digits_of 16 ?r = map (\<lambda>c. the (digit_value 16 c)) p" by (subst p(1)) (simp add: digits_of_append [OF p(4)])
    then show ?thesis using digits_of_append [OF p(4), of "[]"] assms(4) by (simp add: digits_of_def)
  qed
  have f: "find_str CRLF ?r = Some (length ds)" by (subst p(1)) (simp only: find_str_CRLF [OF p(3)] p(2))
  have tk: "take (length ds + length CRLF) ?r = p @ CRLF" by (subst p(1)) (simp add: p(2) CRLF_def)
  obtain s' where s': "ss_read_until recv CRLF ?s = Some (s', Inr (p @ CRLF))" "ss_ok s'" "ss_rest incoming s' = drop (length ds + 2) ?r"
    "ss_get s' = length ds + 2" "length (ss_buffer s') = length (ss_buffer ?s)"
    using ss_read_until_ok [OF assms(1) _ f] tk assms(2) ok(4) by auto
  have "p \<noteq> []" using ok(1) p(2) by auto
  then have "chunk_header_parse (p @ CRLF) = Some (Inr \<lparr>ch_size = digits_value 16 ds, ch_extensions = Map.empty\<rparr>)"
    using parse_plain_header [OF p(4)] ok(2) pds by simp
  moreover have "b\<lparr>cb_stream := s', cb_state := ()\<rparr> = b\<lparr>cb_stream := s'\<rparr>" by (cases b) simp
  ultimately show ?thesis using s' by (intro exI [of _ s']) (simp add: read_chunk_header_def bindP_def cb_on_stream_def no_hooks_def)
qed

lemma cb_read_ok:
  assumes "cb_ok incoming b" and "ss_get (cb_stream b) = 0"
  shows "\<exists>b' d. cb_read no_hooks recv (length (ss_buffer (cb_stream b))) b = Some (b', Inr d) \<and> cb_ok incoming b'
    \<and> length (ss_buffer (cb_stream b')) = length (ss_buffer (cb_stream b)) \<and> cb_rest incoming b = d @ cb_rest incoming b' \<and> (d = [] \<longrightarrow> cb_rest incoming b = [])"
proof (cases "cb_end b")
  case True
  then show ?thesis using assms(1) by (auto simp: cb_read_def cb_rest_def)
next
  case False
  let ?s = "cb_stream b" and ?r = "ss_rest incoming (cb_stream b)" and ?bs = "length (ss_buffer (cb_stream b))"
  define ds n m where defs: "ds = digits_of 16 ?r" "n = digits_value 16 ds" "m = drop (length ds + 2) ?r"
  have I: "ss_ok ?s" "cb_left b = 0" "cb_trailing b = No_trailer" "chunked_ok ?bs ?r" using assms(1) False by (auto simp: cb_ok_def)
  obtain s1 where h: "read_chunk_header no_hooks recv b = Some (b\<lparr>cb_stream := s1\<rparr>, Inr \<lparr>ch_size = n, ch_extensions = Map.empty\<rparr>)" "ss_ok s1"
    "ss_rest incoming s1 = m" "ss_get s1 = length ds + 2" "length (ss_buffer s1) = ?bs"
    using read_header_ok [OF I(1) assms(2) I(4) defs(1)] by (auto simp: defs)
  note ck = chunked_ok.simps [of ?bs ?r, THEN iffD1, OF I(4), unfolded defs(1) [symmetric] Let_def, unfolded defs(2) [symmetric], unfolded defs(3) [symmetric]]
  note dc = dechunk.simps [of ?r, unfolded defs(1) [symmetric] Let_def, unfolded defs(2) [symmetric], unfolded defs(3) [symmetric]]
  show ?thesis
  proof (cases "n = 0")
    case True
    then have t: "take 2 m = CRLF" "length ds + 4 \<le> ?bs" using ck by auto
    then have "m = [] @ CRLF @ drop 2 m" by (metis append_Nil append_take_drop_id)
    then have "find_str CRLF m = Some 0" using find_str_CRLF [of "[]" "drop 2 m"] by simp
    then obtain s2 where s2: "ss_read_until recv CRLF s1 = Some (s2, Inr CRLF)" "ss_ok s2" "length (ss_buffer s2) = ?bs"
      using ss_read_until_ok [OF h(2), of CRLF 0] t h by (auto simp: numeral_2_eq_2)
    define b' where "b' = b\<lparr>cb_stream := s2, cb_left := 0, cb_end := True\<rparr>"
    have "cb_read no_hooks recv ?bs b = Some (b', Inr [])"
      using False I h(1) True s2(1) by (simp add: cb_read_def bindP_def Let_def finish_chunks_def cb_hook_def cb_on_stream_def no_hooks_def retP_def b'_def)
    then show ?thesis using s2 I(3) True False dc by (intro exI [of _ b'] exI [of _ "[]"]) (simp add: b'_def cb_ok_def cb_rest_def)
  next
    case nz: False
    then have t: "n < M64" "take 2 (drop n m) = CRLF" "length ds + n + 4 \<le> ?bs" "chunked_ok ?bs (drop (n + 2) m)" using ck by auto
    have len: "n + 2 \<le> length m" using arg_cong [OF t(2), of length] by (simp add: CRLF_def min_def split: if_splits)
    obtain s2 where s2: "ss_read recv n s1 = Some (s2, Inr (take n m))" "ss_ok s2" "ss_rest incoming s2 = drop n m" "length (ss_buffer s2) = ?bs" "ss_get s2 = length ds + 2 + n"
      using ss_read_exact [OF h(2), of n] h(3-5) len t(3) by auto
    obtain s3 where s3: "ss_read recv 2 s2 = Some (s3, Inr CRLF)" "ss_ok s3" "ss_rest incoming s3 = drop (n + 2) m" "length (ss_buffer s3) = ?bs"
    proof -
      have "2 \<le> length (ss_rest incoming s2)" "ss_get s2 + 2 \<le> length (ss_buffer s2)" using s2(3-5) len t(3) by auto
      from ss_read_exact [OF s2(2) this] show ?thesis using s2(3,4) t(2) that by (auto simp: add.commute)
    qed
    define b' where "b' = b\<lparr>cb_stream := s3, cb_left := 0\<rparr>"
    have mn: "min n ?bs = n" "sub64 n n = 0" "min n (length m) = n" using t(1,3) len by (auto simp: sub64_def)
    have "cb_read no_hooks recv ?bs b = Some (b', Inr (take n m))"
      using False I h(1) nz s2(1) s3(1) mn
      by (simp add: cb_read_def bindP_def Let_def chunk_data_def cb_hook_def cb_on_stream_def no_hooks_def retP_def b'_def expect_newline_def CRLF_def)
    moreover have "cb_ok incoming b'" using s3 t(4) I(3) by (simp add: cb_ok_def b'_def)
    moreover have "cb_rest incoming b = take n m @ cb_rest incoming b'" using False nz dc s3(3) by (simp add: cb_rest_def b'_def)
    moreover have "take n m \<noteq> []" using nz len by auto
    ultimately show ?thesis using s3(4) by (intro exI [of _ b'] exI [of _ "take n m"]) (simp add: b'_def)
  qed
qed

end

sublocale prompt_socket \<subseteq> chunked: body "chunked_body_ops no_hooks recv" "\<lambda>b. cb_ok incoming b \<and> ss_get (cb_stream b) = 0" "cb_ok incoming" "cb_rest incoming"
proof
  fix b :: "('a, unit) chunked_body"
  show "\<exists>b' d. bo_read (chunked_body_ops no_hooks recv) (bo_buffer_size (chunked_body_ops no_hooks recv) b) b = Some (b', Inr d) \<and> cb_ok incoming b'
      \<and> bo_buffer_size (chunked_body_ops no_hooks recv) b' = bo_buffer_size (chunked_body_ops no_hooks recv) b
      \<and> cb_rest incoming b = d @ cb_rest incoming b' \<and> (d = [] \<longrightarrow> cb_rest incoming b = [])" if "cb_ok incoming b \<and> ss_get (cb_stream b) = 0"
    using cb_read_ok [of b] that by (simp add: chunked_body_ops_def)
  show "\<exists>b'. bo_consume (chunked_body_ops no_hooks recv) b = Some (b', Inr ()) \<and> (cb_ok incoming b' \<and> ss_get (cb_stream b') = 0)
      \<and> bo_buffer_size (chunked_body_ops no_hooks recv) b' = bo_buffer_size (chunked_body_ops no_hooks recv) b \<and> cb_rest incoming b' = cb_rest incoming b"
    if u: "cb_ok incoming b"
  proof -
    obtain s' where "ss_consume (cb_stream b) = Some (s', Inr ())" "ss_ok s'" "ss_get s' = 0" "ss_rest incoming s' = ss_rest incoming (cb_stream b)"
      "length (ss_buffer s') = length (ss_buffer (cb_stream b))" using ss_consume_ok [of "cb_stream b"] u by (auto simp: cb_ok_def)
    then show ?thesis
      using u by (intro exI [of _ "b\<lparr>cb_stream := s'\<rparr>"]) (simp add: chunked_body_ops_def cb_on_stream_def cb_ok_def cb_rest_def)
  qed
qed

subsection \<open>What a client sends\<close>

fun hex_str :: "nat \<Rightarrow> bytes" where
  "hex_str n = (if n < 16 then [''0123456789abcdef'' ! n] else hex_str (n div 16) @ [''0123456789abcdef'' ! (n mod 16)])"

declare hex_str.simps [simp del]

definition chunk_message :: "bytes list \<Rightarrow> bytes" where
  "chunk_message cs = concat (map (\<lambda>c. hex_str (length c) @ CRLF @ c @ CRLF) cs) @ ''0'' @ CRLF @ CRLF"

definition chunked_body_new :: "'k socket_stream \<Rightarrow> trailing_headers \<Rightarrow> 'h \<Rightarrow> ('k, 'h) chunked_body" where
  "chunked_body_new s trailing h = \<lparr>cb_stream = s, cb_trailing = trailing, cb_left = 0, cb_end = False, cb_state = h\<rparr>"

lemma hex_digit: "k < 16 \<Longrightarrow> digit_value 16 (''0123456789abcdef'' ! k) = Some k"
proof -
  have "\<forall>k\<in>set [0..<16]. digit_value 16 (''0123456789abcdef'' ! k) = Some k" by code_simp
  then show "k < 16 \<Longrightarrow> digit_value 16 (''0123456789abcdef'' ! k) = Some k" by auto
qed

lemma hex_str_digits: "\<forall>c\<in>set (hex_str n). digit_value 16 c \<noteq> None"
proof (induction n rule: hex_str.induct)
  case (1 n)
  then show ?case using hex_digit [of n] hex_digit [of "n mod 16"] by (subst hex_str.simps) auto
qed

lemma hex_str_value: "digits_value 16 (map (\<lambda>c. the (digit_value 16 c)) (hex_str n)) = n"
proof (induction n rule: hex_str.induct)
  case (1 n)
  then show ?case using hex_digit [of n] hex_digit [of "n mod 16"] by (subst hex_str.simps) (auto simp: digits_value_def)
qed

lemma digits_of_hex: "digits_of 16 (hex_str n @ CRLF @ r) = map (\<lambda>c. the (digit_value 16 c)) (hex_str n)"
  using digits_of_append [OF hex_str_digits [of n], of "CRLF @ r"] digits_16_CR by (simp add: digits_of_def CRLF_def)

lemma chunk_message_ok:
  assumes "\<forall>c\<in>set cs. c \<noteq> [] \<and> length (hex_str (length c)) + length c + 4 \<le> bs" and "5 \<le> bs" and "bs < M64"
  shows "chunked_ok bs (chunk_message cs @ r) \<and> dechunk (chunk_message cs @ r) = concat cs"
  using assms(1)
proof (induction cs)
  case Nil
  have "hex_str 0 = ''0''" by (simp add: hex_str.simps)
  then have d: "digits_of 16 (chunk_message [] @ r) = [0]" using digits_of_hex [of 0 "CRLF @ r"] hex_digit [of 0] by (simp add: chunk_message_def)
  then show ?case using assms(2)
    by (subst chunked_ok.simps, subst dechunk.simps) (simp add: digits_value_def chunk_message_def CRLF_def M64_def)
next
  case (Cons c cs)
  let ?h = "hex_str (length c)" and ?r = "chunk_message cs @ r"
  have m: "chunk_message (c # cs) @ r = ?h @ CRLF @ c @ CRLF @ ?r" by (simp add: chunk_message_def)
  define ds where "ds = digits_of 16 (?h @ CRLF @ c @ CRLF @ ?r)"
  have ds: "length ds = length ?h" "digits_value 16 ds = length c" unfolding ds_def digits_of_hex by (simp_all add: hex_str_value)
  have "?h \<noteq> []" by (subst hex_str.simps) simp
  then have "ds \<noteq> []" using ds(1) by auto
  then show ?case using Cons assms(3) ds unfolding m
    by (subst chunked_ok.simps, subst dechunk.simps) (simp add: ds_def [symmetric] Let_def)
qed



text \<open>
  A chunk whose data ends where the buffer ends: the newline after it is not in the buffer, the code
  reads two bytes, gets none and looks at them all the same.
\<close>

lemma newline_beyond_buffer:
  "cb_read no_hooks flat_recv 8 (chunked_body_new (ss_new (chunk_message [''abcde'']) 8) No_trailer ()) = None"
proof -
  have "digits_of 16 [CHR ''5'', CHR 0x0D] = [5]" by code_simp
  then show ?thesis
    by (simp add: cb_read_def chunked_body_new_def ss_new_def read_chunk_header_def bindP_def cb_on_stream_def chunk_message_def hex_str.simps CRLF_def
        ss_read_until.simps flat_recv_def ss_fill_def slice_def overwrite_def chunk_header_parse_def Let_def digits_value_def M64_def
        chunk_data_def ss_read_def cb_hook_def no_hooks_def sub64_def expect_newline_def)
qed

end
