(* ===== verification/Vrm_Auth.thy ===== *)
theory Vrm_Auth
  imports Vrm_Users Vrm_Chunked
begin

text \<open>
  Reading and authenticating a request (\<open>entrypoint/http\<close>: \<open>raw_request.cpp\<close>, \<open>request_factory.cpp\<close>,
  \<open>aws4_hmac_sha256.cpp\<close>, \<open>basic_auth.cpp\<close>, \<open>no_auth.cpp\<close>). The HTTP parser, the URL decoder and the
  hash functions are arguments. The main results say what a valid signature proves: the request
  was signed with the secret of a valid key of its user, and the signature covers the method, the path, the
  parameters and the signed header fields. The result \<open>None\<close> stands for undefined behaviour.
\<close>

subsection \<open>Raw requests\<close>

definition starts_with :: "bytes \<Rightarrow> bytes \<Rightarrow> bool" where
  "starts_with s p \<longleftrightarrow> take (length p) s = p"

record raw_request =
  rw_method :: bytes
  rw_path :: bytes
  rw_encoded_path :: bytes
  rw_params :: "(bytes \<times> bytes) list"
  rw_headers :: "(bytes \<times> bytes) list"

text \<open>
  What the HTTP parser gives for the bytes of a header, if it is complete, and what the URL library gives
  for a target: the decoded and the encoded path and the decoded parameters.
\<close>

record http_header =
  hh_method :: bytes
  hh_version :: nat
  hh_target :: bytes
  hh_fields :: "(bytes \<times> bytes) list"

record http_library =
  hl_parse :: "bytes \<Rightarrow> http_header option"
  hl_url :: "bytes \<Rightarrow> bytes option \<Rightarrow> (bytes \<times> bytes \<times> (bytes \<times> bytes) list) res"

definition raw_from_string :: "http_library \<Rightarrow> http_header \<Rightarrow> raw_request res" where
  "raw_from_string H h =
     (if hh_version h \<noteq> 11 then Inl Runtime_error
      else bindE (case find_str ''?'' (hh_target h) of
                    Some i \<Rightarrow> hl_url H (take i (hh_target h)) (Some (drop (i + 1) (hh_target h)))
                  | None \<Rightarrow> hl_url H (hh_target h) None)
             (\<lambda>(path, encoded_path, params).
                Inr \<lparr>rw_method = hh_method h, rw_path = path, rw_encoded_path = encoded_path, rw_params = map_of_pairs params, rw_headers = hh_fields h\<rparr>))"

definition raw_read :: "http_library \<Rightarrow> 'k receive \<Rightarrow> ('k socket_stream, raw_request) proc" where
  "raw_read H recv =
     bindP (ss_read_until recv (CRLF @ CRLF)) (\<lambda>buffer s.
       Some (s, case hl_parse H buffer of None \<Rightarrow> Inl Runtime_error | Some h \<Rightarrow> raw_from_string H h))"

definition raw_optional :: "raw_request \<Rightarrow> bytes \<Rightarrow> bytes option" where
  "raw_optional req name = map_option snd (find (\<lambda>(k, v). equals_nocase k name) (rw_headers req))"

definition raw_require :: "raw_request \<Rightarrow> bytes \<Rightarrow> bytes res" where
  "raw_require req name = (case raw_optional req name of None \<Rightarrow> Inl Runtime_error | Some v \<Rightarrow> Inr v)"

subsection \<open>Requests\<close>

datatype 'k request_body =
    Raw_body "'k raw_body"
  | Raw_sha256 "'k raw_body_sha256"
  | Chunked "('k, unit) chunked_body"
  | Chunked_sha256 "('k, chunk_sha256) chunked_body"
  | Form "'k socket_stream" string_body

record 'k request =
  req_raw :: raw_request
  req_body :: "'k request_body"
  req_user :: user

fun body_stream :: "'k request_body \<Rightarrow> 'k socket_stream" where
  "body_stream (Raw_body b) = rb_stream b"
| "body_stream (Raw_sha256 b) = rb_stream (rs_body b)"
| "body_stream (Chunked b) = cb_stream b"
| "body_stream (Chunked_sha256 b) = cb_stream b"
| "body_stream (Form s b) = s"

record auth_library =
  al_sha256 :: "bytes \<Rightarrow> bytes"
  al_hmac :: "bytes \<Rightarrow> bytes \<Rightarrow> bytes"
  al_crypt :: crypt_library
  al_json :: "bytes \<Rightarrow> json res"
  al_time :: time_library
  al_http :: http_library

definition wrap :: "('a \<Rightarrow> 'b) \<Rightarrow> ('a \<times> 'r) option \<Rightarrow> ('b \<times> 'r) option" where
  "wrap f = map_option (\<lambda>(b, r). (f b, r))"

text \<open>A request has one of the bodies; its operations are those of this body.\<close>

definition request_body_ops :: "auth_library \<Rightarrow> 'k receive \<Rightarrow> 'k request_body body_ops" where
  "request_body_ops A recv =
     (let rs = raw_body_sha256_ops (al_sha256 A) recv; cs = chunked_body_ops (sha256_hooks (al_sha256 A) (al_hmac A)) recv
      in \<lparr>bo_length = (\<lambda>b. case b of Raw_body b \<Rightarrow> bo_length (raw_body_ops recv) b | Raw_sha256 b \<Rightarrow> bo_length rs b
              | Chunked b \<Rightarrow> bo_length (chunked_body_ops no_hooks recv) b | Chunked_sha256 b \<Rightarrow> bo_length cs b | Form s b \<Rightarrow> bo_length string_body_ops b),
          bo_read = (\<lambda>n b. case b of Raw_body b \<Rightarrow> wrap Raw_body (bo_read (raw_body_ops recv) n b) | Raw_sha256 b \<Rightarrow> wrap Raw_sha256 (bo_read rs n b)
              | Chunked b \<Rightarrow> wrap Chunked (bo_read (chunked_body_ops no_hooks recv) n b) | Chunked_sha256 b \<Rightarrow> wrap Chunked_sha256 (bo_read cs n b)
              | Form s b \<Rightarrow> wrap (Form s) (bo_read string_body_ops n b)),
          bo_consume = (\<lambda>b. case b of Raw_body b \<Rightarrow> wrap Raw_body (bo_consume (raw_body_ops recv) b) | Raw_sha256 b \<Rightarrow> wrap Raw_sha256 (bo_consume rs b)
              | Chunked b \<Rightarrow> wrap Chunked (bo_consume (chunked_body_ops no_hooks recv) b) | Chunked_sha256 b \<Rightarrow> wrap Chunked_sha256 (bo_consume cs b)
              | Form s b \<Rightarrow> wrap (Form s) (bo_consume string_body_ops b)),
          bo_buffer_size = (\<lambda>b. case b of Raw_body b \<Rightarrow> bo_buffer_size (raw_body_ops recv) b | Raw_sha256 b \<Rightarrow> bo_buffer_size rs b
              | Chunked b \<Rightarrow> bo_buffer_size (chunked_body_ops no_hooks recv) b | Chunked_sha256 b \<Rightarrow> bo_buffer_size cs b
              | Form s b \<Rightarrow> bo_buffer_size string_body_ops b)\<rparr>)"

definition verb_of :: "bytes \<Rightarrow> verb" where
  "verb_of m = (if m = ''GET'' then GET else if m = ''PUT'' then PUT else if m = ''POST'' then POST else if m = ''DELETE'' then DELETE
     else if m = ''HEAD'' then HEAD else if m = ''OPTIONS'' then OPTIONS else Other_verb)"

text \<open>What the commands see of a request.\<close>

definition command_view :: "'k request \<Rightarrow> s3_request" where
  "command_view req = \<lparr>rq_method = verb_of (rw_method (req_raw req)), rq_path = rw_path (req_raw req),
     rq_params = map_of (rw_params (req_raw req)), rq_fields = rw_headers (req_raw req)\<rparr>"

definition set_query_params :: "http_library \<Rightarrow> bytes \<Rightarrow> 'k request \<Rightarrow> 'k request res" where
  "set_query_params H query req =
     bindE (hl_url H [] (Some query)) (\<lambda>(_, _, params). Inr (req\<lparr>req_raw := (req_raw req)\<lparr>rw_params := map_of_pairs params\<rparr>\<rparr>))"

subsection \<open>Signatures\<close>

record aws4_signature_info =
  si_date :: bytes
  si_region :: bytes
  si_service :: bytes
  si_signed_headers :: "bytes list"
  si_amz_date :: bytes
  si_content_sha :: bytes
  si_query_ignore :: "bytes list"

definition QUERY_IGNORE_URL :: "bytes list" where "QUERY_IGNORE_URL = [''X-Amz-Signature'']"
definition QUERY_IGNORE_HEADER :: "bytes list" where "QUERY_IGNORE_HEADER = []"

text \<open>The text of a form, if the request has one; it has to arrive at once.\<close>

definition read_form_body :: "'k receive \<Rightarrow> raw_request \<Rightarrow> ('k socket_stream, bytes option) proc" where
  "read_form_body recv req s =
     (if \<not> (\<exists>t\<in>set_option (raw_optional req ''content-type''). starts_with t ''application/x-www-form-urlencoded'') then Some (s, Inr None)
      else case raw_body_new s (raw_optional req ''content-length'') of
             Inl x \<Rightarrow> Some (s, Inl x)
           | Inr reader \<Rightarrow>
               (case rb_read recv (rb_length reader) reader of
                  None \<Rightarrow> None
                | Some (b, Inl x) \<Rightarrow> Some (rb_stream b, Inl x)
                | Some (b, Inr data) \<Rightarrow>
                    if length data \<noteq> rb_length reader then Some (rb_stream b, Inl Runtime_error) else Some (rb_stream b, Inr (Some data))))"

definition make_signing_key :: "(bytes \<Rightarrow> bytes \<Rightarrow> bytes) \<Rightarrow> bytes \<Rightarrow> aws4_signature_info \<Rightarrow> bytes" where
  "make_signing_key hmac secret info =
     (let date_key = hmac (''AWS4'' @ secret) (si_date info);
          date_region_key = hmac date_key (si_region info);
          date_region_service_key = hmac date_region_key (si_service info)
      in hmac date_region_service_key ''aws4_request'')"

definition include_header :: "bytes \<Rightarrow> bytes list \<Rightarrow> bool" where
  "include_header name included \<longleftrightarrow> name = ''host'' \<or> name = ''content-md5'' \<or> starts_with name ''x-amz-'' \<or> name \<in> set included"

definition canonical_query :: "raw_request \<Rightarrow> aws4_signature_info \<Rightarrow> bytes list" where
  "canonical_query req info =
     set_of_list (map (\<lambda>(k, v). uri_encode k [] @ ''='' @ uri_encode v []) (filter (\<lambda>(k, v). k \<notin> set (si_query_ignore info)) (rw_params req)))"

definition canonical_headers :: "raw_request \<Rightarrow> aws4_signature_info \<Rightarrow> (bytes \<times> bytes) list" where
  "canonical_headers req info =
     map_of_pairs (map (\<lambda>(k, v). (lowercase k, trim WHITESPACE v))
       (filter (\<lambda>(k, v). include_header (lowercase k) (si_signed_headers info)) (rw_headers req)))"

definition make_canonical_request :: "raw_request \<Rightarrow> aws4_signature_info \<Rightarrow> bytes" where
  "make_canonical_request req info =
     (let hs = canonical_headers req info
      in rw_method req @ newline @ rw_encoded_path req @ newline @ join (canonical_query req info) ''&'' @ newline
         @ concat (map (\<lambda>(k, v). k @ '':'' @ v @ newline) hs) @ newline @ join (map fst hs) '';'' @ newline @ si_content_sha info)"

definition string_to_sign :: "(bytes \<Rightarrow> bytes) \<Rightarrow> raw_request \<Rightarrow> aws4_signature_info \<Rightarrow> bytes" where
  "string_to_sign sha256 req info =
     ''AWS4-HMAC-SHA256'' @ newline @ si_amz_date info @ newline @ si_date info @ ''/'' @ si_region info @ ''/'' @ si_service info @ ''/aws4_request'' @ newline
     @ to_hex (sha256 (make_canonical_request req info))"

definition request_signature :: "(bytes \<Rightarrow> bytes) \<Rightarrow> (bytes \<Rightarrow> bytes \<Rightarrow> bytes) \<Rightarrow> raw_request \<Rightarrow> aws4_signature_info \<Rightarrow> bytes \<Rightarrow> bytes" where
  "request_signature sha256 hmac req info signing_key = to_hex (hmac signing_key (string_to_sign sha256 req info))"

definition make_prelude :: "raw_request \<Rightarrow> aws4_signature_info \<Rightarrow> bytes res" where
  "make_prelude req info =
     bindE (raw_require req ''x-amz-date'') (\<lambda>d.
       Inr (''AWS4-HMAC-SHA256-PAYLOAD'' @ newline @ d @ newline @ si_date info @ ''/'' @ si_region info @ ''/'' @ si_service info @ ''/aws4_request'' @ newline))"

definition make_body :: "'k socket_stream \<Rightarrow> raw_request \<Rightarrow> aws4_signature_info \<Rightarrow> bytes \<Rightarrow> bytes \<Rightarrow> 'k request_body res" where
  "make_body s req info signing_key signature =
     (let signed_chunks = (\<lambda>trailing. bindE (make_prelude req info) (\<lambda>p. Inr (Chunked_sha256 (chunked_body_new s trailing (chunk_sha256_new p signing_key signature)))));
          raw = raw_body_new s (raw_optional req ''content-length'')
      in if si_content_sha info = ''UNSIGNED-PAYLOAD'' then bindE raw (\<lambda>b. Inr (Raw_body b))
         else if si_content_sha info = ''STREAMING-AWS4-HMAC-SHA256-PAYLOAD'' then signed_chunks No_trailer
         else if si_content_sha info = ''STREAMING-UNSIGNED-PAYLOAD-TRAILER'' then Inr (Chunked (chunked_body_new s Read_trailer ()))
         else if si_content_sha info = ''STREAMING-AWS4-HMAC-SHA256-PAYLOAD-TRAILER'' then signed_chunks Read_trailer
         else bindE raw (\<lambda>b. Inr (Raw_sha256 \<lparr>rs_body = b, rs_signature = si_content_sha info, rs_hashed = []\<rparr>)))"

subsection \<open>Signed requests\<close>

text \<open>
  The part of \<open>create\<close> after the user has been found: the signature is computed with the secret of
  the key and compared with the one in the request.
\<close>

definition aws4_verify :: "auth_library \<Rightarrow> raw_request \<Rightarrow> bytes list \<Rightarrow> bytes \<Rightarrow> bytes \<Rightarrow> user \<Rightarrow> bytes option \<Rightarrow> 'k socket_stream \<Rightarrow> 'k request res option" where
  "aws4_verify A req cred signed_headers expected u form s =
     (case raw_require req ''x-amz-date'' of
        Inl x \<Rightarrow> Some (Inl x)
      | Inr amz_date \<Rightarrow>
          (let content_sha = (case form of
                 Some f \<Rightarrow> to_hex (al_sha256 A f)
               | None \<Rightarrow> (case raw_optional req ''x-amz-content-sha256'' of None \<Rightarrow> ''UNSIGNED-PAYLOAD'' | Some v \<Rightarrow> v));
               info = \<lparr>si_date = cred ! 1, si_region = cred ! 2, si_service = cred ! 3, si_signed_headers = set_of_list (split_str signed_headers (CHR '';'')),
                 si_amz_date = amz_date, si_content_sha = content_sha, si_query_ignore = QUERY_IGNORE_HEADER\<rparr>
           in case ur_key u of
                None \<Rightarrow> None
              | Some k \<Rightarrow>
                  (let signing_key = make_signing_key (al_hmac A) (uk_secret k) info;
                       signature = request_signature (al_sha256 A) (al_hmac A) req info signing_key
                   in if signature \<noteq> expected then Some (Inl (Command_exception 403 ''InvalidAccessGrant''))
                      else Some (bindE (case form of Some f \<Rightarrow> Inr (Form s \<lparr>sb_body = f, sb_read = 0\<rparr>) | None \<Rightarrow> make_body s req info signing_key signature)
                             (\<lambda>b. Inr \<lparr>req_raw = req, req_body = b, req_user = u\<rparr>)))))"

definition aws4_create :: "auth_library \<Rightarrow> 'k receive \<Rightarrow> env \<Rightarrow> user_tables \<Rightarrow> raw_request \<Rightarrow> bytes \<Rightarrow> ('k socket_stream, 'k request) proc" where
  "aws4_create A recv e t req auth s =
     (case find_str '' '' auth of
        None \<Rightarrow> Some (s, Inl Runtime_error)
      | Some pos \<Rightarrow>
          (case parse_values_string (drop (pos + 1) auth) (CHR '','') of
             Inl x \<Rightarrow> Some (s, Inl x)
           | Inr parsed \<Rightarrow>
               (case (parsed ''Credential'', parsed ''SignedHeaders'', parsed ''Signature'') of
                  (Some credential, Some signed_headers, Some expected) \<Rightarrow>
                    (let cred = split_str credential (CHR ''/'')
                     in if length cred \<noteq> 5 then Some (s, Inl Runtime_error)
                        else case db_find_by_key (al_json A) (al_time A) e (cred ! 0) t of
                               Inl x \<Rightarrow> Some (s, Inl x)
                             | Inr u \<Rightarrow>
                                 (case read_form_body recv req s of
                                    None \<Rightarrow> None
                                  | Some (s1, Inl x) \<Rightarrow> Some (s1, Inl x)
                                  | Some (s1, Inr form) \<Rightarrow> map_option (\<lambda>r. (s1, r)) (aws4_verify A req cred signed_headers expected u form s1)))
                | _ \<Rightarrow> Some (s, Inl Runtime_error))))"

subsection \<open>Requests with a signature in the URL\<close>

text \<open>Seconds since 1970 of a date in the Gregorian calendar; months and days out of range are carried over.\<close>

definition leap :: "int \<Rightarrow> bool" where
  "leap y \<longleftrightarrow> y mod 4 = 0 \<and> (y mod 100 \<noteq> 0 \<or> y mod 400 = 0)"

definition days_before_year :: "int \<Rightarrow> int" where
  "days_before_year y = 365 * (y - 1970) + (y - 1969) div 4 - (y - 1901) div 100 + (y - 1601) div 400"

definition days_before_month :: "int \<Rightarrow> nat \<Rightarrow> int" where
  "days_before_month y m = [0, 31, 59, 90, 120, 151, 181, 212, 243, 273, 304, 334] ! m + (if leap y \<and> 2 \<le> m then 1 else 0)"

definition timegm :: "int \<Rightarrow> int \<Rightarrow> int \<Rightarrow> int \<Rightarrow> int \<Rightarrow> int \<Rightarrow> int" where
  "timegm tm_year tm_mon tm_mday tm_hour tm_min tm_sec =
     (let y = 1900 + tm_year + tm_mon div 12
      in 86400 * (days_before_year y + days_before_month y (nat (tm_mon mod 12)) + tm_mday - 1) + 3600 * tm_hour + 60 * tm_min + tm_sec)"

definition make_utc_time :: "int \<Rightarrow> int \<Rightarrow> int \<Rightarrow> int \<Rightarrow> int \<Rightarrow> int \<Rightarrow> int" where
  "make_utc_time year month day hour minute second = timegm (year - 1900) (month - 1) day hour minute second"

text \<open>A number of the given length, all of it digits.\<close>

definition date_field :: "bytes \<Rightarrow> nat \<Rightarrow> nat \<Rightarrow> int res" where
  "date_field s start len =
     bindE (stoul 10 (slice start len s)) (\<lambda>(n, pos). if pos \<noteq> len then Inl Runtime_error else Inr (int n))"

definition read_iso8601_date_merged :: "bytes \<Rightarrow> int res" where
  "read_iso8601_date_merged s =
     (if length s \<noteq> 16 \<or> s ! 8 \<noteq> CHR ''T'' \<or> s ! 15 \<noteq> CHR ''Z'' then Inl Runtime_error
      else bindE (date_field s 0 4) (\<lambda>year. bindE (date_field s 4 2) (\<lambda>month. bindE (date_field s 6 2) (\<lambda>day.
           bindE (date_field s 9 2) (\<lambda>hour. bindE (date_field s 11 2) (\<lambda>minute. bindE (date_field s 13 2) (\<lambda>second.
           Inr (make_utc_time year month day hour minute second))))))))"

text \<open>
  Times are counted in nanoseconds in 64 bits with sign; a time that does not fit overflows. The clock is
  in microseconds.
\<close>

definition ns_fits :: "int \<Rightarrow> bool" where
  "ns_fits x \<longleftrightarrow> - (2 ^ 63) \<le> x \<and> x < 2 ^ 63"

definition signed64 :: "nat \<Rightarrow> int" where
  "signed64 n = (if n < 2 ^ 63 then int n else int n - 2 ^ 64)"

definition url_expired :: "env \<Rightarrow> bytes \<Rightarrow> bytes \<Rightarrow> bool res option" where
  "url_expired e amz_date expires =
     (case read_iso8601_date_merged amz_date of
        Inl x \<Rightarrow> Some (Inl x)
      | Inr date \<Rightarrow>
          if \<not> ns_fits (date * 1000000000) then None
          else (case stoull expires of
                  Inl x \<Rightarrow> Some (Inl x)
                | Inr n \<Rightarrow>
                    (let d = signed64 n * 1000000000; end_time = date * 1000000000 + d
                     in if \<not> ns_fits d \<or> \<not> ns_fits end_time then None else Some (Inr (end_time < int (e_now e) * 1000)))))"

text \<open>The index operator of a map inserts an empty value for a missing key.\<close>

definition param_at :: "bytes \<Rightarrow> raw_request \<Rightarrow> raw_request \<times> bytes" where
  "param_at name req =
     (case map_of (rw_params req) name of
        Some v \<Rightarrow> (req, v)
      | None \<Rightarrow> (req\<lparr>rw_params := map_insert name [] (rw_params req)\<rparr>, []))"

definition signature_params :: "bytes list" where
  "signature_params = [''X-Amz-Algorithm'', ''X-Amz-Credential'', ''X-Amz-Date'', ''X-Amz-Expires'', ''X-Amz-Signature'', ''X-Amz-SignedHeaders'']"

definition aws4_verify_url :: "auth_library \<Rightarrow> 'k receive \<Rightarrow> raw_request \<Rightarrow> aws4_signature_info \<Rightarrow> user \<Rightarrow> ('k socket_stream, 'k request) proc" where
  "aws4_verify_url A recv req info u s =
     (case ur_key u of
        None \<Rightarrow> None
      | Some k \<Rightarrow>
          (let signing_key = make_signing_key (al_hmac A) (uk_secret k) info;
               signature = request_signature (al_sha256 A) (al_hmac A) req info signing_key;
               (req1, expected) = param_at ''X-Amz-Signature'' req;
               req2 = req1\<lparr>rw_params := filter (\<lambda>(k, v). k \<notin> set signature_params) (rw_params req1)\<rparr>
           in if signature \<noteq> expected then Some (s, Inl (Command_exception 403 ''SignatureDoesNotMatch''))
              else case read_form_body recv req2 s of
                     None \<Rightarrow> None
                   | Some (s1, Inl x) \<Rightarrow> Some (s1, Inl x)
                   | Some (s1, Inr form) \<Rightarrow>
                       Some (s1, bindE (case form of Some f \<Rightarrow> Inr (Form s1 \<lparr>sb_body = f, sb_read = 0\<rparr>) | None \<Rightarrow> make_body s1 req2 info signing_key signature)
                         (\<lambda>b. Inr \<lparr>req_raw = req2, req_body = b, req_user = u\<rparr>))))"

definition aws4_create_from_url :: "auth_library \<Rightarrow> 'k receive \<Rightarrow> env \<Rightarrow> user_tables \<Rightarrow> raw_request \<Rightarrow> ('k socket_stream, 'k request) proc" where
  "aws4_create_from_url A recv e t req s =
     (let (req1, credential) = param_at ''X-Amz-Credential'' req;
          cred = split_str credential (CHR ''/'');
          (req2, signed_headers) = param_at ''X-Amz-SignedHeaders'' req1;
          (req3, amz_date) = param_at ''X-Amz-Date'' req2;
          (req4, expires) = param_at ''X-Amz-Expires'' req3
      in if length cred \<noteq> 5 then Some (s, Inl Runtime_error)
         else case url_expired e amz_date expires of
                None \<Rightarrow> None
              | Some (Inl x) \<Rightarrow> Some (s, Inl x)
              | Some (Inr expired) \<Rightarrow>
                  if expired then Some (s, Inl (Command_exception 400 ''ExpiredToken''))
                  else case db_find_by_key (al_json A) (al_time A) e (cred ! 0) t of
                         Inl x \<Rightarrow> Some (s, Inl x)
                       | Inr u \<Rightarrow>
                           aws4_verify_url A recv req4
                             \<lparr>si_date = cred ! 1, si_region = cred ! 2, si_service = cred ! 3, si_signed_headers = set_of_list (split_str signed_headers (CHR '';'')),
                              si_amz_date = amz_date, si_content_sha = ''UNSIGNED-PAYLOAD'', si_query_ignore = QUERY_IGNORE_URL\<rparr> u s)"

subsection \<open>Other requests\<close>

definition plain_body :: "'k socket_stream \<Rightarrow> raw_request \<Rightarrow> 'k request_body res" where
  "plain_body s req =
     (if raw_optional req ''Transfer-Encoding'' = Some ''chunked'' then Inr (Chunked (chunked_body_new s No_trailer ()))
      else bindE (raw_body_new s (raw_optional req ''content-length'')) (\<lambda>b. Inr (Raw_body b)))"

definition basic_auth_create :: "auth_library \<Rightarrow> user_tables \<Rightarrow> raw_request \<Rightarrow> ('k socket_stream, 'k request) proc" where
  "basic_auth_create A t req s =
     (case raw_require req ''authorization'' of
        Inl x \<Rightarrow> Some (s, Inl x)
      | Inr header \<Rightarrow>
          (case find_str '' '' header of
             None \<Rightarrow> Some (s, Inl Runtime_error)
           | Some pos \<Rightarrow>
               (case split_str (cl_base64_decode (al_crypt A) (drop (pos + 1) header)) (CHR '':'') of
                  [name, password] \<Rightarrow>
                    (case db_find_and_check (al_crypt A) (al_json A) (al_time A) name password t of
                       None \<Rightarrow> None
                     | Some (Inl x) \<Rightarrow> Some (s, Inl x)
                     | Some (Inr u) \<Rightarrow> Some (s, bindE (plain_body s req) (\<lambda>b. Inr \<lparr>req_raw = req, req_body = b, req_user = u\<rparr>)))
                | _ \<Rightarrow> Some (s, Inl Runtime_error))))"

definition no_auth_create :: "raw_request \<Rightarrow> ('k socket_stream, 'k request) proc" where
  "no_auth_create req s = Some (s, bindE (plain_body s req) (\<lambda>b. Inr \<lparr>req_raw = req, req_body = b, req_user = anonymous_user\<rparr>))"

definition request_factory_create :: "auth_library \<Rightarrow> 'k receive \<Rightarrow> env \<Rightarrow> user_tables \<Rightarrow> ('k socket_stream, 'k request) proc" where
  "request_factory_create A recv e t =
     bindP ss_consume (\<lambda>_. bindP (raw_read (al_http A) recv) (\<lambda>req s.
       case raw_optional req ''Authorization'' of
         Some auth \<Rightarrow>
           if starts_with auth ''AWS4-HMAC-SHA256 '' then aws4_create A recv e t req auth s
           else if starts_with auth ''Basic '' then basic_auth_create A t req s
           else if map_of (rw_params req) ''X-Amz-Algorithm'' \<noteq> None then aws4_create_from_url A recv e t req s
           else no_auth_create req s
       | None \<Rightarrow>
           if map_of (rw_params req) ''X-Amz-Algorithm'' \<noteq> None then aws4_create_from_url A recv e t req s
           else no_auth_create req s))"

subsection \<open>What a signature covers\<close>

text \<open>What the HTTP parser guarantees: no line breaks, and no colon in the name of a field.\<close>

definition raw_wf :: "raw_request \<Rightarrow> bool" where
  "raw_wf req \<longleftrightarrow> CHR 0x0A \<notin> set (rw_method req) \<and> CHR 0x0A \<notin> set (rw_encoded_path req)
     \<and> (\<forall>(k, v)\<in>set (rw_headers req). CHR '':'' \<notin> set k \<and> CHR 0x0A \<notin> set k \<and> CHR 0x0A \<notin> set v)"

text \<open>The parts of the credential contain no slash, because it was split there.\<close>

definition info_wf :: "aws4_signature_info \<Rightarrow> bool" where
  "info_wf info \<longleftrightarrow> CHR 0x0A \<notin> set (si_amz_date info) \<and> CHR ''/'' \<notin> set (si_date info) \<and> CHR ''/'' \<notin> set (si_region info) \<and> CHR ''/'' \<notin> set (si_service info)"

lemma first_sep:
  assumes "c \<notin> set a" and "c \<notin> set b"
  shows "a @ c # x = b @ c # y \<longleftrightarrow> a = b \<and> x = y"
  using assms
proof (induction a arbitrary: b)
  case Nil
  then show ?case by (cases b) auto
next
  case (Cons d a)
  then show ?case by (cases b) auto
qed

definition header_lines :: "(bytes \<times> bytes) list \<Rightarrow> bytes" where
  "header_lines hs = concat (map (\<lambda>(k, v). k @ '':'' @ v @ newline) hs)"

lemma header_lines_inj:
  assumes "\<forall>(k, v)\<in>set hs. CHR '':'' \<notin> set k \<and> CHR 0x0A \<notin> set k \<and> CHR 0x0A \<notin> set v" and "\<forall>(k, v)\<in>set hs'. CHR '':'' \<notin> set k \<and> CHR 0x0A \<notin> set k \<and> CHR 0x0A \<notin> set v"
    and "header_lines hs @ newline @ x = header_lines hs' @ newline @ y"
  shows "hs = hs' \<and> x = y"
  using assms
proof (induction hs arbitrary: hs')
  case Nil
  show ?case
  proof (cases hs')
    case (Cons p ps)
    obtain k v where p: "p = (k, v)" by fastforce
    then show ?thesis using Nil Cons by (cases k) (auto simp: header_lines_def newline_def)
  qed (use Nil in \<open>simp add: header_lines_def newline_def\<close>)
next
  case (Cons p hs)
  obtain k v where p: "p = (k, v)" by fastforce
  show ?case
  proof (cases hs')
    case Nil
    then show ?thesis using Cons.prems p by (cases k) (auto simp: header_lines_def newline_def)
  next
    case c: (Cons q qs)
    obtain j w where q: "q = (j, w)" by fastforce
    have "k @ CHR '':'' # (v @ CHR 0x0A # (header_lines hs @ newline @ x)) = j @ CHR '':'' # (w @ CHR 0x0A # (header_lines qs @ newline @ y))"
      using Cons.prems(3) by (simp add: c p q header_lines_def newline_def)
    then have "k = j \<and> v @ CHR 0x0A # (header_lines hs @ newline @ x) = w @ CHR 0x0A # (header_lines qs @ newline @ y)"
      using Cons.prems(1,2) c p q by (subst (asm) first_sep) auto
    then have "k = j" "v = w" "header_lines hs @ newline @ x = header_lines qs @ newline @ y"
      using Cons.prems(1,2) c p q first_sep [of "CHR 0x0A" v w] by auto
    then show ?thesis using Cons.IH [of qs] Cons.prems(1,2) c p q by auto
  qed
qed

lemma tolower_other: "tolower d = t \<Longrightarrow> of_char t < (97::nat) \<Longrightarrow> d = t"
proof (cases "CHR ''A'' \<le> d \<and> d \<le> CHR ''Z''")
  case True
  then have n: "(65::nat) \<le> of_char d" "of_char d \<le> (90::nat)" by (simp_all add: less_eq_char_def)
  then have "of_char (tolower d) = of_char d + (32::nat)" using True by (simp add: tolower_def)
  then show "tolower d = t \<Longrightarrow> of_char t < (97::nat) \<Longrightarrow> d = t" using n(1) by auto
qed (auto simp: tolower_def)

lemma lowercase_keeps:
  assumes "c \<in> set (lowercase s)" and "c = CHR '':'' \<or> c = CHR 0x0A"
  shows "c \<in> set s"
proof -
  obtain d where d: "d \<in> set s" "tolower d = c" using assms(1) by (auto simp: lowercase_def)
  have "of_char c < (97::nat)" using assms(2) by auto
  then show ?thesis using tolower_other [OF d(2)] d(1) by simp
qed

lemma set_trim: "set (trim chars s) \<subseteq> set s"
  unfolding trim_def ltrim_def rtrim_def by (auto dest!: set_dropWhileD)

lemma set_map_of_pairs: "set (map_of_pairs ps) \<subseteq> set ps"
proof -
  have "set (map_insert k v m) \<subseteq> insert (k, v) (set m)" for k v and m :: "('a \<times> 'b) list"
    by (induction k v m rule: map_insert.induct) auto
  then have "set (foldl (\<lambda>m p. map_insert (fst p) (snd p) m) m ps) \<subseteq> set m \<union> set ps" for m
    by (induction ps arbitrary: m) (simp, fastforce)
  from this [of "[]"] show ?thesis by (simp add: map_of_pairs_def)
qed

lemma canonical_headers_wf:
  assumes "raw_wf req"
  shows "\<forall>(k, v)\<in>set (canonical_headers req info). CHR '':'' \<notin> set k \<and> CHR 0x0A \<notin> set k \<and> CHR 0x0A \<notin> set v"
proof clarify
  fix k v assume "(k, v) \<in> set (canonical_headers req info)"
  then obtain k0 v0 where h: "(k0, v0) \<in> set (rw_headers req)" "k = lowercase k0" "v = trim WHITESPACE v0"
    using set_map_of_pairs unfolding canonical_headers_def by fastforce
  then have "CHR '':'' \<notin> set k0 \<and> CHR 0x0A \<notin> set k0 \<and> CHR 0x0A \<notin> set v0" using assms by (auto simp: raw_wf_def)
  then show "CHR '':'' \<notin> set k \<and> CHR 0x0A \<notin> set k \<and> CHR 0x0A \<notin> set v" using lowercase_keeps set_trim unfolding h(2,3) by blast
qed

lemma uri_encode_chars_free:
  "c \<in> set (uri_encode x []) \<Longrightarrow> c \<noteq> CHR ''='' \<and> c \<noteq> CHR ''&'' \<and> c \<noteq> CHR 0x0A"
proof -
  have "\<not> unreserved (CHR ''='')" "\<not> unreserved (CHR ''&'')" "\<not> unreserved (CHR 0x0A)" by code_simp+
  then show "c \<in> set (uri_encode x []) \<Longrightarrow> c \<noteq> CHR ''='' \<and> c \<noteq> CHR ''&'' \<and> c \<noteq> CHR 0x0A"
    using uri_encode_canonical [of x] by (auto simp: list_all_iff)
qed

text \<open>The parameters that the signature covers.\<close>

definition covered_params :: "raw_request \<Rightarrow> aws4_signature_info \<Rightarrow> (bytes \<times> bytes) set" where
  "covered_params req info = {(k, v). (k, v) \<in> set (rw_params req) \<and> k \<notin> set (si_query_ignore info)}"

lemma canonical_query_set:
  "set (canonical_query req info) = (\<lambda>(k, v). uri_encode k [] @ CHR ''='' # uri_encode v []) ` covered_params req info"
  by (force simp: canonical_query_def set_of_list_def covered_params_def)

lemma query_pair_inj: "inj (\<lambda>(k, v). uri_encode k [] @ CHR ''='' # uri_encode v [])"
proof (rule injI, clarify)
  fix a b c d
  assume "uri_encode a [] @ CHR ''='' # uri_encode b [] = uri_encode c [] @ CHR ''='' # uri_encode d []"
  then have "uri_encode a [] = uri_encode c [] \<and> uri_encode b [] = uri_encode d []"
    using uri_encode_chars_free by (subst (asm) first_sep) blast+
  then show "a = c \<and> b = d" using uri_encode_canonical by blast
qed

lemma canonical_query_inj:
  assumes "join (canonical_query req info) ''&'' = join (canonical_query req' info') ''&''"
  shows "covered_params req info = covered_params req' info'"
proof -
  have free: "\<forall>x\<in>set (canonical_query req info). CHR ''&'' \<notin> set x \<and> x \<noteq> []" for req info
    using uri_encode_chars_free unfolding canonical_query_set by fastforce
  have empty: "join xs ''&'' = [] \<longleftrightarrow> xs = []" if "\<forall>x\<in>set xs. x \<noteq> []" for xs using that by (cases xs) auto
  have "canonical_query req info = canonical_query req' info'"
  proof (cases "canonical_query req info = []")
    case True
    then show ?thesis using assms empty [of "canonical_query req' info'"] free by auto
  next
    case False
    then have n: "join (canonical_query req info) ''&'' \<noteq> []" using empty free by auto
    have a: "split_str (join (canonical_query req info) ''&'') (CHR ''&'') = canonical_query req info"
      by (rule split_join_inverse(2) [OF _ n]) (use free in blast)
    have b: "split_str (join (canonical_query req' info') ''&'') (CHR ''&'') = canonical_query req' info'"
      by (rule split_join_inverse(2) [OF _ n [unfolded assms]]) (use free in blast)
    show ?thesis by (rule trans [OF a [symmetric] trans [OF arg_cong [OF assms, of "\<lambda>x. split_str x (CHR ''&'')"] b]])
  qed
  then have "(\<lambda>(k, v). uri_encode k [] @ CHR ''='' # uri_encode v []) ` covered_params req info =
      (\<lambda>(k, v). uri_encode k [] @ CHR ''='' # uri_encode v []) ` covered_params req' info'"
    using canonical_query_set [of req info] canonical_query_set [of req' info'] by simp
  then show ?thesis using inj_image_eq_iff [OF query_pair_inj] by blast
qed

lemma join_query_no_newline: "CHR 0x0A \<notin> set (join (canonical_query req info) ''&'')"
proof -
  have "\<forall>x\<in>set (canonical_query req info). CHR 0x0A \<notin> set x" using uri_encode_chars_free unfolding canonical_query_set by fastforce
  then show ?thesis by (cases "canonical_query req info") auto
qed

lemma canonical_request_inj:
  assumes "make_canonical_request req info = make_canonical_request req' info'" and "raw_wf req" and "raw_wf req'"
  shows "rw_method req = rw_method req' \<and> rw_encoded_path req = rw_encoded_path req' \<and> covered_params req info = covered_params req' info'
    \<and> canonical_headers req info = canonical_headers req' info' \<and> si_content_sha info = si_content_sha info'"
proof -
  let ?q = "\<lambda>req info. join (canonical_query req info) ''&''" and ?h = canonical_headers
  let ?t = "\<lambda>req info. header_lines (?h req info) @ newline @ join (map fst (?h req info)) '';'' @ newline @ si_content_sha info"
  have "rw_method req @ CHR 0x0A # (rw_encoded_path req @ CHR 0x0A # (?q req info @ CHR 0x0A # ?t req info)) =
      rw_method req' @ CHR 0x0A # (rw_encoded_path req' @ CHR 0x0A # (?q req' info' @ CHR 0x0A # ?t req' info'))"
    using assms(1) by (simp add: make_canonical_request_def header_lines_def newline_def Let_def)
  then have m: "rw_method req = rw_method req'"
    and 1: "rw_encoded_path req @ CHR 0x0A # (?q req info @ CHR 0x0A # ?t req info) = rw_encoded_path req' @ CHR 0x0A # (?q req' info' @ CHR 0x0A # ?t req' info')"
    using assms(2,3) first_sep [of "CHR 0x0A" "rw_method req" "rw_method req'"] by (auto simp: raw_wf_def)
  then have p: "rw_encoded_path req = rw_encoded_path req'" and 2: "?q req info @ CHR 0x0A # ?t req info = ?q req' info' @ CHR 0x0A # ?t req' info'"
    using assms(2,3) first_sep [of "CHR 0x0A" "rw_encoded_path req" "rw_encoded_path req'"] by (auto simp: raw_wf_def)
  then have q: "?q req info = ?q req' info'" and 3: "?t req info = ?t req' info'"
    using first_sep [OF join_query_no_newline join_query_no_newline] by blast+
  have h: "?h req info = ?h req' info' \<and> join (map fst (?h req info)) '';'' @ newline @ si_content_sha info = join (map fst (?h req' info')) '';'' @ newline @ si_content_sha info'"
    by (rule header_lines_inj [OF canonical_headers_wf [OF assms(2)] canonical_headers_wf [OF assms(3)] 3])
  then have "si_content_sha info = si_content_sha info'" by (metis same_append_eq)
  then show ?thesis using m p canonical_query_inj [OF q] h by simp
qed


definition sample_raw :: "(bytes \<times> bytes) list \<Rightarrow> raw_request" where
  "sample_raw fs = \<lparr>rw_method = ''GET'', rw_path = ''/b/k'', rw_encoded_path = ''/b/k'', rw_params = [(''a'', ''1'')], rw_headers = (''Host'', ''h'') # (''x-amz-date'', ''d'') # fs\<rparr>"

definition sample_info :: aws4_signature_info where
  "sample_info = \<lparr>si_date = ''d'', si_region = ''r'', si_service = ''s3'', si_signed_headers = [''host''], si_amz_date = ''d'', si_content_sha = ''UNSIGNED-PAYLOAD'', si_query_ignore = []\<rparr>"

lemma sample_canonical: "canonical_headers (sample_raw [(''Range'', ''bytes=0-1'')]) sample_info = canonical_headers (sample_raw []) sample_info"
  by code_simp


text \<open>
  A field that occurs twice is signed with its last value, but the commands see the first one: putting
  another value in front of a signed field does not change the signature.
\<close>

lemma duplicate_field_not_signed:
  fixes v' :: bytes
  assumes "rw_headers req = (''x-amz-copy-source'', v) # hs"
  defines "req' \<equiv> req\<lparr>rw_headers := (''x-amz-copy-source'', v') # (''x-amz-copy-source'', v) # hs\<rparr>"
  shows "request_signature sha256 hmac req' info key = request_signature sha256 hmac req info key" and "raw_optional req' ''x-amz-copy-source'' = Some v'"
proof -
  have l: "lowercase ''x-amz-copy-source'' = ''x-amz-copy-source''" "equals_nocase ''x-amz-copy-source'' ''x-amz-copy-source''" by code_simp+
  have i: "include_header ''x-amz-copy-source'' included" for included by (simp add: include_header_def starts_with_def)
  have "canonical_headers req' info = canonical_headers req info" using assms(1) l(1) i by (simp add: canonical_headers_def req'_def map_of_pairs_def)
  then have "make_canonical_request req' info = make_canonical_request req info" by (simp add: make_canonical_request_def canonical_query_def req'_def)
  then show "request_signature sha256 hmac req' info key = request_signature sha256 hmac req info key"
    by (simp add: request_signature_def string_to_sign_def)
  show "raw_optional req' ''x-amz-copy-source'' = Some v'" using l(2) by (simp add: raw_optional_def req'_def)
qed

subsection \<open>Who a request comes from\<close>

definition signed_with_key :: "auth_library \<Rightarrow> env \<Rightarrow> user_tables \<Rightarrow> user \<Rightarrow> raw_request \<Rightarrow> bytes \<Rightarrow> bool" where
  "signed_with_key A e t u req signature \<longleftrightarrow> (\<exists>k\<in>set (ut_keys t). \<exists>info. k_user k = ur_name u \<and> unexpired e k
     \<and> signature = request_signature (al_sha256 A) (al_hmac A) req info (make_signing_key (al_hmac A) (k_secret k) info))"

definition header_signature :: "raw_request \<Rightarrow> bytes option" where
  "header_signature req =
     (case raw_optional req ''Authorization'' of
        None \<Rightarrow> None
      | Some auth \<Rightarrow>
          (case find_str '' '' auth of
             None \<Rightarrow> None
           | Some pos \<Rightarrow> (case parse_values_string (drop (pos + 1) auth) (CHR '','') of Inl _ \<Rightarrow> None | Inr parsed \<Rightarrow> parsed ''Signature'')))"

text \<open>The request with the parameters that the look-up has added.\<close>

definition url_request :: "raw_request \<Rightarrow> raw_request" where
  "url_request req = fold (\<lambda>name r. fst (param_at name r)) [''X-Amz-Credential'', ''X-Amz-SignedHeaders'', ''X-Amz-Date'', ''X-Amz-Expires''] req"

lemma aws4_create_signed:
  assumes "aws4_create A recv e t req auth s = Some (s', Inr r)" and "raw_optional req ''Authorization'' = Some auth"
  shows "req_raw r = req \<and> (\<exists>signature. header_signature req = Some signature \<and> signed_with_key A e t (req_user r) req signature)"
proof -
  obtain pos parsed credential signed_headers expected cred u s1 form where c: "find_str '' '' auth = Some pos"
    "parse_values_string (drop (pos + 1) auth) (CHR '','') = Inr parsed" "parsed ''Signature'' = Some expected"
    "db_find_by_key (al_json A) (al_time A) e (cred ! 0) t = Inr u" "aws4_verify A req cred signed_headers expected u form s1 = Some (Inr r)"
    using assms(1) by (auto simp: aws4_create_def Let_def split: option.splits sum.splits prod.splits if_splits)
  obtain k uk where k: "k \<in> set (ut_keys t)" "k_user k = ur_name u" "unexpired e k" "ur_key u = Some uk" "uk_secret uk = k_secret k"
    using find_by_key_sound [OF c(4)] by blast
  have "req_raw r = req \<and> req_user r = u \<and> (\<exists>info. expected = request_signature (al_sha256 A) (al_hmac A) req info (make_signing_key (al_hmac A) (k_secret k) info))"
    using c(5) k(4,5) by (auto simp: aws4_verify_def Let_def bindE_def split: sum.splits if_splits)
  then show ?thesis using c(1-3) k(1-3) assms(2) by (auto simp: signed_with_key_def header_signature_def)
qed

lemma aws4_create_from_url_signed:
  assumes "aws4_create_from_url A recv e t req s = Some (s', Inr r)"
  shows "signed_with_key A e t (req_user r) (url_request req) (snd (param_at ''X-Amz-Signature'' (url_request req)))"
proof -
  obtain cred info u where c: "db_find_by_key (al_json A) (al_time A) e cred t = Inr u" "aws4_verify_url A recv (url_request req) info u s = Some (s', Inr r)"
    using assms by (auto simp: aws4_create_from_url_def Let_def url_request_def split: option.splits sum.splits prod.splits if_splits)
  obtain k uk where k: "k \<in> set (ut_keys t)" "k_user k = ur_name u" "unexpired e k" "ur_key u = Some uk" "uk_secret uk = k_secret k"
    using find_by_key_sound [OF c(1)] by blast
  have "req_user r = u \<and> snd (param_at ''X-Amz-Signature'' (url_request req)) =
      request_signature (al_sha256 A) (al_hmac A) (url_request req) info (make_signing_key (al_hmac A) (k_secret k) info)"
    using c(2) k(4,5) by (auto simp: aws4_verify_url_def Let_def bindE_def split: sum.splits if_splits prod.splits option.splits)
  then show ?thesis using k(1-3) by (auto simp: signed_with_key_def)
qed


definition sample_keys :: user_tables where
  "sample_keys = fst (db_add_key (sample_env 0) ''ann'' ''AK'' ''secret'' None (Some 1) sample_users)"

definition sample_auth :: bytes where
  "sample_auth = ''AWS4-HMAC-SHA256 Credential=AK/d/r/s3/aws4_request,SignedHeaders=host,Signature=73''"

definition sample_library :: auth_library where
  "sample_library = \<lparr>al_sha256 = \<lambda>_. [], al_hmac = \<lambda>_ _. ''s'', al_crypt = sample_crypt, al_json = \<lambda>_. Inl Runtime_error, al_time = no_time,
     al_http = \<lparr>hl_parse = \<lambda>_. Some \<lparr>hh_method = ''GET'', hh_version = 11, hh_target = ''/b/k'',
         hh_fields = [(''Authorization'', sample_auth), (''x-amz-date'', ''d'')]\<rparr>, hl_url = \<lambda>p q. Inr (p, p, [])\<rparr>\<rparr>"

definition sample_signed :: raw_request where
  "sample_signed = \<lparr>rw_method = ''GET'', rw_path = ''/b/k'', rw_encoded_path = ''/b/k'', rw_params = [], rw_headers = [(''Authorization'', sample_auth), (''x-amz-date'', ''d'')]\<rparr>"

lemma sample_fields:
  "raw_optional sample_signed ''Authorization'' = Some sample_auth" "raw_optional sample_signed ''x-amz-date'' = Some ''d''"
  "raw_optional sample_signed ''content-type'' = None" "raw_optional sample_signed ''x-amz-content-sha256'' = None" "raw_optional sample_signed ''content-length'' = None"
proof -
  have "equals_nocase ''Authorization'' ''Authorization''" "\<not> equals_nocase ''Authorization'' ''x-amz-date''" "equals_nocase ''x-amz-date'' ''x-amz-date''"
    "\<not> equals_nocase ''Authorization'' ''content-type''" "\<not> equals_nocase ''x-amz-date'' ''content-type''" "\<not> equals_nocase ''Authorization'' ''x-amz-content-sha256''"
    "\<not> equals_nocase ''x-amz-date'' ''x-amz-content-sha256''" "\<not> equals_nocase ''Authorization'' ''content-length''" "\<not> equals_nocase ''x-amz-date'' ''content-length''"
    by code_simp+
  then show "raw_optional sample_signed ''Authorization'' = Some sample_auth" "raw_optional sample_signed ''x-amz-date'' = Some ''d''"
    "raw_optional sample_signed ''content-type'' = None" "raw_optional sample_signed ''x-amz-content-sha256'' = None" "raw_optional sample_signed ''content-length'' = None"
    by (simp_all add: raw_optional_def sample_signed_def)
qed

lemma sample_auth_parsed:
  "find_str '' '' sample_auth = Some 16" "starts_with sample_auth ''AWS4-HMAC-SHA256 ''"
  "\<exists>parsed. parse_values_string (drop 17 sample_auth) (CHR '','') = Inr parsed \<and> parsed ''Credential'' = Some ''AK/d/r/s3/aws4_request''
     \<and> parsed ''SignedHeaders'' = Some ''host'' \<and> parsed ''Signature'' = Some ''73''"
  "split_str ''AK/d/r/s3/aws4_request'' (CHR ''/'') = [''AK'', ''d'', ''r'', ''s3'', ''aws4_request'']"
  by (simp_all add: sample_auth_def starts_with_def parse_values_string_def split_str_def bindE_def trim_def ltrim_def rtrim_def WHITESPACE_def)

lemma sample_read: "\<exists>s1 s2. ss_consume (ss_new (CRLF @ CRLF) 16) = Some (s1, Inr ()) \<and> raw_read (al_http sample_library) flat_recv s1 = Some (s2, Inr sample_signed)"
proof -
  have ok: "ss_ok (ss_new (CRLF @ CRLF) 16)" by (simp add: ss_ok_def ss_new_def)
  obtain s1 where s1: "ss_consume (ss_new (CRLF @ CRLF) 16) = Some (s1, Inr ())" "ss_ok s1" "ss_get s1 = 0"
    "ss_rest (\<lambda>k. k) s1 = ss_rest (\<lambda>k. k) (ss_new (CRLF @ CRLF) 16)" "length (ss_buffer s1) = 16"
    using flat_socket.ss_consume_ok [OF ok] by (auto simp: ss_new_def)
  have "find_str (CRLF @ CRLF) (ss_rest (\<lambda>k. k) s1) = Some 0"
    using s1(4) by (simp add: ss_rest_def ss_buffered_def ss_new_def slice_def CRLF_def)
  from flat_socket.ss_read_until_ok [OF s1(2) _ this] obtain s2 x where "ss_read_until flat_recv (CRLF @ CRLF) s1 = Some (s2, Inr x)"
    using s1(3,5) by auto
  moreover have "find_str ''?'' ''/b/k'' = None" by simp
  ultimately show ?thesis using s1(1)
    by (auto simp: raw_read_def bindP_def sample_library_def raw_from_string_def bindE_def sample_signed_def map_of_pairs_def)
qed

lemma sample_found: "\<exists>u uk. db_find_by_key (al_json sample_library) (al_time sample_library) (sample_env 0) ''AK'' sample_keys = Inr u \<and> ur_name u = ''ann'' \<and> ur_key u = Some uk"
  by (simp add: sample_keys_def db_add_key_def vrm_add_user_key_def user_exists_def sample_users_def db_add_user_def vrm_add_user_def ut_new_def Let_def
      sample_env_def TIMESTAMP_END_def db_find_by_key_def vrm_query_key_def unexpired_def vrm_get_user_policy_def)

lemma sample_accepted:
  "\<exists>s' r. request_factory_create sample_library flat_recv (sample_env 0) sample_keys (ss_new (CRLF @ CRLF) 16) = Some (s', Inr r) \<and> ur_name (req_user r) = ''ann''"
proof -
  obtain s1 s2 where s: "ss_consume (ss_new (CRLF @ CRLF) 16) = Some (s1, Inr ())" "raw_read (al_http sample_library) flat_recv s1 = Some (s2, Inr sample_signed)"
    using sample_read by blast
  obtain u uk where u: "db_find_by_key (al_json sample_library) (al_time sample_library) (sample_env 0) ''AK'' sample_keys = Inr u" "ur_name u = ''ann''" "ur_key u = Some uk"
    using sample_found by blast
  obtain parsed where p: "parse_values_string (drop 17 sample_auth) (CHR '','') = Inr parsed" "parsed ''Credential'' = Some ''AK/d/r/s3/aws4_request''"
    "parsed ''SignedHeaders'' = Some ''host''" "parsed ''Signature'' = Some ''73''" using sample_auth_parsed(3) by blast
  have "to_hex ''s'' = ''73''" by code_simp
  then have "request_signature (al_sha256 sample_library) (al_hmac sample_library) req info key = ''73''" for req info key
    by (simp add: request_signature_def sample_library_def)
  moreover have "read_form_body flat_recv sample_signed s2 = Some (s2, Inr None)" by (simp add: read_form_body_def sample_fields)
  ultimately have "\<exists>b. aws4_create sample_library flat_recv (sample_env 0) sample_keys sample_signed sample_auth s2 =
      Some (s2, Inr \<lparr>req_raw = sample_signed, req_body = b, req_user = u\<rparr>)"
    using u p by (simp add: aws4_create_def sample_auth_parsed aws4_verify_def raw_require_def sample_fields Let_def make_body_def raw_body_new_def get_length_def bindE_def)
  then show ?thesis using s u(2) by (auto simp: request_factory_create_def bindP_def sample_fields sample_auth_parsed)
qed


end
