(* ===== verification/Vrm_Commands.thy ===== *)
theory Vrm_Commands
  imports Vrm_Reply Vrm_Listing Vrm_Multipart Vrm_Auth
begin

text \<open>
  The commands of the entrypoint: which command a request is for (\<open>can_handle\<close> in
  \<open>entrypoint/commands\<close>, \<open>command_factory.cpp\<close>), the names under which policies know the commands
  (\<open>action_id\<close>), and the commands on buckets and on the node (\<open>commands/s3/*_bucket*.cpp\<close>,
  \<open>delete_objects.cpp\<close>, \<open>commands/vrm\<close>). The other commands are in the theories of what they change.
  Messages for the debug log are not modelled.
\<close>

subsection \<open>Routing\<close>

datatype command =
    Cmd_get_object | Cmd_put_object | Cmd_multipart | Cmd_init_multipart | Cmd_complete_multipart | Cmd_list_object_versions | Cmd_list_objects_v2 |
    Cmd_list_objects | Cmd_list_buckets | Cmd_head_object | Cmd_head_bucket | Cmd_create_bucket | Cmd_copy_object | Cmd_list_multipart |
    Cmd_get_metrics | Cmd_delete_object | Cmd_delete_objects | Cmd_delete_bucket | Cmd_abort_multipart | Cmd_get_bucket_policy |
    Cmd_put_bucket_policy | Cmd_delete_bucket_policy | Cmd_get_ready | Cmd_get_bucket_cors | Cmd_delete_bucket_cors | Cmd_put_bucket_cors |
    Cmd_get_bucket_versioning | Cmd_put_bucket_versioning | Cmd_create_user | Cmd_delete_user | Cmd_create_access_key | Cmd_delete_access_key |
    Cmd_put_user_policy | Cmd_list_user_policies | Cmd_get_user_policy | Cmd_delete_user_policy

fun action_id :: "command \<Rightarrow> bytes" where
  "action_id Cmd_get_object = ''s3:GetObject''"
| "action_id Cmd_put_object = ''s3:PutObject''"
| "action_id Cmd_multipart = ''s3:UploadPart''"
| "action_id Cmd_init_multipart = ''s3:CreateMultipartUpload''"
| "action_id Cmd_complete_multipart = ''s3:CompleteMultipartUpload''"
| "action_id Cmd_list_object_versions = ''s3:ListBucketVersions''"
| "action_id Cmd_list_objects_v2 = ''s3:ListObjectsV2''"
| "action_id Cmd_list_objects = ''s3:ListObjects''"
| "action_id Cmd_list_buckets = ''s3:ListBuckets''"
| "action_id Cmd_head_object = ''s3:HeadObject''"
| "action_id Cmd_head_bucket = ''s3:HeadBucket''"
| "action_id Cmd_create_bucket = ''s3:CreateBucket''"
| "action_id Cmd_copy_object = ''s3:CopyObject''"
| "action_id Cmd_list_multipart = ''s3:ListMultipartUploads''"
| "action_id Cmd_get_metrics = ''vrm:GetMetrics''"
| "action_id Cmd_delete_object = ''s3:DeleteObject''"
| "action_id Cmd_delete_objects = ''s3:DeleteObjects''"
| "action_id Cmd_delete_bucket = ''s3:DeleteBucket''"
| "action_id Cmd_abort_multipart = ''s3:AbortMultipartUpload''"
| "action_id Cmd_get_bucket_policy = ''s3:GetBucketPolicy''"
| "action_id Cmd_put_bucket_policy = ''s3:PutBucketPolicy''"
| "action_id Cmd_delete_bucket_policy = ''s3:DeleteBucketPolicy''"
| "action_id Cmd_get_ready = ''vrm:GetReady''"
| "action_id Cmd_get_bucket_cors = ''s3:GetBucketCORS''"
| "action_id Cmd_delete_bucket_cors = ''s3:DeleteBucketCORS''"
| "action_id Cmd_put_bucket_cors = ''s3:PutBucketCORS''"
| "action_id Cmd_get_bucket_versioning = ''s3:GetBucketVersioning''"
| "action_id Cmd_put_bucket_versioning = ''s3:PutBucketVersioning''"
| "action_id Cmd_create_user = ''iam:CreateUser''"
| "action_id Cmd_delete_user = ''iam:DeleteUser''"
| "action_id Cmd_create_access_key = ''iam::CreateAccessKey''"
| "action_id Cmd_delete_access_key = ''iam::DeleteAccessKey''"
| "action_id Cmd_put_user_policy = ''iam::PutUserPolicy''"
| "action_id Cmd_list_user_policies = ''iam::ListUserPolicies''"
| "action_id Cmd_get_user_policy = ''iam::GetUserPolicy''"
| "action_id Cmd_delete_user_policy = ''iam::DeleteUserPolicy''"

definition has_query :: "s3_request \<Rightarrow> bytes \<Rightarrow> bool" where
  "has_query rq name \<longleftrightarrow> rq_params rq name \<noteq> None"

definition bucket_request :: "s3_request \<Rightarrow> bool" where
  "bucket_request rq \<longleftrightarrow> rq_bucket rq \<noteq> RESERVED_BUCKET_NAME \<and> rq_bucket rq \<noteq> [] \<and> rq_key rq = []"

definition object_request :: "s3_request \<Rightarrow> bool" where
  "object_request rq \<longleftrightarrow> rq_bucket rq \<noteq> RESERVED_BUCKET_NAME \<and> rq_bucket rq \<noteq> [] \<and> rq_key rq \<noteq> []"

definition get_object_can_handle :: "s3_request \<Rightarrow> bool" where
  "get_object_can_handle rq \<longleftrightarrow> rq_method rq = GET \<and> object_request rq \<and> \<not> has_query rq ''attributes''"

definition put_object_can_handle :: "s3_request \<Rightarrow> bool" where
  "put_object_can_handle rq \<longleftrightarrow> rq_method rq = PUT \<and> object_request rq \<and> \<not> has_query rq ''uploadId'' \<and> rq_header rq ''x-amz-copy-source'' = None"

definition multipart_can_handle :: "s3_request \<Rightarrow> bool" where
  "multipart_can_handle rq \<longleftrightarrow> rq_method rq = PUT \<and> object_request rq \<and> has_query rq ''partNumber'' \<and> has_query rq ''uploadId''"

definition init_multipart_can_handle :: "s3_request \<Rightarrow> bool" where
  "init_multipart_can_handle rq \<longleftrightarrow> rq_method rq = POST \<and> object_request rq \<and> has_query rq ''uploads''"

definition complete_multipart_can_handle :: "s3_request \<Rightarrow> bool" where
  "complete_multipart_can_handle rq \<longleftrightarrow> rq_method rq = POST \<and> object_request rq \<and> has_query rq ''uploadId''"

definition list_object_versions_can_handle :: "s3_request \<Rightarrow> bool" where
  "list_object_versions_can_handle rq \<longleftrightarrow> rq_method rq = GET \<and> bucket_request rq \<and> has_query rq ''versions'' \<and> \<not> has_query rq ''versioning''"

definition list_objects_v2_can_handle :: "s3_request \<Rightarrow> bool" where
  "list_objects_v2_can_handle rq \<longleftrightarrow> rq_method rq = GET \<and> bucket_request rq \<and> rq_params rq ''list-type'' = Some ''2'' \<and> \<not> has_query rq ''policy'' \<and> \<not> has_query rq ''cors''"

definition list_objects_can_handle :: "s3_request \<Rightarrow> bool" where
  "list_objects_can_handle rq \<longleftrightarrow> rq_method rq = GET \<and> bucket_request rq \<and> \<not> has_query rq ''uploads'' \<and> \<not> has_query rq ''list-type''
     \<and> \<not> has_query rq ''policy'' \<and> \<not> has_query rq ''cors'' \<and> \<not> has_query rq ''versioning''"

definition list_buckets_can_handle :: "s3_request \<Rightarrow> bool" where
  "list_buckets_can_handle rq \<longleftrightarrow> rq_method rq = GET \<and> rq_bucket rq = [] \<and> rq_key rq = [] \<and> \<not> has_query rq ''versions''"

definition head_object_can_handle :: "s3_request \<Rightarrow> bool" where
  "head_object_can_handle rq \<longleftrightarrow> rq_method rq = HEAD \<and> object_request rq \<and> \<not> has_query rq ''attributes''"

definition head_bucket_can_handle :: "s3_request \<Rightarrow> bool" where
  "head_bucket_can_handle rq \<longleftrightarrow> rq_method rq = HEAD \<and> bucket_request rq \<and> \<not> has_query rq ''attributes''"

definition create_bucket_can_handle :: "s3_request \<Rightarrow> bool" where
  "create_bucket_can_handle rq \<longleftrightarrow> rq_method rq = PUT \<and> bucket_request rq \<and> \<not> has_query rq ''policy'' \<and> \<not> has_query rq ''cors'' \<and> \<not> has_query rq ''versioning''"

definition copy_object_can_handle :: "s3_request \<Rightarrow> bool" where
  "copy_object_can_handle rq \<longleftrightarrow> rq_method rq = PUT \<and> object_request rq \<and> rq_header rq ''x-amz-copy-source'' \<noteq> None"

definition list_multipart_can_handle :: "s3_request \<Rightarrow> bool" where
  "list_multipart_can_handle rq \<longleftrightarrow> rq_method rq = GET \<and> bucket_request rq \<and> has_query rq ''uploads''"

definition get_metrics_can_handle :: "s3_request \<Rightarrow> bool" where
  "get_metrics_can_handle rq \<longleftrightarrow> rq_method rq = GET \<and> rq_bucket rq = RESERVED_BUCKET_NAME \<and> rq_key rq = ''v1/metrics/cluster''"

definition delete_object_can_handle :: "s3_request \<Rightarrow> bool" where
  "delete_object_can_handle rq \<longleftrightarrow> rq_method rq = DELETE \<and> object_request rq \<and> \<not> has_query rq ''uploadId''"

definition delete_objects_can_handle :: "s3_request \<Rightarrow> bool" where
  "delete_objects_can_handle rq \<longleftrightarrow> rq_method rq = POST \<and> bucket_request rq \<and> has_query rq ''delete''"

definition delete_bucket_can_handle :: "s3_request \<Rightarrow> bool" where
  "delete_bucket_can_handle rq \<longleftrightarrow> rq_method rq = DELETE \<and> bucket_request rq \<and> \<not> has_query rq ''policy'' \<and> \<not> has_query rq ''cors''"

definition abort_multipart_can_handle :: "s3_request \<Rightarrow> bool" where
  "abort_multipart_can_handle rq \<longleftrightarrow> rq_method rq = DELETE \<and> object_request rq \<and> has_query rq ''uploadId''"

definition get_bucket_policy_can_handle :: "s3_request \<Rightarrow> bool" where
  "get_bucket_policy_can_handle rq \<longleftrightarrow> rq_method rq = GET \<and> bucket_request rq \<and> has_query rq ''policy''"

definition put_bucket_policy_can_handle :: "s3_request \<Rightarrow> bool" where
  "put_bucket_policy_can_handle rq \<longleftrightarrow> rq_method rq = PUT \<and> bucket_request rq \<and> has_query rq ''policy''"

definition delete_bucket_policy_can_handle :: "s3_request \<Rightarrow> bool" where
  "delete_bucket_policy_can_handle rq \<longleftrightarrow> rq_method rq = DELETE \<and> bucket_request rq \<and> has_query rq ''policy''"

definition get_ready_can_handle :: "s3_request \<Rightarrow> bool" where
  "get_ready_can_handle rq \<longleftrightarrow> rq_method rq = GET \<and> rq_bucket rq = RESERVED_BUCKET_NAME \<and> rq_key rq = ''v1/ready''"

definition get_bucket_cors_can_handle :: "s3_request \<Rightarrow> bool" where
  "get_bucket_cors_can_handle rq \<longleftrightarrow> rq_method rq = GET \<and> bucket_request rq \<and> has_query rq ''cors''"

definition delete_bucket_cors_can_handle :: "s3_request \<Rightarrow> bool" where
  "delete_bucket_cors_can_handle rq \<longleftrightarrow> rq_method rq = DELETE \<and> bucket_request rq \<and> has_query rq ''cors''"

definition put_bucket_cors_can_handle :: "s3_request \<Rightarrow> bool" where
  "put_bucket_cors_can_handle rq \<longleftrightarrow> rq_method rq = PUT \<and> bucket_request rq \<and> has_query rq ''cors''"

definition get_bucket_versioning_can_handle :: "s3_request \<Rightarrow> bool" where
  "get_bucket_versioning_can_handle rq \<longleftrightarrow> rq_method rq = GET \<and> bucket_request rq \<and> has_query rq ''versioning'' \<and> \<not> has_query rq ''versions''"

definition put_bucket_versioning_can_handle :: "s3_request \<Rightarrow> bool" where
  "put_bucket_versioning_can_handle rq \<longleftrightarrow> rq_method rq = PUT \<and> bucket_request rq \<and> has_query rq ''versioning''"

lemmas can_handle_defs =
  get_object_can_handle_def put_object_can_handle_def multipart_can_handle_def init_multipart_can_handle_def complete_multipart_can_handle_def
  list_object_versions_can_handle_def list_objects_v2_can_handle_def list_objects_can_handle_def list_buckets_can_handle_def head_object_can_handle_def
  head_bucket_can_handle_def create_bucket_can_handle_def copy_object_can_handle_def list_multipart_can_handle_def get_metrics_can_handle_def
  delete_object_can_handle_def delete_objects_can_handle_def delete_bucket_can_handle_def abort_multipart_can_handle_def get_bucket_policy_can_handle_def
  put_bucket_policy_can_handle_def delete_bucket_policy_can_handle_def get_ready_can_handle_def get_bucket_cors_can_handle_def delete_bucket_cors_can_handle_def
  put_bucket_cors_can_handle_def get_bucket_versioning_can_handle_def put_bucket_versioning_can_handle_def

text \<open>The commands in the order in which the factory asks them.\<close>

definition s3_commands :: "((s3_request \<Rightarrow> bool) \<times> command) list" where
  "s3_commands =
    [(get_object_can_handle, Cmd_get_object),
     (put_object_can_handle, Cmd_put_object),
     (multipart_can_handle, Cmd_multipart),
     (init_multipart_can_handle, Cmd_init_multipart),
     (complete_multipart_can_handle, Cmd_complete_multipart),
     (list_object_versions_can_handle, Cmd_list_object_versions),
     (list_objects_v2_can_handle, Cmd_list_objects_v2),
     (list_objects_can_handle, Cmd_list_objects),
     (list_buckets_can_handle, Cmd_list_buckets),
     (head_object_can_handle, Cmd_head_object),
     (head_bucket_can_handle, Cmd_head_bucket),
     (create_bucket_can_handle, Cmd_create_bucket),
     (copy_object_can_handle, Cmd_copy_object),
     (list_multipart_can_handle, Cmd_list_multipart),
     (get_metrics_can_handle, Cmd_get_metrics),
     (delete_object_can_handle, Cmd_delete_object),
     (delete_objects_can_handle, Cmd_delete_objects),
     (delete_bucket_can_handle, Cmd_delete_bucket),
     (abort_multipart_can_handle, Cmd_abort_multipart),
     (get_bucket_policy_can_handle, Cmd_get_bucket_policy),
     (put_bucket_policy_can_handle, Cmd_put_bucket_policy),
     (delete_bucket_policy_can_handle, Cmd_delete_bucket_policy),
     (get_ready_can_handle, Cmd_get_ready),
     (get_bucket_cors_can_handle, Cmd_get_bucket_cors),
     (delete_bucket_cors_can_handle, Cmd_delete_bucket_cors),
     (put_bucket_cors_can_handle, Cmd_put_bucket_cors),
     (get_bucket_versioning_can_handle, Cmd_get_bucket_versioning),
     (put_bucket_versioning_can_handle, Cmd_put_bucket_versioning)]"

definition invalid_uri :: exn where
  "invalid_uri = Command_exception 400 ''InvalidURI''"

definition s3_command :: "s3_request \<Rightarrow> command res" where
  "s3_command rq = (case find (\<lambda>(can_handle, cmd). can_handle rq) s3_commands of None \<Rightarrow> Inl invalid_uri | Some (_, cmd) \<Rightarrow> Inr cmd)"

text \<open>The commands of the IAM interface are named by a parameter of the body.\<close>

definition iam_commands :: "(bytes \<times> command) list" where
  "iam_commands =
    [(''CreateUser'', Cmd_create_user),
     (''DeleteUser'', Cmd_delete_user),
     (''CreateAccessKey'', Cmd_create_access_key),
     (''DeleteAccessKey'', Cmd_delete_access_key),
     (''PutUserPolicy'', Cmd_put_user_policy),
     (''ListUserPolicies'', Cmd_list_user_policies),
     (''GetUserPolicy'', Cmd_get_user_policy),
     (''DeleteUserPolicy'', Cmd_delete_user_policy)]"

definition iam_command :: "s3_request \<Rightarrow> command res" where
  "iam_command rq =
     (case find (\<lambda>(action, cmd). rq_method rq = POST \<and> (case rq_params rq ''Action'' of None \<Rightarrow> [] | Some a \<Rightarrow> a) = action) iam_commands of
        None \<Rightarrow> Inl invalid_uri
      | Some (_, cmd) \<Rightarrow> Inr cmd)"

definition MAX_POST_QUERY_LENGTH :: nat where
  "MAX_POST_QUERY_LENGTH = 64 * KIBI_BYTE"

definition action_command :: "auth_library \<Rightarrow> 'k receive \<Rightarrow> ('k request, command) proc" where
  "action_command A recv req =
     (case stoull (case rq_header (command_view req) ''content-length'' of None \<Rightarrow> ''0'' | Some v \<Rightarrow> v) of
        Inl err \<Rightarrow> Some (req, Inl err)
      | Inr len \<Rightarrow>
          if len = 0 then Some (req, Inl invalid_uri)
          else if MAX_POST_QUERY_LENGTH < len then Some (req, Inl (Command_exception 400 ''MaxMessageLengthExceeded''))
          else (case copy_to_buffer (request_body_ops A recv) (req_body req) of
                  None \<Rightarrow> None
                | Some (b, Inl err) \<Rightarrow> Some (req\<lparr>req_body := b\<rparr>, Inl err)
                | Some (b, Inr post_query) \<Rightarrow>
                    (case set_query_params (al_http A) post_query (req\<lparr>req_body := b\<rparr>) of
                       Inl err \<Rightarrow> Some (req\<lparr>req_body := b\<rparr>, Inl err)
                     | Inr req' \<Rightarrow> Some (req', iam_command (command_view req')))))"

definition command_factory_create :: "auth_library \<Rightarrow> 'k receive \<Rightarrow> ('k request, command) proc" where
  "command_factory_create A recv req =
     (if rq_method (command_view req) = POST \<and> rq_path (command_view req) = ''/'' then action_command A recv req
      else Some (req, s3_command (command_view req)))"

subsection \<open>When the order matters\<close>

definition SUBRESOURCES :: "bytes list" where
  "SUBRESOURCES = [''uploads'', ''uploadId'', ''versions'', ''versioning'', ''list-type'', ''policy'', ''cors'']"

definition two_subresources :: "s3_request \<Rightarrow> bool" where
  "two_subresources rq \<longleftrightarrow> (\<exists>a\<in>set SUBRESOURCES. \<exists>b\<in>set SUBRESOURCES. a \<noteq> b \<and> has_query rq a \<and> has_query rq b)"

lemma two_subresourcesI:
  "has_query rq a \<Longrightarrow> has_query rq b \<Longrightarrow> a \<noteq> b \<Longrightarrow> a \<in> set SUBRESOURCES \<Longrightarrow> b \<in> set SUBRESOURCES \<Longrightarrow> two_subresources rq"
  by (auto simp: two_subresources_def)

text \<open>The two commands that share requests with another one: one lists versions, one uploads a part.\<close>

definition shadows :: "command \<Rightarrow> command \<Rightarrow> bool" where
  "shadows c d \<longleftrightarrow> c = Cmd_list_object_versions \<and> d = Cmd_list_objects \<or> c = Cmd_multipart \<and> d = Cmd_copy_object"

lemma subresource_pairs:
  assumes "\<not> two_subresources rq"
  shows "has_query rq ''uploads'' \<Longrightarrow> \<not> has_query rq ''uploadId'' \<and> \<not> has_query rq ''versions'' \<and> \<not> has_query rq ''list-type'' \<and> \<not> has_query rq ''policy'' \<and> \<not> has_query rq ''cors'' \<and> \<not> has_query rq ''versioning''"
    and "has_query rq ''versions'' \<Longrightarrow> \<not> has_query rq ''list-type'' \<and> \<not> has_query rq ''policy'' \<and> \<not> has_query rq ''cors'' \<and> \<not> has_query rq ''versioning''"
    and "has_query rq ''list-type'' \<Longrightarrow> \<not> has_query rq ''policy'' \<and> \<not> has_query rq ''cors'' \<and> \<not> has_query rq ''versioning''"
    and "has_query rq ''policy'' \<Longrightarrow> \<not> has_query rq ''cors'' \<and> \<not> has_query rq ''versioning''"
    and "has_query rq ''cors'' \<Longrightarrow> \<not> has_query rq ''versioning''"
  using assms by (auto simp: two_subresources_def SUBRESOURCES_def)

lemma s3_commands_disjoint:
  assumes "\<not> two_subresources rq"
  shows "sorted_wrt (\<lambda>(p, c) (q, d). p rq \<longrightarrow> q rq \<longrightarrow> shadows c d) s3_commands"
proof -
  note p = subresource_pairs [OF assms]
  have l: "rq_params rq ''list-type'' = Some ''2'' \<Longrightarrow> has_query rq ''list-type''" by (simp add: has_query_def)
  have r: "\<not> (rq_bucket rq = RESERVED_BUCKET_NAME \<and> rq_bucket rq = [])" by (simp add: RESERVED_BUCKET_NAME_def)
  show ?thesis
    using p l r by (cases "rq_method rq") (simp_all add: s3_commands_def can_handle_defs bucket_request_def object_request_def shadows_def, auto)
qed

lemma find_sorted_wrt: "find P xs = Some y \<Longrightarrow> x \<in> set xs \<Longrightarrow> P x \<Longrightarrow> sorted_wrt R xs \<Longrightarrow> y = x \<or> R y x"
  by (induction xs) (auto split: if_splits)

lemma find_holds: "find P xs = Some y \<Longrightarrow> P y"
  by (induction xs) (auto split: if_splits)

text \<open>
  C38: Unless a request names two subresources at once, the order in which the factory asks the commands
  does not matter: a command that can handle the request is the one that is run. The exceptions are
  a listing of versions, which the plain listing would take as well, and the copy of a part, which is taken
  for an upload.
\<close>

theorem routing_unambiguous:
  assumes "(can_handle, cmd) \<in> set s3_commands" and "can_handle rq" and "\<not> two_subresources rq"
  shows "s3_command rq = Inr cmd \<or> (\<exists>other. s3_command rq = Inr other \<and> shadows other cmd)"
proof -
  let ?P = "\<lambda>(can_handle, cmd). can_handle rq"
  obtain p d where f: "find ?P s3_commands = Some (p, d)"
    using assms(1,2) by (cases "find ?P s3_commands") (auto simp: find_None_iff)
  have "p rq" using find_holds [OF f] by simp
  moreover have "(p, d) = (can_handle, cmd) \<or> (p rq \<longrightarrow> can_handle rq \<longrightarrow> shadows d cmd)"
    using find_sorted_wrt [OF f assms(1) _ s3_commands_disjoint [OF assms(3)]] assms(2) by simp
  ultimately show ?thesis using f assms(2) by (auto simp: s3_command_def)
qed

definition sample_listing :: s3_request where
  "sample_listing = \<lparr>rq_method = GET, rq_path = ''/bucket'', rq_params = (\<lambda>_. None)(''versions'' \<mapsto> []), rq_fields = []\<rparr>"

theorem routing_unambiguous_witness:
  "list_objects_can_handle sample_listing \<and> (s3_command sample_listing = Inr Cmd_list_objects \<or> (\<exists>other. s3_command sample_listing = Inr other \<and> shadows other Cmd_list_objects))"
proof -
  have "rq_bucket sample_listing = ''bucket''" "rq_key sample_listing = []"
    using bucket_path [of "''bucket''"] by (simp_all add: rq_bucket_def rq_key_def sample_listing_def)
  then have h: "list_objects_can_handle sample_listing"
    by (simp add: list_objects_can_handle_def bucket_request_def RESERVED_BUCKET_NAME_def has_query_def sample_listing_def)
  moreover have "(list_objects_can_handle, Cmd_list_objects) \<in> set s3_commands" by (simp add: s3_commands_def)
  moreover have "\<not> two_subresources sample_listing" by (auto simp: two_subresources_def has_query_def sample_listing_def split: if_splits)
  ultimately show ?thesis using routing_unambiguous by blast
qed

text \<open>
  A subresource that no command knows is ignored: a request that deletes the tags of an object deletes
  the object, and one that deletes the tags of a bucket deletes the bucket.
\<close>

lemma unknown_subresource_ignored:
  assumes "rq_method rq = DELETE" and "has_query rq ''tagging''"
  shows "object_request rq \<Longrightarrow> \<not> has_query rq ''uploadId'' \<Longrightarrow> s3_command rq = Inr Cmd_delete_object"
    and "bucket_request rq \<Longrightarrow> \<not> has_query rq ''policy'' \<Longrightarrow> \<not> has_query rq ''cors'' \<Longrightarrow> s3_command rq = Inr Cmd_delete_bucket"
  using assms by (simp_all add: s3_command_def s3_commands_def can_handle_defs bucket_request_def object_request_def)

subsection \<open>Buckets\<close>

definition answered :: "'s \<times> unit res \<Rightarrow> nat \<Rightarrow> 's \<times> reply res" where
  "answered p status = (fst p, bindE (snd p) (\<lambda>_. Inr (plain_reply (response_new status))))"

definition create_bucket_handle :: "s3_request \<Rightarrow> directory \<Rightarrow> directory \<times> reply res" where
  "create_bucket_handle rq x = answered (dir_put_bucket (rq_bucket rq) x) 200"

definition delete_bucket_handle :: "database \<Rightarrow> s3_request \<Rightarrow> directory \<Rightarrow> directory \<times> reply res" where
  "delete_bucket_handle D rq x = answered (dir_delete_bucket D (rq_bucket rq) x) 200"

definition head_bucket_handle :: "s3_request \<Rightarrow> directory \<Rightarrow> reply res" where
  "head_bucket_handle rq x = bindE (dir_bucket_exists (rq_bucket rq) x) (\<lambda>_. Inr (plain_reply (response_new 200)))"

text \<open>A configuration that is not there is answered without content.\<close>

definition text_reply :: "bytes option \<Rightarrow> reply" where
  "text_reply t = (case t of Some s \<Rightarrow> \<lparr>rp_head = response_new 200, rp_body = Text s\<rparr> | None \<Rightarrow> plain_reply (response_new 204))"

definition get_bucket_policy_handle :: "s3_request \<Rightarrow> directory \<Rightarrow> reply res" where
  "get_bucket_policy_handle rq x = bindE (dir_get_bucket_policy (rq_bucket rq) x) (\<lambda>p. Inr (text_reply p))"

definition put_bucket_policy_handle :: "'b body_ops \<Rightarrow> database \<Rightarrow> s3_request \<Rightarrow> ('b \<times> directory, reply) proc" where
  "put_bucket_policy_handle B D rq = (\<lambda>(b, x).
     case copy_to_buffer B b of
       None \<Rightarrow> None
     | Some (b', Inl err) \<Rightarrow> Some ((b', x), Inl err)
     | Some (b', Inr text) \<Rightarrow> (case answered (dir_set_bucket_policy D (rq_bucket rq) (Some text) x) 204 of (x', r) \<Rightarrow> Some ((b', x'), r)))"

definition delete_bucket_policy_handle :: "database \<Rightarrow> s3_request \<Rightarrow> directory \<Rightarrow> directory \<times> reply res" where
  "delete_bucket_policy_handle D rq x = answered (dir_set_bucket_policy D (rq_bucket rq) None x) 204"

definition get_bucket_cors_handle :: "s3_request \<Rightarrow> directory \<Rightarrow> reply res" where
  "get_bucket_cors_handle rq x = bindE (dir_get_bucket_cors (rq_bucket rq) x) (\<lambda>c. Inr (text_reply c))"

definition put_bucket_cors_handle :: "'b body_ops \<Rightarrow> database \<Rightarrow> s3_request \<Rightarrow> ('b \<times> directory, reply) proc" where
  "put_bucket_cors_handle B D rq = (\<lambda>(b, x).
     case copy_to_buffer B b of
       None \<Rightarrow> None
     | Some (b', Inl err) \<Rightarrow> Some ((b', x), Inl err)
     | Some (b', Inr text) \<Rightarrow> (case answered (dir_set_bucket_cors D (rq_bucket rq) (Some text) x) 204 of (x', r) \<Rightarrow> Some ((b', x'), r)))"

definition delete_bucket_cors_handle :: "database \<Rightarrow> s3_request \<Rightarrow> directory \<Rightarrow> directory \<times> reply res" where
  "delete_bucket_cors_handle D rq x = answered (dir_set_bucket_cors D (rq_bucket rq) None x) 204"

definition XMLNS :: "bytes \<times> node" where
  "XMLNS = (''<xmlattr>'', Tree [(''xmlns'', Leaf ''http://s3.amazonaws.com/doc/2006-03-01/'')])"

definition get_bucket_versioning_handle :: "s3_request \<Rightarrow> directory \<Rightarrow> reply res" where
  "get_bucket_versioning_handle rq x =
     bindE (dir_get_bucket_versioning (rq_bucket rq) x) (\<lambda>v.
       Inr (xml_reply (response_new 200) (Tree [(''VersionConfiguration'',
         Tree (XMLNS # (if v = Disabled then [] else [(''Status'', Leaf (versioning_to_string v))])))])))"

definition requested_versioning :: "xml_library \<Rightarrow> bytes \<Rightarrow> versioning res" where
  "requested_versioning X buffer =
     (case xl_parse X buffer of
        None \<Rightarrow> Inl MalformedXML
      | Some tree \<Rightarrow>
          bindE (get_nodes [''VersioningConfiguration'', ''Status''] tree) (\<lambda>nodes.
            if length nodes \<noteq> 1 then Inl MalformedXML
            else bindE (to_versioning (case hd nodes of Leaf t \<Rightarrow> t | _ \<Rightarrow> [])) (\<lambda>v.
              if v \<noteq> Enabled \<and> v \<noteq> Suspended then Inl MalformedXML else Inr v)))"

definition put_bucket_versioning_handle :: "'b body_ops \<Rightarrow> xml_library \<Rightarrow> s3_request \<Rightarrow> ('b \<times> directory, reply) proc" where
  "put_bucket_versioning_handle B X rq = (\<lambda>(b, x).
     case copy_to_buffer B b of
       None \<Rightarrow> None
     | Some (b', Inl err) \<Rightarrow> Some ((b', x), Inl err)
     | Some (b', Inr buffer) \<Rightarrow>
         (case requested_versioning X buffer of
            Inl err \<Rightarrow> Some ((b', x), Inl err)
          | Inr v \<Rightarrow> (case answered (dir_set_bucket_versioning (rq_bucket rq) v x) 200 of (x', r) \<Rightarrow> Some ((b', x'), r))))"

subsection \<open>Deleting many objects\<close>

definition MAXIMUM_DELETE_KEYS :: nat where
  "MAXIMUM_DELETE_KEYS = 1000"

definition delete_objects_response :: "bytes list \<Rightarrow> (bytes \<times> bytes) list \<Rightarrow> reply" where
  "delete_objects_response success failure =
     xml_reply (response_new 200) (Tree [(''DeleteResult'', Tree (
       map (\<lambda>k. (''Deleted'', Tree [(''Key'', Leaf k)])) success
       @ map (\<lambda>(k, code). (''Error'', Tree [(''Key'', Leaf k), (''Code'', Leaf code)])) failure))])"

text \<open>
  The objects are deleted one after the other; a node without a key ends the loop with an error and
  keeps what is already deleted. The directory reports no failures, so that there are none to collect.
\<close>

fun delete_nodes :: "database \<Rightarrow> env \<Rightarrow> bytes \<Rightarrow> node list \<Rightarrow> bytes list \<Rightarrow> directory \<Rightarrow> directory \<times> bytes list res" where
  "delete_nodes D e bucket [] success x = (x, Inr success)"
| "delete_nodes D e bucket (nd # nodes) success x =
     (case get_text ''Key'' nd of
        None \<Rightarrow> (x, Inl MalformedXML)
      | Some key \<Rightarrow> delete_nodes D e bucket nodes (success @ [key]) (fst (dir_delete_object D e bucket key (get_text ''VersionId'' nd) x)))"

definition delete_objects_handle :: "'b body_ops \<Rightarrow> xml_library \<Rightarrow> database \<Rightarrow> env \<Rightarrow> s3_request \<Rightarrow> ('b \<times> directory, reply) proc" where
  "delete_objects_handle B X D e rq = (\<lambda>(b, x).
     case dir_bucket_exists (rq_bucket rq) x of
       Inl err \<Rightarrow> Some ((b, x), Inl err)
     | Inr _ \<Rightarrow>
         (case copy_to_buffer B b of
            None \<Rightarrow> None
          | Some (b', Inl err) \<Rightarrow> Some ((b', x), Inl err)
          | Some (b', Inr buffer) \<Rightarrow>
              (case (case xl_parse X buffer of None \<Rightarrow> Inl MalformedXML | Some tree \<Rightarrow> get_nodes [''Delete'', ''Object''] tree) of
                 Inl err \<Rightarrow> Some ((b', x), Inl err)
               | Inr nodes \<Rightarrow>
                   if nodes = [] \<or> MAXIMUM_DELETE_KEYS < length nodes then Some ((b', x), Inl MalformedXML)
                   else (case delete_nodes D e (rq_bucket rq) nodes [] x of
                           (x', Inl err) \<Rightarrow> Some ((b', x'), Inl err)
                         | (x', Inr success) \<Rightarrow> Some ((b', x'), Inr (delete_objects_response success []))))))"

subsection \<open>The node\<close>

definition get_metrics_handle :: "bytes \<Rightarrow> bytes \<Rightarrow> 'v view_ops \<Rightarrow> 'v \<Rightarrow> directory \<Rightarrow> reply" where
  "get_metrics_handle version vcsid V v x =
     \<lparr>rp_head = response_new 200,
      rp_body = Text (''{'' @ newline @ ''  \"version\": \"'' @ version @ ''\",'' @ newline @ ''  \"vcsid\": \"'' @ vcsid @ ''\",'' @ newline
        @ ''  \"raw_data_size\": '' @ nat_str (dir_data_size x) @ '','' @ newline
        @ ''  \"effective_data_size\": '' @ nat_str (vo_get_used_space V v) @ newline @ ''}'')\<rparr>"

text \<open>The buckets and the space are asked for and always answer in the model: the node is ready.\<close>

definition get_ready_handle :: reply where
  "get_ready_handle = \<lparr>rp_head = response_new 200, rp_body = Text (''{'' @ newline @ ''  \"ready\": true'' @ newline @ ''}'')\<rparr>"

end
