(* ===== verification/Vrm_Cors.thy ===== *)
theory Vrm_Cors
  imports Vrm_Reply Vrm_Maps Vrm_Caches
begin

text \<open>
  Cross-origin requests (\<open>entrypoint/cors\<close>: \<open>parser.cpp\<close>, \<open>module.cpp\<close>): the rules of a bucket are
  parsed from its configuration and kept for a while; a request with an origin is answered or
  decorated according to the first rule that fits. The XML parser, its conversion of numbers and
  the table of the names of HTTP methods are arguments. The main result bounds how old the
  configuration is that a decision rests on.
\<close>

subsection \<open>Rules\<close>

record cors_info =
  ci_origin :: bytes
  ci_methods :: "verb set"
  ci_headers :: "bytes list"
  ci_expose :: "bytes option"
  ci_max_age :: "nat option"

fun node_value :: "node \<Rightarrow> bytes" where
  "node_value (Leaf t) = t"
| "node_value nd = []"

fun cors_method :: "bytes \<Rightarrow> verb option" where
  "cors_method m =
     (if m = ''DELETE'' then Some DELETE else if m = ''GET'' then Some GET else if m = ''HEAD'' then Some HEAD
      else if m = ''POST'' then Some POST else if m = ''PUT'' then Some PUT else None)"

text \<open>The origins of a rule and the rest of it. The exposed headers are always there, even when there are none.\<close>

definition parse_corse_info :: "(bytes \<Rightarrow> nat option) \<Rightarrow> node \<Rightarrow> bytes list \<times> cors_info" where
  "parse_corse_info to_unsigned tree =
     (set_of_list (map node_value (node_children ''AllowedOrigin'' tree)),
      \<lparr>ci_origin = [],
       ci_methods = set (List.map_filter (\<lambda>nd. cors_method (node_value nd)) (node_children ''AllowedMethod'' tree)),
       ci_headers = set_of_list (map node_value (node_children ''AllowedHeader'' tree)),
       ci_expose = Some (join (map node_value (node_children ''ExposeHeader'' tree)) '',''),
       ci_max_age = Option.bind (get_text ''MaxAgeSeconds'' tree) to_unsigned\<rparr>)"

definition cors_parse :: "xml_library \<Rightarrow> (bytes \<Rightarrow> nat option) \<Rightarrow> bytes \<Rightarrow> cors_info list res" where
  "cors_parse X to_unsigned code =
     (case xl_parse X code of
        None \<Rightarrow> Inl Runtime_error
      | Some tree \<Rightarrow>
          (case node_children ''CORSConfiguration'' tree of
             [] \<Rightarrow> Inr []
           | conf # _ \<Rightarrow>
               Inr (concat (map (\<lambda>rule. case parse_corse_info to_unsigned rule of
                                          (origins, info) \<Rightarrow> map (\<lambda>key. info\<lparr>ci_origin := key\<rparr>) origins)
                            (node_children ''CORSRule'' conf)))))"

subsection \<open>Decisions\<close>

definition ends_with :: "bytes \<Rightarrow> bytes \<Rightarrow> bool" where
  "ends_with s p \<longleftrightarrow> length p \<le> length s \<and> drop (length s - length p) s = p"

text \<open>The position of the star is the number of characters before it.\<close>

definition equals_wildcard_single :: "bytes \<Rightarrow> bytes \<Rightarrow> bool" where
  "equals_wildcard_single pat str =
     (let pos = length (takeWhile (\<lambda>c. c \<noteq> CHR ''*'') pat)
      in if pos = length pat then str = pat
         else if 0 < pos \<and> take (pos - 1) str \<noteq> take (pos - 1) pat then False
         else ends_with str (drop (pos + 1) pat))"

definition find_info :: "cors_info list \<Rightarrow> bytes \<Rightarrow> verb \<Rightarrow> cors_info option" where
  "find_info rules origin m = find (\<lambda>info. (ci_origin info = origin \<or> ci_origin info = ''*'') \<and> m \<in> ci_methods info) rules"

text \<open>A response that ends the request, or header fields for the answer of the command.\<close>

record cors_result =
  cr_response :: "reply option"
  cr_headers :: "(bytes \<times> bytes) list option"

definition cors_forbidden :: cors_result where
  "cors_forbidden = \<lparr>cr_response = Some (error_response 403 ''Forbidden'' ''CORS Response: This CORS request is not allowed''), cr_headers = None\<rparr>"

type_synonym cors_cache = "bytes \<rightharpoonup> nat \<times> cors_info list"

record cors_library =
  co_xml :: xml_library
  co_unsigned :: "bytes \<Rightarrow> nat option"
  co_verb :: "bytes \<Rightarrow> verb"
  co_retention :: nat

definition get_info :: "cors_library \<Rightarrow> nat \<Rightarrow> bytes \<Rightarrow> directory \<Rightarrow> cors_cache \<Rightarrow> cors_cache \<times> cors_info list res" where
  "get_info L now bucket x c =
     (case timed_get now bucket c of
        (c1, Some rules) \<Rightarrow> (c1, Inr rules)
      | (c1, None) \<Rightarrow>
          (case dir_get_bucket_cors bucket x of
             Inl err \<Rightarrow> (c1, Inl err)
           | Inr None \<Rightarrow> (c1, Inl (Command_exception 404 ''NoSuchCORSConfiguration''))
           | Inr (Some config) \<Rightarrow>
               (case cors_parse (co_xml L) (co_unsigned L) config of
                  Inl err \<Rightarrow> (c1, Inl err)
                | Inr parsed \<Rightarrow> (timed_put (co_retention L) now bucket parsed c1, Inr parsed))))"

text \<open>The methods in the order of their numbers in the HTTP library.\<close>

definition method_names :: "verb set \<Rightarrow> bytes list" where
  "method_names ms = map snd (filter (\<lambda>(m, name). m \<in> ms)
     [(DELETE, ''DELETE''), (GET, ''GET''), (HEAD, ''HEAD''), (POST, ''POST''), (PUT, ''PUT'')])"

definition set_nonempty :: "bytes \<Rightarrow> bytes \<Rightarrow> response \<Rightarrow> response" where
  "set_nonempty name v r = (if v = [] then r else res_set name (Some v) r)"

definition preflight_headers :: "cors_info \<Rightarrow> s3_request \<Rightarrow> response \<Rightarrow> response" where
  "preflight_headers info rq r =
     (case rq_header rq ''Access-Control-Request-Headers'' of
        None \<Rightarrow> r
      | Some acrh \<Rightarrow>
          set_nonempty ''Access-Control-Allow-Headers''
            (join (set_of_list (concat (map (\<lambda>iheader. filter (equals_wildcard_single iheader) (set_of_list (split_str acrh (CHR '','')))) (ci_headers info)))) '','') r)"

definition preflight_response :: "cors_info \<Rightarrow> bytes \<Rightarrow> s3_request \<Rightarrow> reply" where
  "preflight_response info origin rq =
     plain_reply
       (set_nonempty ''Access-Control-Allow-Methods'' (join (method_names (ci_methods info)) '','')
         (res_set ''Access-Control-Max-Age'' (map_option nat_str (ci_max_age info))
           (preflight_headers info rq (res_set ''Access-Control-Allow-Origin'' (Some origin) (response_new 204)))))"

definition preflight :: "cors_library \<Rightarrow> nat \<Rightarrow> bytes \<Rightarrow> s3_request \<Rightarrow> directory \<Rightarrow> cors_cache \<Rightarrow> cors_cache \<times> cors_result res" where
  "preflight L now origin rq x c =
     (case get_info L now (rq_bucket rq) x c of
        (c', Inl err) \<Rightarrow> (c', Inl err)
      | (c', Inr rules) \<Rightarrow>
          (c', Inr (case rq_header rq ''Access-Control-Request-Method'' of
                      None \<Rightarrow> cors_forbidden
                    | Some m \<Rightarrow>
                        (case find_info rules origin (co_verb L m) of
                           None \<Rightarrow> cors_forbidden
                         | Some info \<Rightarrow> \<lparr>cr_response = Some (preflight_response info origin rq), cr_headers = None\<rparr>))))"

definition put_header :: "bytes \<Rightarrow> bytes option \<Rightarrow> (bytes \<times> bytes) list" where
  "put_header name v = (case v of None \<Rightarrow> [] | Some x \<Rightarrow> [(name, x)])"

definition flight :: "cors_library \<Rightarrow> nat \<Rightarrow> bytes \<Rightarrow> s3_request \<Rightarrow> directory \<Rightarrow> cors_cache \<Rightarrow> cors_cache \<times> cors_result res" where
  "flight L now origin rq x c =
     (case get_info L now (rq_bucket rq) x c of
        (c', Inl err) \<Rightarrow> (c', Inl err)
      | (c', Inr rules) \<Rightarrow>
          (c', Inr (case find_info rules origin (rq_method rq) of
                      None \<Rightarrow> cors_forbidden
                    | Some info \<Rightarrow>
                        \<lparr>cr_response = None,
                         cr_headers = Some ((''Access-Control-Allow-Origin'', ci_origin info) # put_header ''Access-Control-Expose-Headers'' (ci_expose info))\<rparr>)))"

definition cors_check :: "cors_library \<Rightarrow> nat \<Rightarrow> s3_request \<Rightarrow> directory \<Rightarrow> cors_cache \<Rightarrow> cors_cache \<times> cors_result res" where
  "cors_check L now rq x c =
     (case rq_header rq ''origin'' of
        None \<Rightarrow> (c, Inr \<lparr>cr_response = None, cr_headers = None\<rparr>)
      | Some origin \<Rightarrow> if rq_method rq = OPTIONS then preflight L now origin rq x c else flight L now origin rq x c)"

subsection \<open>The age of a decision\<close>

text \<open>
  A run of the module: \<open>H t\<close> is the directory at time \<open>t\<close>, which other requests change as they like;
  the clock goes forward and requests are checked against the directory of their time.
\<close>

inductive cors_run :: "cors_library \<Rightarrow> (nat \<Rightarrow> directory) \<Rightarrow> nat \<Rightarrow> cors_cache \<Rightarrow> bool" for L H where
  run_start: "cors_run L H 0 Map.empty"
| run_tick: "cors_run L H t c \<Longrightarrow> t \<le> t' \<Longrightarrow> cors_run L H t' c"
| run_check: "cors_run L H t c \<Longrightarrow> cors_check L t rq (H t) c = (c', r) \<Longrightarrow> cors_run L H t c'"

definition configured :: "cors_library \<Rightarrow> directory \<Rightarrow> bytes \<Rightarrow> cors_info list \<Rightarrow> bool" where
  "configured L x bucket rules \<longleftrightarrow>
     (case dir_get_bucket_cors bucket x of Inr (Some config) \<Rightarrow> cors_parse (co_xml L) (co_unsigned L) config = Inr rules | _ \<Rightarrow> False)"

text \<open>Every entry of the cache was the configuration of its bucket when its time began.\<close>

definition cache_ok :: "cors_library \<Rightarrow> (nat \<Rightarrow> directory) \<Rightarrow> nat \<Rightarrow> cors_cache \<Rightarrow> bool" where
  "cache_ok L H t c \<longleftrightarrow>
     (\<forall>bucket deadline rules. c bucket = Some (deadline, rules) \<longrightarrow>
        (\<exists>s\<le>t. deadline = s + co_retention L \<and> configured L (H s) bucket rules))"

lemma get_info_cases:
  assumes "get_info L t bucket x c = (c', r)"
  obtains (hit) rules deadline where "c bucket = Some (deadline, rules)" "t \<le> deadline" "c' = c" "r = Inr rules"
  | (miss) err where "c' = c \<or> c' = c(bucket := None)" "r = Inl err"
  | (load) rules where "configured L x bucket rules" "r = Inr rules"
      "c' = timed_put (co_retention L) t bucket rules c \<or> c' = timed_put (co_retention L) t bucket rules (c(bucket := None))"
  using assms
  by (auto simp: get_info_def timed_get_def configured_def split: option.splits prod.splits sum.splits if_splits) (metis+)

lemma cache_ok_get_info:
  assumes "cache_ok L H t c" and "get_info L t bucket (H t) c = (c', r)"
  shows "cache_ok L H t c'"
  using assms(2)
proof (cases rule: get_info_cases)
  case hit
  then show ?thesis using assms(1) by simp
next
  case miss
  then show ?thesis using assms(1) by (auto simp: cache_ok_def split: if_splits)
next
  case load
  then show ?thesis using assms(1) by (auto simp: cache_ok_def timed_put_def split: if_splits)
qed

lemma cors_check_info:
  assumes "cors_check L t rq x c = (c', r)"
  shows "c' = c \<or> (\<exists>r'. get_info L t (rq_bucket rq) x c = (c', r'))"
  using assms by (auto simp: cors_check_def preflight_def flight_def split: option.splits prod.splits sum.splits if_splits)

lemma cors_run_ok: "cors_run L H t c \<Longrightarrow> cache_ok L H t c"
proof (induction rule: cors_run.induct)
  case run_start
  then show ?case by (simp add: cache_ok_def)
next
  case (run_tick t c t')
  then show ?case unfolding cache_ok_def by (meson order_trans)
next
  case (run_check t c rq c' r)
  then show ?case using cors_check_info [OF run_check.hyps(2)] cache_ok_get_info by blast
qed

lemma get_info_recent:
  assumes "cors_run L H t c" and "get_info L t bucket (H t) c = (c', Inr rules)"
  shows "\<exists>s\<le>t. t \<le> s + co_retention L \<and> configured L (H s) bucket rules"
  using assms(2)
proof (cases rule: get_info_cases)
  case (hit rules' deadline)
  then show ?thesis using cors_run_ok [OF assms(1)] by (fastforce simp: cache_ok_def)
next
  case (load rules')
  then show ?thesis by auto
qed simp

definition allows :: "cors_info list \<Rightarrow> bytes \<Rightarrow> verb \<Rightarrow> bool" where
  "allows rules origin m \<longleftrightarrow> (\<exists>info\<in>set rules. (ci_origin info = origin \<or> ci_origin info = ''*'') \<and> m \<in> ci_methods info)"

lemma find_info_allows: "find_info rules origin m = Some info \<Longrightarrow> allows rules origin m"
  unfolding find_info_def allows_def find_Some_iff by (metis nth_mem)

lemma find_info_None: "find_info rules origin m = None \<longleftrightarrow> \<not> allows rules origin m"
  by (auto simp: find_info_def allows_def find_None_iff)

text \<open>
  C40: A request of another origin reaches a command, or its preflight is granted, only if a
  configuration that its bucket had within the last \<open>cache_retention\<close> allows the origin (or every
  origin) to use the method; in all other cases the answer is an error or 403.
\<close>

theorem cors_decision_recent:
  assumes "cors_run L H t c" and "rq_header rq ''origin'' = Some origin"
    and "m = (if rq_method rq = OPTIONS then map_option (co_verb L) (rq_header rq ''Access-Control-Request-Method'') else Some (rq_method rq))"
    and "cors_check L t rq (H t) c = (c', Inr result)"
  shows "\<exists>s rules. s \<le> t \<and> t \<le> s + co_retention L \<and> configured L (H s) (rq_bucket rq) rules
    \<and> (if \<exists>v. m = Some v \<and> allows rules origin v
       then (if rq_method rq = OPTIONS then \<exists>p. cr_response result = Some p \<and> res_status (rp_head p) = 204 else cr_response result = None)
       else result = cors_forbidden)"
proof -
  obtain r where g: "get_info L t (rq_bucket rq) (H t) c = (c', r)"
    using assms(2,4) by (auto simp: cors_check_def preflight_def flight_def split: prod.splits sum.splits if_splits)
  then obtain rules where r: "r = Inr rules"
    using assms(2,4) by (cases r) (auto simp: cors_check_def preflight_def flight_def split: if_splits)
  obtain s where s: "s \<le> t" "t \<le> s + co_retention L" "configured L (H s) (rq_bucket rq) rules"
    using get_info_recent [OF assms(1)] g r by blast
  have "if \<exists>v. m = Some v \<and> allows rules origin v
       then (if rq_method rq = OPTIONS then \<exists>p. cr_response result = Some p \<and> res_status (rp_head p) = 204 else cr_response result = None)
       else result = cors_forbidden"
  proof (cases "rq_method rq = OPTIONS")
    case True
    then show ?thesis using assms(2-4) g r
      by (auto simp: cors_check_def preflight_def preflight_response_def plain_reply_def preflight_headers_def set_nonempty_def find_info_None dest: find_info_allows split: option.splits)
  next
    case False
    then show ?thesis using assms(2-4) g r
      by (auto simp: cors_check_def flight_def find_info_None dest: find_info_allows split: option.splits)
  qed
  then show ?thesis using s by blast
qed

text \<open>A bucket whose configuration lets the site \<open>http://a\<close> read.\<close>

definition sample_rule :: node where
  "sample_rule = Tree [(''AllowedOrigin'', Leaf ''http://a''), (''AllowedMethod'', Leaf ''GET'')]"

definition sample_cors :: cors_library where
  "sample_cors = \<lparr>co_xml = \<lparr>xl_parse = \<lambda>_. Some (Tree [(''CORSConfiguration'', Tree [(''CORSRule'', sample_rule)])]), xl_number = \<lambda>_. None\<rparr>,
     co_unsigned = \<lambda>_. None, co_verb = \<lambda>_. GET, co_retention = 300\<rparr>"

definition sample_cors_directory :: directory where
  "sample_cors_directory = fst (set_bucket ''bucket'' (\<lambda>b. b\<lparr>b_cors := Some ''x''\<rparr>) sample_directory)"

definition sample_cors_request :: s3_request where
  "sample_cors_request = \<lparr>rq_method = GET, rq_path = ''/bucket/key'', rq_params = \<lambda>_. None, rq_fields = [(''Origin'', ''http://a'')]\<rparr>"

definition sample_info :: cors_info where
  "sample_info = \<lparr>ci_origin = ''http://a'', ci_methods = {GET}, ci_headers = [], ci_expose = Some [], ci_max_age = None\<rparr>"

lemma sample_cors_facts:
  "rq_bucket sample_cors_request = ''bucket''"
  "rq_header sample_cors_request ''origin'' = Some ''http://a''"
  "dir_get_bucket_cors ''bucket'' sample_cors_directory = Inr (Some ''x'')"
  "cors_parse (co_xml sample_cors) (co_unsigned sample_cors) ''x'' = Inr [sample_info]"
proof -
  show "rq_bucket sample_cors_request = ''bucket''" using path_parts(1) [of "''bucket''" "''key''"] by (simp add: rq_bucket_def sample_cors_request_def)
  show "rq_header sample_cors_request ''origin'' = Some ''http://a''" by code_simp
  show "dir_get_bucket_cors ''bucket'' sample_cors_directory = Inr (Some ''x'')"
    by (simp add: dir_get_bucket_cors_def vrm_bucket_cors_def sample_cors_directory_def set_bucket_def update_buckets_def sample_directory_def dir_new_def)
  show "cors_parse (co_xml sample_cors) (co_unsigned sample_cors) ''x'' = Inr [sample_info]"
    by (simp add: cors_parse_def sample_cors_def sample_rule_def parse_corse_info_def set_of_list_def map_filter_simps sample_info_def get_text_def)
qed

theorem cors_decision_recent_witness:
  "cors_run sample_cors (\<lambda>_. sample_cors_directory) 5 Map.empty
   \<and> (\<exists>s rules. s \<le> 5 \<and> 5 \<le> s + co_retention sample_cors \<and> configured sample_cors sample_cors_directory ''bucket'' rules
       \<and> allows rules ''http://a'' GET)"
proof -
  note f = sample_cors_facts
  have m: "rq_method sample_cors_request = GET" by (simp add: sample_cors_request_def)
  let ?h = "Some ((''Access-Control-Allow-Origin'', ci_origin sample_info) # put_header ''Access-Control-Expose-Headers'' (ci_expose sample_info))"
  have r: "cors_run sample_cors (\<lambda>_. sample_cors_directory) 5 Map.empty" by (rule run_tick [OF run_start]) simp
  have c: "cors_check sample_cors 5 sample_cors_request sample_cors_directory Map.empty
      = (timed_put (co_retention sample_cors) 5 ''bucket'' [sample_info] Map.empty, Inr \<lparr>cr_response = None, cr_headers = ?h\<rparr>)"
    by (simp add: cors_check_def flight_def get_info_def timed_get_def f m find_info_def) (simp add: sample_info_def)
  show ?thesis
    using cors_decision_recent [OF r f(2) refl c] r by (auto simp: f m cors_forbidden_def split: if_splits)
qed

text \<open>
  A pattern such as \<open>x-amz-*\<close> loses the character before the star, so that other names match it; a
  request that lists its headers with a space after the comma is not recognised.
\<close>

lemma wildcard_off_by_one: "equals_wildcard_single ''x-amz-*'' ''x-amzn'' \<and> \<not> equals_wildcard_single ''x-a'' '' x-a''"
  by (simp add: equals_wildcard_single_def ends_with_def Let_def)

end
