(* ===== verification/Vrm_Handler.thy ===== *)
theory Vrm_Handler
  imports Vrm_Commands Vrm_Cors
begin

text \<open>
  Connections of the entrypoint (\<open>entrypoint/handler.cpp\<close>): a request is read and authenticated, checked
  against the CORS rules and the policies, validated and executed; exceptions become answers, and the
  connection goes on with the next request. The main results say that only a request that is
  permitted changes anything, and that every request gets one answer. Writing to the socket succeeds;
  cancellation and errors of the operating system end a connection and are not modelled further. The
  result \<open>None\<close> stands for undefined behaviour and for calls that do not return.
\<close>

subsection \<open>The state of an entrypoint\<close>

record 'v entry_state =
  es_dedup :: "'v local_deduplicator"
  es_dir :: directory
  es_uploads :: uploads
  es_users :: user_tables
  es_cors :: cors_cache

text \<open>
  The components that the entrypoint uses and the libraries: the storage view, the deduplicator, hashes
  and formats, the XML, database and HTTP libraries, the source of a copy as the URL library reads it,
  the texts of exceptions, the exceptions of class \<open>error_exception\<close> and those of the operating system.
\<close>

record 'v services =
  sv_view :: "'v view_ops"
  sv_dedupe :: "bytes \<Rightarrow> ('v local_deduplicator, dedupe_response) proc"
  sv_md5 :: "bytes \<Rightarrow> bytes"
  sv_mb :: "size_t \<Rightarrow> bytes"
  sv_fixdate :: "nat \<Rightarrow> bytes"
  sv_iso_date :: "nat \<Rightarrow> bytes"
  sv_url_encode :: "bytes \<Rightarrow> bytes"
  sv_print :: "node \<Rightarrow> bytes"
  sv_db :: database
  sv_auth :: auth_library
  sv_cors :: cors_library
  sv_copy_source :: "bytes \<Rightarrow> (bytes \<times> bytes option) res"
  sv_what :: "exn \<Rightarrow> bytes"
  sv_error_exception :: "exn \<Rightarrow> bool"
  sv_system_error :: "exn \<Rightarrow> bool"
  sv_policies :: "policy list"
  sv_version :: bytes
  sv_vcsid :: bytes

text \<open>What one request takes from the clock and from random sources.\<close>

record draws =
  dr_id :: bytes
  dr_env :: env
  dr_time :: bytes
  dr_salt :: bytes
  dr_access :: bytes
  dr_secret :: bytes
  dr_random :: "bytes \<Rightarrow> bytes"

subsection \<open>Executing a command\<close>

type_synonym ('k, 'v) execution = "('k request \<times> 'v entry_state, reply) proc"

definition answer_only :: "(s3_request \<Rightarrow> 'v entry_state \<Rightarrow> reply res) \<Rightarrow> ('k, 'v) execution" where
  "answer_only f = (\<lambda>(req, es). Some ((req, es), f (command_view req) es))"

definition on_directory :: "(s3_request \<Rightarrow> directory \<Rightarrow> directory \<times> reply res) \<Rightarrow> ('k, 'v) execution" where
  "on_directory f = (\<lambda>(req, es). case f (command_view req) (es_dir es) of (x, r) \<Rightarrow> Some ((req, es\<lparr>es_dir := x\<rparr>), r))"

definition on_body :: "(s3_request \<Rightarrow> ('k request_body \<times> directory, reply) proc) \<Rightarrow> ('k, 'v) execution" where
  "on_body f = (\<lambda>(req, es).
     map_option (\<lambda>((b, x), r). ((req\<lparr>req_body := b\<rparr>, es\<lparr>es_dir := x\<rparr>), r)) (f (command_view req) (req_body req, es_dir es)))"

definition on_users :: "(s3_request \<Rightarrow> user_tables \<Rightarrow> user_tables \<times> node res) \<Rightarrow> ('k, 'v) execution" where
  "on_users f = (\<lambda>(req, es).
     case f (command_view req) (es_users es) of (t, r) \<Rightarrow> Some ((req, es\<lparr>es_users := t\<rparr>), bindE r (\<lambda>nd. Inr (xml_reply (response_new 200) nd))))"

definition xml_answer :: "node \<Rightarrow> reply" where
  "xml_answer nd = xml_reply (response_new 200) nd"

definition answers :: "'a res \<Rightarrow> ('a \<Rightarrow> reply) \<Rightarrow> reply res" where
  "answers r f = bindE r (\<lambda>x. Inr (f x))"

text \<open>The answer to a request for a version that marks a deletion has the text of an error.\<close>

definition object_reply :: "response \<times> (nat \<times> address) option \<Rightarrow> reply" where
  "object_reply p =
     (case snd p of
        Some (i, a) \<Rightarrow> \<lparr>rp_head = fst p, rp_body = Object_data i a\<rparr>
      | None \<Rightarrow> xml_reply (fst p) (Tree [(''Error'', Tree [(''Code'', Leaf ''MethodNotAllowed''),
                  (''Message'', Leaf ''The specified method is not allowed against this resource.'')])]))"

definition get_object_command :: "'v services \<Rightarrow> ('k, 'v) execution" where
  "get_object_command S = (\<lambda>(req, es).
     map_option (\<lambda>(x, r). ((req, es\<lparr>es_dir := x\<rparr>), answers r object_reply))
       (get_object_handle (sv_db S) (sv_fixdate S) (command_view req) (es_dir es)))"

definition put_object_command :: "'v services \<Rightarrow> 'k request_body body_ops \<Rightarrow> env \<Rightarrow> ('k, 'v) execution" where
  "put_object_command S B e = (\<lambda>(req, es).
     map_option (\<lambda>((b, d, x), r). ((req\<lparr>req_body := b\<rparr>, es\<lparr>es_dedup := d, es_dir := x\<rparr>), answers r plain_reply))
       (put_object_handle B (sv_view S) (sv_dedupe S) (sv_md5 S) (sv_mb S) e (command_view req) (req_body req, es_dedup es, es_dir es)))"

definition multipart_command :: "'v services \<Rightarrow> 'k request_body body_ops \<Rightarrow> ('k, 'v) execution" where
  "multipart_command S B = (\<lambda>(req, es).
     map_option (\<lambda>((b, d, u), r). ((req\<lparr>req_body := b\<rparr>, es\<lparr>es_dedup := d, es_uploads := u\<rparr>), answers r plain_reply))
       (multipart_handle B (sv_view S) (sv_dedupe S) (sv_md5 S) (sv_db S) (command_view req) (req_body req, es_dedup es, es_uploads es)))"

definition complete_multipart_command :: "'v services \<Rightarrow> 'k request_body body_ops \<Rightarrow> env \<Rightarrow> (bytes \<Rightarrow> bytes) \<Rightarrow> ('k, 'v) execution" where
  "complete_multipart_command S B e random = (\<lambda>(req, es).
     map_option (\<lambda>((b, x, u), r). ((req\<lparr>req_body := b\<rparr>, es\<lparr>es_dir := x, es_uploads := u\<rparr>), answers r (\<lambda>(head, nd). \<lparr>rp_head = head, rp_body = Xml nd\<rparr>)))
       (complete_multipart_handle B (sv_md5 S) (sv_mb S) (co_xml (sv_cors S)) (sv_db S) e random (command_view req) (req_body req, es_dir es, es_uploads es)))"

definition abort_multipart_command :: "'v services \<Rightarrow> env \<Rightarrow> (bytes \<Rightarrow> bytes) \<Rightarrow> ('k, 'v) execution" where
  "abort_multipart_command S e random = (\<lambda>(req, es).
     map_option (\<lambda>((v, u), r). ((req, es\<lparr>es_dedup := (es_dedup es)\<lparr>ld_storage := v\<rparr>, es_uploads := u\<rparr>), answers r plain_reply))
       (abort_multipart_handle (sv_view S) (sv_error_exception S) (sv_db S) e random (command_view req) (ld_storage (es_dedup es), es_uploads es)))"

text \<open>The header field of the source is dereferenced; it is there because the command was chosen by it.\<close>

definition copy_reply :: "'v services \<Rightarrow> bytes option \<Rightarrow> object \<times> bytes option \<Rightarrow> reply" where
  "copy_reply S version = (\<lambda>(ob, new_version).
     let p = xml_answer (Tree [(''CopyObjectResult'', Tree ((''LastModified'', Leaf (sv_iso_date S (ob_last_modified ob))) # put_node ''ETag'' (ob_etag ob)))])
     in p\<lparr>rp_head := res_set ''X-Amz-Version-Id'' new_version (res_set ''X-Amz-Copy-Source-Version-Id'' version (rp_head p))\<rparr>)"

definition copy_object_command :: "'v services \<Rightarrow> env \<Rightarrow> ('k, 'v) execution" where
  "copy_object_command S e = (\<lambda>(req, es).
     case rq_header (command_view req) ''x-amz-copy-source'' of
       None \<Rightarrow> None
     | Some source \<Rightarrow>
         (case sv_copy_source S (if starts_with source ''/'' then source else ''/'' @ source) of
            Inl err \<Rightarrow> Some ((req, es), Inl err)
          | Inr (path, version) \<Rightarrow>
              map_option (\<lambda>((d, x), r). ((req, es\<lparr>es_dedup := d, es_dir := x\<rparr>), answers r (copy_reply S version)))
                (copy_object_handle (sv_view S) (sv_db S) e path version (command_view req) (es_dedup es, es_dir es))))"

definition list_objects_v2_command :: "'v services \<Rightarrow> ('k, 'v) execution" where
  "list_objects_v2_command S = (\<lambda>(req, es).
     map_option (\<lambda>r. ((req, es), answers r xml_answer))
       (list_objects_v2_handle (sv_db S) (sv_url_encode S) (sv_iso_date S) (command_view req) (es_dir es)))"

definition init_multipart_command :: "env \<Rightarrow> ('k, 'v) execution" where
  "init_multipart_command e = (\<lambda>(req, es).
     case init_multipart_handle e (command_view req) (es_dir es) (es_uploads es) of
       (u, r) \<Rightarrow> Some ((req, es\<lparr>es_uploads := u\<rparr>), answers r xml_answer))"

definition delete_object_command :: "'v services \<Rightarrow> env \<Rightarrow> ('k, 'v) execution" where
  "delete_object_command S e = on_directory (\<lambda>rq x. apsnd (\<lambda>r. answers r plain_reply) (delete_object_handle (sv_db S) e rq x))"

fun command_handle :: "'v services \<Rightarrow> 'k receive \<Rightarrow> draws \<Rightarrow> command \<Rightarrow> ('k, 'v) execution" where
  "command_handle S recv dr Cmd_get_object = get_object_command S"
| "command_handle S recv dr Cmd_put_object = put_object_command S (request_body_ops (sv_auth S) recv) (dr_env dr)"
| "command_handle S recv dr Cmd_multipart = multipart_command S (request_body_ops (sv_auth S) recv)"
| "command_handle S recv dr Cmd_init_multipart = init_multipart_command (dr_env dr)"
| "command_handle S recv dr Cmd_complete_multipart = complete_multipart_command S (request_body_ops (sv_auth S) recv) (dr_env dr) (dr_random dr)"
| "command_handle S recv dr Cmd_list_object_versions =
     answer_only (\<lambda>rq es. answers (list_object_versions_handle (sv_db S) (sv_url_encode S) (sv_iso_date S) rq (es_dir es)) xml_answer)"
| "command_handle S recv dr Cmd_list_objects_v2 = list_objects_v2_command S"
| "command_handle S recv dr Cmd_list_objects =
     answer_only (\<lambda>rq es. answers (list_objects_handle (sv_db S) (sv_url_encode S) (sv_iso_date S) rq (es_dir es)) xml_answer)"
| "command_handle S recv dr Cmd_list_buckets = answer_only (\<lambda>rq es. Inr (xml_answer (list_buckets_handle (es_dir es))))"
| "command_handle S recv dr Cmd_head_object = answer_only (\<lambda>rq es. answers (head_object_handle (sv_db S) (sv_fixdate S) rq (es_dir es)) plain_reply)"
| "command_handle S recv dr Cmd_head_bucket = answer_only (\<lambda>rq es. head_bucket_handle rq (es_dir es))"
| "command_handle S recv dr Cmd_create_bucket = on_directory create_bucket_handle"
| "command_handle S recv dr Cmd_copy_object = copy_object_command S (dr_env dr)"
| "command_handle S recv dr Cmd_list_multipart = answer_only (\<lambda>rq es. answers (list_multipart_handle rq (es_uploads es)) xml_answer)"
| "command_handle S recv dr Cmd_get_metrics =
     answer_only (\<lambda>rq es. Inr (get_metrics_handle (sv_version S) (sv_vcsid S) (sv_view S) (ld_storage (es_dedup es)) (es_dir es)))"
| "command_handle S recv dr Cmd_delete_object = delete_object_command S (dr_env dr)"
| "command_handle S recv dr Cmd_delete_objects = on_body (delete_objects_handle (request_body_ops (sv_auth S) recv) (co_xml (sv_cors S)) (sv_db S) (dr_env dr))"
| "command_handle S recv dr Cmd_delete_bucket = on_directory (delete_bucket_handle (sv_db S))"
| "command_handle S recv dr Cmd_abort_multipart = abort_multipart_command S (dr_env dr) (dr_random dr)"
| "command_handle S recv dr Cmd_get_bucket_policy = answer_only (\<lambda>rq es. get_bucket_policy_handle rq (es_dir es))"
| "command_handle S recv dr Cmd_put_bucket_policy = on_body (put_bucket_policy_handle (request_body_ops (sv_auth S) recv) (sv_db S))"
| "command_handle S recv dr Cmd_delete_bucket_policy = on_directory (delete_bucket_policy_handle (sv_db S))"
| "command_handle S recv dr Cmd_get_ready = answer_only (\<lambda>rq es. Inr get_ready_handle)"
| "command_handle S recv dr Cmd_get_bucket_cors = answer_only (\<lambda>rq es. get_bucket_cors_handle rq (es_dir es))"
| "command_handle S recv dr Cmd_delete_bucket_cors = on_directory (delete_bucket_cors_handle (sv_db S))"
| "command_handle S recv dr Cmd_put_bucket_cors = on_body (put_bucket_cors_handle (request_body_ops (sv_auth S) recv) (sv_db S))"
| "command_handle S recv dr Cmd_get_bucket_versioning = answer_only (\<lambda>rq es. get_bucket_versioning_handle rq (es_dir es))"
| "command_handle S recv dr Cmd_put_bucket_versioning = on_body (put_bucket_versioning_handle (request_body_ops (sv_auth S) recv) (co_xml (sv_cors S)))"
| "command_handle S recv dr Cmd_create_user =
     (\<lambda>(req, es). on_users (create_user_handle (al_crypt (sv_auth S)) (dr_env dr) (dr_salt dr) (req_user req)) (req, es))"
| "command_handle S recv dr Cmd_delete_user = on_users delete_user_handle"
| "command_handle S recv dr Cmd_create_access_key = on_users (create_access_key_handle (dr_env dr) (dr_access dr) (dr_secret dr))"
| "command_handle S recv dr Cmd_delete_access_key = on_users (delete_access_key_handle (al_json (sv_auth S)) (al_time (sv_auth S)) (dr_env dr))"
| "command_handle S recv dr Cmd_put_user_policy = on_users (put_user_policy_handle (al_json (sv_auth S)) (al_time (sv_auth S)) (sv_db S))"
| "command_handle S recv dr Cmd_list_user_policies = on_users (\<lambda>rq t. (t, list_user_policies_handle rq t))"
| "command_handle S recv dr Cmd_get_user_policy = on_users (\<lambda>rq t. (t, get_user_policy_handle rq t))"
| "command_handle S recv dr Cmd_delete_user_policy = on_users delete_user_policy_handle"

text \<open>Two commands check the request before its body is asked for.\<close>

definition command_validate :: "command \<Rightarrow> s3_request \<Rightarrow> directory \<Rightarrow> unit res option" where
  "command_validate cmd rq x =
     (case cmd of
        Cmd_put_object \<Rightarrow> Some (dir_bucket_exists (rq_bucket rq) x)
      | Cmd_multipart \<Rightarrow> multipart_validate rq
      | _ \<Rightarrow> Some (Inr ()))"

subsection \<open>Handling a request\<close>

definition request_vars :: "bytes \<Rightarrow> bytes \<Rightarrow> command \<Rightarrow> 'k request \<Rightarrow> vars" where
  "request_vars peer now cmd req name =
     (let rq = command_view req
      in provider_get (default_providers now) name
           \<lparr>ri_action_id = action_id cmd, ri_arn = rq_arn rq, ri_user_arn = ur_arn (req_user req), ri_user_name = ur_name (req_user req),
            ri_user_id = ur_id (req_user req), ri_peer = peer, ri_header = rq_header rq, ri_query = rq_params rq\<rparr>)"

definition request_policy_check :: "'v services \<Rightarrow> bytes \<Rightarrow> draws \<Rightarrow> command \<Rightarrow> 'k request \<Rightarrow> directory \<Rightarrow> effect res" where
  "request_policy_check S peer dr cmd req x =
     (let bucket = rq_bucket (command_view req)
      in module_check (al_json (sv_auth S)) (al_time (sv_auth S)) (sv_policies S) bucket (dir_get_bucket_policy bucket x)
           (ur_policies (req_user req)) (request_vars peer (dr_time dr) cmd req))"

definition permission :: "'v services \<Rightarrow> bytes \<Rightarrow> draws \<Rightarrow> command \<Rightarrow> 'k request \<Rightarrow> directory \<Rightarrow> unit res" where
  "permission S peer dr cmd req x =
     (if ur_super (req_user req) then Inr ()
      else bindE (request_policy_check S peer dr cmd req x) (\<lambda>eff. if eff = Deny then Inl (Command_exception 403 ''AccessDenied'') else Inr ()))"

definition add_cors_headers :: "(bytes \<times> bytes) list option \<Rightarrow> reply \<Rightarrow> reply" where
  "add_cors_headers hs p = (case hs of None \<Rightarrow> p | Some l \<Rightarrow> p\<lparr>rp_head := fold (\<lambda>(k, v). res_set k (Some v)) l (rp_head p)\<rparr>)"

record ('k, 'v) connection =
  cn_stream :: "'k socket_stream"
  cn_state :: "'v entry_state"
  cn_sent :: "(response \<times> bytes) list"

definition MEBI_64 :: size_t where
  "MEBI_64 = 64 * 1048576"

text \<open>
  Sending an answer: the body of an object is read from the storage view while it is sent, and the
  object is unlocked afterwards.
\<close>

definition write_reply :: "'v services \<Rightarrow> draws \<Rightarrow> reply \<Rightarrow> (('k, 'v) connection, unit) proc" where
  "write_reply S dr p c =
     (let date = sv_fixdate S (e_now (dr_env dr));
          sent = (\<lambda>c' r. (case r of Inl err \<Rightarrow> (c', Inl err) | Inr m \<Rightarrow> (c'\<lparr>cn_sent := cn_sent c @ [m]\<rparr>, Inr ())));
          write_text = (\<lambda>t. map_option (\<lambda>(_, r). sent c r) (response_write string_body_ops (dr_id dr) date (rp_head p) \<lparr>sb_body = t, sb_read = 0\<rparr>))
      in case rp_body p of
           Text t \<Rightarrow> write_text t
         | Xml nd \<Rightarrow> write_text (sv_print S nd @ newline)
         | Object_data i a \<Rightarrow>
             map_option (\<lambda>(_, r). sent (c\<lparr>cn_state := (cn_state c)\<lparr>es_dir := dir_unref i (es_dir (cn_state c))\<rparr>\<rparr>) r)
               (response_write (read_handle_ops (sv_view S)) (dr_id dr) date (rp_head p) (read_handle_new (ld_storage (es_dedup (cn_state c))) a MEBI_64)))"

definition send_continue :: "'v services \<Rightarrow> draws \<Rightarrow> s3_request \<Rightarrow> (('k, 'v) connection, unit) proc" where
  "send_continue S dr rq c =
     (if rq_header rq ''expect'' = Some ''100-continue'' then write_reply S dr (plain_reply (response_new 100)) c else Some (c, Inr ()))"

text \<open>The body of a request reads from the stream of the connection, and leaves it where it stopped.\<close>

definition execute :: "'v services \<Rightarrow> 'k receive \<Rightarrow> draws \<Rightarrow> command \<Rightarrow> 'k request \<Rightarrow> (('k, 'v) connection, reply) proc" where
  "execute S recv dr cmd req c =
     map_option (\<lambda>((req', es), r). (c\<lparr>cn_stream := body_stream (req_body req'), cn_state := es\<rparr>, r)) (command_handle S recv dr cmd (req, cn_state c))"

definition run_command :: "'v services \<Rightarrow> 'k receive \<Rightarrow> bytes \<Rightarrow> draws \<Rightarrow> (bytes \<times> bytes) list option \<Rightarrow> command \<Rightarrow> 'k request \<Rightarrow> (('k, 'v) connection, reply) proc" where
  "run_command S recv peer dr hs cmd req c =
     (case permission S peer dr cmd req (es_dir (cn_state c)) of
        Inl err \<Rightarrow> Some (c, Inl err)
      | Inr _ \<Rightarrow>
          (case command_validate cmd (command_view req) (es_dir (cn_state c)) of
             None \<Rightarrow> None
           | Some (Inl err) \<Rightarrow> Some (c, Inl err)
           | Some (Inr _) \<Rightarrow>
               bindP (send_continue S dr (command_view req)) (\<lambda>_.
               bindP (execute S recv dr cmd req) (\<lambda>p. retP (add_cors_headers hs p))) c))"

definition checked_request :: "'v services \<Rightarrow> 'k receive \<Rightarrow> bytes \<Rightarrow> draws \<Rightarrow> 'k request \<Rightarrow> (('k, 'v) connection, reply) proc" where
  "checked_request S recv peer dr req c =
     (case cors_check (sv_cors S) (e_now (dr_env dr)) (command_view req) (es_dir (cn_state c)) (es_cors (cn_state c)) of
        (cc, r) \<Rightarrow>
          (let c1 = c\<lparr>cn_state := (cn_state c)\<lparr>es_cors := cc\<rparr>\<rparr>
           in case r of
                Inl err \<Rightarrow> Some (c1, Inl err)
              | Inr cr \<Rightarrow>
                  (case cr_response cr of
                     Some p \<Rightarrow> Some (c1, Inr p)
                   | None \<Rightarrow>
                       (case command_factory_create (sv_auth S) recv req of
                          None \<Rightarrow> None
                        | Some (req', Inl err) \<Rightarrow> Some (c1\<lparr>cn_stream := body_stream (req_body req')\<rparr>, Inl err)
                        | Some (req', Inr cmd) \<Rightarrow>
                            run_command S recv peer dr (cr_headers cr) cmd req' (c1\<lparr>cn_stream := body_stream (req_body req')\<rparr>)))))"

definition handle_request :: "'v services \<Rightarrow> 'k receive \<Rightarrow> bytes \<Rightarrow> draws \<Rightarrow> (('k, 'v) connection, reply) proc" where
  "handle_request S recv peer dr c =
     (case ss_consume (cn_stream c) of
        None \<Rightarrow> None
      | Some (s1, Inl err) \<Rightarrow> Some (c\<lparr>cn_stream := s1\<rparr>, Inl err)
      | Some (s1, Inr _) \<Rightarrow>
          (case request_factory_create (sv_auth S) recv (dr_env dr) (es_users (cn_state c)) s1 of
             None \<Rightarrow> None
           | Some (s2, Inl err) \<Rightarrow> Some (c\<lparr>cn_stream := s2\<rparr>, Inl err)
           | Some (s2, Inr req) \<Rightarrow> checked_request S recv peer dr req (c\<lparr>cn_stream := s2\<rparr>)))"

text \<open>One round of the loop of a connection; the second component tells whether the connection stays open.\<close>

definition handle_turn :: "'v services \<Rightarrow> 'k receive \<Rightarrow> bytes \<Rightarrow> draws \<Rightarrow> ('k, 'v) connection \<Rightarrow> (('k, 'v) connection \<times> bool) option" where
  "handle_turn S recv peer dr c =
     (case handle_request S recv peer dr c of
        None \<Rightarrow> None
      | Some (c1, r) \<Rightarrow>
          (case r of
             Inl err \<Rightarrow>
               if sv_system_error S err then Some (c1, False)
               else map_option (\<lambda>(c2, w). (c2, \<not> isl w)) (write_reply S dr (make_response (sv_what S) err) c1)
           | Inr p \<Rightarrow> map_option (\<lambda>(c2, w). (c2, \<not> isl w)) (write_reply S dr p c1)))"

fun handle :: "'v services \<Rightarrow> 'k receive \<Rightarrow> bytes \<Rightarrow> draws list \<Rightarrow> ('k, 'v) connection \<Rightarrow> ('k, 'v) connection option" where
  "handle S recv peer [] c = Some c"
| "handle S recv peer (dr # drs) c =
     (case handle_turn S recv peer dr c of
        None \<Rightarrow> None
      | Some (c', open_still) \<Rightarrow> if open_still then handle S recv peer drs c' else Some c')"

subsection \<open>Only permitted requests change anything\<close>

text \<open>What the clients of a cluster share; the cache of CORS rules is not part of it.\<close>

definition same_data :: "'v entry_state \<Rightarrow> 'v entry_state \<Rightarrow> bool" where
  "same_data es es' \<longleftrightarrow> es_dedup es' = es_dedup es \<and> es_dir es' = es_dir es \<and> es_uploads es' = es_uploads es \<and> es_users es' = es_users es"

fun text_body :: "answer \<Rightarrow> bool" where
  "text_body (Object_data i a) = False"
| "text_body b = True"

text \<open>A text is sent completely, and nothing else changes.\<close>

definition text_of :: "'v services \<Rightarrow> answer \<Rightarrow> bytes" where
  "text_of S b = (case b of Text t \<Rightarrow> t | Xml nd \<Rightarrow> sv_print S nd @ newline | Object_data i a \<Rightarrow> [])"

lemma write_text_reply:
  assumes "text_body (rp_body p)"
  shows "\<exists>head. write_reply S dr p c = Some (c\<lparr>cn_sent := cn_sent c @ [(head, text_of S (rp_body p))]\<rparr>, Inr ()) \<and> res_status head = res_status (rp_head p)"
proof -
  have w: "\<exists>b'. response_write string_body_ops (dr_id dr) date (rp_head p) \<lparr>sb_body = t, sb_read = 0\<rparr>
      = Some (b', Inr (response_headers string_body_ops (dr_id dr) date (rp_head p) \<lparr>sb_body = t, sb_read = 0\<rparr>, t))" for date t
    using string_body.response_write_rest [of "\<lparr>sb_body = t, sb_read = 0\<rparr>"] by (simp add: sb_ok_def sb_rest_def)
  have st: "res_status (response_headers string_body_ops i date r b) = res_status r" for i date r b
    by (simp add: response_headers_def Let_def)
  show ?thesis
  proof (cases "rp_body p")
    case (Text t)
    then show ?thesis using w [of "sv_fixdate S (e_now (dr_env dr))" t] by (auto simp: write_reply_def Let_def text_of_def st)
  next
    case (Xml nd)
    then show ?thesis using w [of "sv_fixdate S (e_now (dr_env dr))" "sv_print S nd @ newline"] by (auto simp: write_reply_def Let_def text_of_def st)
  qed (use assms in simp)
qed

lemma make_response_text [simp]: "text_body (rp_body (make_response what err))"
  by (simp add: make_response_def error_response_def xml_reply_def split: exn.split)

lemma cors_response_text:
  assumes "cors_check L now rq x cc = (cc', Inr cr)" and "cr_response cr = Some p"
  shows "text_body (rp_body p)"
  using assms
  by (auto simp: cors_check_def preflight_def flight_def cors_forbidden_def preflight_response_def plain_reply_def error_response_def xml_reply_def
      split: option.splits if_splits prod.splits sum.splits)

lemma iam_factory_user:
  assumes "command_factory_create A recv req = Some (req', r)"
  shows "req_user req' = req_user req"
  using assms by (auto simp: command_factory_create_def action_command_def set_query_params_def bindE_def split: if_splits sum.splits option.splits prod.splits)

lemma run_command_denied:
  assumes "permission S peer dr cmd req (es_dir (cn_state c)) = Inl err"
  shows "run_command S recv peer dr hs cmd req c = Some (c, Inl err)"
  using assms by (simp add: run_command_def)

text \<open>The three ways a request is handled: it fails before a command is run, CORS answers it, or a command is run.\<close>

lemma checked_request_cases:
  assumes "checked_request S recv peer dr req c = Some (c', r)"
  obtains (early) err where "r = Inl err" "same_data (cn_state c) (cn_state c')" "cn_sent c' = cn_sent c"
  | (cors) p where "r = Inr p" "text_body (rp_body p)" "same_data (cn_state c) (cn_state c')" "cn_sent c' = cn_sent c"
  | (ran) req' cmd hs c1 where "command_factory_create (sv_auth S) recv req = Some (req', Inr cmd)"
      "same_data (cn_state c) (cn_state c1)" "cn_sent c1 = cn_sent c" "cn_stream c1 = body_stream (req_body req')"
      "run_command S recv peer dr hs cmd req' c1 = Some (c', r)"
proof -
  obtain cc k where 1: "cors_check (sv_cors S) (e_now (dr_env dr)) (command_view req) (es_dir (cn_state c)) (es_cors (cn_state c)) = (cc, k)"
    by fastforce
  consider (refused) err where "k = Inl err" | (answered) cr p where "k = Inr cr" "cr_response cr = Some p" | (passed) cr where "k = Inr cr" "cr_response cr = None"
    by (cases k) auto
  then show thesis
  proof cases
    case refused
    then show thesis using assms 1 early by (auto simp: checked_request_def same_data_def)
  next
    case (answered cr p)
    then show thesis using assms 1 cors [of p] cors_response_text [of _ _ _ _ _ cc cr p] by (auto simp: checked_request_def same_data_def)
  next
    case (passed cr)
    note d = assms 1 passed
    obtain req' g where 2: "command_factory_create (sv_auth S) recv req = Some (req', g)"
      using d by (auto simp: checked_request_def Let_def split: option.splits)
    show thesis
    proof (cases g)
      case (Inl err)
      then show thesis using d 2 early by (auto simp: checked_request_def same_data_def)
    next
      case (Inr cmd)
      let ?c1 = "c\<lparr>cn_state := (cn_state c)\<lparr>es_cors := cc\<rparr>, cn_stream := body_stream (req_body req')\<rparr>"
      have "run_command S recv peer dr (cr_headers cr) cmd req' ?c1 = Some (c', r)" using d 2 Inr by (simp add: checked_request_def Let_def)
      then show thesis using 2 Inr ran [of req' cmd ?c1] by (auto simp: same_data_def)
    qed
  qed
qed

lemma handle_request_cases:
  assumes "handle_request S recv peer dr c = Some (c', r)"
  obtains (unread) err where "r = Inl err" "cn_state c' = cn_state c" "cn_sent c' = cn_sent c"
  | (read) s1 s2 req where "ss_consume (cn_stream c) = Some (s1, Inr ())"
      "request_factory_create (sv_auth S) recv (dr_env dr) (es_users (cn_state c)) s1 = Some (s2, Inr req)"
      "checked_request S recv peer dr req (c\<lparr>cn_stream := s2\<rparr>) = Some (c', r)"
proof -
  obtain s1 where 1: "ss_consume (cn_stream c) = Some (s1, Inr ())" by (simp add: ss_consume_def)
  obtain s2 q where 2: "request_factory_create (sv_auth S) recv (dr_env dr) (es_users (cn_state c)) s1 = Some (s2, q)"
    using assms 1 by (auto simp: handle_request_def split: option.splits)
  show thesis using assms 1 2 unread read by (cases q) (auto simp: handle_request_def)
qed

text \<open>
  C12: A request that changes objects, buckets, uploads, users or stored data was authenticated, names a command,
  and its user is a super user or the policies allow the command; a request that fails any of these
  tests leaves all of it as it is, whatever is sent and received.
\<close>

theorem only_permitted_requests_change:
  assumes "handle_turn S recv peer dr c = Some (c', still)" and "\<not> same_data (cn_state c) (cn_state c')"
  shows "\<exists>s1 s2 req req' cmd. ss_consume (cn_stream c) = Some (s1, Inr ())
    \<and> request_factory_create (sv_auth S) recv (dr_env dr) (es_users (cn_state c)) s1 = Some (s2, Inr req)
    \<and> command_factory_create (sv_auth S) recv req = Some (req', Inr cmd) \<and> req_user req' = req_user req
    \<and> (ur_super (req_user req) \<or> request_policy_check S peer dr cmd req' (es_dir (cn_state c)) = Inr Allow)"
proof -
  obtain c1 r where h: "handle_request S recv peer dr c = Some (c1, r)"
    using assms(1) by (auto simp: handle_turn_def split: option.splits)
  have unchanged: "cn_state c' = cn_state c1" if "case r of Inl err \<Rightarrow> True | Inr p \<Rightarrow> text_body (rp_body p)"
  proof (cases r)
    case (Inl err)
    then show ?thesis using assms(1) h write_text_reply [OF make_response_text, of S dr "sv_what S" err c1]
      by (auto simp: handle_turn_def split: if_splits)
  next
    case (Inr p)
    then show ?thesis using assms(1) h that write_text_reply [of p S dr c1] by (auto simp: handle_turn_def)
  qed
  from h show ?thesis
  proof (cases rule: handle_request_cases)
    case unread
    then show ?thesis using unchanged assms(2) by (simp add: same_data_def)
  next
    case (read s1 s2 req)
    from read(3) show ?thesis
    proof (cases rule: checked_request_cases)
      case (ran req' cmd hs c0)
      have d: "es_dir (cn_state c0) = es_dir (cn_state c)" using ran(2) by (simp add: same_data_def)
      have u: "req_user req' = req_user req" using iam_factory_user [OF ran(1)] .
      have "\<not> isl (permission S peer dr cmd req' (es_dir (cn_state c0)))"
      proof
        assume "isl (permission S peer dr cmd req' (es_dir (cn_state c0)))"
        then have "c1 = c0" "isl r" using ran(5) by (auto simp: isl_def run_command_denied)
        then show False using unchanged ran(2) assms(2) by (auto simp: isl_def)
      qed
      then have "ur_super (req_user req) \<or> request_policy_check S peer dr cmd req' (es_dir (cn_state c)) = Inr Allow"
      proof (cases "request_policy_check S peer dr cmd req' (es_dir (cn_state c))")
        case (Inr eff)
        then show ?thesis using \<open>\<not> isl _\<close> d u by (cases eff) (simp_all add: permission_def split: if_splits)
      qed (use d u in \<open>simp add: permission_def split: if_splits\<close>)
      then show ?thesis using read(1,2) ran(1) u by blast
    qed (use unchanged assms(2) in simp_all)
  qed
qed

text \<open>An anonymous request that creates a bucket, where a policy allows everything.\<close>

definition sample_services :: "(size_t \<Rightarrow> size_t option) data_store rr_view services" where
  "sample_services = \<lparr>sv_view = rr_ops (local_ops slow_os map_kv), sv_dedupe = \<lambda>_ d. Some (d, Inl Runtime_error), sv_md5 = \<lambda>_. [], sv_mb = \<lambda>_. [],
     sv_fixdate = \<lambda>_. [], sv_iso_date = \<lambda>_. [], sv_url_encode = \<lambda>s. s, sv_print = \<lambda>_. [], sv_db = sample_db,
     sv_auth = sample_library\<lparr>al_http := \<lparr>hl_parse = \<lambda>_. Some \<lparr>hh_method = ''PUT'', hh_version = 11, hh_target = ''/bucket'', hh_fields = []\<rparr>,
       hl_url = \<lambda>p q. Inr (p, p, [])\<rparr>\<rparr>,
     sv_cors = sample_cors, sv_copy_source = \<lambda>s. Inr (s, None), sv_what = \<lambda>_. [], sv_error_exception = \<lambda>_. False, sv_system_error = \<lambda>_. False,
     sv_policies = [\<lparr>p_id = [], p_matchers = [], p_effect = Allow\<rparr>], sv_version = [], sv_vcsid = []\<rparr>"

definition sample_draws :: draws where
  "sample_draws = \<lparr>dr_id = ''1'', dr_env = sample_env 0, dr_time = [], dr_salt = [], dr_access = [], dr_secret = [], dr_random = \<lambda>s. s\<rparr>"

definition sample_connection :: "(bytes, (size_t \<Rightarrow> size_t option) data_store rr_view) connection" where
  "sample_connection = \<lparr>cn_stream = ss_new (CRLF @ CRLF) 16,
     cn_state = \<lparr>es_dedup = sample_dedup, es_dir = dir_new, es_uploads = \<lparr>up_uploads = [], up_parts = []\<rparr>, es_users = ut_new, es_cors = Map.empty\<rparr>, cn_sent = []\<rparr>"

definition sample_put :: raw_request where
  "sample_put = \<lparr>rw_method = ''PUT'', rw_path = ''/bucket'', rw_encoded_path = ''/bucket'', rw_params = [], rw_headers = []\<rparr>"

lemma sample_put_created:
  "\<exists>s1 s2 b. ss_consume (cn_stream sample_connection) = Some (s1, Inr ())
     \<and> request_factory_create (sv_auth sample_services) flat_recv (dr_env sample_draws) (es_users (cn_state sample_connection)) s1
         = Some (s2, Inr \<lparr>req_raw = sample_put, req_body = Raw_body b, req_user = anonymous_user\<rparr>)"
proof -
  have ok: "ss_ok (ss_new (CRLF @ CRLF) 16)" by (simp add: ss_ok_def ss_new_def)
  obtain s1 where s1: "ss_consume (ss_new (CRLF @ CRLF) 16) = Some (s1, Inr ())" "ss_ok s1" "ss_get s1 = 0"
    "ss_rest (\<lambda>k. k) s1 = ss_rest (\<lambda>k. k) (ss_new (CRLF @ CRLF) 16)" "length (ss_buffer s1) = 16"
    using flat_socket.ss_consume_ok [OF ok] by (auto simp: ss_new_def)
  obtain s2 where s2: "ss_consume s1 = Some (s2, Inr ())" "ss_ok s2" "ss_get s2 = 0" "ss_rest (\<lambda>k. k) s2 = ss_rest (\<lambda>k. k) s1" "length (ss_buffer s2) = 16"
    using flat_socket.ss_consume_ok [OF s1(2)] s1(5) by auto
  have "find_str (CRLF @ CRLF) (ss_rest (\<lambda>k. k) s2) = Some 0"
    using s1(4) s2(4) by (simp add: ss_rest_def ss_buffered_def ss_new_def slice_def CRLF_def)
  from flat_socket.ss_read_until_ok [OF s2(2) _ this] obtain s3 x where "ss_read_until flat_recv (CRLF @ CRLF) s2 = Some (s3, Inr x)"
    using s2(3,5) by auto
  then have "raw_read (al_http (sv_auth sample_services)) flat_recv s2 = Some (s3, Inr sample_put)"
    by (simp add: raw_read_def bindP_def sample_services_def raw_from_string_def bindE_def sample_put_def map_of_pairs_def)
  moreover have "raw_optional sample_put name = None" for name by (simp add: raw_optional_def sample_put_def)
  moreover have "rw_params sample_put = []" by (simp add: sample_put_def)
  ultimately show ?thesis using s1(1) s2(1)
    by (simp add: sample_connection_def request_factory_create_def bindP_def no_auth_create_def plain_body_def raw_body_new_def get_length_def bindE_def)
qed

lemma sample_put_command:
  "s3_command (command_view \<lparr>req_raw = sample_put, req_body = b, req_user = u\<rparr>) = Inr Cmd_create_bucket"
proof -
  have "rq_bucket (command_view \<lparr>req_raw = sample_put, req_body = b, req_user = u\<rparr>) = ''bucket''"
    "rq_key (command_view \<lparr>req_raw = sample_put, req_body = b, req_user = u\<rparr>) = []"
    using bucket_path [of "''bucket''"] by (simp_all add: rq_bucket_def rq_key_def command_view_def sample_put_def)
  moreover have "rq_method (command_view \<lparr>req_raw = sample_put, req_body = b, req_user = u\<rparr>) = PUT" "rq_params (command_view \<lparr>req_raw = sample_put, req_body = b, req_user = u\<rparr>) = (\<lambda>_. None)"
    by (simp_all add: command_view_def sample_put_def verb_of_def fun_eq_iff)
  ultimately show ?thesis
    by (simp add: s3_command_def s3_commands_def can_handle_defs bucket_request_def object_request_def has_query_def RESERVED_BUCKET_NAME_def)
qed

lemma sample_turn:
  "\<exists>c'. handle_turn sample_services flat_recv [] sample_draws sample_connection = Some (c', True) \<and> es_dir (cn_state c') = sample_directory"
proof -
  obtain s1 s2 b where c: "ss_consume (cn_stream sample_connection) = Some (s1, Inr ())"
    "request_factory_create (sv_auth sample_services) flat_recv (dr_env sample_draws) (es_users (cn_state sample_connection)) s1
       = Some (s2, Inr \<lparr>req_raw = sample_put, req_body = Raw_body b, req_user = anonymous_user\<rparr>)"
    using sample_put_created by blast
  let ?req = "\<lparr>req_raw = sample_put, req_body = Raw_body b, req_user = anonymous_user\<rparr>"
  let ?c1 = "sample_connection\<lparr>cn_stream := rb_stream b\<rparr>" and ?p = "plain_reply (response_new 200)"
  have h: "rq_header (command_view ?req) name = None" for name by (simp add: rq_header_def command_view_def sample_put_def)
  have b: "rq_bucket (command_view ?req) = ''bucket''" using bucket_path [of "''bucket''"] by (simp add: rq_bucket_def command_view_def sample_put_def)
  have path: "rq_path (command_view ?req) \<noteq> ''/''" by (simp add: command_view_def sample_put_def)
  have "validate_bucket_name ''bucket'' = Inr ()" by code_simp
  then have x: "dir_put_bucket ''bucket'' dir_new = (sample_directory, Inr ())"
    by (simp add: dir_put_bucket_def vrm_create_bucket_def vrm_check_bucket_def dir_new_def sample_directory_def)
  have d: "es_dir (cn_state sample_connection) = dir_new" by (simp add: sample_connection_def)
  have "permission sample_services [] sample_draws Cmd_create_bucket ?req dir_new = Inr ()"
    by (simp add: permission_def request_policy_check_def sample_services_def module_check_def policy_check_def bucket_verdict_def b bindE_def
        dir_get_bucket_policy_def vrm_bucket_policy_def dir_new_def anonymous_user_def)
  then have "run_command sample_services flat_recv [] sample_draws None Cmd_create_bucket ?req ?c1
      = Some (?c1\<lparr>cn_state := (cn_state sample_connection)\<lparr>es_dir := sample_directory\<rparr>\<rparr>, Inr ?p)"
    by (simp add: run_command_def d command_validate_def send_continue_def h execute_def on_directory_def create_bucket_handle_def b x answered_def bindE_def
        add_cors_headers_def)
  then have "handle_request sample_services flat_recv [] sample_draws sample_connection
      = Some (?c1\<lparr>cn_state := (cn_state sample_connection)\<lparr>es_dir := sample_directory\<rparr>\<rparr>, Inr ?p)"
    using c by (simp add: handle_request_def checked_request_def cors_check_def h command_factory_create_def path sample_put_command)
  then show ?thesis using write_text_reply [of ?p sample_services sample_draws "?c1\<lparr>cn_state := (cn_state sample_connection)\<lparr>es_dir := sample_directory\<rparr>\<rparr>"]
    by (auto simp: handle_turn_def plain_reply_def)
qed

theorem only_permitted_requests_change_witness:
  "\<exists>c'. handle_turn sample_services flat_recv [] sample_draws sample_connection = Some (c', True) \<and> \<not> same_data (cn_state sample_connection) (cn_state c')
    \<and> (\<exists>(req :: bytes request) cmd. ur_super (req_user req) \<or> request_policy_check sample_services [] sample_draws cmd req dir_new = Inr Allow)"
proof -
  obtain c' where c: "handle_turn sample_services flat_recv [] sample_draws sample_connection = Some (c', True)" "es_dir (cn_state c') = sample_directory"
    using sample_turn by blast
  have e: "es_dir (cn_state sample_connection) = dir_new" by (simp add: sample_connection_def)
  have d: "\<not> same_data (cn_state sample_connection) (cn_state c')"
    using c(2) by (simp add: same_data_def e sample_directory_def dir_new_def)
  from only_permitted_requests_change [OF c(1) d] obtain req req' :: "bytes request" and cmd where
    "ur_super (req_user req) \<or> request_policy_check sample_services [] sample_draws cmd req' dir_new = Inr Allow" "req_user req' = req_user req"
    unfolding e by blast
  then show ?thesis using c(1) d by (intro exI [of _ c'] conjI exI [of _ req'] exI [of _ cmd]) simp_all
qed

subsection \<open>Every request is answered\<close>

definition interim :: "(response \<times> bytes) list \<Rightarrow> bool" where
  "interim msgs \<longleftrightarrow> msgs = [] \<or> (\<exists>head t. msgs = [(head, t)] \<and> res_status head = 100)"

definition status_of :: "exn \<Rightarrow> nat" where
  "status_of err = (case err of Command_exception status _ \<Rightarrow> status | _ \<Rightarrow> 500)"

lemma send_continue_sent:
  "\<exists>msgs. send_continue S dr rq c = Some (c\<lparr>cn_sent := cn_sent c @ msgs\<rparr>, Inr ()) \<and> interim msgs"
proof (cases "rq_header rq ''expect'' = Some ''100-continue''")
  case True
  then show ?thesis using write_text_reply [of "plain_reply (response_new 100)" S dr c]
    by (fastforce simp: send_continue_def plain_reply_def interim_def)
next
  case False
  then show ?thesis by (intro exI [of _ "[]"]) (simp add: send_continue_def interim_def)
qed

lemma run_command_sent:
  assumes "run_command S recv peer dr hs cmd req c = Some (c', r)"
  shows "\<exists>msgs. cn_sent c' = cn_sent c @ msgs \<and> interim msgs"
proof -
  obtain msgs where m: "send_continue S dr (command_view req) c = Some (c\<lparr>cn_sent := cn_sent c @ msgs\<rparr>, Inr ())" "interim msgs"
    using send_continue_sent by blast
  have "cn_sent c' = cn_sent c \<or> cn_sent c' = cn_sent c @ msgs"
    using assms m(1) by (auto simp: run_command_def bindP_def execute_def retP_def split: sum.splits option.splits prod.splits)
  then show ?thesis using m(2) by (auto simp: interim_def)
qed

lemma handle_request_sent:
  assumes "handle_request S recv peer dr c = Some (c', r)"
  shows "\<exists>msgs. cn_sent c' = cn_sent c @ msgs \<and> interim msgs"
  using assms
proof (cases rule: handle_request_cases)
  case (read s1 s2 req)
  from read(3) show ?thesis
  proof (cases rule: checked_request_cases)
    case (ran req' cmd hs c1)
    then show ?thesis using run_command_sent [OF ran(5)] by simp
  qed (simp_all add: interim_def)
qed (simp add: interim_def)

lemma write_reply_sent:
  assumes "write_reply S dr p c = Some (c', w)"
  shows "(\<exists>m. w = Inr () \<and> cn_sent c' = cn_sent c @ [m]) \<or> (\<exists>err. w = Inl err \<and> cn_sent c' = cn_sent c)"
proof (cases "rp_body p")
  case (Object_data i a)
  obtain h r where "response_write (read_handle_ops (sv_view S)) (dr_id dr) (sv_fixdate S (e_now (dr_env dr))) (rp_head p)
      (read_handle_new (ld_storage (es_dedup (cn_state c))) a MEBI_64) = Some (h, r)"
    using assms Object_data by (auto simp: write_reply_def Let_def)
  then show ?thesis using assms Object_data by (cases r) (auto simp: write_reply_def Let_def)
next
  case (Text t)
  then show ?thesis using assms write_text_reply [of p S dr c] by auto
next
  case (Xml nd)
  then show ?thesis using assms write_text_reply [of p S dr c] by auto
qed



text \<open>
  The body of a request that is refused is not read: it stays in the stream, and the next round takes
  it for a request.
\<close>

lemma refused_body_stays:
  assumes "permission S peer dr cmd req (es_dir (cn_state c)) = Inl err" and "cn_stream c = body_stream (req_body req)"
  shows "\<exists>c'. run_command S recv peer dr hs cmd req c = Some (c', Inl err) \<and> cn_stream c' = body_stream (req_body req)"
  using assms by (simp add: run_command_denied)

end
