(* ===== verification/Spec2Isabelle.thy ===== *)
theory Spec2Isabelle
  imports Vrm_Recovery Vrm_Allocator Vrm_ECWrite Vrm_Hints Vrm_Collector Vrm_Handler
begin

text \<open>
  A model of the Vroom storage cluster and its properties. The cluster is an S3-compatible object
  store: an \<^emph>\<open>entrypoint\<close> serves HTTP requests, a \<^emph>\<open>deduplicator\<close> cuts the data of an upload
  into fragments and stores each fragment once, \<^emph>\<open>storages\<close> keep the data in files and count the
  references to it, and a database holds the \<^emph>\<open>directory\<close> of buckets and objects, the users and the
  uploads in progress. File names below are relative to \<open>src/src\<close>, those of SQL scripts to \<open>src\<close>.

  \<^bold>\<open>How the program is modelled.\<close> Structures are records, enumerations are datatypes. A
  \<open>std::size_t\<close> is a natural number, and arithmetic that can wrap is written with \<^const>\<open>add64\<close>,
  \<^const>\<open>sub64\<close> and \<^const>\<open>mul64\<close>; pointers have 128 bits. An operation that can throw returns a value of
  type \<^typ>\<open>'a res\<close>; one that changes a state \<^typ>\<open>'s\<close> is a function of type \<^typ>\<open>('s, 'a) proc\<close>, whose result
  \<^const>\<open>None\<close> stands for undefined behaviour and for a loop that does not end. Loops whose end depends on
  the environment (reading files, sockets and bodies) are \<^theory_text>\<open>partial_function (option)\<close>, and the results about
  them state that they return; the other loops are recursive functions that terminate. There is no fuel, except that
  the garbage collector and a connection run for a given number of rounds. Libraries (the Reed-Solomon
  code, the key-value store of the reference counts, hashes, parsers of HTTP, URLs, XML and JSON,
  comparison in the database, formats of dates) are arguments, and what a result needs of them is a hypothesis that
  its witness satisfies with a concrete function. A coroutine is modelled as run to its end; where
  threads or clients interleave, there is a step relation (\<^const>\<open>alloc_step\<close>, \<^const>\<open>dir_step\<close>, \<^const>\<open>user_step\<close>,
  \<^const>\<open>cors_run\<close>).

  \<^bold>\<open>Foundations.\<close> \<^verbatim>\<open>Vrm_Prelude\<close> has the exceptions, the composition of operations and lemmas on
  bytes; \<^verbatim>\<open>Vrm_Maps\<close> has ordered maps and sets; \<^verbatim>\<open>Vrm_Strings\<close>, \<^verbatim>\<open>Vrm_Wildcard\<close> and \<^verbatim>\<open>Vrm_Xml\<close> have
  strings, patterns and trees (\<open>common/utils\<close>, \<open>entrypoint/policy/variables.cpp\<close>); \<^verbatim>\<open>Vrm_Caches\<close> has the caches of
  \<open>common/caches\<close>. The matcher of patterns accepts the language of the pattern.

  \<^bold>\<open>Storages.\<close> \<^verbatim>\<open>Vrm_Address\<close> and \<^verbatim>\<open>Vrm_Pointer\<close> (\<open>common/types\<close>, \<open>common/utils/pointer_traits.h\<close>): addresses are lists
  of fragments, and a range of an address addresses the range of its bytes. \<^verbatim>\<open>Vrm_DataFile\<close>, \<^verbatim>\<open>Vrm_RefCount\<close>,
  \<^verbatim>\<open>Vrm_DataStore\<close>, \<^verbatim>\<open>Vrm_Allocator\<close>, \<^verbatim>\<open>Vrm_Recovery\<close> (\<open>storage/data_file.cpp\<close>, \<open>reference_counter.cpp\<close>,
  \<open>default_data_store.cpp\<close>): what is written is read back, pages with references survive
  \<open>unlink\<close>, concurrent allocations are disjoint, and a store that is opened again has its content.
  \<^verbatim>\<open>Vrm_Storage\<close> is the interface of a storage; its contract is the locale \<^verbatim>\<open>tracked_storage\<close>, which the
  local storage implements.

  \<^bold>\<open>Groups.\<close> \<^verbatim>\<open>Vrm_Group\<close>, \<^verbatim>\<open>Vrm_RRView\<close>, \<^verbatim>\<open>Vrm_ECView\<close>, \<^verbatim>\<open>Vrm_ECRead\<close>, \<^verbatim>\<open>Vrm_ECWrite\<close>, \<^verbatim>\<open>Vrm_View\<close> (\<open>storage/group\<close>,
  \<open>storage/global\<close>): storages form round-robin or erasure-coded groups. Both kinds return what was written, the second
  one also when storages are missing, as long as the code can recover. The locale \<^verbatim>\<open>data_view\<close> is the
  contract that the deduplicator and the entrypoint rely on.

  \<^bold>\<open>Deduplication.\<close> \<^verbatim>\<open>Vrm_FragmentSet\<close>, \<^verbatim>\<open>Vrm_Dedup\<close>, \<^verbatim>\<open>Vrm_Hints\<close> (\<open>deduplicator\<close>, \<open>storage/global/cache.cpp\<close>): the address
  that a deduplicated upload returns holds the uploaded bytes, earlier addresses keep theirs, and the counts that
  keep fragments in the set while they are used return to what they were.

  \<^bold>\<open>Directory.\<close> \<^verbatim>\<open>Vrm_Directory\<close>, \<^verbatim>\<open>Vrm_DirectoryApi\<close>, \<^verbatim>\<open>Vrm_DirectorySpec\<close>, \<^verbatim>\<open>Vrm_DirectoryRefine\<close> (\<open>data/sql/vrm_directory\<close>,
  \<open>entrypoint/directory.cpp\<close>): the tables stay well formed, a bucket without versions refines a map from keys to objects, and a
  row that is being read is not removed. \<^verbatim>\<open>Vrm_Collector\<close> (\<open>entrypoint/garbage_collector.cpp\<close>): the collector
  removes all deleted objects and then sleeps.

  \<^bold>\<open>Requests.\<close> \<^verbatim>\<open>Vrm_Body\<close>, \<^verbatim>\<open>Vrm_Stream\<close>, \<^verbatim>\<open>Vrm_Chunked\<close>, \<^verbatim>\<open>Vrm_Range\<close>, \<^verbatim>\<open>Vrm_Request\<close>, \<^verbatim>\<open>Vrm_Reply\<close> (\<open>entrypoint/http\<close>): bodies
  of messages, with the locale \<^verbatim>\<open>body\<close> as their contract, byte ranges, requests and answers. \<^verbatim>\<open>Vrm_Policy\<close>, \<^verbatim>\<open>Vrm_Users\<close>,
  \<^verbatim>\<open>Vrm_Auth\<close> (\<open>entrypoint/policy\<close>, \<open>entrypoint/user\<close>, \<open>entrypoint/http/aws4_hmac_sha256.cpp\<close>): the decision of the policies is
  that of the evaluation logic, keys expire, and nobody acts as a user without one of the user's secrets.
  \<^verbatim>\<open>Vrm_Cors\<close> (\<open>entrypoint/cors\<close>): a decision rests on a recent configuration.

  \<^bold>\<open>Commands.\<close> \<^verbatim>\<open>Vrm_Object\<close>, \<^verbatim>\<open>Vrm_Listing\<close>, \<^verbatim>\<open>Vrm_Multipart\<close>, \<^verbatim>\<open>Vrm_Commands\<close> (\<open>entrypoint/commands\<close>,
  \<open>entrypoint/command_factory.cpp\<close>, \<open>data/sql/vrm_multipart\<close>): an object that was uploaded, at once or in parts, is downloaded with the same
  bytes, also in ranges; the pages of a listing together list every object once; the order in which the factory asks
  the commands does not matter but for two exceptions.

  \<^bold>\<open>Connections.\<close> \<^verbatim>\<open>Vrm_Handler\<close> (\<open>entrypoint/handler.cpp\<close>) puts the parts of the entrypoint together in
  \<^const>\<open>handle_request\<close> and \<^const>\<open>handle\<close>: only requests that are permitted change anything, and every
  request is answered.

  \<^bold>\<open>Not modelled.\<close> The network between the services (\<open>common/network\<close>, the remote storage and deduplicator): the
  services call each other directly in the model, so that lost messages and partial failures of
  a remote call are not considered. The etcd client and what depends on its events (\<open>common/etcd\<close>, \<open>storage/group/ec_maintainer.h\<close>,
  \<open>repairer.h\<close>, \<open>storage_state_manager.h\<close>): groups have a given configuration and given states. The proxy
  (\<open>proxy\<close>), which is a program of its own; telemetry, coroutines, connections to the database, configuration,
  service start and the tools. Crashes in the middle of an operation are not modelled. A member of the directory or of the user database is one
  transaction; a command that calls several of them is not interleaved with other commands, except where a step
  relation says so.
\<close>

end
